(* ===== verification/Prelude.thy ===== *)
theory Prelude
  imports Main "HOL-Library.Multiset" "HOL-Library.AList"
begin

section \<open>Prelude: what every component of the model shares\<close>

text \<open>
  Type synonyms for Go's clock and strings, the string functions of the standard library the
  source calls (on the ASCII range: white space and case of characters beyond ASCII are not
  distinguished), the loop shape ``find the first element, change it, break'', and the generic
  lemmas on lists the components use.
\<close>

named_theorems go_defs \<open>definitions of small wrappers that proofs unfold\<close>
named_theorems frame \<open>what an operation leaves unchanged\<close>

subsection \<open>Time\<close>

text \<open>
  An instant is the number of nanoseconds since Go's zero time, so \<open>time.Time{}\<close> is \<open>0\<close> and
  \<open>IsZero\<close> is a comparison. \<open>Sub\<close> saturates at the bounds of \<open>time.Duration\<close>, which is an
  \<open>int64\<close>. An operation reads the clock through the argument \<open>now\<close>: the readings that one
  critical section makes are identified.
\<close>

type_synonym gotime = int
type_synonym duration = int

definition zero_time :: gotime where
  "zero_time = 0"

definition is_zero :: "gotime \<Rightarrow> bool" where
  [go_defs]: "is_zero t \<longleftrightarrow> t = zero_time"

definition min_duration :: duration where
  "min_duration = - (2 ^ 63)"

definition max_duration :: duration where
  "max_duration = 2 ^ 63 - 1"

definition time_sub :: "gotime \<Rightarrow> gotime \<Rightarrow> duration" where
  "time_sub t u = max min_duration (min max_duration (t - u))"

lemma time_sub_in_range:
  "min_duration \<le> t - u \<Longrightarrow> t - u \<le> max_duration \<Longrightarrow> time_sub t u = t - u"
  by (simp add: time_sub_def)

lemma time_sub_self [simp]: "time_sub t t = 0"
  by (simp add: time_sub_def min_duration_def max_duration_def)

subsection \<open>Strings\<close>

definition is_space :: "char \<Rightarrow> bool" where
  "is_space c \<longleftrightarrow> c \<in> {CHR 0x09, CHR 0x0A, CHR 0x0B, CHR 0x0C, CHR 0x0D, CHR 0x20}"

definition trim_space :: "string \<Rightarrow> string" where
  "trim_space s = rev (dropWhile is_space (rev (dropWhile is_space s)))"

definition lower_char :: "char \<Rightarrow> char" where
  "lower_char c =
     (if 65 \<le> (of_char c :: nat) \<and> (of_char c :: nat) \<le> 90 then char_of ((of_char c :: nat) + 32) else c)"

definition to_lower :: "string \<Rightarrow> string" where
  "to_lower s = map lower_char s"

fun has_prefix :: "'a list \<Rightarrow> 'a list \<Rightarrow> bool" where
  "has_prefix xs [] = True"
| "has_prefix [] (y # ys) = False"
| "has_prefix (x # xs) (y # ys) = (x = y \<and> has_prefix xs ys)"

fun str_contains :: "string \<Rightarrow> string \<Rightarrow> bool" where
  "str_contains [] pat = (pat = [])"
| "str_contains (c # s) pat = (has_prefix (c # s) pat \<or> str_contains s pat)"

fun str_join :: "string list \<Rightarrow> string \<Rightarrow> string" where
  "str_join [] sep = []"
| "str_join [x] sep = x"
| "str_join (x # y # ys) sep = x @ sep @ str_join (y # ys) sep"

text \<open>\<open>strings.Fields\<close>: the maximal runs of characters that are not white space.\<close>

fun fields_acc :: "string \<Rightarrow> string \<Rightarrow> string list" where
  "fields_acc [] w = (if w = [] then [] else [rev w])"
| "fields_acc (c # s) w =
     (if is_space c then (if w = [] then fields_acc s [] else rev w # fields_acc s [])
      else fields_acc s (c # w))"

definition str_fields :: "string \<Rightarrow> string list" where
  "str_fields s = fields_acc s []"

lemma dropWhile_rev_dropWhile_hd:
  "dropWhile P (rev (dropWhile P (rev (dropWhile P s)))) = rev (dropWhile P (rev (dropWhile P s)))"
proof (cases "dropWhile P s")
  case Nil
  show ?thesis by (simp only: Nil list.simps rev.simps dropWhile.simps)
next
  case (Cons c cs)
  then have c: "\<not> P c" by (metis dropWhile_eq_Cons_conv)
  then have "dropWhile P (rev cs @ [c]) = dropWhile P (rev cs) @ [c] \<or> dropWhile P (rev cs @ [c]) = [c]"
    by (induction "rev cs" arbitrary: cs) (auto simp: dropWhile_append)
  with c Cons show ?thesis by auto
qed

lemma trim_space_idem [simp]: "trim_space (trim_space s) = trim_space s"
  by (simp add: trim_space_def dropWhile_rev_dropWhile_hd)

lemma trim_space_Nil [simp]: "trim_space [] = []"
  by (simp add: trim_space_def)

lemma has_prefix_iff: "has_prefix xs ys \<longleftrightarrow> (\<exists>zs. xs = ys @ zs)"
  by (induction xs ys rule: has_prefix.induct) auto

lemma str_contains_iff: "str_contains s pat \<longleftrightarrow> (\<exists>u v. s = u @ pat @ v)"
proof (induction s)
  case Nil
  then show ?case by simp
next
  case (Cons c s)
  have "(\<exists>u v. c # s = u @ pat @ v) \<longleftrightarrow> (\<exists>v. c # s = pat @ v) \<or> (\<exists>u v. s = u @ pat @ v)"
    by (metis append_Cons append_Nil list.exhaust list.inject)
  with Cons show ?case by (simp add: has_prefix_iff)
qed

subsection \<open>Paths\<close>

text \<open>
  \<open>filepath.Clean\<close> on a slash-separated path: empty and \<open>.\<close> elements go, \<open>..\<close> removes the element
  before it, and the root is its own parent. \<open>path_dir\<close> is \<open>filepath.Dir\<close>.
\<close>

fun split_on :: "'a \<Rightarrow> 'a list \<Rightarrow> 'a list list" where
  "split_on c [] = [[]]"
| "split_on c (x # xs) =
     (if x = c then [] # split_on c xs
      else case split_on c xs of [] \<Rightarrow> [[x]] | w # ws \<Rightarrow> (x # w) # ws)"

fun clean_elems :: "bool \<Rightarrow> string list \<Rightarrow> string list \<Rightarrow> string list" where
  "clean_elems rooted stack [] = rev stack"
| "clean_elems rooted stack (e # es) =
     (if e = [] \<or> e = ''.'' then clean_elems rooted stack es
      else if e = ''..'' then
        (case stack of
           [] \<Rightarrow> if rooted then clean_elems rooted [] es else clean_elems rooted [''..''] es
         | t # ts \<Rightarrow> if t = ''..'' then clean_elems rooted (''..'' # stack) es else clean_elems rooted ts es)
      else clean_elems rooted (e # stack) es)"

definition path_clean :: "string \<Rightarrow> string" where
  "path_clean p =
     (let rooted = has_prefix p ''/'';
          r = (if rooted then ''/'' else []) @ str_join (clean_elems rooted [] (split_on (CHR ''/'') p)) ''/''
      in if r = [] then ''.'' else r)"

definition path_dir :: "string \<Rightarrow> string" where
  "path_dir p = path_clean (rev (dropWhile (\<lambda>c. c \<noteq> CHR ''/'') (rev p)))"

subsection \<open>Numbers and durations as text\<close>

definition digit_char :: "int \<Rightarrow> char" where
  "digit_char d = char_of (48 + d)"

fun itoa_abs :: "int \<Rightarrow> string" where
  "itoa_abs n = (if n < 10 then [digit_char n] else itoa_abs (n div 10) @ [digit_char (n mod 10)])"

declare itoa_abs.simps [simp del]

definition itoa :: "int \<Rightarrow> string" where
  "itoa i = (if i < 0 then CHR ''-'' # itoa_abs (- i) else itoa_abs i)"

text \<open>
  \<open>Duration.String\<close>: \<open>frac_string prec v\<close> is \<open>v\<close> divided by a power of ten with the zeros at the end
  of the fraction omitted, \<open>dur_string\<close> the units \<open>ns\<close>, \<open>us\<close> (written with the micro sign), \<open>ms\<close>
  below a second and hours, minutes, seconds from there on.
\<close>

fun frac_digits :: "nat \<Rightarrow> int \<Rightarrow> string" where
  "frac_digits 0 v = []"
| "frac_digits (Suc k) v = frac_digits k (v div 10) @ [digit_char (v mod 10)]"

definition frac_string :: "nat \<Rightarrow> int \<Rightarrow> string" where
  "frac_string prec v =
     (let f = rev (dropWhile (\<lambda>c. c = CHR ''0'') (rev (frac_digits prec (v mod 10 ^ prec))))
      in itoa_abs (v div 10 ^ prec) @ (if f = [] then [] else CHR ''.'' # f))"

definition dur_string_abs :: "int \<Rightarrow> string" where
  "dur_string_abs u =
     (if u = 0 then ''0s''
      else if u < 1000 then itoa_abs u @ ''ns''
      else if u < 1000000 then frac_string 3 u @ [CHR 0xC2, CHR 0xB5, CHR ''s'']
      else if u < 1000000000 then frac_string 6 u @ ''ms''
      else let secs = u div 1000000000; frac = u mod 1000000000;
               s = frac_string 9 ((secs mod 60) * 1000000000 + frac) @ ''s'';
               mins = secs div 60; hrs = mins div 60
           in if mins = 0 then s
              else if hrs = 0 then itoa_abs (mins mod 60) @ ''m'' @ s
              else itoa_abs hrs @ ''h'' @ itoa_abs (mins mod 60) @ ''m'' @ s)"

definition dur_string :: "duration \<Rightarrow> string" where
  "dur_string d = (if d < 0 then CHR ''-'' # dur_string_abs (- d) else dur_string_abs d)"

lemma itoa_abs_nonempty [simp]: "itoa_abs n \<noteq> []"
  by (subst itoa_abs.simps) simp

lemma dur_string_examples:
  "dur_string 90000000000 = ''1m30s''" "dur_string 1500000 = ''1.5ms''"
  "dur_string 3600000000000 = ''1h0m0s''" "dur_string 1000000001 = ''1.000000001s''"
  by code_simp+

subsection \<open>Arguments of tool calls\<close>

text \<open>
  The arguments of a tool call are a \<open>map[string]any\<close>, kept as an association list. A value that
  is not a string is opaque. \<open>string_arg\<close> is \<open>args[k].(string)\<close> with the comma-ok form.
\<close>

datatype argval = ArgString string | ArgOther string

type_synonym tool_args = "(string \<times> argval) list"

definition string_arg :: "tool_args \<Rightarrow> string \<Rightarrow> string option" where
  "string_arg args k = (case map_of args k of Some (ArgString v) \<Rightarrow> Some v | _ \<Rightarrow> None)"

subsection \<open>Find the first, change it, break\<close>

text \<open>
  The source's loop \<open>for _, x := range xs { if P(x) { change x; break } }\<close> over a slice of
  pointers.
\<close>

fun upd_first :: "('a \<Rightarrow> bool) \<Rightarrow> ('a \<Rightarrow> 'a) \<Rightarrow> 'a list \<Rightarrow> 'a list" where
  "upd_first P f [] = []"
| "upd_first P f (x # xs) = (if P x then f x # xs else x # upd_first P f xs)"

lemma length_upd_first [simp]: "length (upd_first P f xs) = length xs"
  by (induction xs) auto

lemma map_upd_first:
  "(\<And>x. P x \<Longrightarrow> g (f x) = g x) \<Longrightarrow> map g (upd_first P f xs) = map g xs"
  by (induction xs) auto

lemma map_upd_first_found:
  "(\<And>x. find P xs = Some x \<Longrightarrow> g (f x) = g x) \<Longrightarrow> map g (upd_first P f xs) = map g xs"
  by (induction xs) auto

lemma upd_first_found_all:
  "(\<And>x. find P xs = Some x \<Longrightarrow> Q x \<Longrightarrow> Q (f x)) \<Longrightarrow> \<forall>x\<in>set xs. Q x \<Longrightarrow>
   \<forall>x\<in>set (upd_first P f xs). Q x"
  by (induction xs) auto

lemma upd_first_absent [simp]: "find P xs = None \<Longrightarrow> upd_first P f xs = xs"
  by (induction xs) (auto split: if_splits)

lemma find_upd_first:
  "(\<And>x. P x \<Longrightarrow> P (f x)) \<Longrightarrow> find P (upd_first P f xs) = map_option f (find P xs)"
  by (induction xs) auto

lemma find_upd_first_found:
  "find P xs = Some x \<Longrightarrow> P (f x) \<Longrightarrow> find P (upd_first P f xs) = Some (f x)"
  by (induction xs) (auto split: if_splits)

lemma find_upd_first_other:
  "(\<And>x. P x \<Longrightarrow> \<not> Q x) \<Longrightarrow> (\<And>x. P x \<Longrightarrow> \<not> Q (f x)) \<Longrightarrow> find Q (upd_first P f xs) = find Q xs"
  by (induction xs) auto

lemma set_upd_first_subset:
  "set (upd_first P f xs) \<subseteq> set xs \<union> {f x | x. x \<in> set xs \<and> P x}"
  by (induction xs) auto

lemma upd_first_all:
  "(\<And>x. x \<in> set xs \<Longrightarrow> Q x) \<Longrightarrow> (\<And>x. x \<in> set xs \<Longrightarrow> P x \<Longrightarrow> Q x \<Longrightarrow> Q (f x)) \<Longrightarrow>
   x \<in> set (upd_first P f xs) \<Longrightarrow> Q x"
  using set_upd_first_subset [of P f xs] by blast

lemma upd_first_nth:
  "i < length xs \<Longrightarrow> upd_first P f xs ! i = (if P (xs ! i) \<and> (\<forall>j<i. \<not> P (xs ! j)) then f (xs ! i) else xs ! i)"
proof (induction xs arbitrary: i)
  case Nil
  then show ?case by simp
next
  case (Cons x xs)
  show ?case
  proof (cases i)
    case 0
    then show ?thesis by simp
  next
    case (Suc j)
    with Cons.prems have j: "j < length xs" by simp
    have "(\<forall>k<Suc j. \<not> P ((x # xs) ! k)) \<longleftrightarrow> \<not> P x \<and> (\<forall>k<j. \<not> P (xs ! k))"
      by (auto simp: nth_Cons split: nat.splits)
    with Suc Cons.IH [OF j] show ?thesis by auto
  qed
qed

lemma find_mem: "find P xs = Some x \<Longrightarrow> x \<in> set xs \<and> P x"
  by (induction xs) (auto split: if_splits)

lemma find_None_iff_all: "find P xs = None \<longleftrightarrow> (\<forall>x\<in>set xs. \<not> P x)"
  by (induction xs) auto

lemma find_isSome: "x \<in> set xs \<Longrightarrow> P x \<Longrightarrow> \<exists>y. find P xs = Some y"
  by (metis find_None_iff_all option.exhaust)

lemma list_ex_find: "list_ex P xs \<longleftrightarrow> find P xs \<noteq> None"
  by (induction xs) auto

lemma find_distinct_key:
  "distinct (map k xs) \<Longrightarrow> x \<in> set xs \<Longrightarrow> find (\<lambda>y. k y = k x) xs = Some x"
  by (induction xs) auto

subsection \<open>Suffixes kept by a bound\<close>

text \<open>\<open>xs[len(xs)-n:]\<close>: the last \<open>n\<close> elements.\<close>

definition last_n :: "nat \<Rightarrow> 'a list \<Rightarrow> 'a list" where
  "last_n n xs = drop (length xs - n) xs"

lemma length_last_n [simp]: "length (last_n n xs) = min n (length xs)"
  by (auto simp: last_n_def)

lemma set_last_n: "set (last_n n xs) \<subseteq> set xs"
  by (simp add: last_n_def set_drop_subset)

lemma distinct_last_n: "distinct xs \<Longrightarrow> distinct (last_n n xs)"
  by (simp add: last_n_def)

lemma last_n_all: "length xs \<le> n \<Longrightarrow> last_n n xs = xs"
  by (simp add: last_n_def)

lemma last_in_last_n: "0 < n \<Longrightarrow> x \<in> set (last_n n (xs @ [x]))"
  by (simp add: last_n_def)

end
