(* ===== verification/PlanState.thy ===== *)
theory PlanState
  imports Prelude
begin

section \<open>Plans: the data model\<close>

text \<open>
  The types of \<^verbatim>\<open>internal/engine/plan/plan.go\<close> (\<open>Status\<close>, \<open>Step\<close>, \<open>StepAgentMetrics\<close>,
  \<open>RunLedgerEntry\<close>, \<open>Plan\<close>) and \<^verbatim>\<open>lifecycle.go\<close> (\<open>Lifecycle\<close>), the bounded duplicate-free
  lists of its ledger and contracts (\<open>appendUniqueLimited\<close>) and the step contract
  (\<open>EnsureContractDefaults\<close>). A Go map with \<open>int\<close> keys is an association list, so that its
  emptiness is decidable; a slice of step pointers is a list of step values, which no plan
  operation shares with another plan. A sub-step keeps the fields that rendering reads. Lemmas: the
  bounds of the lists and the idempotence of the contract normalisation.
\<close>

subsection \<open>Status and lifecycle\<close>

datatype status =
    StatusPending
  | StatusInProgress
  | StatusCompleted
  | StatusFailed
  | StatusSkipped
  | StatusPaused

fun Status_String :: "status \<Rightarrow> string" where
  "Status_String StatusPending = ''pending''"
| "Status_String StatusInProgress = ''in_progress''"
| "Status_String StatusCompleted = ''completed''"
| "Status_String StatusFailed = ''failed''"
| "Status_String StatusSkipped = ''skipped''"
| "Status_String StatusPaused = ''paused''"

text \<open>The icons are single code points, written as their UTF-8 bytes.\<close>

fun Status_Icon :: "status \<Rightarrow> string" where
  "Status_Icon StatusPending = [CHR 0xE2, CHR 0x97, CHR 0x8B]"
| "Status_Icon StatusInProgress = [CHR 0xE2, CHR 0x97, CHR 0x90]"
| "Status_Icon StatusCompleted = [CHR 0xE2, CHR 0x97, CHR 0x8F]"
| "Status_Icon StatusFailed = [CHR 0xE2, CHR 0x9C, CHR 0x97]"
| "Status_Icon StatusSkipped = [CHR 0xE2, CHR 0x8A, CHR 0x98]"
| "Status_Icon StatusPaused = [CHR 0xE2, CHR 0x8F, CHR 0xB8]"

text \<open>
  \<open>Lifecycle\<close> is a Go string: the eight constants, the empty string of plans saved by older
  versions, and any other string a file may hold.
\<close>

datatype lifecycle =
    LifecycleDraft
  | LifecycleAwaitingApproval
  | LifecycleApproved
  | LifecycleExecuting
  | LifecyclePaused
  | LifecycleCompleted
  | LifecycleFailed
  | LifecycleCancelled
  | LifecycleUnset
  | LifecycleOther string

subsection \<open>Steps\<close>

record step_metrics =
  total_nodes :: int
  max_depth :: int
  expanded_nodes :: int
  replan_count :: int
  succeeded_nodes :: int
  failed_nodes :: int
  metrics_duration :: duration

datatype substep =
  SubStep (sub_id: int) (sub_title: string) (sub_status: status) (sub_parallel: bool)
    (sub_children: "substep list")

record step =
  step_id :: int
  step_title :: string
  step_description :: string
  step_status :: status
  step_output :: string
  step_error :: string
  step_start :: gotime
  step_end :: gotime
  step_parallel :: bool
  step_depends_on :: "int list"
  step_children :: "substep list"
  step_max_retries :: int
  step_timeout :: duration
  step_retry_count :: int
  step_tokens_used :: int
  step_condition :: string
  step_agent_metrics :: "step_metrics option"
  step_checkpoint_passed :: bool
  step_inputs :: "string list"
  step_expected_artifact :: string
  step_artifact_paths :: "string list"
  step_success_criteria :: "string list"
  step_verify_commands :: "string list"
  step_rollback :: string
  step_evidence :: "string list"
  step_verification_note :: string

text \<open>Go's zero value of \<open>Step\<close>, which a composite literal starts from.\<close>

definition zero_step :: step where
  "zero_step = \<lparr>step_id = 0, step_title = [], step_description = [], step_status = StatusPending,
     step_output = [], step_error = [], step_start = zero_time, step_end = zero_time,
     step_parallel = False, step_depends_on = [], step_children = [], step_max_retries = 0,
     step_timeout = 0, step_retry_count = 0, step_tokens_used = 0, step_condition = [],
     step_agent_metrics = None, step_checkpoint_passed = False, step_inputs = [],
     step_expected_artifact = [], step_artifact_paths = [], step_success_criteria = [],
     step_verify_commands = [], step_rollback = [], step_evidence = [],
     step_verification_note = []\<rparr>"

record ledger_entry =
  le_step_id :: int
  le_started_at :: gotime
  le_last_heartbeat :: gotime
  le_completed_at :: gotime
  le_tool_calls :: int
  le_tools :: "string list"
  le_files_touched :: "string list"
  le_commands :: "string list"
  le_effect_signatures :: "string list"
  le_duplicate_effects :: int
  le_partial_effects :: bool
  le_completed :: bool

definition new_ledger_entry :: "int \<Rightarrow> ledger_entry" where
  "new_ledger_entry i = \<lparr>le_step_id = i, le_started_at = zero_time, le_last_heartbeat = zero_time,
     le_completed_at = zero_time, le_tool_calls = 0, le_tools = [], le_files_touched = [],
     le_commands = [], le_effect_signatures = [], le_duplicate_effects = 0,
     le_partial_effects = False, le_completed = False\<rparr>"

type_synonym run_ledger = "(int \<times> ledger_entry) list"

record plan =
  plan_id :: string
  plan_title :: string
  plan_description :: string
  plan_steps :: "step list"
  plan_status :: status
  plan_lifecycle :: lifecycle
  plan_created :: gotime
  plan_updated :: gotime
  plan_request :: string
  plan_version :: int
  plan_work_dir :: string
  plan_context_snapshot :: string
  plan_ledger :: run_ledger

subsection \<open>Bounded lists without duplicates\<close>

definition appendUniqueLimited :: "string list \<Rightarrow> string \<Rightarrow> nat \<Rightarrow> string list" where
  "appendUniqueLimited items v limit =
     (if v \<in> set items then items
      else let items' = items @ [v]
           in if 0 < limit \<and> limit < length items' then last_n limit items' else items')"

lemma appendUniqueLimited_length:
  "0 < limit \<Longrightarrow> length items \<le> limit \<Longrightarrow> length (appendUniqueLimited items v limit) \<le> limit"
  by (auto simp: appendUniqueLimited_def Let_def)

lemma appendUniqueLimited_distinct:
  "distinct items \<Longrightarrow> distinct (appendUniqueLimited items v limit)"
  by (auto simp: appendUniqueLimited_def Let_def intro: distinct_last_n)

lemma appendUniqueLimited_member: "v \<in> set (appendUniqueLimited items v limit)"
  by (auto simp: appendUniqueLimited_def Let_def last_in_last_n)

lemma appendUniqueLimited_subset:
  "set (appendUniqueLimited items v limit) \<subseteq> insert v (set items)"
  using set_last_n [of limit "items @ [v]"] by (auto simp: appendUniqueLimited_def Let_def)

lemma appendUniqueLimited_room:
  "v \<notin> set items \<Longrightarrow> length items < limit \<Longrightarrow> appendUniqueLimited items v limit = items @ [v]"
  by (simp add: appendUniqueLimited_def)

text \<open>
  The loop that normalises a list of strings: trim, drop the empty ones, append without
  duplicates up to a limit.
\<close>

fun collect_trimmed :: "nat \<Rightarrow> string list \<Rightarrow> string list \<Rightarrow> string list" where
  "collect_trimmed limit acc [] = acc"
| "collect_trimmed limit acc (item # items) =
     (let t = trim_space item
      in if t = [] then collect_trimmed limit acc items
         else collect_trimmed limit (appendUniqueLimited acc t limit) items)"

definition clean_list :: "nat \<Rightarrow> string list \<Rightarrow> bool" where
  "clean_list limit xs \<longleftrightarrow>
     distinct xs \<and> length xs \<le> limit \<and> (\<forall>x\<in>set xs. x \<noteq> [] \<and> trim_space x = x)"

lemma clean_list_Nil [simp]: "clean_list limit []"
  by (simp add: clean_list_def)

lemma clean_list_append:
  assumes "clean_list limit acc" and "0 < limit" and "t \<noteq> []" and "trim_space t = t"
  shows "clean_list limit (appendUniqueLimited acc t limit)"
proof -
  from assms(1) have d: "distinct acc" and l: "length acc \<le> limit"
    and m: "\<And>x. x \<in> set acc \<Longrightarrow> x \<noteq> [] \<and> trim_space x = x"
    by (auto simp: clean_list_def)
  have "\<forall>x\<in>set (appendUniqueLimited acc t limit). x \<noteq> [] \<and> trim_space x = x"
    using appendUniqueLimited_subset [of acc t limit] m assms(3,4) by blast
  with d l assms(2) show ?thesis
    by (simp add: clean_list_def appendUniqueLimited_distinct appendUniqueLimited_length)
qed

lemma clean_list_collect:
  "0 < limit \<Longrightarrow> clean_list limit acc \<Longrightarrow> clean_list limit (collect_trimmed limit acc items)"
  by (induction limit acc items rule: collect_trimmed.induct)
     (auto simp: Let_def clean_list_append)

lemma collect_trimmed_clean_acc:
  "clean_list limit (acc @ items) \<Longrightarrow> collect_trimmed limit acc items = acc @ items"
proof (induction items arbitrary: acc)
  case Nil
  then show ?case by simp
next
  case (Cons x xs)
  from Cons.prems have x: "x \<noteq> []" "trim_space x = x" "x \<notin> set acc" "length acc < limit"
    by (auto simp: clean_list_def)
  have "clean_list limit ((acc @ [x]) @ xs)" using Cons.prems by simp
  from Cons.IH [OF this] x show ?case by (simp add: appendUniqueLimited_room)
qed

lemma collect_trimmed_clean: "clean_list limit items \<Longrightarrow> collect_trimmed limit [] items = items"
  using collect_trimmed_clean_acc [of limit "[]" items] by simp

lemma collect_trimmed_idem:
  "0 < limit \<Longrightarrow>
   collect_trimmed limit [] (collect_trimmed limit [] items) = collect_trimmed limit [] items"
  by (rule collect_trimmed_clean) (rule clean_list_collect, simp_all)

lemma collect_trimmed_keeps:
  "x \<in> set acc \<Longrightarrow> length acc + length items \<le> limit \<Longrightarrow> x \<in> set (collect_trimmed limit acc items)"
proof (induction limit acc items rule: collect_trimmed.induct)
  case (1 limit acc)
  then show ?case by simp
next
  case (2 limit acc item items)
  let ?t = "trim_space item" and ?acc = "appendUniqueLimited acc (trim_space item) limit"
  have acc: "x \<in> set ?acc" "length ?acc \<le> Suc (length acc)"
    using "2.prems" by (auto simp: appendUniqueLimited_def Let_def)
  show ?case
  proof (cases "?t = []")
    case True
    with "2.IH"(1) [OF refl] "2.prems" show ?thesis by simp
  next
    case False
    with "2.IH"(2) [OF refl _ acc(1)] acc(2) "2.prems" show ?thesis by (simp add: Let_def)
  qed
qed

subsection \<open>The step contract\<close>

definition default_input :: string where
  "default_input = ''Repository state at step start''"

definition default_artifact :: string where
  "default_artifact = ''Concrete, verifiable change related to this step''"

definition default_criterion :: string where
  "default_criterion = ''Step objective is implemented and validated''"

definition default_verify_command :: string where
  "default_verify_command =
     ''if git rev-parse --is-inside-work-tree >/dev/null 2>&1; then git diff --check; else true; fi''"

definition default_rollback :: string where
  "default_rollback = ''Revert modified files and restore previous working state''"

definition EnsureContractDefaults :: "step \<Rightarrow> step" where
  "EnsureContractDefaults s =
     (let s1 = s\<lparr>step_title := trim_space (step_title s),
                 step_description := trim_space (step_description s),
                 step_inputs := map trim_space (step_inputs s),
                 step_success_criteria := map trim_space (step_success_criteria s),
                 step_artifact_paths := collect_trimmed 30 [] (step_artifact_paths s),
                 step_verify_commands := collect_trimmed 20 [] (step_verify_commands s),
                 step_rollback := trim_space (step_rollback s),
                 step_expected_artifact := trim_space (step_expected_artifact s)\<rparr>;
          s2 = (if step_inputs s1 = [] then s1\<lparr>step_inputs := [default_input]\<rparr> else s1);
          s3 = (if step_expected_artifact s2 = [] then s2\<lparr>step_expected_artifact := default_artifact\<rparr>
                else s2);
          s4 = (if step_success_criteria s3 = []
                then (if step_description s3 \<noteq> []
                      then s3\<lparr>step_success_criteria := [step_description s3]\<rparr>
                      else s3\<lparr>step_success_criteria := [default_criterion]\<rparr>)
                else s3);
          s5 = (if step_verify_commands s4 = []
                then s4\<lparr>step_verify_commands := [default_verify_command]\<rparr> else s4)
      in if step_rollback s5 = [] then s5\<lparr>step_rollback := default_rollback\<rparr> else s5)"

text \<open>What the contract promises of a step: no part is missing and the lists are clean.\<close>

definition contract_ok :: "step \<Rightarrow> bool" where
  "contract_ok s \<longleftrightarrow>
     step_inputs s \<noteq> [] \<and> step_expected_artifact s \<noteq> [] \<and> step_success_criteria s \<noteq> [] \<and>
     step_verify_commands s \<noteq> [] \<and> step_rollback s \<noteq> [] \<and>
     clean_list 30 (step_artifact_paths s) \<and> clean_list 20 (step_verify_commands s)"

text \<open>A step that the normalisation leaves alone: complete, and every text is trimmed.\<close>

definition contract_normal :: "step \<Rightarrow> bool" where
  "contract_normal s \<longleftrightarrow> contract_ok s \<and>
     trim_space (step_title s) = step_title s \<and>
     trim_space (step_description s) = step_description s \<and>
     map trim_space (step_inputs s) = step_inputs s \<and>
     map trim_space (step_success_criteria s) = step_success_criteria s \<and>
     trim_space (step_rollback s) = step_rollback s \<and>
     trim_space (step_expected_artifact s) = step_expected_artifact s"

lemma default_texts_trimmed [simp]:
  "trim_space default_input = default_input"
  "trim_space default_artifact = default_artifact"
  "trim_space default_criterion = default_criterion"
  "trim_space default_verify_command = default_verify_command"
  "trim_space default_rollback = default_rollback"
  by (simp_all add: trim_space_def is_space_def default_input_def default_artifact_def
      default_criterion_def default_verify_command_def default_rollback_def)

lemma default_texts_nonempty [simp]:
  "default_input \<noteq> []" "default_artifact \<noteq> []" "default_criterion \<noteq> []"
  "default_verify_command \<noteq> []" "default_rollback \<noteq> []"
  by (simp_all add: default_input_def default_artifact_def default_criterion_def
      default_verify_command_def default_rollback_def)

lemma EnsureContractDefaults_normal: "contract_normal (EnsureContractDefaults s)"
proof -
  have p: "clean_list 30 (collect_trimmed 30 [] (step_artifact_paths s))"
    and v: "clean_list 20 (collect_trimmed 20 [] (step_verify_commands s))"
    by (simp_all add: clean_list_collect)
  have d: "clean_list 20 [default_verify_command]" by (simp add: clean_list_def)
  have t: "map trim_space (map trim_space xs) = map trim_space xs" for xs by simp
  show ?thesis
    unfolding EnsureContractDefaults_def Let_def contract_normal_def contract_ok_def
    using p v d by (auto simp: t)
qed

lemma EnsureContractDefaults_id: "contract_normal s \<Longrightarrow> EnsureContractDefaults s = s"
  by (simp add: EnsureContractDefaults_def contract_normal_def contract_ok_def collect_trimmed_clean)

lemma EnsureContractDefaults_keeps [simp]:
  "step_id (EnsureContractDefaults s) = step_id s"
  "step_status (EnsureContractDefaults s) = step_status s"
  "step_depends_on (EnsureContractDefaults s) = step_depends_on s"
  "step_parallel (EnsureContractDefaults s) = step_parallel s"
  "step_evidence (EnsureContractDefaults s) = step_evidence s"
  "step_retry_count (EnsureContractDefaults s) = step_retry_count s"
  "step_max_retries (EnsureContractDefaults s) = step_max_retries s"
  "step_start (EnsureContractDefaults s) = step_start s"
  "step_timeout (EnsureContractDefaults s) = step_timeout s"
  "step_condition (EnsureContractDefaults s) = step_condition s"
  by (simp_all add: EnsureContractDefaults_def Let_def)

subsection \<open>Reading a step\<close>

definition Step_Duration :: "gotime \<Rightarrow> step \<Rightarrow> duration" where
  "Step_Duration now s =
     (if is_zero (step_start s) then 0
      else if is_zero (step_end s) then time_sub now (step_start s)
      else time_sub (step_end s) (step_start s))"

definition CanRetry :: "step \<Rightarrow> bool" where
  "CanRetry s \<longleftrightarrow>
     step_status s = StatusFailed \<and> 0 < step_max_retries s \<and> step_retry_count s < step_max_retries s"

definition HasTimedOut :: "gotime \<Rightarrow> step \<Rightarrow> bool" where
  "HasTimedOut now s =
     (if step_timeout s \<le> 0 \<or> is_zero (step_start s) \<or> step_status s \<noteq> StatusInProgress then False
      else step_timeout s < time_sub now (step_start s))"

end
