(* ===== verification/PlanOps.thy ===== *)
theory PlanOps
  imports PlanState
begin

section \<open>Plans: the operations on steps and on the run ledger\<close>

text \<open>
  The methods of \<open>Plan\<close> in \<^verbatim>\<open>internal/engine/plan/plan.go\<close> that build a plan, move its steps
  between statuses, record effects in the run ledger and count steps. Each method takes the clock
  reading it makes; \<open>plan_step\<close> is the relation of all of them, from which reachable plans are
  defined.
\<close>

subsection \<open>The run ledger\<close>

definition ensureLedgerEntry :: "int \<Rightarrow> run_ledger \<Rightarrow> ledger_entry" where
  "ensureLedgerEntry i l = (case map_of l i of None \<Rightarrow> new_ledger_entry i | Some e \<Rightarrow> e)"

definition upd_ledger :: "int \<Rightarrow> (ledger_entry \<Rightarrow> ledger_entry) \<Rightarrow> plan \<Rightarrow> plan" where
  "upd_ledger i f p = p\<lparr>plan_ledger := AList.update i (f (ensureLedgerEntry i (plan_ledger p))) (plan_ledger p)\<rparr>"

definition markStepStarted :: "gotime \<Rightarrow> int \<Rightarrow> plan \<Rightarrow> plan" where
  "markStepStarted now i =
     upd_ledger i (\<lambda>e. (if is_zero (le_started_at e) then e\<lparr>le_started_at := now\<rparr> else e)
                        \<lparr>le_last_heartbeat := now\<rparr>)"

definition markStepCompleted :: "gotime \<Rightarrow> int \<Rightarrow> plan \<Rightarrow> plan" where
  "markStepCompleted now i =
     upd_ledger i (\<lambda>e. e\<lparr>le_last_heartbeat := now, le_completed_at := now, le_completed := True,
                         le_partial_effects := False, le_duplicate_effects := 0\<rparr>)"

definition markStepFailed :: "gotime \<Rightarrow> int \<Rightarrow> plan \<Rightarrow> plan" where
  "markStepFailed now i = upd_ledger i (\<lambda>e. e\<lparr>le_last_heartbeat := now\<rparr>)"

lemma upd_ledger_frame [simp]:
  "plan_steps (upd_ledger i f p) = plan_steps p"
  "plan_status (upd_ledger i f p) = plan_status p"
  "plan_lifecycle (upd_ledger i f p) = plan_lifecycle p"
  "plan_id (upd_ledger i f p) = plan_id p"
  by (simp_all add: upd_ledger_def)

lemma map_of_upd_ledger:
  "map_of (plan_ledger (upd_ledger i f p)) =
     (map_of (plan_ledger p))(i \<mapsto> f (ensureLedgerEntry i (plan_ledger p)))"
  by (simp add: upd_ledger_def update_conv')

lemmas mark_defs = markStepStarted_def markStepCompleted_def markStepFailed_def

lemma mark_frame [simp]:
  "plan_steps (markStepStarted now i p) = plan_steps p"
  "plan_steps (markStepCompleted now i p) = plan_steps p"
  "plan_steps (markStepFailed now i p) = plan_steps p"
  "plan_status (markStepStarted now i p) = plan_status p"
  "plan_status (markStepCompleted now i p) = plan_status p"
  "plan_status (markStepFailed now i p) = plan_status p"
  "plan_lifecycle (markStepStarted now i p) = plan_lifecycle p"
  "plan_lifecycle (markStepCompleted now i p) = plan_lifecycle p"
  "plan_lifecycle (markStepFailed now i p) = plan_lifecycle p"
  by (simp_all add: mark_defs)

subsection \<open>Building a plan\<close>

text \<open>\<open>fmt.Sprintf("plan_%d", time.Now().UnixNano())\<close> is the argument \<open>pid\<close>.\<close>

definition NewPlan :: "gotime \<Rightarrow> string \<Rightarrow> string \<Rightarrow> string \<Rightarrow> plan" where
  "NewPlan now pid title description =
     \<lparr>plan_id = pid, plan_title = title, plan_description = description, plan_steps = [],
      plan_status = StatusPending, plan_lifecycle = LifecycleDraft, plan_created = now,
      plan_updated = now, plan_request = [], plan_version = 0, plan_work_dir = [],
      plan_context_snapshot = [], plan_ledger = []\<rparr>"

definition add_step :: "gotime \<Rightarrow> step \<Rightarrow> plan \<Rightarrow> plan" where
  "add_step now s p = p\<lparr>plan_steps := plan_steps p @ [EnsureContractDefaults s], plan_updated := now\<rparr>"

definition AddStepWithOptions ::
  "gotime \<Rightarrow> string \<Rightarrow> string \<Rightarrow> bool \<Rightarrow> int list \<Rightarrow> plan \<Rightarrow> plan" where
  "AddStepWithOptions now title description parallel dependsOn p =
     add_step now (zero_step\<lparr>step_id := int (length (plan_steps p)) + 1, step_title := title,
       step_description := description, step_status := StatusPending, step_parallel := parallel,
       step_depends_on := dependsOn\<rparr>) p"

definition AddStep :: "gotime \<Rightarrow> string \<Rightarrow> string \<Rightarrow> plan \<Rightarrow> plan" where
  "AddStep now title description p = AddStepWithOptions now title description False [] p"

definition AddStepFull ::
  "gotime \<Rightarrow> string \<Rightarrow> string \<Rightarrow> bool \<Rightarrow> int list \<Rightarrow> int \<Rightarrow> duration \<Rightarrow> plan \<Rightarrow> plan" where
  "AddStepFull now title description parallel dependsOn maxRetries timeout p =
     add_step now (zero_step\<lparr>step_id := int (length (plan_steps p)) + 1, step_title := title,
       step_description := description, step_status := StatusPending, step_parallel := parallel,
       step_depends_on := dependsOn, step_max_retries := maxRetries, step_timeout := timeout\<rparr>) p"

definition SetContextSnapshot :: "gotime \<Rightarrow> string \<Rightarrow> plan \<Rightarrow> plan" where
  "SetContextSnapshot now snapshot p = p\<lparr>plan_context_snapshot := snapshot, plan_updated := now\<rparr>"

definition EnsureStepContracts :: "plan \<Rightarrow> plan" where
  "EnsureStepContracts p = p\<lparr>plan_steps := map EnsureContractDefaults (plan_steps p)\<rparr>"

subsection \<open>Looking a step up\<close>

text \<open>\<open>deepCopyStep\<close> copies every field and every slice: a value equal to the step.\<close>

fun deepCopySub :: "substep \<Rightarrow> substep" where
  "deepCopySub (SubStep i t st par cs) = SubStep i t st par (map deepCopySub cs)"

definition deepCopyStep :: "step \<Rightarrow> step" where
  "deepCopyStep s = s\<lparr>step_children := map deepCopySub (step_children s)\<rparr>"

lemma deepCopySub_id [simp]: "deepCopySub c = c"
  by (induction c) (simp add: map_idI)

lemma deepCopyStep_id [simp]: "deepCopyStep s = s"
  by (simp add: deepCopyStep_def map_idI)

definition has_id :: "int \<Rightarrow> step \<Rightarrow> bool" where
  "has_id i s \<longleftrightarrow> step_id s = i"

definition GetStep :: "int \<Rightarrow> plan \<Rightarrow> step option" where
  "GetStep i p = map_option deepCopyStep (find (has_id i) (plan_steps p))"

definition NextStep :: "plan \<Rightarrow> step option" where
  "NextStep p = map_option deepCopyStep (find (\<lambda>s. step_status s = StatusPending) (plan_steps p))"

definition CurrentStep :: "plan \<Rightarrow> step option" where
  "CurrentStep p =
     (case find (\<lambda>s. step_status s = StatusInProgress) (plan_steps p) of
        Some s \<Rightarrow> Some (deepCopyStep s)
      | None \<Rightarrow> map_option deepCopyStep (find (\<lambda>s. step_status s = StatusPending) (plan_steps p)))"

definition GetStepsSnapshot :: "plan \<Rightarrow> step list" where
  "GetStepsSnapshot p = map deepCopyStep (plan_steps p)"

definition StepCount :: "plan \<Rightarrow> nat" where
  "StepCount p = length (plan_steps p)"

definition is_done :: "step \<Rightarrow> bool" where
  "is_done s \<longleftrightarrow> step_status s = StatusCompleted \<or> step_status s = StatusSkipped"

definition CompletedCount :: "plan \<Rightarrow> nat" where
  "CompletedCount p = length (filter (\<lambda>s. step_status s = StatusCompleted) (plan_steps p))"

definition PendingCount :: "plan \<Rightarrow> nat" where
  "PendingCount p = length (filter (\<lambda>s. step_status s \<in> {StatusPending, StatusPaused, StatusFailed}) (plan_steps p))"

text \<open>
  \<open>Progress\<close> is the quotient \<open>done / total\<close>, and 0 without steps; the quotient is kept as a pair,
  so that no rounding is involved in comparing it with 1.
\<close>

definition Progress :: "plan \<Rightarrow> nat \<times> nat" where
  "Progress p = (if plan_steps p = [] then (0, 1)
                 else (length (filter is_done (plan_steps p)), length (plan_steps p)))"

definition progress_full :: "plan \<Rightarrow> bool" where
  "progress_full p = (case Progress p of (d, n) \<Rightarrow> n \<le> d)"

definition IsComplete :: "plan \<Rightarrow> bool" where
  "IsComplete p \<longleftrightarrow> plan_status p = StatusCompleted \<or> plan_status p = StatusFailed"

definition HasPausedSteps :: "plan \<Rightarrow> bool" where
  "HasPausedSteps p = list_ex (\<lambda>s. step_status s = StatusPaused) (plan_steps p)"

subsection \<open>Moving steps between statuses\<close>

definition set_step :: "int \<Rightarrow> (step \<Rightarrow> step) \<Rightarrow> plan \<Rightarrow> plan" where
  "set_step i f p = p\<lparr>plan_steps := upd_first (has_id i) f (plan_steps p)\<rparr>"

definition Plan_StartStep :: "gotime \<Rightarrow> int \<Rightarrow> plan \<Rightarrow> plan" where
  "Plan_StartStep now i p =
     (case find (has_id i) (plan_steps p) of
        None \<Rightarrow> p
      | Some _ \<Rightarrow>
          (markStepStarted now i
            ((set_step i (\<lambda>s. s\<lparr>step_status := StatusInProgress, step_start := now\<rparr>) p)
               \<lparr>plan_status := StatusInProgress\<rparr>))\<lparr>plan_updated := now\<rparr>)"

definition containsEvidenceToken :: "string list \<Rightarrow> string \<Rightarrow> bool" where
  "containsEvidenceToken evidence token =
     (let t = trim_space (to_lower token)
      in if t = [] then False else list_ex (\<lambda>item. trim_space (to_lower item) = t) evidence)"

definition verify_proof_token :: string where
  "verify_proof_token = ''contract.verify_commands_proof=true''"

text \<open>A step without the proof its contract asks for is paused, and the plan goes on.\<close>

definition pause_unproved :: "gotime \<Rightarrow> int \<Rightarrow> string \<Rightarrow> plan \<Rightarrow> plan" where
  "pause_unproved now i msg p =
     (markStepFailed now i
        (set_step i (\<lambda>s. s\<lparr>step_status := StatusPaused, step_error := msg, step_end := now\<rparr>) p))
     \<lparr>plan_status := StatusInProgress, plan_updated := now\<rparr>"

definition all_steps_done :: "plan \<Rightarrow> bool" where
  "all_steps_done p = list_all is_done (plan_steps p)"

definition finish_if_done :: "plan \<Rightarrow> plan" where
  "finish_if_done p = (if all_steps_done p then p\<lparr>plan_status := StatusCompleted\<rparr> else p)"

definition Plan_CompleteStep :: "gotime \<Rightarrow> int \<Rightarrow> string \<Rightarrow> plan \<Rightarrow> plan" where
  "Plan_CompleteStep now i output p =
     (case find (has_id i) (plan_steps p) of
        None \<Rightarrow> finish_if_done p
      | Some s \<Rightarrow>
          if step_evidence s = [] then
            pause_unproved now i ''missing completion evidence (diff/output/command/fact)'' p
          else if step_verify_commands s \<noteq> [] \<and>
                  \<not> containsEvidenceToken (step_evidence s) verify_proof_token then
            pause_unproved now i ''missing verify_commands execution proof'' p
          else finish_if_done
            ((markStepCompleted now i
               (set_step i (\<lambda>s. s\<lparr>step_status := StatusCompleted, step_output := output,
                                   step_end := now\<rparr>) p))\<lparr>plan_updated := now\<rparr>))"

definition Plan_RecordStepVerification ::
  "gotime \<Rightarrow> int \<Rightarrow> string list \<Rightarrow> string \<Rightarrow> plan \<Rightarrow> bool \<times> plan" where
  "Plan_RecordStepVerification now i evidence note p =
     (let normalized = collect_trimmed 40 [] evidence; n = trim_space note
      in case find (has_id i) (plan_steps p) of
           None \<Rightarrow> (False, p)
         | Some _ \<Rightarrow> (True, (set_step i (\<lambda>s. s\<lparr>step_evidence := normalized,
                                                step_verification_note := n\<rparr>) p)\<lparr>plan_updated := now\<rparr>))"

definition Plan_FailStep :: "gotime \<Rightarrow> int \<Rightarrow> string \<Rightarrow> plan \<Rightarrow> plan" where
  "Plan_FailStep now i errMsg p =
     (case find (has_id i) (plan_steps p) of
        None \<Rightarrow> p
      | Some _ \<Rightarrow>
          (markStepFailed now i
            ((set_step i (\<lambda>s. s\<lparr>step_status := StatusFailed, step_error := errMsg, step_end := now\<rparr>) p)
               \<lparr>plan_status := StatusFailed\<rparr>))\<lparr>plan_updated := now\<rparr>)"

definition Plan_SkipStep :: "gotime \<Rightarrow> int \<Rightarrow> plan \<Rightarrow> plan" where
  "Plan_SkipStep now i p =
     (case find (has_id i) (plan_steps p) of
        None \<Rightarrow> p
      | Some _ \<Rightarrow>
          (markStepFailed now i (set_step i (\<lambda>s. s\<lparr>step_status := StatusSkipped\<rparr>) p))
          \<lparr>plan_updated := now\<rparr>)"

definition Plan_PauseStep :: "gotime \<Rightarrow> int \<Rightarrow> string \<Rightarrow> plan \<Rightarrow> plan" where
  "Plan_PauseStep now i reason p =
     (case find (has_id i) (plan_steps p) of
        None \<Rightarrow> p
      | Some _ \<Rightarrow>
          (markStepFailed now i
            (set_step i (\<lambda>s. s\<lparr>step_status := StatusPaused, step_error := reason, step_end := now\<rparr>) p))
          \<lparr>plan_updated := now\<rparr>)"

definition reset_step :: "step \<Rightarrow> step" where
  "reset_step s = s\<lparr>step_status := StatusPending, step_error := [], step_start := zero_time,
                     step_end := zero_time\<rparr>"

definition Plan_RetryStep :: "gotime \<Rightarrow> int \<Rightarrow> plan \<Rightarrow> bool \<times> plan" where
  "Plan_RetryStep now i p =
     (case find (has_id i) (plan_steps p) of
        None \<Rightarrow> (False, p)
      | Some s \<Rightarrow>
          if step_status s \<noteq> StatusFailed \<or> step_max_retries s = 0 \<or>
             step_max_retries s \<le> step_retry_count s then (False, p)
          else (True, (set_step i (\<lambda>s. (reset_step s)\<lparr>step_retry_count := step_retry_count s + 1,
                                                       step_output := []\<rparr>) p)
                       \<lparr>plan_status := StatusInProgress, plan_updated := now\<rparr>))"

definition step_expired :: "gotime \<Rightarrow> step \<Rightarrow> bool" where
  "step_expired now s \<longleftrightarrow>
     step_status s = StatusInProgress \<and> 0 < step_timeout s \<and> \<not> is_zero (step_start s) \<and>
     step_timeout s < time_sub now (step_start s)"

definition expire_step :: "gotime \<Rightarrow> step \<Rightarrow> step" where
  "expire_step now s =
     (if step_expired now s
      then s\<lparr>step_status := StatusFailed,
             step_error := ''step timed out after '' @ dur_string (step_timeout s),
             step_end := now\<rparr>
      else s)"

definition CheckTimeouts :: "gotime \<Rightarrow> plan \<Rightarrow> int list \<times> plan" where
  "CheckTimeouts now p =
     (let timedOut = map step_id (filter (step_expired now) (plan_steps p));
          p' = p\<lparr>plan_steps := map (expire_step now) (plan_steps p)\<rparr>
      in (timedOut, if timedOut \<noteq> [] then p'\<lparr>plan_updated := now\<rparr> else p'))"

definition checkpoint_required :: "step \<Rightarrow> bool" where
  "checkpoint_required s = str_contains (to_lower (step_error s)) ''checkpoint required''"

definition resume_step :: "step \<Rightarrow> step" where
  "resume_step s =
     (if step_status s = StatusPaused
      then reset_step (if checkpoint_required s then s\<lparr>step_checkpoint_passed := True\<rparr> else s)
      else s)"

definition Plan_ResumePausedSteps :: "gotime \<Rightarrow> plan \<Rightarrow> nat \<times> plan" where
  "Plan_ResumePausedSteps now p =
     (let count = length (filter (\<lambda>s. step_status s = StatusPaused) (plan_steps p));
          p' = p\<lparr>plan_steps := map resume_step (plan_steps p)\<rparr>
      in (count, if 0 < count then p'\<lparr>plan_updated := now\<rparr> else p'))"

subsection \<open>Recording effects\<close>

text \<open>\<open>json.Marshal\<close> of the arguments and the hexadecimal SHA-1 of a string are the parameters \<open>enc\<close> and \<open>sha1hex\<close>.\<close>

definition stepEffectSignature ::
  "(tool_args \<Rightarrow> string option) \<Rightarrow> (string \<Rightarrow> string) \<Rightarrow> string \<Rightarrow> tool_args \<Rightarrow> string" where
  "stepEffectSignature enc sha1hex toolName args =
     (if toolName = [] then []
      else case enc (filter (\<lambda>(k, v). k \<notin> {''timestamp'', ''ts'', ''nonce''}) args) of
             None \<Rightarrow> []
           | Some e \<Rightarrow> sha1hex (toolName @ ''|'' @ e))"

definition arg_string :: "tool_args \<Rightarrow> string \<Rightarrow> string option" where
  "arg_string args k = (case map_of args k of Some (ArgString v) \<Rightarrow> (if v = [] then None else Some v) | _ \<Rightarrow> None)"

definition touched_paths :: "tool_args \<Rightarrow> string list" where
  "touched_paths args = List.map_filter (arg_string args)
     [''file_path'', ''path'', ''source'', ''destination'', ''src'', ''dst'', ''from'', ''to'']"

definition record_effect :: "gotime \<Rightarrow> string \<Rightarrow> string \<Rightarrow> tool_args \<Rightarrow> ledger_entry \<Rightarrow> ledger_entry" where
  "record_effect now signature toolName args e =
     (let e1 = (if signature = [] then e
                else e\<lparr>le_duplicate_effects := (if signature \<in> set (le_effect_signatures e)
                         then le_duplicate_effects e + 1 else le_duplicate_effects e),
                       le_effect_signatures := appendUniqueLimited (le_effect_signatures e) signature 120\<rparr>);
          e2 = e1\<lparr>le_tool_calls := le_tool_calls e1 + 1, le_partial_effects := True,
                  le_last_heartbeat := now\<rparr>;
          e3 = (if toolName \<noteq> [] then e2\<lparr>le_tools := appendUniqueLimited (le_tools e2) toolName 20\<rparr> else e2);
          e4 = e3\<lparr>le_files_touched :=
                    foldl (\<lambda>fs v. appendUniqueLimited fs v 50) (le_files_touched e3) (touched_paths args)\<rparr>
      in case arg_string args ''command'' of
           None \<Rightarrow> e4
         | Some cmd \<Rightarrow> e4\<lparr>le_commands := appendUniqueLimited (le_commands e4) cmd 20\<rparr>)"

definition RecordStepEffect ::
  "(tool_args \<Rightarrow> string option) \<Rightarrow> (string \<Rightarrow> string) \<Rightarrow> gotime \<Rightarrow> int \<Rightarrow> string \<Rightarrow> tool_args \<Rightarrow> plan \<Rightarrow> plan" where
  "RecordStepEffect enc sha1hex now i toolName args p =
     (if i \<le> 0 then p
      else upd_ledger i (record_effect now (stepEffectSignature enc sha1hex toolName args) toolName args) p)"

definition HasDuplicateRisk :: "int \<Rightarrow> plan \<Rightarrow> bool" where
  "HasDuplicateRisk i p =
     (case map_of (plan_ledger p) i of
        None \<Rightarrow> False
      | Some e \<Rightarrow> if le_completed e then False else 2 \<le> le_duplicate_effects e)"

definition HasPartialEffects :: "int \<Rightarrow> plan \<Rightarrow> bool" where
  "HasPartialEffects i p =
     (case map_of (plan_ledger p) i of
        None \<Rightarrow> False
      | Some e \<Rightarrow> le_partial_effects e \<and> \<not> le_completed e)"

subsection \<open>The tree of a plan\<close>

text \<open>
  \<open>renderStepTree\<close> on steps and on their children, which it renders alike; the icons and the
  borders are written as UTF-8. The heading and the percentage that \<open>RenderTree\<close> puts around the
  steps are left out: the percentage is a rounded floating-point number.
\<close>

fun stepTreeIcon :: "status \<Rightarrow> string" where
  "stepTreeIcon StatusCompleted = [CHR 0xE2, CHR 0x9C, CHR 0x93]"
| "stepTreeIcon StatusInProgress = [CHR 0xE2, CHR 0x86, CHR 0x92]"
| "stepTreeIcon StatusPending = [CHR 0xE2, CHR 0x97, CHR 0x8B]"
| "stepTreeIcon StatusFailed = [CHR 0xE2, CHR 0x9C, CHR 0x97]"
| "stepTreeIcon StatusSkipped = [CHR 0xE2, CHR 0x8A, CHR 0x98]"
| "stepTreeIcon _ = [CHR 0xE2, CHR 0x97, CHR 0x8B]"

definition parallel_bar :: string where
  "parallel_bar = [CHR 0xE2, CHR 0x95, CHR 0x91]"

definition render_line :: "string \<Rightarrow> status \<Rightarrow> bool \<Rightarrow> int \<Rightarrow> string \<Rightarrow> string" where
  "render_line indent st par i title =
     (if par then indent @ parallel_bar @ '' '' @ stepTreeIcon st @ '' Step '' @ itoa i @ '': '' @ title @
        ''  '' @ parallel_bar @ ''  (parallel)'' @ [CHR 0x0A]
      else indent @ stepTreeIcon st @ '' Step '' @ itoa i @ '': '' @ title @ [CHR 0x0A])"

fun renderSubTree :: "string \<Rightarrow> substep \<Rightarrow> string" where
  "renderSubTree indent (SubStep i t st par cs) =
     render_line indent st par i t @ concat (map (renderSubTree (indent @ ''  '')) cs)"

definition renderStepTree :: "string \<Rightarrow> step \<Rightarrow> string" where
  "renderStepTree indent s =
     render_line indent (step_status s) (step_parallel s) (step_id s) (step_title s) @
     concat (map (renderSubTree (indent @ ''  '')) (step_children s))"

subsection \<open>What an operation on a step leaves alone\<close>

text \<open>The part of a step that is fixed when the step is added.\<close>

definition step_contract :: "step \<Rightarrow> step" where
  "step_contract s = s\<lparr>step_status := StatusPending, step_output := [], step_error := [],
     step_start := zero_time, step_end := zero_time, step_retry_count := 0, step_tokens_used := 0,
     step_agent_metrics := None, step_checkpoint_passed := False, step_evidence := [],
     step_verification_note := []\<rparr>"

lemma step_contract_upd [simp]:
  "step_contract (s\<lparr>step_status := x1\<rparr>) = step_contract s"
  "step_contract (s\<lparr>step_output := x2\<rparr>) = step_contract s"
  "step_contract (s\<lparr>step_error := x2\<rparr>) = step_contract s"
  "step_contract (s\<lparr>step_start := x3\<rparr>) = step_contract s"
  "step_contract (s\<lparr>step_end := x3\<rparr>) = step_contract s"
  "step_contract (s\<lparr>step_retry_count := x4\<rparr>) = step_contract s"
  "step_contract (s\<lparr>step_checkpoint_passed := x5\<rparr>) = step_contract s"
  "step_contract (s\<lparr>step_evidence := x6\<rparr>) = step_contract s"
  "step_contract (s\<lparr>step_verification_note := x2\<rparr>) = step_contract s"
  by (simp_all add: step_contract_def)

lemma step_contract_reset [simp]: "step_contract (reset_step s) = step_contract s"
  by (simp add: reset_step_def)

lemma step_contract_sel [simp]:
  "step_id (step_contract s) = step_id s"
  "contract_ok (step_contract s) = contract_ok s"
  "step_max_retries (step_contract s) = step_max_retries s"
  by (simp_all add: step_contract_def contract_ok_def)

definition retry_ok :: "step \<Rightarrow> bool" where
  "retry_ok s \<longleftrightarrow> 0 \<le> step_retry_count s \<and> step_retry_count s \<le> max 0 (step_max_retries s)"

text \<open>
  The plan invariant: identifiers count from 1 in order, every step has a complete contract, and
  the retry counter respects its bound.
\<close>

definition ids_in_order :: "plan \<Rightarrow> bool" where
  "ids_in_order p \<longleftrightarrow> map step_id (plan_steps p) = map int [1..<Suc (length (plan_steps p))]"

definition plan_wf :: "plan \<Rightarrow> bool" where
  "plan_wf p \<longleftrightarrow> ids_in_order p \<and> (\<forall>s\<in>set (plan_steps p). contract_ok s \<and> retry_ok s)"

lemma ids_in_order_distinct: "ids_in_order p \<Longrightarrow> distinct (map step_id (plan_steps p))"
  by (simp add: ids_in_order_def distinct_map inj_on_def)

lemma ids_in_order_nth:
  "ids_in_order p \<Longrightarrow> k < length (plan_steps p) \<Longrightarrow> step_id (plan_steps p ! k) = int k + 1"
proof -
  assume "ids_in_order p" and k: "k < length (plan_steps p)"
  then have "map step_id (plan_steps p) ! k = map int [1..<Suc (length (plan_steps p))] ! k"
    by (simp only: ids_in_order_def)
  with k show ?thesis by (simp del: upt_Suc)
qed

text \<open>
  The contract of an operation on the steps of a plan: no step is added, dropped or moved, the
  fixed part of every step stays, and so does the bound of the retry counter.
\<close>

locale step_operation =
  fixes op :: "plan \<Rightarrow> plan"
  assumes contracts: "map step_contract (plan_steps (op p)) = map step_contract (plan_steps p)"
    and retries: "\<forall>s\<in>set (plan_steps p). retry_ok s \<Longrightarrow> \<forall>s\<in>set (plan_steps (op p)). retry_ok s"
begin

lemma same_length: "length (plan_steps (op p)) = length (plan_steps p)"
  using contracts [of p] map_eq_imp_length_eq by blast

lemma same_ids: "map step_id (plan_steps (op p)) = map step_id (plan_steps p)"
proof -
  have "map step_id (map step_contract (plan_steps (op p))) = map step_id (map step_contract (plan_steps p))"
    by (simp only: contracts)
  then show ?thesis by (simp add: comp_def)
qed

lemma same_contracts_ok:
  "(\<forall>s\<in>set (plan_steps (op p)). contract_ok s) \<longleftrightarrow> (\<forall>s\<in>set (plan_steps p). contract_ok s)"
proof -
  have "list_all contract_ok (map step_contract (plan_steps (op p))) \<longleftrightarrow>
        list_all contract_ok (map step_contract (plan_steps p))"
    by (simp only: contracts)
  then show ?thesis by (simp add: list_all_iff)
qed

lemma preserves_wf: "plan_wf p \<Longrightarrow> plan_wf (op p)"
  using same_contracts_ok [of p] retries [of p]
  by (auto simp: plan_wf_def ids_in_order_def same_ids same_length)

lemma preserves_wf_funpow: "plan_wf p \<Longrightarrow> plan_wf ((op ^^ n) p)"
  by (induction n) (auto intro: preserves_wf)

end

text \<open>
  How an operation on one step changes the list: it leaves it alone, or it changes the first step
  with the given identifier in a way that respects the fixed part and the retry bound.
\<close>

definition step_edit :: "int \<Rightarrow> plan \<Rightarrow> step list \<Rightarrow> bool" where
  "step_edit i p xs \<longleftrightarrow> xs = plan_steps p \<or>
     (\<exists>f. xs = upd_first (has_id i) f (plan_steps p) \<and>
          (\<forall>s. find (has_id i) (plan_steps p) = Some s \<longrightarrow>
               step_contract (f s) = step_contract s \<and> (retry_ok s \<longrightarrow> retry_ok (f s))))"

lemma step_edit_refl [simp]: "step_edit i p (plan_steps p)"
  by (simp add: step_edit_def)

lemma step_edit_set:
  "(\<And>s. find (has_id i) (plan_steps p) = Some s \<Longrightarrow>
        step_contract (f s) = step_contract s \<and> (retry_ok s \<longrightarrow> retry_ok (f s))) \<Longrightarrow>
   step_edit i p (plan_steps (set_step i f p))"
  unfolding step_edit_def set_step_def by (simp, blast)

lemma step_operation_editI:
  assumes edit: "\<And>p. step_edit i p (plan_steps (op p))"
  shows "step_operation op"
proof
  fix p
  have *: "map step_contract (plan_steps (op p)) = map step_contract (plan_steps p) \<and>
        ((\<forall>s\<in>set (plan_steps p). retry_ok s) \<longrightarrow> (\<forall>s\<in>set (plan_steps (op p)). retry_ok s))"
  proof (cases "plan_steps (op p) = plan_steps p")
    case True
    then show ?thesis by simp
  next
    case False
    with edit [of p] obtain f where f: "plan_steps (op p) = upd_first (has_id i) f (plan_steps p)"
      and k: "\<And>s. find (has_id i) (plan_steps p) = Some s \<Longrightarrow> step_contract (f s) = step_contract s"
        "\<And>s. find (has_id i) (plan_steps p) = Some s \<Longrightarrow> retry_ok s \<Longrightarrow> retry_ok (f s)"
      unfolding step_edit_def by blast
    show ?thesis
      unfolding f
      using map_upd_first_found [of "has_id i" "plan_steps p" step_contract f]
        upd_first_found_all [of "has_id i" "plan_steps p" retry_ok f] k
      by blast
  qed
  then show "map step_contract (plan_steps (op p)) = map step_contract (plan_steps p)" by (rule conjunct1)
  show "\<forall>s\<in>set (plan_steps (op p)). retry_ok s" if "\<forall>s\<in>set (plan_steps p). retry_ok s"
    using * that by (rule conjunct2 [THEN mp])
qed

lemma step_operation_mapI:
  assumes "\<And>p. \<exists>g. plan_steps (op p) = map g (plan_steps p) \<and>
                    (\<forall>s. step_contract (g s) = step_contract s \<and> (retry_ok s \<longrightarrow> retry_ok (g s)))"
  shows "step_operation op"
proof
  fix p
  obtain g where g: "plan_steps (op p) = map g (plan_steps p)"
    and k: "\<And>s. step_contract (g s) = step_contract s" "\<And>s. retry_ok s \<Longrightarrow> retry_ok (g s)"
    using assms by metis
  show "map step_contract (plan_steps (op p)) = map step_contract (plan_steps p)"
    by (simp add: g k(1) comp_def)
  show "\<forall>s\<in>set (plan_steps (op p)). retry_ok s" if "\<forall>s\<in>set (plan_steps p). retry_ok s"
    using that by (simp add: g k(2))
qed

lemma plan_steps_finish [simp]: "plan_steps (finish_if_done p) = plan_steps p"
  by (simp add: finish_if_done_def)

lemma plan_lifecycle_finish [simp]: "plan_lifecycle (finish_if_done p) = plan_lifecycle p"
  by (simp add: finish_if_done_def)

lemma retry_ok_upd [simp]:
  "retry_ok (s\<lparr>step_status := x1\<rparr>) = retry_ok s"
  "retry_ok (s\<lparr>step_output := x2\<rparr>) = retry_ok s"
  "retry_ok (s\<lparr>step_error := x2\<rparr>) = retry_ok s"
  "retry_ok (s\<lparr>step_start := x3\<rparr>) = retry_ok s"
  "retry_ok (s\<lparr>step_end := x3\<rparr>) = retry_ok s"
  "retry_ok (s\<lparr>step_checkpoint_passed := x5\<rparr>) = retry_ok s"
  "retry_ok (s\<lparr>step_evidence := x6\<rparr>) = retry_ok s"
  "retry_ok (s\<lparr>step_verification_note := x2\<rparr>) = retry_ok s"
  "retry_ok (reset_step s) = retry_ok s"
  by (simp_all add: retry_ok_def reset_step_def)

lemma pause_unproved_steps:
  "plan_steps (pause_unproved now i msg p) =
     plan_steps (set_step i (\<lambda>s. s\<lparr>step_status := StatusPaused, step_error := msg, step_end := now\<rparr>) p)"
  by (simp add: pause_unproved_def)

text \<open>Every operation on steps meets the contract.\<close>

interpretation start: step_operation "Plan_StartStep now i" for now i
  by (rule step_operation_editI [where i = i]) (simp add: Plan_StartStep_def step_edit_set split: option.split)

interpretation complete: step_operation "Plan_CompleteStep now i out" for now i out
  by (rule step_operation_editI [where i = i])
     (simp add: Plan_CompleteStep_def pause_unproved_steps step_edit_set split: option.split)

interpretation verification: step_operation "\<lambda>p. snd (Plan_RecordStepVerification now i ev nt p)"
  for now i ev nt
  by (rule step_operation_editI [where i = i])
     (simp add: Plan_RecordStepVerification_def Let_def step_edit_set split: option.split)

interpretation failing: step_operation "Plan_FailStep now i errMsg" for now i errMsg
  by (rule step_operation_editI [where i = i]) (simp add: Plan_FailStep_def step_edit_set split: option.split)

interpretation skipping: step_operation "Plan_SkipStep now i" for now i
  by (rule step_operation_editI [where i = i]) (simp add: Plan_SkipStep_def step_edit_set split: option.split)

interpretation pause: step_operation "Plan_PauseStep now i reason" for now i reason
  by (rule step_operation_editI [where i = i]) (simp add: Plan_PauseStep_def step_edit_set split: option.split)

interpretation retry: step_operation "\<lambda>p. snd (Plan_RetryStep now i p)" for now i
proof (rule step_operation_editI [where i = i])
  fix p
  show "step_edit i p (plan_steps (snd (Plan_RetryStep now i p)))"
    unfolding Plan_RetryStep_def
    by (auto intro!: step_edit_set simp: retry_ok_def reset_step_def split: option.split)
qed

interpretation effect: step_operation "RecordStepEffect enc sha1hex now i toolName args"
  for enc sha1hex now i toolName args
  by (rule step_operation_editI [where i = i]) (simp add: RecordStepEffect_def)

interpretation timeouts: step_operation "\<lambda>p. snd (CheckTimeouts now p)" for now
  by (rule step_operation_mapI) (rule exI [where x = "expire_step now"], simp add: CheckTimeouts_def expire_step_def Let_def)

interpretation resume: step_operation "\<lambda>p. snd (Plan_ResumePausedSteps now p)" for now
  by (rule step_operation_mapI) (rule exI [where x = resume_step], simp add: Plan_ResumePausedSteps_def resume_step_def Let_def)

text \<open>Adding a step extends the list by a step that meets the invariant.\<close>

lemma add_step_wf:
  assumes "plan_wf p" and "step_id s = int (length (plan_steps p)) + 1" and "retry_ok s"
  shows "plan_wf (add_step now s p)"
proof -
  have "contract_ok (EnsureContractDefaults s)"
    using EnsureContractDefaults_normal [of s] by (simp add: contract_normal_def)
  moreover have "retry_ok (EnsureContractDefaults s)"
    using assms(3) by (simp add: retry_ok_def)
  ultimately show ?thesis
    using assms(1,2) by (simp add: plan_wf_def ids_in_order_def add_step_def ball_Un)
qed

lemma zero_step_sel [simp]:
  "step_retry_count zero_step = 0" "step_max_retries zero_step = 0" "step_status zero_step = StatusPending"
  "step_evidence zero_step = []"
  by (simp_all add: zero_step_def)

lemma AddStepFull_wf: "plan_wf p \<Longrightarrow> plan_wf (AddStepFull now t d par deps mr tmo p)"
  unfolding AddStepFull_def by (rule add_step_wf) (simp_all add: retry_ok_def)

lemma AddStepWithOptions_wf: "plan_wf p \<Longrightarrow> plan_wf (AddStepWithOptions now t d par deps p)"
  unfolding AddStepWithOptions_def by (rule add_step_wf) (simp_all add: retry_ok_def)

lemma NewPlan_wf: "plan_wf (NewPlan now pid t d)"
  by (simp add: plan_wf_def ids_in_order_def NewPlan_def)

end
