(* ===== verification/PlanLifecycle.thy ===== *)
theory PlanLifecycle
  imports PlanOps "HOL-Library.Sublist"
begin

section \<open>The lifecycle of a plan and the plan as a transition system\<close>

text \<open>
  \<^verbatim>\<open>internal/engine/plan/lifecycle.go\<close>: the table of allowed transitions and the methods that check
  and apply one. The second half puts every method of \<open>Plan\<close> that changes state into one relation,
  \<open>plan_step\<close>, and proves what holds of every plan that the methods can reach from a new one.
\<close>

subsection \<open>Allowed transitions\<close>

fun allowedLifecycleTransitions :: "lifecycle \<Rightarrow> lifecycle list" where
  "allowedLifecycleTransitions LifecycleDraft = [LifecycleAwaitingApproval, LifecycleCancelled]"
| "allowedLifecycleTransitions LifecycleAwaitingApproval = [LifecycleApproved, LifecycleCancelled]"
| "allowedLifecycleTransitions LifecycleApproved = [LifecycleExecuting, LifecycleCancelled]"
| "allowedLifecycleTransitions LifecycleExecuting =
     [LifecyclePaused, LifecycleCompleted, LifecycleFailed, LifecycleCancelled]"
| "allowedLifecycleTransitions LifecyclePaused = [LifecycleApproved, LifecycleExecuting, LifecycleCancelled]"
| "allowedLifecycleTransitions LifecycleFailed = [LifecycleApproved, LifecycleExecuting, LifecycleCancelled]"
| "allowedLifecycleTransitions LifecycleCompleted = []"
| "allowedLifecycleTransitions LifecycleCancelled = []"
| "allowedLifecycleTransitions LifecycleUnset = []"
| "allowedLifecycleTransitions (LifecycleOther s) = []"

definition IsTerminal :: "lifecycle \<Rightarrow> bool" where
  "IsTerminal l \<longleftrightarrow> l = LifecycleCompleted \<or> l = LifecycleCancelled"

definition CanTransitionTo :: "lifecycle \<Rightarrow> lifecycle \<Rightarrow> bool" where
  "CanTransitionTo l next = (if l = next then True else next \<in> set (allowedLifecycleTransitions l))"

fun inferLifecycleFromStatus :: "status \<Rightarrow> lifecycle" where
  "inferLifecycleFromStatus StatusInProgress = LifecycleExecuting"
| "inferLifecycleFromStatus StatusPaused = LifecyclePaused"
| "inferLifecycleFromStatus StatusCompleted = LifecycleCompleted"
| "inferLifecycleFromStatus StatusFailed = LifecycleFailed"
| "inferLifecycleFromStatus _ = LifecycleDraft"

definition LifecycleState :: "plan \<Rightarrow> lifecycle" where
  "LifecycleState p = (if plan_lifecycle p = LifecycleUnset then inferLifecycleFromStatus (plan_status p)
                       else plan_lifecycle p)"

datatype plan_error =
    InvalidTransition lifecycle lifecycle
  | NoActivePlan
  | NoReplanHandler
  | NilFailedStep
  | ReplanFailed string
  | LintFailed string
  | HandlerError string
  | NothingToResume
  | StoreNotConfigured
  | StoreError string
  | PlanNotFound string
  | PlanIdMismatch string string
  | InvalidStoreId string
  | NoResumablePlan
  | NoPlanToCheckpoint

text \<open>The transition returns the error, if any; it writes an inferred lifecycle back even when it fails.\<close>

definition TransitionLifecycle :: "gotime \<Rightarrow> lifecycle \<Rightarrow> plan \<Rightarrow> plan_error option \<times> plan" where
  "TransitionLifecycle now next p =
     (let current = LifecycleState p;
          p1 = p\<lparr>plan_lifecycle := current\<rparr>
      in if \<not> CanTransitionTo current next then (Some (InvalidTransition current next), p1)
         else (None, p1\<lparr>plan_lifecycle := next, plan_updated := now\<rparr>))"

lemma terminal_absorbing: "IsTerminal l \<Longrightarrow> CanTransitionTo l n \<Longrightarrow> n = l"
  by (auto simp: IsTerminal_def CanTransitionTo_def split: if_splits)

lemma terminal_iff_no_exit:
  "l \<noteq> LifecycleUnset \<Longrightarrow> (\<forall>s. l \<noteq> LifecycleOther s) \<Longrightarrow>
   IsTerminal l \<longleftrightarrow> (\<forall>n. CanTransitionTo l n \<longrightarrow> n = l)"
  by (cases l) (auto simp: IsTerminal_def CanTransitionTo_def)

lemma TransitionLifecycle_error_iff:
  "fst (TransitionLifecycle now n p) = None \<longleftrightarrow> CanTransitionTo (LifecycleState p) n"
  by (simp add: TransitionLifecycle_def Let_def)

lemma TransitionLifecycle_state:
  "n \<noteq> LifecycleUnset \<Longrightarrow>
   LifecycleState (snd (TransitionLifecycle now n p)) =
     (if CanTransitionTo (LifecycleState p) n then n else LifecycleState p)"
  by (cases "plan_status p") (auto simp: TransitionLifecycle_def Let_def LifecycleState_def)

lemma TransitionLifecycle_frame [simp]:
  "plan_steps (snd (TransitionLifecycle now n p)) = plan_steps p"
  "plan_status (snd (TransitionLifecycle now n p)) = plan_status p"
  "plan_ledger (snd (TransitionLifecycle now n p)) = plan_ledger p"
  by (simp_all add: TransitionLifecycle_def Let_def)

interpretation transition: step_operation "\<lambda>p. snd (TransitionLifecycle now n p)" for now n
  by (rule step_operation_editI) simp

interpretation snapshot: step_operation "SetContextSnapshot now t" for now t
  by (rule step_operation_editI) (simp add: SetContextSnapshot_def)

subsection \<open>All operations of a plan\<close>

datatype plan_op =
    OpAddStep string string bool "int list" int duration
  | OpStart int
  | OpComplete int string
  | OpVerify int "string list" string
  | OpFail int string
  | OpSkip int
  | OpRetry int
  | OpTimeouts
  | OpPause int string
  | OpEffect int string tool_args
  | OpResume
  | OpSnapshot string
  | OpLifecycle lifecycle

text \<open>The parameters of the effect signature are fixed for a run.\<close>

record signer =
  sg_enc :: "tool_args \<Rightarrow> string option"
  sg_sha1 :: "string \<Rightarrow> string"

fun apply_plan_op :: "signer \<Rightarrow> gotime \<Rightarrow> plan_op \<Rightarrow> plan \<Rightarrow> plan" where
  "apply_plan_op sg now (OpAddStep t d par deps mr tmo) p = AddStepFull now t d par deps mr tmo p"
| "apply_plan_op sg now (OpStart i) p = Plan_StartStep now i p"
| "apply_plan_op sg now (OpComplete i out) p = Plan_CompleteStep now i out p"
| "apply_plan_op sg now (OpVerify i ev nt) p = snd (Plan_RecordStepVerification now i ev nt p)"
| "apply_plan_op sg now (OpFail i msg) p = Plan_FailStep now i msg p"
| "apply_plan_op sg now (OpSkip i) p = Plan_SkipStep now i p"
| "apply_plan_op sg now (OpRetry i) p = snd (Plan_RetryStep now i p)"
| "apply_plan_op sg now OpTimeouts p = snd (CheckTimeouts now p)"
| "apply_plan_op sg now (OpPause i reason) p = Plan_PauseStep now i reason p"
| "apply_plan_op sg now (OpEffect i tool args) p = RecordStepEffect (sg_enc sg) (sg_sha1 sg) now i tool args p"
| "apply_plan_op sg now OpResume p = snd (Plan_ResumePausedSteps now p)"
| "apply_plan_op sg now (OpSnapshot t) p = SetContextSnapshot now t p"
| "apply_plan_op sg now (OpLifecycle l) p = snd (TransitionLifecycle now l p)"

inductive plan_step :: "signer \<Rightarrow> plan \<Rightarrow> plan \<Rightarrow> bool" for sg where
  "plan_step sg p (apply_plan_op sg now op p)"

inductive plan_reachable :: "signer \<Rightarrow> plan \<Rightarrow> bool" for sg where
  created: "plan_reachable sg (NewPlan now pid t d)"
| changed: "plan_reachable sg p \<Longrightarrow> plan_step sg p q \<Longrightarrow> plan_reachable sg q"

inductive_cases plan_stepE: "plan_step sg p q"

lemma apply_plan_op_wf: "plan_wf p \<Longrightarrow> plan_wf (apply_plan_op sg now op p)"
  by (cases op)
     (simp_all add: AddStepFull_wf start.preserves_wf complete.preserves_wf verification.preserves_wf
       failing.preserves_wf skipping.preserves_wf retry.preserves_wf timeouts.preserves_wf
       pause.preserves_wf effect.preserves_wf resume.preserves_wf snapshot.preserves_wf
       transition.preserves_wf)

lemma reachable_plan_wf: "plan_reachable sg p \<Longrightarrow> plan_wf p"
proof (induction rule: plan_reachable.induct)
  case (created now pid t d)
  show ?case by (rule NewPlan_wf)
next
  case (changed p q)
  from changed.hyps(2) obtain now op where "q = apply_plan_op sg now op p"
    by (rule plan_stepE)
  with changed.IH show ?case by (simp add: apply_plan_op_wf)
qed

subsection \<open>Completion needs proof\<close>

lemma step_status_expire [simp]:
  "step_status (expire_step now s) = StatusCompleted \<longleftrightarrow> step_status s = StatusCompleted"
  by (auto simp: expire_step_def step_expired_def)

lemma step_status_resume [simp]:
  "step_status (resume_step s) = StatusCompleted \<longleftrightarrow> step_status s = StatusCompleted"
  by (auto simp: resume_step_def reset_step_def)

definition completed_at :: "nat \<Rightarrow> plan \<Rightarrow> bool" where
  "completed_at k p \<longleftrightarrow> k < length (plan_steps p) \<and> step_status (plan_steps p ! k) = StatusCompleted"

lemma completed_set_step:
  "completed_at k (set_step i f p) \<Longrightarrow> \<not> completed_at k p \<Longrightarrow>
   k < length (plan_steps p) \<and> find (has_id i) (plan_steps p) = Some (plan_steps p ! k) \<and>
   step_status (f (plan_steps p ! k)) = StatusCompleted"
proof -
  let ?xs = "plan_steps p"
  assume c: "completed_at k (set_step i f p)" and n: "\<not> completed_at k p"
  then have k: "k < length ?xs" by (simp add: completed_at_def set_step_def)
  have f: "has_id i (?xs ! k) \<and> (\<forall>j<k. \<not> has_id i (?xs ! j))"
  proof (rule ccontr)
    assume "\<not> ?thesis"
    then have "upd_first (has_id i) f ?xs ! k = ?xs ! k"
      by (simp only: upd_first_nth [OF k] if_False)
    with c n show False by (simp add: completed_at_def set_step_def)
  qed
  then have u: "upd_first (has_id i) f ?xs ! k = f (?xs ! k)"
    unfolding upd_first_nth [OF k] by (rule if_P)
  have "find (has_id i) ?xs = Some (?xs ! k)"
    unfolding find_Some_iff using f k by blast
  with k c u show ?thesis by (simp add: completed_at_def set_step_def)
qed

lemma completed_map_step:
  "(\<And>s. step_status (g s) = StatusCompleted \<longleftrightarrow> step_status s = StatusCompleted) \<Longrightarrow>
   plan_steps q = map g (plan_steps p) \<Longrightarrow> completed_at k q = completed_at k p"
  by (simp add: completed_at_def cong: conj_cong)

lemma completed_at_steps: "plan_steps q = plan_steps p \<Longrightarrow> completed_at k q = completed_at k p"
  by (simp add: completed_at_def)

lemma completed_add_step:
  "step_status s = StatusPending \<Longrightarrow> completed_at k (add_step now s p) = completed_at k p"
  by (auto simp: completed_at_def add_step_def nth_append)

text \<open>An operation whose change of one step never sets the status to completed completes nothing.\<close>

lemma completed_edit:
  assumes "completed_at k q"
    and "plan_steps q = plan_steps p \<or> plan_steps q = plan_steps (set_step i f p)"
    and "\<And>s. step_status (f s) = StatusCompleted \<Longrightarrow> step_status s = StatusCompleted"
  shows "completed_at k p"
proof (rule ccontr)
  assume n: "\<not> completed_at k p"
  with assms(1,2) have "completed_at k (set_step i f p)"
    using completed_at_steps [of q p k] completed_at_steps [of q "set_step i f p" k] by blast
  from completed_set_step [OF this n] have "k < length (plan_steps p)"
    and "step_status (f (plan_steps p ! k)) = StatusCompleted" by blast+
  then have "completed_at k p" by (simp add: completed_at_def assms(3))
  with n show False ..
qed

lemma only_completing_completes:
  assumes "completed_at k (apply_plan_op sg now op p)" and "\<not> completed_at k p"
  shows "\<exists>i out. op = OpComplete i out"
proof (rule ccontr)
  assume "\<not> ?thesis"
  then have "completed_at k p"
    using assms(1)
  proof (cases op)
    case (OpAddStep t d par deps mr tmo)
    with assms(1) show ?thesis by (simp add: AddStepFull_def completed_add_step)
  next
    case (OpStart i)
    with assms(1) have "completed_at k (Plan_StartStep now i p)" by simp
    then show ?thesis
      by (rule completed_edit [where i = i and
            f = "\<lambda>s. s\<lparr>step_status := StatusInProgress, step_start := now\<rparr>"])
         (simp_all add: Plan_StartStep_def split: option.split)
  next
    case (OpVerify i ev nt)
    with assms(1) have "completed_at k (snd (Plan_RecordStepVerification now i ev nt p))" by simp
    then show ?thesis
      by (rule completed_edit [where i = i and
            f = "\<lambda>s. s\<lparr>step_evidence := collect_trimmed 40 [] ev, step_verification_note := trim_space nt\<rparr>"])
         (simp_all add: Plan_RecordStepVerification_def Let_def split: option.split)
  next
    case (OpFail i msg)
    with assms(1) have "completed_at k (Plan_FailStep now i msg p)" by simp
    then show ?thesis
      by (rule completed_edit [where i = i and
            f = "\<lambda>s. s\<lparr>step_status := StatusFailed, step_error := msg, step_end := now\<rparr>"])
         (simp_all add: Plan_FailStep_def split: option.split)
  next
    case (OpSkip i)
    with assms(1) have "completed_at k (Plan_SkipStep now i p)" by simp
    then show ?thesis
      by (rule completed_edit [where i = i and
            f = "\<lambda>s. s\<lparr>step_status := StatusSkipped\<rparr>"])
         (simp_all add: Plan_SkipStep_def split: option.split)
  next
    case (OpRetry i)
    with assms(1) have "completed_at k (snd (Plan_RetryStep now i p))" by simp
    then show ?thesis
      by (rule completed_edit [where i = i and
            f = "\<lambda>s. (reset_step s)\<lparr>step_retry_count := step_retry_count s + 1, step_output := []\<rparr>"])
         (simp_all add: Plan_RetryStep_def reset_step_def split: option.split)
  next
    case (OpPause i reason)
    with assms(1) have "completed_at k (Plan_PauseStep now i reason p)" by simp
    then show ?thesis
      by (rule completed_edit [where i = i and
            f = "\<lambda>s. s\<lparr>step_status := StatusPaused, step_error := reason, step_end := now\<rparr>"])
         (simp_all add: Plan_PauseStep_def split: option.split)
  next
    case OpTimeouts
    then have "plan_steps (apply_plan_op sg now op p) = map (expire_step now) (plan_steps p)"
      by (simp add: CheckTimeouts_def Let_def)
    with assms(1) show ?thesis using completed_map_step step_status_expire by blast
  next
    case OpResume
    then have "plan_steps (apply_plan_op sg now op p) = map resume_step (plan_steps p)"
      by (simp add: Plan_ResumePausedSteps_def Let_def)
    with assms(1) show ?thesis using completed_map_step step_status_resume by blast
  next
    case (OpEffect i tool args)
    with assms(1) show ?thesis
      by (simp add: completed_at_def RecordStepEffect_def split: if_splits)
  qed (simp_all add: completed_at_def SetContextSnapshot_def)
  with assms(2) show False ..
qed

lemma complete_step_proof:
  assumes "completed_at k (Plan_CompleteStep now i out p)" and "\<not> completed_at k p"
  shows "step_id (plan_steps p ! k) = i \<and> step_evidence (plan_steps p ! k) \<noteq> [] \<and>
    (step_verify_commands (plan_steps p ! k) \<noteq> [] \<longrightarrow>
     containsEvidenceToken (step_evidence (plan_steps p ! k)) verify_proof_token)"
proof (cases "find (has_id i) (plan_steps p)")
  case None
  with assms show ?thesis by (simp add: Plan_CompleteStep_def completed_at_def)
next
  case (Some s)
  show ?thesis
  proof (cases "step_evidence s = [] \<or> step_verify_commands s \<noteq> [] \<and>
                \<not> containsEvidenceToken (step_evidence s) verify_proof_token")
    case True
    then have "\<exists>msg. Plan_CompleteStep now i out p = pause_unproved now i msg p"
      unfolding Plan_CompleteStep_def by (cases "step_evidence s = []") (simp_all add: Some, blast+)
    then obtain msg where "Plan_CompleteStep now i out p = pause_unproved now i msg p" by blast
    then have "plan_steps (Plan_CompleteStep now i out p) =
        plan_steps (set_step i (\<lambda>s. s\<lparr>step_status := StatusPaused, step_error := msg, step_end := now\<rparr>) p)"
      by (simp add: pause_unproved_steps)
    then have "completed_at k p"
      by (rule completed_edit [OF assms(1) disjI2]) simp
    with assms(2) show ?thesis by simp
  next
    case False
    let ?f = "\<lambda>s. s\<lparr>step_status := StatusCompleted, step_output := out, step_end := now\<rparr>"
    have "plan_steps (Plan_CompleteStep now i out p) = plan_steps (set_step i ?f p)"
    proof -
      from False have "step_evidence s \<noteq> []"
        and "\<not> (step_verify_commands s \<noteq> [] \<and>
                \<not> containsEvidenceToken (step_evidence s) verify_proof_token)" by blast+
      then show ?thesis by (simp only: Plan_CompleteStep_def Some option.case if_False) simp
    qed
    from completed_at_steps [OF this, THEN iffD1, OF assms(1)]
    have "completed_at k (set_step i ?f p)" .
    note at_k = completed_set_step [OF this assms(2), THEN conjunct2, THEN conjunct1]
    have "s = plan_steps p ! k" using at_k unfolding Some by (rule option.inject [THEN iffD1])
    moreover have "step_id s = i" using find_mem [OF Some] unfolding has_id_def by (rule conjunct2)
    ultimately show ?thesis using False by (simp, blast)
  qed
qed

lemma completion_needs_proof:
  assumes "plan_wf p" and "completed_at k (apply_plan_op sg now op p)" and "\<not> completed_at k p"
  shows "\<exists>out. op = OpComplete (step_id (plan_steps p ! k)) out \<and>
    step_evidence (plan_steps p ! k) \<noteq> [] \<and>
    containsEvidenceToken (step_evidence (plan_steps p ! k)) verify_proof_token"
proof -
  obtain i out where op: "op = OpComplete i out"
    using only_completing_completes [OF assms(2,3)] by blast
  with assms(2) have c: "completed_at k (Plan_CompleteStep now i out p)" by simp
  have "k < length (plan_steps p)"
    using c by (simp add: completed_at_def complete.same_length)
  then have "step_verify_commands (plan_steps p ! k) \<noteq> []"
    using assms(1) nth_mem by (fastforce simp: plan_wf_def contract_ok_def)
  with complete_step_proof [OF c assms(3)] op show ?thesis by auto
qed

subsection \<open>Execution needs approval\<close>

definition run_plan_ops :: "signer \<Rightarrow> plan \<Rightarrow> (gotime \<times> plan_op) list \<Rightarrow> plan" where
  "run_plan_ops sg p ops = foldl (\<lambda>p (now, op). apply_plan_op sg now op p) p ops"

lemma run_plan_ops_simps [simp]:
  "run_plan_ops sg p [] = p"
  "run_plan_ops sg p (ops @ [(now, op)]) = apply_plan_op sg now op (run_plan_ops sg p ops)"
  by (simp_all add: run_plan_ops_def)

lemma plan_ops_lifecycle_frame:
  "(\<forall>l. op \<noteq> OpLifecycle l) \<Longrightarrow> plan_lifecycle (apply_plan_op sg now op p) = plan_lifecycle p"
  by (cases op)
     (simp_all add: AddStepFull_def add_step_def Plan_StartStep_def Plan_CompleteStep_def pause_unproved_def
       Plan_RecordStepVerification_def Plan_FailStep_def Plan_SkipStep_def Plan_RetryStep_def
       CheckTimeouts_def Plan_PauseStep_def RecordStepEffect_def Plan_ResumePausedSteps_def
       SetContextSnapshot_def set_step_def finish_if_done_def Let_def split: option.split)

definition lifecycle_requests :: "(gotime \<times> plan_op) list \<Rightarrow> lifecycle list" where
  "lifecycle_requests ops = List.map_filter (\<lambda>(now, op). case op of OpLifecycle l \<Rightarrow> Some l | _ \<Rightarrow> None) ops"

lemma lifecycle_requests_snoc:
  "lifecycle_requests (ops @ [(now, op)]) =
     lifecycle_requests ops @ (case op of OpLifecycle l \<Rightarrow> [l] | _ \<Rightarrow> [])"
  by (cases op) (simp_all add: lifecycle_requests_def map_filter_simps List.map_filter_def)

text \<open>What the requests seen so far say of the current state.\<close>

fun approval_seen :: "lifecycle \<Rightarrow> lifecycle list \<Rightarrow> bool" where
  "approval_seen LifecycleDraft reqs = True"
| "approval_seen LifecycleCancelled reqs = True"
| "approval_seen LifecycleAwaitingApproval reqs = subseq [LifecycleAwaitingApproval] reqs"
| "approval_seen LifecycleUnset reqs = False"
| "approval_seen (LifecycleOther s) reqs = False"
| "approval_seen l reqs = subseq [LifecycleAwaitingApproval, LifecycleApproved] reqs"

lemma approval_seen_step:
  assumes "approval_seen l reqs"
  shows "approval_seen (if CanTransitionTo l n then n else l) (reqs @ [n])"
proof -
  have one: "subseq xs reqs \<Longrightarrow> subseq xs (reqs @ [n])" for xs
    by (rule list_emb_prefix)
  have two: "subseq [LifecycleAwaitingApproval] reqs \<Longrightarrow>
      subseq [LifecycleAwaitingApproval, LifecycleApproved] (reqs @ [LifecycleApproved])"
    using list_emb_append_mono [of "(=)" "[LifecycleAwaitingApproval]" reqs "[LifecycleApproved]"] by simp
  have three: "subseq [x] (reqs @ [x])" for x :: lifecycle
    by (simp add: list_emb_append2)
  show ?thesis
    using assms one two three
    by (cases l) (auto simp: CanTransitionTo_def)
qed

lemma run_approval_seen:
  "approval_seen (plan_lifecycle (run_plan_ops sg (NewPlan now0 pid t d) ops)) (lifecycle_requests ops)"
proof (induction ops rule: rev_induct)
  case Nil
  show ?case by (simp add: NewPlan_def)
next
  case (snoc x ops)
  obtain now op where x: "x = (now, op)" by (cases x)
  let ?p = "run_plan_ops sg (NewPlan now0 pid t d) ops"
  show ?case
  proof (cases "\<exists>l. op = OpLifecycle l")
    case True
    then obtain n where n: "op = OpLifecycle n" by blast
    have "plan_lifecycle ?p \<noteq> LifecycleUnset" using snoc.IH by auto
    then have "plan_lifecycle (apply_plan_op sg now op ?p) =
        (if CanTransitionTo (plan_lifecycle ?p) n then n else plan_lifecycle ?p)"
      by (simp add: n TransitionLifecycle_def LifecycleState_def Let_def)
    with approval_seen_step [OF snoc.IH, of n] show ?thesis
      by (simp add: x n lifecycle_requests_snoc)
  next
    case False
    then have "plan_lifecycle (apply_plan_op sg now op ?p) = plan_lifecycle ?p"
      by (intro plan_ops_lifecycle_frame) blast
    moreover have "lifecycle_requests (ops @ [x]) = lifecycle_requests ops"
      using False by (simp add: x lifecycle_requests_snoc split: plan_op.split)
    ultimately show ?thesis using snoc.IH by (simp add: x)
  qed
qed

lemma executing_was_approved:
  "plan_lifecycle (run_plan_ops sg (NewPlan now0 pid t d) ops) \<in>
     {LifecycleApproved, LifecycleExecuting, LifecyclePaused, LifecycleFailed, LifecycleCompleted} \<Longrightarrow>
   subseq [LifecycleAwaitingApproval, LifecycleApproved] (lifecycle_requests ops)"
  using run_approval_seen [of sg now0 pid t d ops] by auto

end
