(* ===== verification/PlanSched.thy ===== *)
theory PlanSched
  imports PlanLifecycle
begin

section \<open>Choosing the next steps of a plan\<close>

text \<open>
  The scheduling half of \<^verbatim>\<open>internal/engine/plan/plan.go\<close>: which steps are ready
  (\<open>NextReadySteps\<close>, \<open>filterFileConflictsLocked\<close>), when a conditional step is skipped
  (\<open>ShouldSkip\<close>, with the part of \<open>fmt.Sscanf\<close> it uses) and how an error is classified
  (\<open>ClassifyError\<close>). Lemmas: the steps returned are ready, bounded in number and parallel unless
  there is only one, and a plan whose dependencies point backwards never gets stuck.
\<close>

subsection \<open>Ready steps\<close>

definition done_id :: "plan \<Rightarrow> int \<Rightarrow> bool" where
  "done_id p d = list_ex (\<lambda>s. is_done s \<and> step_id s = d) (plan_steps p)"

definition is_ready :: "plan \<Rightarrow> step \<Rightarrow> bool" where
  "is_ready p s \<longleftrightarrow> step_status s = StatusPending \<and> list_all (done_id p) (step_depends_on s)"

definition ready_steps :: "plan \<Rightarrow> step list" where
  "ready_steps p = filter (is_ready p) (plan_steps p)"

definition maxParallelSteps :: nat where
  "maxParallelSteps = 4"

definition entry_files :: "plan \<Rightarrow> step \<Rightarrow> string list" where
  "entry_files p s = (case map_of (plan_ledger p) (step_id s) of
      None \<Rightarrow> [] | Some e \<Rightarrow> le_files_touched e)"

definition executing_files :: "plan \<Rightarrow> string list" where
  "executing_files p =
     concat (map (entry_files p) (filter (\<lambda>s. step_status s = StatusInProgress) (plan_steps p)))"

definition conflicts :: "plan \<Rightarrow> step \<Rightarrow> bool" where
  "conflicts p s = list_ex (\<lambda>f. f \<in> set (executing_files p)) (entry_files p s)"

definition filterFileConflicts :: "plan \<Rightarrow> step list \<Rightarrow> step list" where
  "filterFileConflicts p candidates =
     (if length candidates \<le> 1 \<or> plan_ledger p = [] then candidates
      else if executing_files p = [] then candidates
      else let safe = filter (\<lambda>s. \<not> conflicts p s) candidates
           in if safe = [] then take 1 candidates else safe)"

definition NextReadySteps :: "plan \<Rightarrow> step list" where
  "NextReadySteps p =
     (case ready_steps p of
        [] \<Rightarrow> []
      | s # rest \<Rightarrow>
          map deepCopyStep
            (if \<not> step_parallel s then [s]
             else filterFileConflicts p (take maxParallelSteps (takeWhile step_parallel (s # rest)))))"

lemma ready_steps_iff: "s \<in> set (ready_steps p) \<longleftrightarrow> s \<in> set (plan_steps p) \<and> is_ready p s"
  by (simp add: ready_steps_def)

lemma filterFileConflicts_subset: "set (filterFileConflicts p cs) \<subseteq> set cs"
  by (auto simp: filterFileConflicts_def Let_def dest: in_set_takeD)

lemma filterFileConflicts_length: "length (filterFileConflicts p cs) \<le> length cs"
  by (simp add: filterFileConflicts_def Let_def)

lemma filterFileConflicts_Nil: "filterFileConflicts p cs = [] \<longleftrightarrow> cs = []"
  by (cases cs) (simp_all add: filterFileConflicts_def Let_def)

lemma filterFileConflicts_safe:
  assumes "1 < length (filterFileConflicts p cs)" and "s \<in> set (filterFileConflicts p cs)"
  shows "\<not> conflicts p s"
proof (cases "plan_ledger p = [] \<or> executing_files p = []")
  case True
  then have "executing_files p = []"
  proof
    assume "plan_ledger p = []"
    then show ?thesis by (simp add: executing_files_def entry_files_def)
  qed
  then show ?thesis by (simp add: conflicts_def list_ex_iff)
next
  case False
  have "length cs > 1" using assms(1) filterFileConflicts_length [of p cs] by linarith
  with False assms show ?thesis by (simp add: filterFileConflicts_def Let_def split: if_splits)
qed

lemma NextReadySteps_cases:
  obtains (none) "ready_steps p = []" "NextReadySteps p = []"
  | (one) s rest where "ready_steps p = s # rest" "\<not> step_parallel s" "NextReadySteps p = [s]"
  | (many) s rest where "ready_steps p = s # rest" "step_parallel s"
      "NextReadySteps p =
         filterFileConflicts p (take maxParallelSteps (takeWhile step_parallel (ready_steps p)))"
proof (cases "ready_steps p")
  case Nil
  then show thesis by (intro none) (simp_all add: NextReadySteps_def)
next
  case (Cons s rest)
  show thesis
  proof (cases "step_parallel s")
    case True
    have "NextReadySteps p =
         filterFileConflicts p (take maxParallelSteps (takeWhile step_parallel (ready_steps p)))"
      unfolding NextReadySteps_def Cons list.case by (simp add: True map_idI)
    with Cons True show thesis by (rule many)
  next
    case False
    with Cons show thesis by (intro one) (simp_all add: NextReadySteps_def)
  qed
qed

lemma NextReadySteps_subset: "set (NextReadySteps p) \<subseteq> set (ready_steps p)"
proof (cases p rule: NextReadySteps_cases)
  case (many s rest)
  then show ?thesis
    unfolding many(3)
    by (intro subset_trans [OF filterFileConflicts_subset] subset_trans [OF set_take_subset])
       (rule subsetI, erule set_takeWhileD [THEN conjunct1])
next
  case none
  then show ?thesis by simp
next
  case (one s rest)
  show ?thesis unfolding one(1,3) by simp
qed

lemma NextReadySteps_ready:
  "s \<in> set (NextReadySteps p) \<Longrightarrow>
   s \<in> set (plan_steps p) \<and> step_status s = StatusPending \<and> (\<forall>d\<in>set (step_depends_on s). done_id p d)"
  using NextReadySteps_subset [of p] ready_steps_iff [of s p]
  by (simp add: is_ready_def list_all_iff subset_iff)

lemma NextReadySteps_batch:
  "length (NextReadySteps p) \<le> maxParallelSteps \<and>
   (1 < length (NextReadySteps p) \<longrightarrow>
      (\<forall>s\<in>set (NextReadySteps p). step_parallel s \<and> \<not> conflicts p s))"
proof (cases p rule: NextReadySteps_cases)
  case none
  then show ?thesis by simp
next
  case (one s rest)
  then show ?thesis by (simp add: maxParallelSteps_def)
next
  case (many s rest)
  let ?cs = "take maxParallelSteps (takeWhile step_parallel (ready_steps p))"
  have "length (filterFileConflicts p ?cs) \<le> maxParallelSteps"
    using filterFileConflicts_length [of p ?cs] by simp
  moreover have "step_parallel t" if "t \<in> set (filterFileConflicts p ?cs)" for t
    using subsetD [OF filterFileConflicts_subset that, THEN in_set_takeD] by (rule set_takeWhileD [THEN conjunct2])
  ultimately show ?thesis
    using many(3) filterFileConflicts_safe [of p ?cs] by simp
qed

lemma NextReadySteps_Nil_iff: "NextReadySteps p = [] \<longleftrightarrow> (\<forall>s\<in>set (plan_steps p). \<not> is_ready p s)"
proof -
  have "NextReadySteps p = [] \<longleftrightarrow> ready_steps p = []"
    by (cases p rule: NextReadySteps_cases)
       (simp_all add: filterFileConflicts_Nil maxParallelSteps_def)
  also have "\<dots> \<longleftrightarrow> (\<forall>s\<in>set (plan_steps p). \<not> is_ready p s)"
    by (simp add: ready_steps_def filter_empty_conv)
  finally show ?thesis .
qed

text \<open>
  No deadlock: where every step is pending or done and depends on earlier steps only, a pending
  step means that some step is ready.
\<close>

definition backward_deps :: "plan \<Rightarrow> bool" where
  "backward_deps p \<longleftrightarrow>
     (\<forall>s\<in>set (plan_steps p). \<forall>d\<in>set (step_depends_on s). 1 \<le> d \<and> d < step_id s)"

lemma first_pending_ready:
  assumes "plan_wf p" and "backward_deps p"
    and settled: "\<And>s. s \<in> set (plan_steps p) \<Longrightarrow> step_status s = StatusPending \<or> is_done s"
    and pending: "\<exists>s\<in>set (plan_steps p). step_status s = StatusPending"
  shows "\<exists>s\<in>set (plan_steps p). is_ready p s"
proof -
  let ?xs = "plan_steps p"
  let ?P = "\<lambda>k. k < length ?xs \<and> step_status (?xs ! k) = StatusPending"
  from pending have "\<exists>k. ?P k" by (metis in_set_conv_nth)
  then obtain k where k: "?P k" and least: "\<And>j. j < k \<Longrightarrow> \<not> ?P j"
    using exists_least_iff [of ?P] by blast
  from assms(1) have ids: "ids_in_order p" by (simp add: plan_wf_def)
  have "done_id p d" if d: "d \<in> set (step_depends_on (?xs ! k))" for d
  proof -
    have "1 \<le> d" "d < step_id (?xs ! k)"
      using assms(2) d k nth_mem unfolding backward_deps_def by blast+
    then have "1 \<le> d" "d < int k + 1" using ids_in_order_nth [OF ids] k by simp_all
    then obtain j where j: "j < k" "d = int j + 1"
      by (intro that [of "nat (d - 1)"]) simp_all
    then have l: "j < length ?xs" using k by simp
    then have "is_done (?xs ! j)" using settled [of "?xs ! j"] least [OF j(1)] by simp
    moreover have "step_id (?xs ! j) = d" using ids_in_order_nth [OF ids l] j(2) by simp
    ultimately show ?thesis unfolding done_id_def list_ex_iff using l nth_mem by blast
  qed
  then have "is_ready p (?xs ! k)" using k by (simp add: is_ready_def list_all_iff)
  with k show ?thesis using nth_mem by blast
qed

subsection \<open>Conditional steps\<close>

text \<open>
  The conversions of \<open>fmt.Sscanf(cond, "step_%d_%s", &id, &kind)\<close>: white space before a
  conversion is skipped (a line break is an error), the number is an optional sign and a run of
  digits that must fit 64 bits, the word runs up to the next white space. The result is the two
  values when both conversions succeeded.
\<close>

fun scan_skip :: "string \<Rightarrow> string option" where
  "scan_skip [] = Some []"
| "scan_skip (c # s) = (if c = CHR 0x0A then None
                        else if is_space c then scan_skip s else Some (c # s))"

definition is_digit :: "char \<Rightarrow> bool" where
  "is_digit c \<longleftrightarrow> 48 \<le> (of_char c :: int) \<and> (of_char c :: int) \<le> 57"

definition digits_value :: "string \<Rightarrow> int" where
  "digits_value ds = foldl (\<lambda>n c. 10 * n + (of_char c - 48)) 0 ds"

definition scan_int :: "string \<Rightarrow> (int \<times> string) option" where
  "scan_int s =
     (case scan_skip s of
        None \<Rightarrow> None
      | Some t \<Rightarrow>
          let neg = (t \<noteq> [] \<and> hd t = CHR ''-'');
              u = (if t \<noteq> [] \<and> (hd t = CHR ''-'' \<or> hd t = CHR ''+'') then tl t else t);
              ds = takeWhile is_digit u;
              v = (if neg then - digits_value ds else digits_value ds)
          in if ds = [] \<or> v < - (2 ^ 63) \<or> 2 ^ 63 \<le> v then None else Some (v, dropWhile is_digit u))"

definition scan_word :: "string \<Rightarrow> string option" where
  "scan_word s =
     (case scan_skip s of
        None \<Rightarrow> None
      | Some t \<Rightarrow> if t = [] then None else Some (takeWhile (\<lambda>c. \<not> is_space c) t))"

definition scan_condition :: "string \<Rightarrow> (int \<times> string) option" where
  "scan_condition cond =
     (if \<not> has_prefix cond ''step_'' then None
      else case scan_int (drop 5 cond) of
             None \<Rightarrow> None
           | Some (v, rest) \<Rightarrow>
               if rest = [] \<or> hd rest \<noteq> CHR ''_'' then None
               else map_option (\<lambda>w. (v, w)) (scan_word (tl rest)))"

definition ShouldSkip :: "step \<Rightarrow> plan \<Rightarrow> bool" where
  "ShouldSkip s p =
     (if step_condition s = [] then False
      else case scan_condition (trim_space (step_condition s)) of
             None \<Rightarrow> False
           | Some (refID, condType) \<Rightarrow>
               (case find (has_id refID) (plan_steps p) of
                  None \<Rightarrow> True
                | Some refStep \<Rightarrow>
                    if condType = ''failed'' then step_status refStep \<noteq> StatusFailed
                    else if condType = ''succeeded'' then step_status refStep \<noteq> StatusCompleted
                    else False))"

text \<open>Reading back the format that conditions are written in.\<close>


lemma digit_char_value:
  assumes "0 \<le> n" and "n < 10"
  shows "is_digit (digit_char n) \<and> (of_char (digit_char n) :: int) = 48 + n"
proof -
  from assms have "n = 0 \<or> n = 1 \<or> n = 2 \<or> n = 3 \<or> n = 4 \<or> n = 5 \<or> n = 6 \<or> n = 7 \<or> n = 8 \<or> n = 9"
    by arith
  then show ?thesis by (elim disjE) (simp_all add: digit_char_def is_digit_def)
qed

lemma digits_value_snoc: "digits_value (ds @ [c]) = 10 * digits_value ds + (of_char c - 48)"
  by (simp add: digits_value_def)

lemma itoa_abs_digits:
  "0 \<le> n \<Longrightarrow> itoa_abs n \<noteq> [] \<and> list_all is_digit (itoa_abs n) \<and> digits_value (itoa_abs n) = n"
proof (induction n rule: itoa_abs.induct)
  case (1 n)
  show ?case
  proof (cases "n < 10")
    case True
    with 1 have "itoa_abs n = [digit_char n]" by (subst itoa_abs.simps) simp
    with True 1 show ?thesis by (simp add: digit_char_value digits_value_def)
  next
    case False
    then have e: "itoa_abs n = itoa_abs (n div 10) @ [digit_char (n mod 10)]"
      by (subst itoa_abs.simps) simp
    have "list_all is_digit (itoa_abs (n div 10)) \<and> digits_value (itoa_abs (n div 10)) = n div 10"
      using 1 False by simp
    then show ?thesis
      unfolding e using digit_char_value [of "n mod 10"] by (simp add: digits_value_snoc)
  qed
qed

lemma digit_not_special:
  "is_digit c \<Longrightarrow> \<not> is_space c \<and> c \<noteq> CHR ''-'' \<and> c \<noteq> CHR ''+'' \<and> c \<noteq> CHR 0x0A"
  by (auto simp: is_digit_def is_space_def)

lemma scan_skip_id: "s \<noteq> [] \<Longrightarrow> \<not> is_space (hd s) \<Longrightarrow> hd s \<noteq> CHR 0x0A \<Longrightarrow> scan_skip s = Some s"
  by (cases s) simp_all

lemma takeWhile_digits:
  "list_all is_digit ds \<Longrightarrow> takeWhile is_digit (ds @ CHR ''_'' # r) = ds \<and>
     dropWhile is_digit (ds @ CHR ''_'' # r) = CHR ''_'' # r"
  by (induction ds) (simp_all add: is_digit_def)

lemma scan_int_itoa:
  assumes "- (2 ^ 63) \<le> n" and "n < 2 ^ 63"
  shows "scan_int (itoa n @ CHR ''_'' # r) = Some (n, CHR ''_'' # r)"
proof -
  note d = itoa_abs_digits [of "\<bar>n\<bar>"]
  obtain c cs where c: "itoa_abs \<bar>n\<bar> = c # cs" using d by (cases "itoa_abs \<bar>n\<bar>") auto
  have cd: "is_digit c" using d c by simp
  note sp = digit_not_special [OF cd]
  have tw: "takeWhile is_digit (c # cs @ CHR ''_'' # r) = c # cs"
       "dropWhile is_digit (c # cs @ CHR ''_'' # r) = CHR ''_'' # r"
    using takeWhile_digits [of "c # cs" r] d c by simp_all
  have v: "digits_value (c # cs) = \<bar>n\<bar>" using d c by simp
  show ?thesis
  proof (cases "n < 0")
    case True
    then have e: "itoa n = CHR ''-'' # c # cs" using c by (simp add: itoa_def)
    have "scan_skip (itoa n @ CHR ''_'' # r) = Some (itoa n @ CHR ''_'' # r)"
      by (rule scan_skip_id) (simp_all add: e is_space_def)
    then show ?thesis
      using True assms v tw by (simp add: scan_int_def Let_def e del: takeWhile.simps dropWhile.simps)
  next
    case False
    then have e: "itoa n = c # cs" using c by (simp add: itoa_def)
    have "scan_skip (itoa n @ CHR ''_'' # r) = Some (itoa n @ CHR ''_'' # r)"
      by (rule scan_skip_id) (use sp in \<open>simp_all add: e\<close>)
    then show ?thesis
      using False assms v tw sp by (simp add: scan_int_def Let_def e del: takeWhile.simps dropWhile.simps)
  qed
qed

lemma scan_condition_format:
  assumes "- (2 ^ 63) \<le> n" and "n < 2 ^ 63" and "w \<noteq> []" and "\<not> list_ex is_space w"
  shows "scan_condition (''step_'' @ itoa n @ ''_'' @ w) = Some (n, w)"
proof -
  have p: "has_prefix (''step_'' @ x) ''step_''" for x by (simp add: has_prefix_iff)
  have nl: "is_space (CHR 0x0A)" by (simp add: is_space_def)
  have "scan_skip w = Some w"
  proof (rule scan_skip_id)
    show "\<not> is_space (hd w)" using assms(3,4) by (cases w) simp_all
    then show "hd w \<noteq> CHR 0x0A" using nl by metis
  qed (rule assms(3))
  moreover have "takeWhile (\<lambda>c. \<not> is_space c) w = w"
    using assms(4) by (simp add: takeWhile_eq_all_conv list_ex_iff)
  ultimately have "scan_word w = Some w" using assms(3) by (simp add: scan_word_def)
  then show ?thesis
    using scan_int_itoa [OF assms(1,2), of w] p [of "itoa n @ ''_'' @ w"] by (simp add: scan_condition_def)
qed

lemma scan_condition_examples:
  "scan_condition ''step_3_failed'' = Some (3, ''failed'')"
  "scan_condition ''step_12_succeeded later'' = Some (12, ''succeeded'')"
  "scan_condition ''step_x_failed'' = None"
  "scan_condition ''step_3'' = None"
  by code_simp+

subsection \<open>Classifying errors\<close>

datatype error_category = ErrorTransient | ErrorLogic | ErrorFatal | ErrorUnknown

fun ErrorCategory_String :: "error_category \<Rightarrow> string" where
  "ErrorCategory_String ErrorTransient = ''transient''"
| "ErrorCategory_String ErrorLogic = ''logic''"
| "ErrorCategory_String ErrorFatal = ''fatal''"
| "ErrorCategory_String ErrorUnknown = ''unknown''"

text \<open>What the classification asks of a Go error: its chain and its text.\<close>

record go_error =
  err_deadline_exceeded :: bool
  err_canceled :: bool
  err_is_net :: bool
  err_text :: string

definition transient_patterns :: "string list" where
  "transient_patterns =
     [''rate limit'', ''timeout'', ''connection refused'', ''eof'', ''503'', ''502'', ''429'']"

definition fatal_patterns :: "string list" where
  "fatal_patterns = [''permission denied'', ''not found'', ''no such file'', ''access denied'', ''forbidden'']"

definition logic_patterns :: "string list" where
  "logic_patterns = [''validation error'', ''invalid argument'', ''wrong'', ''syntax error'', ''parse error'']"

definition ClassifyError :: "go_error option \<Rightarrow> string \<Rightarrow> error_category" where
  "ClassifyError err errMsg =
     (if (case err of None \<Rightarrow> False
          | Some e \<Rightarrow> err_deadline_exceeded e \<or> err_canceled e \<or> err_is_net e) then ErrorTransient
      else let msg = (case err of Some e \<Rightarrow> if errMsg = [] then err_text e else errMsg | None \<Rightarrow> errMsg);
               lower = to_lower msg
           in if list_ex (str_contains lower) transient_patterns then ErrorTransient
              else if list_ex (str_contains lower) fatal_patterns then ErrorFatal
              else if list_ex (str_contains lower) logic_patterns then ErrorLogic
              else ErrorUnknown)"

end
