(* ===== verification/PlanStore.thy ===== *)
theory PlanStore
  imports PlanSched
begin

section \<open>The plan store\<close>

text \<open>
  \<^verbatim>\<open>internal/engine/plan/store.go\<close> and the file-name check of
  \<^verbatim>\<open>internal/engine/fileutil/atomic.go\<close> it rests on. The directory of the store is a list of files
  in the order of \<open>os.ReadDir\<close> (by name): a name without \<open>.json\<close> and what reading and decoding the
  file gives (\<open>None\<close> for a file that cannot be read or decoded). \<open>AtomicWrite\<close> either replaces the
  file or leaves it alone; which of the two is the argument \<open>io\<close> of a write.
\<close>

subsection \<open>File names\<close>

definition name_char :: "char \<Rightarrow> bool" where
  "name_char c \<longleftrightarrow>
     (let n = (of_char c :: nat)
      in 97 \<le> n \<and> n \<le> 122 \<or> 65 \<le> n \<and> n \<le> 90 \<or> 48 \<le> n \<and> n \<le> 57 \<or>
         c = CHR ''-'' \<or> c = CHR ''_'' \<or> c = CHR ''.'')"

definition upper_char :: "char \<Rightarrow> char" where
  "upper_char c =
     (if 97 \<le> (of_char c :: nat) \<and> (of_char c :: nat) \<le> 122 then char_of ((of_char c :: nat) - 32) else c)"

definition device_names :: "string list" where
  "device_names =
     [''CON'', ''PRN'', ''AUX'', ''NUL'',
      ''COM1'', ''COM2'', ''COM3'', ''COM4'', ''COM5'', ''COM6'', ''COM7'', ''COM8'', ''COM9'',
      ''LPT1'', ''LPT2'', ''LPT3'', ''LPT4'', ''LPT5'', ''LPT6'', ''LPT7'', ''LPT8'', ''LPT9'']"

definition SafeFilenameComponent :: "string \<Rightarrow> bool" where
  "SafeFilenameComponent v =
     (if v = [] \<or> 240 < length v \<or> v = ''.'' \<or> v = ''..'' \<or> last v = CHR ''.'' then False
      else if \<not> list_all name_char v then False
      else if list_ex (\<lambda>c. c = CHR ''/'' \<or> c = CHR 0x5C) v then False
      else map upper_char (takeWhile (\<lambda>c. c \<noteq> CHR ''.'') v) \<notin> set device_names)"

lemma SafeFilenameComponent_confined:
  assumes "SafeFilenameComponent v"
  shows "path_clean (''d/'' @ v @ ''.json'') = ''d/'' @ v @ ''.json''" and "CHR ''/'' \<notin> set v"
proof -
  from assms show n: "CHR ''/'' \<notin> set v"
    by (auto simp: SafeFilenameComponent_def list_ex_iff split: if_splits)
  have "split_on (CHR ''/'') w = [w]" if "CHR ''/'' \<notin> set w" for w :: string
    using that by (induction w) auto
  then have "split_on (CHR ''/'') (''d/'' @ v @ ''.json'') = [''d'', v @ ''.json'']"
    using n by simp
  then show "path_clean (''d/'' @ v @ ''.json'') = ''d/'' @ v @ ''.json''"
    by (auto simp: path_clean_def Let_def append_eq_Cons_conv)
qed

subsection \<open>The store\<close>

type_synonym plan_dir = "(string \<times> plan option) list"

record plan_info =
  pi_id :: string
  pi_title :: string
  pi_status :: status
  pi_step_count :: nat
  pi_completed :: nat
  pi_progress :: "nat \<times> nat"
  pi_created :: gotime
  pi_updated :: gotime
  pi_work_dir :: string
  pi_request :: string
  pi_resumable :: bool

text \<open>Writing a file: in place when it exists, else at its position in the order of names.\<close>

fun char_less :: "string \<Rightarrow> string \<Rightarrow> bool" where
  "char_less s [] = False"
| "char_less [] (y # ys) = True"
| "char_less (x # xs) (y # ys) =
     ((of_char x :: nat) < of_char y \<or> x = y \<and> char_less xs ys)"

fun dir_write :: "string \<Rightarrow> 'a \<Rightarrow> (string \<times> 'a) list \<Rightarrow> (string \<times> 'a) list" where
  "dir_write n c [] = [(n, c)]"
| "dir_write n c ((m, d) # fs) =
     (if n = m then (n, c) # fs else if char_less n m then (n, c) # (m, d) # fs
      else (m, d) # dir_write n c fs)"

definition dir_remove :: "string \<Rightarrow> (string \<times> 'a) list \<Rightarrow> (string \<times> 'a) list" where
  "dir_remove n fs = filter (\<lambda>(m, d). m \<noteq> n) fs"

definition Store_Save :: "bool \<Rightarrow> plan \<Rightarrow> plan_dir \<Rightarrow> plan_error option \<times> plan_dir" where
  "Store_Save io p d =
     (if \<not> SafeFilenameComponent (plan_id p) then (Some (InvalidStoreId (plan_id p)), d)
      else if io then (None, dir_write (plan_id p) (Some p) d)
      else (Some (StoreError ''failed to write plan''), d))"

definition Store_Load :: "string \<Rightarrow> plan_dir \<Rightarrow> plan_error + plan" where
  "Store_Load pid d =
     (if \<not> SafeFilenameComponent pid then Inl (InvalidStoreId pid)
      else case map_of d pid of
             None \<Rightarrow> Inl (PlanNotFound pid)
           | Some None \<Rightarrow> Inl (StoreError ''failed to read plan'')
           | Some (Some p) \<Rightarrow>
               if plan_id p \<noteq> pid then Inl (PlanIdMismatch pid (plan_id p))
               else Inr (EnsureStepContracts p))"

definition isResumable :: "plan \<Rightarrow> bool" where
  "isResumable p =
     (if plan_status p = StatusPaused then True
      else if plan_status p = StatusInProgress \<and>
              list_ex (\<lambda>s. step_status s = StatusPending \<or> step_status s = StatusPaused) (plan_steps p) then True
      else if plan_status p = StatusFailed \<and>
              list_ex (\<lambda>s. step_status s = StatusPending \<or> step_status s = StatusPaused \<or>
                           step_status s = StatusFailed) (plan_steps p) then True
      else False)"

text \<open>The plans that a scan of the directory accepts, in the order of the scan.\<close>

definition scan_plans :: "plan_dir \<Rightarrow> plan list" where
  "scan_plans d = List.map_filter (\<lambda>(n, c).
     if \<not> SafeFilenameComponent n then None
     else case c of None \<Rightarrow> None | Some p \<Rightarrow> if plan_id p \<noteq> n then None else Some p) d"

definition other_dir :: "string \<Rightarrow> string \<Rightarrow> bool" where
  "other_dir workDir planDir \<longleftrightarrow>
     workDir \<noteq> [] \<and> planDir \<noteq> [] \<and> path_clean planDir \<noteq> path_clean workDir"

fun latest_plan :: "plan option \<Rightarrow> gotime \<Rightarrow> plan list \<Rightarrow> plan option" where
  "latest_plan best t [] = best"
| "latest_plan best t (p # ps) =
     (if t < plan_updated p then latest_plan (Some p) (plan_updated p) ps else latest_plan best t ps)"

definition Store_LoadLast :: "string \<Rightarrow> plan_dir \<Rightarrow> plan_error + plan" where
  "Store_LoadLast workDir d =
     (let candidates = filter (\<lambda>p. isResumable p \<and> \<not> other_dir workDir (plan_work_dir p))
            (map EnsureStepContracts (scan_plans d))
      in case latest_plan None zero_time candidates of
           None \<Rightarrow> Inl NoResumablePlan
         | Some p \<Rightarrow> Inr (EnsureStepContracts p))"

definition truncateString :: "string \<Rightarrow> nat \<Rightarrow> string" where
  "truncateString s maxLen =
     (if length s \<le> maxLen then s
      else if maxLen \<le> 3 then take maxLen s
      else take (maxLen - 3) s @ ''...'')"

definition info_of :: "plan \<Rightarrow> plan_info" where
  "info_of p = \<lparr>pi_id = plan_id p, pi_title = plan_title p, pi_status = plan_status p,
     pi_step_count = length (plan_steps p), pi_completed = CompletedCount p, pi_progress = Progress p,
     pi_created = plan_created p, pi_updated = plan_updated p, pi_work_dir = plan_work_dir p,
     pi_request = truncateString (plan_request p) 100, pi_resumable = isResumable p\<rparr>"

text \<open>Most recent first; \<open>sort.Slice\<close> leaves the order of equal times open, the model keeps it.\<close>

definition Store_List :: "plan_dir \<Rightarrow> plan_info list" where
  "Store_List d = sort_key (\<lambda>i. - pi_updated i) (map info_of (scan_plans d))"

definition Store_ListResumable :: "string \<Rightarrow> plan_dir \<Rightarrow> plan_info list" where
  "Store_ListResumable workDir d =
     filter (\<lambda>i. pi_resumable i \<and> \<not> other_dir workDir (pi_work_dir i) \<and>
                 \<not> (workDir \<noteq> [] \<and> pi_work_dir i = [])) (Store_List d)"

definition Store_Delete :: "bool \<Rightarrow> string \<Rightarrow> plan_dir \<Rightarrow> plan_error option \<times> plan_dir" where
  "Store_Delete io pid d =
     (if \<not> SafeFilenameComponent pid then (Some (InvalidStoreId pid), d)
      else if map_of d pid = None then (None, d)
      else if io then (None, dir_remove pid d)
      else (Some (StoreError ''failed to delete plan''), d))"

definition expired :: "gotime \<Rightarrow> duration \<Rightarrow> plan \<Rightarrow> bool" where
  "expired now maxAge p \<longleftrightarrow>
     plan_updated p < (if plan_status p = StatusPaused then now - maxAge * 3 else now - maxAge)"

definition cleanup_removes :: "gotime \<Rightarrow> duration \<Rightarrow> string \<times> plan option \<Rightarrow> bool" where
  "cleanup_removes now maxAge f =
     (case f of (n, c) \<Rightarrow> SafeFilenameComponent n \<and>
        (case c of None \<Rightarrow> False | Some p \<Rightarrow> plan_id p = n \<and> expired now maxAge p))"

text \<open>\<open>io\<close> says of each file whether \<open>os.Remove\<close> succeeds on it.\<close>

definition Store_Cleanup :: "(string \<Rightarrow> bool) \<Rightarrow> gotime \<Rightarrow> duration \<Rightarrow> plan_dir \<Rightarrow> nat \<times> plan_dir" where
  "Store_Cleanup io now maxAge d =
     (length (filter (\<lambda>f. cleanup_removes now maxAge f \<and> io (fst f)) d),
      filter (\<lambda>f. \<not> (cleanup_removes now maxAge f \<and> io (fst f))) d)"

definition Store_Exists :: "string \<Rightarrow> plan_dir \<Rightarrow> bool" where
  "Store_Exists pid d \<longleftrightarrow> SafeFilenameComponent pid \<and> map_of d pid \<noteq> None"

subsection \<open>The store as a map\<close>

lemma map_of_dir_write: "map_of (dir_write n c d) = (map_of d)(n \<mapsto> c)"
  by (induction n c d rule: dir_write.induct) auto

lemma map_of_dir_remove: "map_of (dir_remove n d) = (map_of d)(n := None)"
  by (induction d) (auto simp: dir_remove_def)

text \<open>
  The contract that the manager relies on: what a save makes of a later load, and that operations
  on one plan leave the others alone.
\<close>

locale keyed_store =
  fixes save :: "bool \<Rightarrow> 'p \<Rightarrow> 'd \<Rightarrow> 'e option \<times> 'd"
    and load :: "string \<Rightarrow> 'd \<Rightarrow> 'e + 'p"
    and delete :: "bool \<Rightarrow> string \<Rightarrow> 'd \<Rightarrow> 'e option \<times> 'd"
    and key :: "'p \<Rightarrow> string"
    and normalise :: "'p \<Rightarrow> 'p"
  assumes load_save: "fst (save io p d) = None \<Longrightarrow> load (key p) (snd (save io p d)) = Inr (normalise p)"
    and load_save_other: "k \<noteq> key p \<Longrightarrow> load k (snd (save io p d)) = load k d"
    and save_error: "fst (save io p d) \<noteq> None \<Longrightarrow> snd (save io p d) = d"
    and load_delete: "fst (delete io k d) = None \<Longrightarrow> \<exists>e. load k (snd (delete io k d)) = Inl e"
    and load_delete_other: "j \<noteq> k \<Longrightarrow> load j (snd (delete io k d)) = load j d"
begin

lemma last_save_wins:
  assumes "fst (save io p d) = None" and "key q \<noteq> key p"
  shows "load (key p) (snd (save io' q (snd (save io p d)))) = Inr (normalise p)"
  using load_save_other [of "key p" q io' "snd (save io p d)"] load_save [OF assms(1)] assms(2) by simp

lemma failed_save_keeps:
  assumes "fst (save io p d) = None" and "fst (save io' q (snd (save io p d))) \<noteq> None"
  shows "load (key p) (snd (save io' q (snd (save io p d)))) = Inr (normalise p)"
  using save_error [OF assms(2)] load_save [OF assms(1)] by simp

lemma deleted_stays_gone:
  assumes "fst (delete io k d) = None" and "key p \<noteq> k"
  shows "\<exists>e. load k (snd (save io' p (snd (delete io k d)))) = Inl e"
  using load_delete [OF assms(1)] load_save_other [of k p io' "snd (delete io k d)"] assms(2) by simp

end

interpretation plan_store: keyed_store Store_Save Store_Load Store_Delete plan_id EnsureStepContracts
proof
  show "Store_Load (plan_id p) (snd (Store_Save io p d)) = Inr (EnsureStepContracts p)"
    if "fst (Store_Save io p d) = None" for io p d
    using that by (simp add: Store_Save_def Store_Load_def map_of_dir_write split: if_splits)
  show "Store_Load k (snd (Store_Save io p d)) = Store_Load k d" if "k \<noteq> plan_id p" for k io p d
    using that by (simp add: Store_Save_def Store_Load_def map_of_dir_write)
  show "snd (Store_Save io p d) = d" if "fst (Store_Save io p d) \<noteq> None" for io p d
    using that by (simp add: Store_Save_def split: if_splits)
  show "\<exists>e. Store_Load k (snd (Store_Delete io k d)) = Inl e"
    if "fst (Store_Delete io k d) = None" for io k d
    using that by (simp add: Store_Delete_def Store_Load_def map_of_dir_remove split: if_splits)
  show "Store_Load j (snd (Store_Delete io k d)) = Store_Load j d" if "j \<noteq> k" for j k io d
    using that by (simp add: Store_Delete_def Store_Load_def map_of_dir_remove)
qed

subsection \<open>The most recent resumable plan\<close>

lemma latest_plan_cases:
  "latest_plan best t ps = best \<and> (\<forall>p\<in>set ps. plan_updated p \<le> t) \<or>
   (\<exists>p\<in>set ps. latest_plan best t ps = Some p \<and> t < plan_updated p \<and>
       (\<forall>q\<in>set ps. plan_updated q \<le> plan_updated p))"
proof (induction best t ps rule: latest_plan.induct)
  case (1 best t)
  then show ?case by simp
next
  case (2 best t p ps)
  show ?case
  proof (cases "t < plan_updated p")
    case True
    from "2.IH"(1) [OF True] show ?thesis
    proof
      assume a: "latest_plan (Some p) (plan_updated p) ps = Some p \<and>
                 (\<forall>q\<in>set ps. plan_updated q \<le> plan_updated p)"
      show ?thesis by (rule disjI2, rule bexI [of _ p]) (simp_all add: True a)
    next
      assume "\<exists>q\<in>set ps. latest_plan (Some p) (plan_updated p) ps = Some q \<and>
                 plan_updated p < plan_updated q \<and> (\<forall>r\<in>set ps. plan_updated r \<le> plan_updated q)"
      then obtain q where q: "q \<in> set ps" "latest_plan (Some p) (plan_updated p) ps = Some q"
        "plan_updated p < plan_updated q" "\<forall>r\<in>set ps. plan_updated r \<le> plan_updated q" by blast
      show ?thesis by (rule disjI2, rule bexI [of _ q]) (use q True in simp_all)
    qed
  next
    case False
    from "2.IH"(2) [OF False] False show ?thesis
    proof (elim disjE)
      assume "latest_plan best t ps = best \<and> (\<forall>q\<in>set ps. plan_updated q \<le> t)"
      with False show ?thesis by simp
    next
      assume "\<exists>q\<in>set ps. latest_plan best t ps = Some q \<and> t < plan_updated q \<and>
                (\<forall>r\<in>set ps. plan_updated r \<le> plan_updated q)"
      then obtain q where q: "q \<in> set ps" "latest_plan best t ps = Some q"
        "t < plan_updated q" "\<forall>r\<in>set ps. plan_updated r \<le> plan_updated q" by blast
      show ?thesis by (rule disjI2, rule bexI [of _ q]) (use q False in simp_all)
    qed
  qed
qed

lemma EnsureStepContracts_idem: "EnsureStepContracts (EnsureStepContracts p) = EnsureStepContracts p"
  by (simp add: EnsureStepContracts_def comp_def EnsureContractDefaults_id EnsureContractDefaults_normal)

lemma EnsureStepContracts_frame [simp]:
  "plan_updated (EnsureStepContracts p) = plan_updated p"
  "plan_work_dir (EnsureStepContracts p) = plan_work_dir p"
  "plan_status (EnsureStepContracts p) = plan_status p"
  "plan_id (EnsureStepContracts p) = plan_id p"
  "plan_ledger (EnsureStepContracts p) = plan_ledger p"
  "plan_lifecycle (EnsureStepContracts p) = plan_lifecycle p"
  by (simp_all add: EnsureStepContracts_def)

lemma isResumable_EnsureStepContracts [simp]: "isResumable (EnsureStepContracts p) = isResumable p"
  by (simp add: isResumable_def EnsureStepContracts_def list_ex_iff)

definition eligible :: "string \<Rightarrow> plan_dir \<Rightarrow> plan \<Rightarrow> bool" where
  "eligible workDir d p \<longleftrightarrow>
     p \<in> set (scan_plans d) \<and> isResumable p \<and> \<not> other_dir workDir (plan_work_dir p)"

lemma LoadLast_latest:
  assumes "Store_LoadLast workDir d = Inr r"
  shows "\<exists>p. r = EnsureStepContracts p \<and> eligible workDir d p \<and>
             (\<forall>q. eligible workDir d q \<longrightarrow> plan_updated q \<le> plan_updated p)"
proof -
  let ?cs = "filter (\<lambda>p. isResumable p \<and> \<not> other_dir workDir (plan_work_dir p))
            (map EnsureStepContracts (scan_plans d))"
  from assms obtain c where c: "latest_plan None zero_time ?cs = Some c" "r = EnsureStepContracts c"
    by (auto simp: Store_LoadLast_def Let_def split: option.splits)
  from latest_plan_cases [of None zero_time ?cs] c(1)
  have cm: "c \<in> set ?cs" and mx: "\<forall>q\<in>set ?cs. plan_updated q \<le> plan_updated c"
    by force+
  from cm obtain p where p: "p \<in> set (scan_plans d)" "c = EnsureStepContracts p"
    "isResumable p" "\<not> other_dir workDir (plan_work_dir p)"
    by (simp add: image_iff) (metis EnsureStepContracts_frame(2) isResumable_EnsureStepContracts)
  have "plan_updated q \<le> plan_updated p" if "eligible workDir d q" for q
  proof -
    have "EnsureStepContracts q \<in> set ?cs" using that by (simp add: eligible_def)
    with mx p(2) have "plan_updated (EnsureStepContracts q) \<le> plan_updated c" by blast
    with p(2) show ?thesis by simp
  qed
  moreover have "r = EnsureStepContracts p" using c(2) p(2) by (simp add: EnsureStepContracts_idem)
  ultimately show ?thesis using p unfolding eligible_def by blast
qed

end
