(* ===== verification/BoundedLog.thy ===== *)
theory BoundedLog
  imports Prelude
begin

section \<open>Bounded logs\<close>

text \<open>
  The interface of the histories that forget their oldest entry: the checkpoints of a plan, the
  change tracker and the redo stack all append at the end and keep at most \<open>cap\<close> entries. The
  lemmas say what such a log holds after any number of appends.
\<close>

lemma last_n_append_last_n: "last_n n (last_n n xs @ ys) = last_n n (xs @ ys)"
proof (cases "length xs \<le> n")
  case True
  then show ?thesis by (simp add: last_n_all)
next
  case False
  then show ?thesis by (simp add: last_n_def add.commute)
qed

locale bounded_log =
  fixes push :: "'a \<Rightarrow> 'l \<Rightarrow> 'l"
    and entries :: "'l \<Rightarrow> 'a list"
    and cap :: "'l \<Rightarrow> nat"
    and ok :: "'l \<Rightarrow> bool"
  assumes entries_push: "ok l \<Longrightarrow> entries (push x l) = last_n (cap l) (entries l @ [x])"
    and cap_push: "ok l \<Longrightarrow> cap (push x l) = cap l"
    and ok_push: "ok l \<Longrightarrow> ok (push x l)"
    and ok_bound: "ok l \<Longrightarrow> 0 < cap l \<and> length (entries l) \<le> cap l"
begin

lemma pushes:
  "ok l \<Longrightarrow> ok (foldl (\<lambda>l x. push x l) l xs) \<and> cap (foldl (\<lambda>l x. push x l) l xs) = cap l \<and>
     entries (foldl (\<lambda>l x. push x l) l xs) = last_n (cap l) (entries l @ xs)"
proof (induction xs arbitrary: l)
  case Nil
  then show ?case using ok_bound [of l] by (simp add: last_n_all)
next
  case (Cons x xs)
  from Cons.IH [OF ok_push [OF Cons.prems, of x]] show ?case
    using last_n_append_last_n [of "cap l" "entries l @ [x]" xs]
    by (simp add: cap_push [OF Cons.prems] entries_push [OF Cons.prems])
qed

lemma pushes_bounded: "ok l \<Longrightarrow> length (entries (foldl (\<lambda>l x. push x l) l xs)) \<le> cap l"
  using pushes [of l xs] by simp

lemma newest: "ok l \<Longrightarrow> entries (push x l) \<noteq> [] \<and> last (entries (push x l)) = x"
proof -
  assume "ok l"
  then have "x \<in> set (entries (push x l))" and "0 < cap l"
    using ok_bound [of l] by (simp_all add: entries_push last_in_last_n)
  then show ?thesis
    using \<open>ok l\<close> by (auto simp: entries_push last_n_def)
qed

lemma room: "ok l \<Longrightarrow> length (entries l) < cap l \<Longrightarrow> entries (push x l) = entries l @ [x]"
  by (simp add: entries_push last_n_all)

end

text \<open>The two ways the source writes it: trim after appending, or make room before.\<close>

lemma last_n_snoc:
  "0 < n \<Longrightarrow> length xs \<le> n \<Longrightarrow> last_n n (xs @ [x]) = (if length xs = n then tl xs else xs) @ [x]"
  by (cases xs) (auto simp: last_n_def Suc_diff_le)

lemma trim_after:
  "0 < n \<Longrightarrow> length xs \<le> n \<Longrightarrow>
   (if n < length (xs @ [x]) then tl (xs @ [x]) else xs @ [x]) = last_n n (xs @ [x])"
  using last_n_snoc [of n xs x] by (cases xs) (auto split: if_splits)

lemma room_before:
  "0 < n \<Longrightarrow> length xs \<le> n \<Longrightarrow> (if n \<le> length xs then tl xs else xs) @ [x] = last_n n (xs @ [x])"
  by (auto simp: last_n_snoc)

end
