(* ===== verification/PlanUndo.thy ===== *)
theory PlanUndo
  imports PlanStore BoundedLog
begin

section \<open>Checkpoints of a plan\<close>

text \<open>
  \<^verbatim>\<open>internal/engine/plan/undo.go\<close>: the bounded history of deep copies that
  \<open>ManagerUndoExtension\<close> keeps. The plan it reads is an argument; the manager passes its current one.
\<close>

record undo_state =
  us_plan_id :: string
  us_plan_title :: string
  us_description :: string
  us_request :: string
  us_steps :: "step list"
  us_timestamp :: gotime
  us_executed :: "int list"

record undo_ext =
  ux_history :: "undo_state list"
  ux_max_history :: int

definition NewManagerUndoExtension :: "int \<Rightarrow> undo_ext" where
  "NewManagerUndoExtension maxHistory =
     \<lparr>ux_history = [], ux_max_history = (if maxHistory \<le> 0 then 10 else maxHistory)\<rparr>"

definition checkpoint_of :: "gotime \<Rightarrow> plan \<Rightarrow> undo_state" where
  "checkpoint_of now p = \<lparr>us_plan_id = plan_id p, us_plan_title = plan_title p,
     us_description = plan_description p, us_request = plan_request p,
     us_steps = map deepCopyStep (plan_steps p), us_timestamp = now, us_executed = []\<rparr>"

definition push_checkpoint :: "undo_state \<Rightarrow> undo_ext \<Rightarrow> undo_ext" where
  "push_checkpoint st e =
     (let h = ux_history e @ [st]
      in e\<lparr>ux_history := (if ux_max_history e < int (length h) then tl h else h)\<rparr>)"

definition SaveCheckpoint :: "gotime \<Rightarrow> plan option \<Rightarrow> undo_ext \<Rightarrow> plan_error option \<times> undo_ext" where
  "SaveCheckpoint now current e =
     (case current of
        None \<Rightarrow> (Some NoPlanToCheckpoint, e)
      | Some p \<Rightarrow> (None, push_checkpoint (checkpoint_of now p) e))"

definition RecordExecutedStep :: "int \<Rightarrow> undo_ext \<Rightarrow> undo_ext" where
  "RecordExecutedStep i e =
     (if ux_history e = [] then e
      else e\<lparr>ux_history := butlast (ux_history e) @
               [(last (ux_history e))\<lparr>us_executed := us_executed (last (ux_history e)) @ [i]\<rparr>]\<rparr>)"

definition GetLastCheckpoint :: "undo_ext \<Rightarrow> undo_state option" where
  "GetLastCheckpoint e = (if ux_history e = [] then None else Some (last (ux_history e)))"

definition GetHistory :: "undo_ext \<Rightarrow> undo_state list" where
  "GetHistory e = ux_history e"

definition ClearHistory :: "undo_ext \<Rightarrow> undo_ext" where
  "ClearHistory e = e\<lparr>ux_history := []\<rparr>"

definition PlanCanUndo :: "undo_ext \<Rightarrow> bool" where
  "PlanCanUndo e \<longleftrightarrow> 0 < length (ux_history e)"

definition undo_ext_ok :: "undo_ext \<Rightarrow> bool" where
  "undo_ext_ok e \<longleftrightarrow> 0 < ux_max_history e \<and> int (length (ux_history e)) \<le> ux_max_history e"

interpretation checkpoints: bounded_log push_checkpoint ux_history "\<lambda>e. nat (ux_max_history e)" undo_ext_ok
proof
  fix l :: undo_ext and x
  assume ok: "undo_ext_ok l"
  then have n: "0 < nat (ux_max_history l)" "length (ux_history l) \<le> nat (ux_max_history l)"
    by (auto simp: undo_ext_ok_def)
  show e: "ux_history (push_checkpoint x l) = last_n (nat (ux_max_history l)) (ux_history l @ [x])"
  proof -
    have "ux_max_history l < int (length (ux_history l @ [x])) \<longleftrightarrow>
          nat (ux_max_history l) < length (ux_history l @ [x])"
      using ok by (simp add: undo_ext_ok_def nat_less_iff)
    then show ?thesis
      using trim_after [OF n, of x] by (simp only: push_checkpoint_def Let_def) simp
  qed
  show "nat (ux_max_history (push_checkpoint x l)) = nat (ux_max_history l)"
    by (simp add: push_checkpoint_def Let_def)
  show "undo_ext_ok (push_checkpoint x l)"
  proof -
    have "length (ux_history (push_checkpoint x l)) \<le> nat (ux_max_history l)" by (simp add: e)
    moreover have "ux_max_history (push_checkpoint x l) = ux_max_history l"
      by (simp add: push_checkpoint_def Let_def)
    ultimately show ?thesis using n by (simp add: undo_ext_ok_def le_nat_iff)
  qed
  show "0 < nat (ux_max_history l) \<and> length (ux_history l) \<le> nat (ux_max_history l)"
    using n by simp
qed

lemma NewManagerUndoExtension_ok: "undo_ext_ok (NewManagerUndoExtension n)"
  by (simp add: NewManagerUndoExtension_def undo_ext_ok_def)

lemma RecordExecutedStep_ok: "undo_ext_ok e \<Longrightarrow> undo_ext_ok (RecordExecutedStep i e)"
  by (auto simp: RecordExecutedStep_def undo_ext_ok_def)

text \<open>A checkpoint is a copy: the steps it holds are the steps of the plan when it was taken.\<close>

lemma checkpoint_restores:
  "undo_ext_ok e \<Longrightarrow> GetLastCheckpoint (snd (SaveCheckpoint now (Some p) e)) = Some (checkpoint_of now p) \<and>
   us_steps (checkpoint_of now p) = plan_steps p"
  using checkpoints.newest [of e "checkpoint_of now p"]
  by (simp add: SaveCheckpoint_def GetLastCheckpoint_def) (simp add: checkpoint_of_def map_idI)

end
