(* ===== verification/PlanManager.thy ===== *)
theory PlanManager
  imports PlanUndo
begin

section \<open>The plan manager\<close>

text \<open>
  \<^verbatim>\<open>internal/engine/plan/executor.go\<close>. The manager holds pointers to plans (the current plan, the
  last rejected one, the approved one), and two of them may point to the same plan; so plans live in
  a memory \<open>pm_heap\<close> and the manager holds addresses. A handler the caller installs is a function of
  the plan; the callbacks that only observe (\<open>onStepStart\<close>, \<open>onStepComplete\<close>, \<open>onProgressUpdate\<close>)
  are flags, and what they are called with is appended to \<open>pm_events\<close>. The plan store, when there is
  one, is its directory. Each operation takes the clock and, where it writes, whether the write
  succeeds. Logging is left out.
\<close>

datatype approval = ApprovalPending | ApprovalApproved | ApprovalRejected | ApprovalModified

record progress_update =
  pu_plan_id :: string
  pu_current_step_id :: int
  pu_current_title :: string
  pu_total_steps :: nat
  pu_completed :: nat
  pu_progress :: "nat \<times> nat"
  pu_status :: string
  pu_sub_step_info :: string
  pu_reason :: string

datatype plan_event =
    ProgressEvent progress_update
  | StepStartEvent step
  | StepCompleteEvent step

record manager =
  pm_enabled :: bool
  pm_require_approval :: bool
  pm_current :: "nat option"
  pm_last_rejected :: "nat option"
  pm_feedback :: string
  pm_approval_handler :: "(plan \<Rightarrow> approval \<times> plan_error option) option"
  pm_lint_handler :: "(plan \<Rightarrow> string option) option"
  pm_replan_handler :: "(plan \<Rightarrow> step \<Rightarrow> string + step list) option"
  pm_on_start :: bool
  pm_on_complete :: bool
  pm_on_progress :: bool
  pm_undo :: "undo_ext option"
  pm_store :: "plan_dir option"
  pm_work_dir :: string
  pm_clear_requested :: bool
  pm_approved_snapshot :: "nat option"
  pm_executing :: bool
  pm_current_step :: int
  pm_heap :: "nat \<Rightarrow> plan option"
  pm_next :: nat
  pm_events :: "plan_event list"

definition NewManager :: "bool \<Rightarrow> bool \<Rightarrow> manager" where
  "NewManager enabled requireApproval =
     \<lparr>pm_enabled = enabled, pm_require_approval = requireApproval, pm_current = None,
      pm_last_rejected = None, pm_feedback = [], pm_approval_handler = None, pm_lint_handler = None,
      pm_replan_handler = None, pm_on_start = False, pm_on_complete = False, pm_on_progress = False,
      pm_undo = None, pm_store = None, pm_work_dir = [], pm_clear_requested = False,
      pm_approved_snapshot = None, pm_executing = False, pm_current_step = -1,
      pm_heap = (\<lambda>_. None), pm_next = 0, pm_events = []\<rparr>"

subsection \<open>The memory of plans\<close>

definition current_plan :: "manager \<Rightarrow> plan option" where
  "current_plan m = (case pm_current m of None \<Rightarrow> None | Some r \<Rightarrow> pm_heap m r)"

definition put_plan :: "nat \<Rightarrow> plan \<Rightarrow> manager \<Rightarrow> manager" where
  "put_plan r p m = m\<lparr>pm_heap := (pm_heap m)(r := Some p)\<rparr>"

definition alloc_plan :: "plan \<Rightarrow> manager \<Rightarrow> nat \<times> manager" where
  "alloc_plan p m = (pm_next m, m\<lparr>pm_heap := (pm_heap m)(pm_next m := Some p), pm_next := Suc (pm_next m)\<rparr>)"

definition upd_current :: "(plan \<Rightarrow> plan) \<Rightarrow> manager \<Rightarrow> manager" where
  "upd_current f m =
     (case pm_current m of
        None \<Rightarrow> m
      | Some r \<Rightarrow> (case pm_heap m r of None \<Rightarrow> m | Some p \<Rightarrow> put_plan r (f p) m))"

definition emit :: "plan_event \<Rightarrow> manager \<Rightarrow> manager" where
  "emit e m = m\<lparr>pm_events := pm_events m @ [e]\<rparr>"

text \<open>Saving the current plan where there is a store; an error is only logged.\<close>

definition save_current :: "bool \<Rightarrow> manager \<Rightarrow> manager" where
  "save_current io m =
     (case (pm_store m, current_plan m) of
        (Some d, Some p) \<Rightarrow> m\<lparr>pm_store := Some (snd (Store_Save io p d))\<rparr>
      | _ \<Rightarrow> m)"

definition step_update :: "plan \<Rightarrow> int \<Rightarrow> step \<Rightarrow> string \<Rightarrow> string \<Rightarrow> progress_update" where
  "step_update p i s stat reason =
     \<lparr>pu_plan_id = plan_id p, pu_current_step_id = i, pu_current_title = step_title s,
      pu_total_steps = StepCount p, pu_completed = CompletedCount p, pu_progress = Progress p,
      pu_status = stat, pu_sub_step_info = [], pu_reason = reason\<rparr>"

definition notify_progress :: "int \<Rightarrow> (plan \<Rightarrow> string) \<Rightarrow> string \<Rightarrow> manager \<Rightarrow> manager" where
  "notify_progress i stat reason m =
     (if \<not> pm_on_progress m then m
      else case current_plan m of
             None \<Rightarrow> m
           | Some p \<Rightarrow> (case GetStep i p of
                          None \<Rightarrow> m
                        | Some s \<Rightarrow> emit (ProgressEvent (step_update p i s (stat p) reason)) m))"

definition notify_step :: "bool \<Rightarrow> (step \<Rightarrow> plan_event) \<Rightarrow> int \<Rightarrow> manager \<Rightarrow> manager" where
  "notify_step registered ev i m =
     (if \<not> registered then m
      else case current_plan m of
             None \<Rightarrow> m
           | Some p \<Rightarrow> (case GetStep i p of None \<Rightarrow> m | Some s \<Rightarrow> emit (ev s) m))"

subsection \<open>Configuration\<close>

definition SetApprovalHandler :: "(plan \<Rightarrow> approval \<times> plan_error option) option \<Rightarrow> manager \<Rightarrow> manager" where
  "SetApprovalHandler h m = m\<lparr>pm_approval_handler := h\<rparr>"

definition SetLintHandler :: "(plan \<Rightarrow> string option) option \<Rightarrow> manager \<Rightarrow> manager" where
  "SetLintHandler h m = m\<lparr>pm_lint_handler := h\<rparr>"

definition SetReplanHandler :: "(plan \<Rightarrow> step \<Rightarrow> string + step list) option \<Rightarrow> manager \<Rightarrow> manager" where
  "SetReplanHandler h m = m\<lparr>pm_replan_handler := h\<rparr>"

definition HasReplanHandler :: "manager \<Rightarrow> bool" where
  "HasReplanHandler m \<longleftrightarrow> pm_replan_handler m \<noteq> None"

definition SetStepHandlers :: "bool \<Rightarrow> bool \<Rightarrow> manager \<Rightarrow> manager" where
  "SetStepHandlers onStart onComplete m = m\<lparr>pm_on_start := onStart, pm_on_complete := onComplete\<rparr>"

definition SetProgressUpdateHandler :: "bool \<Rightarrow> manager \<Rightarrow> manager" where
  "SetProgressUpdateHandler handler m = m\<lparr>pm_on_progress := handler\<rparr>"

definition IsEnabled :: "manager \<Rightarrow> bool" where
  "IsEnabled m = pm_enabled m"

definition SetEnabled :: "bool \<Rightarrow> manager \<Rightarrow> manager" where
  "SetEnabled enabled m = m\<lparr>pm_enabled := enabled\<rparr>"

definition SetPlanStore :: "plan_dir option \<Rightarrow> manager \<Rightarrow> manager" where
  "SetPlanStore store m = m\<lparr>pm_store := store\<rparr>"

definition SetWorkDir :: "string \<Rightarrow> manager \<Rightarrow> manager" where
  "SetWorkDir dir m = m\<lparr>pm_work_dir := dir\<rparr>"

definition EnableUndo :: "int \<Rightarrow> manager \<Rightarrow> manager" where
  "EnableUndo maxHistory m = m\<lparr>pm_undo := Some (NewManagerUndoExtension maxHistory)\<rparr>"

definition DisableUndo :: "manager \<Rightarrow> manager" where
  "DisableUndo m = m\<lparr>pm_undo := None\<rparr>"

definition SetExecutionMode :: "bool \<Rightarrow> manager \<Rightarrow> manager" where
  "SetExecutionMode executing m =
     (let m1 = m\<lparr>pm_executing := executing\<rparr> in if \<not> executing then m1\<lparr>pm_current_step := -1\<rparr> else m1)"

definition IsExecuting :: "manager \<Rightarrow> bool" where
  "IsExecuting m = pm_executing m"

definition SetCurrentStepID :: "int \<Rightarrow> manager \<Rightarrow> manager" where
  "SetCurrentStepID i m = m\<lparr>pm_current_step := i\<rparr>"

definition GetCurrentStepID :: "manager \<Rightarrow> int" where
  "GetCurrentStepID m = pm_current_step m"

definition SetFeedback :: "string \<Rightarrow> manager \<Rightarrow> manager" where
  "SetFeedback feedback m = m\<lparr>pm_feedback := feedback\<rparr>"

definition GetFeedback :: "manager \<Rightarrow> string \<times> manager" where
  "GetFeedback m = (pm_feedback m, m\<lparr>pm_feedback := []\<rparr>)"

definition HasFeedback :: "manager \<Rightarrow> bool" where
  "HasFeedback m \<longleftrightarrow> pm_feedback m \<noteq> []"

subsection \<open>The current plan\<close>

definition IsActive :: "manager \<Rightarrow> bool" where
  "IsActive m \<longleftrightarrow> (case current_plan m of None \<Rightarrow> False | Some p \<Rightarrow> \<not> IsComplete p)"

definition CreatePlan :: "gotime \<Rightarrow> string \<Rightarrow> string \<Rightarrow> string \<Rightarrow> string \<Rightarrow> manager \<Rightarrow> nat \<times> manager" where
  "CreatePlan now pid title description request m =
     (let p = (NewPlan now pid title description)\<lparr>plan_request := request, plan_work_dir := pm_work_dir m\<rparr>;
          (r, m1) = alloc_plan p m
      in (r, m1\<lparr>pm_current := Some r\<rparr>))"

definition TransitionCurrentPlanLifecycle :: "gotime \<Rightarrow> lifecycle \<Rightarrow> manager \<Rightarrow> plan_error option \<times> manager" where
  "TransitionCurrentPlanLifecycle now next m =
     (case current_plan m of
        None \<Rightarrow> (Some NoActivePlan, m)
      | Some p \<Rightarrow> (fst (TransitionLifecycle now next p),
                   upd_current (\<lambda>p. snd (TransitionLifecycle now next p)) m))"

definition GetCurrentPlanLifecycle :: "manager \<Rightarrow> lifecycle" where
  "GetCurrentPlanLifecycle m =
     (case current_plan m of None \<Rightarrow> LifecycleUnset | Some p \<Rightarrow> LifecycleState p)"

definition SetPlan :: "nat option \<Rightarrow> manager \<Rightarrow> manager" where
  "SetPlan r m =
     (let m1 = (case r of
                  None \<Rightarrow> m
                | Some a \<Rightarrow> (case pm_heap m a of None \<Rightarrow> m | Some p \<Rightarrow> put_plan a (EnsureStepContracts p) m))
      in m1\<lparr>pm_current := r\<rparr>)"

definition ClearPlan :: "manager \<Rightarrow> nat option \<times> manager" where
  "ClearPlan m =
     (pm_current m, m\<lparr>pm_current := None, pm_clear_requested := False, pm_approved_snapshot := None,
                      pm_executing := False, pm_current_step := -1\<rparr>)"

definition SaveRejectedPlan :: "nat option \<Rightarrow> manager \<Rightarrow> manager" where
  "SaveRejectedPlan r m = m\<lparr>pm_last_rejected := r\<rparr>"

definition RequestContextClear :: "nat option \<Rightarrow> manager \<Rightarrow> manager" where
  "RequestContextClear r m = m\<lparr>pm_clear_requested := True, pm_approved_snapshot := r\<rparr>"

definition ConsumeContextClearRequest :: "manager \<Rightarrow> nat option \<times> manager" where
  "ConsumeContextClearRequest m =
     (if \<not> pm_clear_requested m then (None, m)
      else (pm_approved_snapshot m, m\<lparr>pm_clear_requested := False, pm_approved_snapshot := None\<rparr>))"

definition SavePlanCheckpoint :: "gotime \<Rightarrow> manager \<Rightarrow> plan_error option \<times> manager" where
  "SavePlanCheckpoint now m =
     (case pm_undo m of
        None \<Rightarrow> (None, m)
      | Some e \<Rightarrow> (let (err, e') = SaveCheckpoint now (current_plan m) e in (err, m\<lparr>pm_undo := Some e'\<rparr>)))"

definition RequestApproval :: "gotime \<Rightarrow> manager \<Rightarrow> (approval \<times> plan_error option) \<times> manager" where
  "RequestApproval now m =
     (case current_plan m of
        None \<Rightarrow> ((ApprovalRejected, None), m)
      | Some p \<Rightarrow>
          (case (case pm_lint_handler m of None \<Rightarrow> None | Some lint \<Rightarrow> lint p) of
             Some err \<Rightarrow> ((ApprovalRejected, Some (LintFailed err)), m)
           | None \<Rightarrow>
               let (err, m1) = TransitionCurrentPlanLifecycle now LifecycleAwaitingApproval m
               in if err \<noteq> None then ((ApprovalRejected, err), m1)
                  else if \<not> pm_require_approval m then ((ApprovalApproved, None), m1)
                  else (case pm_approval_handler m of
                          None \<Rightarrow> ((ApprovalApproved, None), m1)
                        | Some h \<Rightarrow> ((case current_plan m1 of Some p1 \<Rightarrow> h p1 | None \<Rightarrow> h p), m1))))"

subsection \<open>Steps of the current plan\<close>

definition Manager_StartStep :: "gotime \<Rightarrow> bool \<Rightarrow> int \<Rightarrow> manager \<Rightarrow> manager" where
  "Manager_StartStep now io i m =
     (if current_plan m = None then m
      else let m1 = upd_current (Plan_StartStep now i) m;
               m2 = save_current io m1;
               m3 = notify_progress i (\<lambda>_. ''in_progress'') [] m2
           in notify_step (pm_on_start m) StepStartEvent i m3)"

definition Manager_CompleteStep :: "gotime \<Rightarrow> bool \<Rightarrow> int \<Rightarrow> string \<Rightarrow> manager \<Rightarrow> manager" where
  "Manager_CompleteStep now io i out m =
     (case current_plan m of
        None \<Rightarrow> m
      | Some p \<Rightarrow>
          let evidence = [''manual completion marker'', ''contract.verify_commands_proof=true''] @
                         (if trim_space out \<noteq> [] then [''output provided''] else []);
              m1 = (case GetStep i p of
                      None \<Rightarrow> m
                    | Some s \<Rightarrow> if step_evidence s \<noteq> [] then m
                        else upd_current (\<lambda>p. snd (Plan_RecordStepVerification now i evidence
                                                    ''Completed via plan manager'' p)) m);
              m2 = upd_current (Plan_CompleteStep now i out) m1;
              m3 = save_current io m2;
              m4 = notify_progress i (\<lambda>p. if progress_full p then ''completed'' else ''in_progress'')
                     ''step completed'' m3
          in notify_step (pm_on_complete m) StepCompleteEvent i m4)"

definition Manager_RecordStepVerification ::
  "gotime \<Rightarrow> bool \<Rightarrow> int \<Rightarrow> string list \<Rightarrow> string \<Rightarrow> manager \<Rightarrow> bool \<times> manager" where
  "Manager_RecordStepVerification now io i evidence nt m =
     (case current_plan m of
        None \<Rightarrow> (False, m)
      | Some p \<Rightarrow>
          if \<not> fst (Plan_RecordStepVerification now i evidence nt p) then (False, m)
          else (True, save_current io
                  (upd_current (\<lambda>p. snd (Plan_RecordStepVerification now i evidence nt p)) m)))"

definition Manager_FailStep :: "gotime \<Rightarrow> bool \<Rightarrow> int \<Rightarrow> string \<Rightarrow> manager \<Rightarrow> manager" where
  "Manager_FailStep now io i errMsg m =
     (if current_plan m = None then m
      else notify_progress i (\<lambda>_. ''failed'') errMsg
             (save_current io (upd_current (Plan_FailStep now i errMsg) m)))"

definition Manager_SkipStep :: "gotime \<Rightarrow> int \<Rightarrow> manager \<Rightarrow> manager" where
  "Manager_SkipStep now i m =
     (if current_plan m = None then m
      else notify_progress i (\<lambda>_. ''skipped'') ''condition not met''
             (upd_current (Plan_SkipStep now i) m))"

definition Manager_PauseStep :: "gotime \<Rightarrow> bool \<Rightarrow> int \<Rightarrow> string \<Rightarrow> manager \<Rightarrow> manager" where
  "Manager_PauseStep now io i reason m =
     (if current_plan m = None then m
      else notify_progress i (\<lambda>_. ''paused'') reason
             (save_current io (upd_current (Plan_PauseStep now i reason) m)))"

definition GetProgress :: "manager \<Rightarrow> nat \<times> nat \<times> (nat \<times> nat)" where
  "GetProgress m = (case current_plan m of None \<Rightarrow> (0, 0, (0, 1))
                    | Some p \<Rightarrow> (CompletedCount p, StepCount p, Progress p))"

definition Manager_AddStep :: "gotime \<Rightarrow> string \<Rightarrow> string \<Rightarrow> manager \<Rightarrow> manager" where
  "Manager_AddStep now title description m = upd_current (AddStep now title description) m"

definition Manager_NextStep :: "manager \<Rightarrow> step option" where
  "Manager_NextStep m = (case current_plan m of None \<Rightarrow> None | Some p \<Rightarrow> NextStep p)"

definition Manager_ResumePausedSteps :: "gotime \<Rightarrow> bool \<Rightarrow> manager \<Rightarrow> nat \<times> manager" where
  "Manager_ResumePausedSteps now io m =
     (case current_plan m of
        None \<Rightarrow> (0, m)
      | Some p \<Rightarrow>
          let count = fst (Plan_ResumePausedSteps now p);
              m1 = upd_current (\<lambda>p. snd (Plan_ResumePausedSteps now p)) m
          in (count, if 0 < count then save_current io m1 else m1))"

subsection \<open>Replanning\<close>

text \<open>
  The new steps are numbered after the kept ones, get a complete contract and lose the dependencies
  that name no step.
\<close>

fun number_steps :: "int \<Rightarrow> step list \<Rightarrow> step list" where
  "number_steps n [] = []"
| "number_steps n (s # ss) =
     EnsureContractDefaults (s\<lparr>step_id := n, step_status := StatusPending\<rparr>) # number_steps (n + 1) ss"

definition replan_steps :: "step list \<Rightarrow> step list \<Rightarrow> step list" where
  "replan_steps kept newSteps =
     (let numbered = number_steps (int (length kept) + 1) newSteps;
          validIDs = map step_id kept @ map step_id numbered
      in map (\<lambda>s. s\<lparr>step_depends_on := filter (\<lambda>d. d \<in> set validIDs) (step_depends_on s)\<rparr>) numbered)"

definition replan :: "gotime \<Rightarrow> step list \<Rightarrow> plan \<Rightarrow> plan" where
  "replan now newSteps p =
     (let kept = filter (\<lambda>s. step_status s \<noteq> StatusPending) (plan_steps p)
      in p\<lparr>plan_steps := kept @ replan_steps kept newSteps, plan_version := plan_version p + 1,
           plan_status := StatusInProgress, plan_updated := now\<rparr>)"

definition RequestReplan :: "gotime \<Rightarrow> step option \<Rightarrow> manager \<Rightarrow> plan_error option \<times> manager" where
  "RequestReplan now failedStep m =
     (case pm_replan_handler m of
        None \<Rightarrow> (Some NoReplanHandler, m)
      | Some handler \<Rightarrow>
          (case current_plan m of
             None \<Rightarrow> (Some NoActivePlan, m)
           | Some p \<Rightarrow>
               (case failedStep of
                  None \<Rightarrow> (Some NilFailedStep, m)
                | Some s \<Rightarrow>
                    (case handler p s of
                       Inl err \<Rightarrow> (Some (ReplanFailed err), m)
                     | Inr newSteps \<Rightarrow> (None, upd_current (replan now newSteps) m)))))"

subsection \<open>Pausing and resuming\<close>

definition PausePlan :: "gotime \<Rightarrow> bool \<Rightarrow> manager \<Rightarrow> manager" where
  "PausePlan now io m =
     (case current_plan m of
        None \<Rightarrow> m
      | Some _ \<Rightarrow>
          let m1 = upd_current (\<lambda>p. p\<lparr>plan_status := StatusPaused, plan_updated := now\<rparr>) m;
              m2 = upd_current (\<lambda>p. snd (TransitionLifecycle now LifecyclePaused p)) m1;
              m3 = save_current io m2
          in (case current_plan m3 of
                Some p \<Rightarrow>
                  if pm_on_progress m3
                  then emit (ProgressEvent \<lparr>pu_plan_id = plan_id p, pu_current_step_id = 0,
                         pu_current_title = [], pu_total_steps = StepCount p,
                         pu_completed = CompletedCount p, pu_progress = Progress p,
                         pu_status = ''paused'', pu_sub_step_info = [],
                         pu_reason = ''plan paused by orchestrator''\<rparr>) m3
                  else m3
              | None \<Rightarrow> m3))"

definition stopped :: "step \<Rightarrow> bool" where
  "stopped s \<longleftrightarrow> step_status s = StatusPaused \<or> step_status s = StatusFailed"

definition restart_step :: "step \<Rightarrow> step" where
  "restart_step s =
     (if stopped s
      then (if checkpoint_required s then s\<lparr>step_checkpoint_passed := True\<rparr> else s)
             \<lparr>step_status := StatusPending, step_error := []\<rparr>
      else s)"

definition clear_partial :: "step list \<Rightarrow> run_ledger \<Rightarrow> run_ledger" where
  "clear_partial ss l =
     map (\<lambda>(i, e). if list_ex (\<lambda>s. stopped s \<and> step_id s = i) ss then (i, e\<lparr>le_partial_effects := False\<rparr>)
                   else (i, e)) l"

definition restart_plan :: "gotime \<Rightarrow> plan \<Rightarrow> plan" where
  "restart_plan now p =
     p\<lparr>plan_steps := map restart_step (plan_steps p),
       plan_ledger := clear_partial (plan_steps p) (plan_ledger p),
       plan_status := StatusInProgress, plan_updated := now\<rparr>"

definition ResumePlan :: "gotime \<Rightarrow> manager \<Rightarrow> (plan_error + nat) \<times> manager" where
  "ResumePlan now m =
     (case (pm_current m, current_plan m) of
        (Some r, Some p) \<Rightarrow>
          if \<not> list_ex (\<lambda>s. step_status s = StatusPending \<or> stopped s) (plan_steps p)
          then (Inl NothingToResume, m)
          else let m1 = upd_current (restart_plan now) m;
                   (err, m2) = TransitionCurrentPlanLifecycle now LifecycleApproved m1
               in (case err of Some e \<Rightarrow> (Inl e, m2) | None \<Rightarrow> (Inr r, m2))
      | _ \<Rightarrow> (Inl NoActivePlan, m))"

definition IsPlanPaused :: "manager \<Rightarrow> bool" where
  "IsPlanPaused m = (case current_plan m of None \<Rightarrow> False | Some p \<Rightarrow> plan_status p = StatusPaused)"

subsection \<open>Persistence\<close>

definition SaveCurrentPlan :: "bool \<Rightarrow> manager \<Rightarrow> plan_error option \<times> manager" where
  "SaveCurrentPlan io m =
     (case (pm_store m, current_plan m) of
        (Some d, Some p) \<Rightarrow> (fst (Store_Save io p d), m\<lparr>pm_store := Some (snd (Store_Save io p d))\<rparr>)
      | _ \<Rightarrow> (None, m))"

definition adopt_loaded :: "plan_error + plan \<Rightarrow> manager \<Rightarrow> (plan_error + nat) \<times> manager" where
  "adopt_loaded res m =
     (case res of
        Inl e \<Rightarrow> (Inl e, m)
      | Inr p \<Rightarrow> (let (r, m1) = alloc_plan p m in (Inr r, m1\<lparr>pm_current := Some r\<rparr>)))"

definition LoadPausedPlan :: "manager \<Rightarrow> (plan_error + nat) \<times> manager" where
  "LoadPausedPlan m =
     (case pm_store m of
        None \<Rightarrow> (Inl StoreNotConfigured, m)
      | Some d \<Rightarrow> adopt_loaded (Store_LoadLast (pm_work_dir m) d) m)"

definition LoadPlanByID :: "string \<Rightarrow> manager \<Rightarrow> (plan_error + nat) \<times> manager" where
  "LoadPlanByID planID m =
     (case pm_store m of
        None \<Rightarrow> (Inl StoreNotConfigured, m)
      | Some d \<Rightarrow> adopt_loaded (Store_Load planID d) m)"

definition ListSavedPlans :: "manager \<Rightarrow> plan_error + plan_info list" where
  "ListSavedPlans m = (case pm_store m of None \<Rightarrow> Inl StoreNotConfigured | Some d \<Rightarrow> Inr (Store_List d))"

definition ListResumablePlans :: "manager \<Rightarrow> plan_error + plan_info list" where
  "ListResumablePlans m =
     (case pm_store m of
        None \<Rightarrow> Inl StoreNotConfigured | Some d \<Rightarrow> Inr (Store_ListResumable (pm_work_dir m) d))"

definition DeleteSavedPlan :: "bool \<Rightarrow> string \<Rightarrow> manager \<Rightarrow> plan_error option \<times> manager" where
  "DeleteSavedPlan io planID m =
     (case pm_store m of
        None \<Rightarrow> (Some StoreNotConfigured, m)
      | Some d \<Rightarrow> (fst (Store_Delete io planID d), m\<lparr>pm_store := Some (snd (Store_Delete io planID d))\<rparr>))"

definition CleanupOldPlans :: "(string \<Rightarrow> bool) \<Rightarrow> gotime \<Rightarrow> duration \<Rightarrow> manager \<Rightarrow> nat \<times> manager" where
  "CleanupOldPlans io now maxAge m =
     (case pm_store m of
        None \<Rightarrow> (0, m)
      | Some d \<Rightarrow> (fst (Store_Cleanup io now maxAge d), m\<lparr>pm_store := Some (snd (Store_Cleanup io now maxAge d))\<rparr>))"

definition HasPausedPlan :: "manager \<Rightarrow> bool" where
  "HasPausedPlan m \<longleftrightarrow>
     IsPlanPaused m \<or>
     (case pm_store m of None \<Rightarrow> False | Some d \<Rightarrow> Store_ListResumable (pm_work_dir m) d \<noteq> [])"

subsection \<open>Texts for the prompt\<close>

text \<open>A line of the contract block is written only when its text is not empty.\<close>

definition findActiveContractStep :: "step list \<Rightarrow> int \<Rightarrow> step option" where
  "findActiveContractStep steps currentStepID =
     (case (if 0 < currentStepID then find (has_id currentStepID) steps else None) of
        Some s \<Rightarrow> Some s
      | None \<Rightarrow>
          (case find (\<lambda>s. step_status s = StatusInProgress) steps of
             Some s \<Rightarrow> Some s
           | None \<Rightarrow> find (\<lambda>s. step_status s = StatusPending) steps))"

definition compactContractText :: "string \<Rightarrow> int \<Rightarrow> string" where
  "compactContractText s maxLen =
     (let t = str_join (str_fields (trim_space s)) '' ''
      in if maxLen \<le> 0 \<or> int (length t) \<le> maxLen then t else take (nat maxLen) t @ ''...'')"

definition newline :: string where
  "newline = [CHR 0x0A]"

definition text_line :: "string \<Rightarrow> int \<Rightarrow> string \<Rightarrow> string" where
  "text_line label maxLen s =
     (let t = trim_space s in if t = [] then [] else label @ compactContractText t maxLen @ newline)"

definition list_line :: "string \<Rightarrow> int \<Rightarrow> string list \<Rightarrow> string" where
  "list_line label maxLen xs =
     (if xs = [] then [] else label @ compactContractText (str_join xs ''; '') maxLen @ newline)"

definition GetActiveContractContext :: "manager \<Rightarrow> string" where
  "GetActiveContractContext m =
     (case current_plan m of
        None \<Rightarrow> []
      | Some p \<Rightarrow>
          if GetStepsSnapshot p = [] then []
          else case findActiveContractStep (GetStepsSnapshot p) (pm_current_step m) of
                 None \<Rightarrow> []
               | Some s \<Rightarrow>
                   ''Plan: '' @ trim_space (plan_title p) @ newline @
                   (let d = trim_space (plan_description p)
                    in if d = [] then [] else ''Goal: '' @ d @ newline) @
                   text_line ''Request: '' 240 (plan_request p) @
                   ''Status: '' @ Status_String (plan_status p) @
                   (if pm_executing m then '' (executing)'' else []) @ newline @
                   ''Progress: '' @ itoa (int (CompletedCount p)) @ ''/'' @ itoa (int (StepCount p)) @ newline @
                   newline @ ''Current Step Contract:'' @ newline @
                   ''- Step '' @ itoa (step_id s) @ '': '' @ trim_space (step_title s) @ newline @
                   text_line ''- Description: '' 280 (step_description s) @
                   list_line ''- Inputs: '' 260 (step_inputs s) @
                   text_line ''- Expected artifact: '' 260 (step_expected_artifact s) @
                   list_line ''- Expected artifact paths: '' 320 (step_artifact_paths s) @
                   list_line ''- Success criteria: '' 320 (step_success_criteria s) @
                   list_line ''- Verify commands: '' 320 (step_verify_commands s) @
                   text_line ''- Rollback: '' 220 (step_rollback s) @
                   ''- Completion proof required: changed files and/or commands/output evidence'' @ newline @
                   ''- Do not complete the step without objective proof'')"

text \<open>One line per finished step before the given one; \<open>maxLen\<close> bounds the output shown.\<close>

definition step_label :: "step \<Rightarrow> string" where
  "step_label s = ''Step '' @ itoa (step_id s) @ '' ('' @ step_title s @ ''): ''"

definition step_summary :: "nat \<Rightarrow> step \<Rightarrow> string" where
  "step_summary maxLen s =
     (case step_status s of
        StatusCompleted \<Rightarrow>
          step_label s @
          (if maxLen < length (step_output s) then take maxLen (step_output s) @ ''...''
           else if step_output s = [] then ''completed'' else step_output s) @ newline
      | StatusFailed \<Rightarrow>
          let d = (if 200 < length (step_error s) then take 200 (step_error s) @ ''...'' else step_error s)
          in step_label s @ ''FAILED'' @ (if d = [] then [] else '' - '' @ d) @ newline
      | StatusSkipped \<Rightarrow> step_label s @ ''SKIPPED'' @ newline
      | _ \<Rightarrow> [])"

definition GetPreviousStepsSummary :: "manager \<Rightarrow> int \<Rightarrow> nat \<Rightarrow> string" where
  "GetPreviousStepsSummary m currentStepID maxLen =
     (case current_plan m of
        None \<Rightarrow> []
      | Some p \<Rightarrow> concat (map (step_summary maxLen)
                   (takeWhile (\<lambda>s. step_id s < currentStepID) (GetStepsSnapshot p))))"

end
