(* ===== verification/PlanRecovery.thy ===== *)
theory PlanRecovery
  imports PlanManager
begin

section \<open>What the plan manager keeps\<close>

text \<open>
  Lemmas on \<open>PlanManager\<close>: which parts of the manager each helper touches, that a progress change is
  on disk when the operation returns, and what replanning does to identifiers and dependencies.
\<close>

subsection \<open>Frames\<close>

lemma current_plan_upd [simp]:
  "current_plan (upd_current f m) = map_option f (current_plan m)"
  by (simp add: upd_current_def current_plan_def put_plan_def split: option.split)

lemma upd_current_frame [simp]:
  "pm_store (upd_current f m) = pm_store m"
  "pm_current (upd_current f m) = pm_current m"
  "pm_undo (upd_current f m) = pm_undo m"
  "pm_on_progress (upd_current f m) = pm_on_progress m"
  "pm_on_start (upd_current f m) = pm_on_start m"
  "pm_on_complete (upd_current f m) = pm_on_complete m"
  by (simp_all add: upd_current_def put_plan_def split: option.split)

lemma current_plan_store [simp]:
  "current_plan (m\<lparr>pm_store := x\<rparr>) = current_plan m"
  "current_plan (m\<lparr>pm_events := y\<rparr>) = current_plan m"
  by (simp_all add: current_plan_def split: option.split)

lemma save_current_frame [simp]:
  "current_plan (save_current io m) = current_plan m"
  "pm_on_progress (save_current io m) = pm_on_progress m"
  "pm_on_start (save_current io m) = pm_on_start m"
  "pm_on_complete (save_current io m) = pm_on_complete m"
  by (simp_all add: save_current_def split: option.split)

lemma save_current_store:
  "pm_store m = Some d \<Longrightarrow> current_plan m = Some p \<Longrightarrow>
   pm_store (save_current io m) = Some (snd (Store_Save io p d))"
  by (simp add: save_current_def)

lemma emit_frame [simp]:
  "current_plan (emit e m) = current_plan m" "pm_store (emit e m) = pm_store m"
  "pm_on_start (emit e m) = pm_on_start m" "pm_on_complete (emit e m) = pm_on_complete m"
  by (simp_all add: emit_def)

lemma notify_progress_frame [simp]:
  "current_plan (notify_progress i st r m) = current_plan m"
  "pm_store (notify_progress i st r m) = pm_store m"
  "pm_on_start (notify_progress i st r m) = pm_on_start m"
  "pm_on_complete (notify_progress i st r m) = pm_on_complete m"
  by (simp_all add: notify_progress_def split: option.split)

lemma notify_step_frame [simp]:
  "current_plan (notify_step b ev i m) = current_plan m"
  "pm_store (notify_step b ev i m) = pm_store m"
  by (simp_all add: notify_step_def split: option.split)

subsection \<open>The plan an operation leaves\<close>

text \<open>What \<open>CompleteStep\<close> of the manager does to its plan: the evidence marker first.\<close>

definition manual_evidence :: "string \<Rightarrow> string list" where
  "manual_evidence out =
     [''manual completion marker'', ''contract.verify_commands_proof=true''] @
     (if trim_space out \<noteq> [] then [''output provided''] else [])"

definition complete_with_marker :: "gotime \<Rightarrow> int \<Rightarrow> string \<Rightarrow> plan \<Rightarrow> plan" where
  "complete_with_marker now i out p =
     Plan_CompleteStep now i out
       (case GetStep i p of
          None \<Rightarrow> p
        | Some s \<Rightarrow> if step_evidence s \<noteq> [] then p
                    else snd (Plan_RecordStepVerification now i (manual_evidence out)
                                ''Completed via plan manager'' p))"

datatype progress_op =
    DoStart int
  | DoComplete int string
  | DoFail int string
  | DoPause int string

fun manager_op :: "gotime \<Rightarrow> bool \<Rightarrow> progress_op \<Rightarrow> manager \<Rightarrow> manager" where
  "manager_op now io (DoStart i) m = Manager_StartStep now io i m"
| "manager_op now io (DoComplete i out) m = Manager_CompleteStep now io i out m"
| "manager_op now io (DoFail i msg) m = Manager_FailStep now io i msg m"
| "manager_op now io (DoPause i reason) m = Manager_PauseStep now io i reason m"

fun plan_change :: "gotime \<Rightarrow> progress_op \<Rightarrow> plan \<Rightarrow> plan" where
  "plan_change now (DoStart i) p = Plan_StartStep now i p"
| "plan_change now (DoComplete i out) p = complete_with_marker now i out p"
| "plan_change now (DoFail i msg) p = Plan_FailStep now i msg p"
| "plan_change now (DoPause i reason) p = Plan_PauseStep now i reason p"

lemma set_step_id [simp]: "plan_id (set_step i f p) = plan_id p"
  by (simp add: set_step_def)

lemma plan_id_ops [simp]:
  "plan_id (finish_if_done p) = plan_id p"
  "plan_id (Plan_StartStep now i p) = plan_id p"
  "plan_id (Plan_CompleteStep now i out p) = plan_id p"
  "plan_id (Plan_FailStep now i msg p) = plan_id p"
  "plan_id (Plan_PauseStep now i msg p) = plan_id p"
  "plan_id (snd (Plan_RecordStepVerification now i ev nt p)) = plan_id p"
  by (simp_all add: finish_if_done_def Plan_StartStep_def Plan_CompleteStep_def pause_unproved_def
      Plan_FailStep_def Plan_PauseStep_def Plan_RecordStepVerification_def mark_defs Let_def
      split: option.split)

lemma plan_change_id: "plan_id (plan_change now op p) = plan_id p"
  by (cases op) (simp_all add: complete_with_marker_def split: option.split)

text \<open>Each operation changes the plan, saves it and then only notifies.\<close>

lemma manager_op_current:
  "current_plan (manager_op now io op m) = map_option (plan_change now op) (current_plan m)"
proof (cases op)
  case (DoComplete i out)
  then show ?thesis
    by (simp add: Manager_CompleteStep_def complete_with_marker_def manual_evidence_def Let_def
        split: option.split)
qed (cases "current_plan m"; simp add: Manager_StartStep_def Manager_FailStep_def
        Manager_PauseStep_def Let_def)+

lemma manager_op_store:
  assumes "pm_store m = Some d" and "current_plan m = Some p"
  shows "pm_store (manager_op now io op m) = Some (snd (Store_Save io (plan_change now op p) d))"
proof (cases op)
  case (DoComplete i out)
  with assms show ?thesis
    by (simp add: Manager_CompleteStep_def complete_with_marker_def manual_evidence_def Let_def
        save_current_def split: option.split)
qed (use assms in \<open>simp_all add: Manager_StartStep_def Manager_FailStep_def Manager_PauseStep_def
        Let_def save_current_def\<close>)

lemma Store_Save_ok: "SafeFilenameComponent (plan_id p) \<Longrightarrow> fst (Store_Save True p d) = None"
  by (simp add: Store_Save_def)

lemma manager_op_saved:
  assumes "pm_store m = Some d" and "current_plan m = Some p" and "SafeFilenameComponent (plan_id p)"
  shows "\<exists>d'. pm_store (manager_op now True op m) = Some d' \<and>
              Store_Load (plan_id p) d' = Inr (EnsureStepContracts (plan_change now op p))"
  using manager_op_store [OF assms(1,2), of now True op]
    plan_store.load_save [of True "plan_change now op p" d]
    Store_Save_ok [of "plan_change now op p" d] assms(3)
  by (simp add: plan_change_id)

lemma manager_op_save_failed:
  assumes "pm_store m = Some d" and "current_plan m = Some p"
  shows "pm_store (manager_op now False op m) = Some d"
  using manager_op_store [OF assms, of now False op]
    plan_store.save_error [of False "plan_change now op p" d]
  by (simp add: Store_Save_def split: if_splits)

subsection \<open>Replanning\<close>

lemma number_steps_ids: "map step_id (number_steps n ss) = map (\<lambda>k. n + int k) [0..<length ss]"
proof (induction n ss rule: number_steps.induct)
  case (1 n)
  then show ?case by simp
next
  case (2 n s ss)
  have "map (\<lambda>k. n + int k) [0..<length (s # ss)] = n # map (\<lambda>k. n + 1 + int k) [0..<length ss]"
    by (simp add: upt_conv_Cons map_Suc_upt [symmetric] comp_def algebra_simps del: upt_Suc)
  with "2.IH" show ?case by simp
qed

lemma replan_steps_ids:
  "map step_id (replan_steps kept ns) = map (\<lambda>k. int (length kept) + 1 + int k) [0..<length ns]"
  by (simp add: replan_steps_def Let_def comp_def number_steps_ids)

lemma replan_steps_deps:
  "s \<in> set (replan_steps kept ns) \<Longrightarrow> d \<in> set (step_depends_on s) \<Longrightarrow>
   d \<in> step_id ` set kept \<union> step_id ` set (replan_steps kept ns)"
proof -
  assume s: "s \<in> set (replan_steps kept ns)" and d: "d \<in> set (step_depends_on s)"
  let ?num = "number_steps (int (length kept) + 1) ns"
  from s d have "d \<in> set (map step_id kept @ map step_id ?num)"
    unfolding replan_steps_def Let_def set_map by (elim imageE) simp
  moreover have "map step_id (replan_steps kept ns) = map step_id ?num"
    by (simp add: replan_steps_def Let_def comp_def)
  then have "step_id ` set (replan_steps kept ns) = step_id ` set ?num"
    by (metis set_map)
  ultimately show ?thesis by simp
qed

lemma number_steps_status: "\<forall>s\<in>set (number_steps n ss). step_status s = StatusPending"
  by (induction n ss rule: number_steps.induct) simp_all

lemma replan_steps_pending: "s \<in> set (replan_steps kept ns) \<Longrightarrow> step_status s = StatusPending"
  using number_steps_status [of "int (length kept) + 1" ns]
  unfolding replan_steps_def Let_def set_map by (elim imageE) simp

definition kept_steps :: "plan \<Rightarrow> step list" where
  "kept_steps p = filter (\<lambda>s. step_status s \<noteq> StatusPending) (plan_steps p)"

lemma plan_steps_replan:
  "plan_steps (replan now ns p) = kept_steps p @ replan_steps (kept_steps p) ns"
  by (simp add: replan_def kept_steps_def Let_def)

lemma replan_ids_set:
  "set (map step_id (replan_steps kept ns)) = {int (length kept) + 1 .. int (length kept) + int (length ns)}"
proof
  show "set (map step_id (replan_steps kept ns)) \<subseteq> {int (length kept) + 1 .. int (length kept) + int (length ns)}"
    unfolding replan_steps_ids by auto
  show "{int (length kept) + 1 .. int (length kept) + int (length ns)} \<subseteq> set (map step_id (replan_steps kept ns))"
  proof
    fix x assume "x \<in> {int (length kept) + 1 .. int (length kept) + int (length ns)}"
    then have "nat (x - int (length kept) - 1) \<in> set [0..<length ns]"
      and "x = int (length kept) + 1 + int (nat (x - int (length kept) - 1))" by auto
    then show "x \<in> set (map step_id (replan_steps kept ns))"
      unfolding replan_steps_ids set_map by (metis image_eqI)
  qed
qed

lemma replan_ids_distinct_iff:
  assumes "ids_in_order p"
  shows "distinct (map step_id (plan_steps (replan now ns p))) \<longleftrightarrow>
    (\<forall>s\<in>set (kept_steps p). step_id s \<notin>
       {int (length (kept_steps p)) + 1 .. int (length (kept_steps p)) + int (length ns)})"
proof -
  have k: "distinct (map step_id (kept_steps p))"
    using ids_in_order_distinct [OF assms] unfolding kept_steps_def by (rule distinct_map_filter)
  have n: "distinct (map step_id (replan_steps (kept_steps p) ns))"
    by (simp add: replan_steps_ids distinct_map inj_on_def)
  show ?thesis
    unfolding plan_steps_replan map_append distinct_append replan_ids_set
    using k n by auto
qed

subsection \<open>Resuming\<close>

lemma restart_step_not_stopped: "\<not> stopped (restart_step s)"
  by (simp add: restart_step_def stopped_def)

interpretation restarting: step_operation "restart_plan now" for now
  by (rule step_operation_mapI)
     (rule exI [where x = restart_step], simp add: restart_plan_def restart_step_def)

lemma TransitionCurrentPlanLifecycle_current:
  "current_plan m = Some p \<Longrightarrow>
   fst (TransitionCurrentPlanLifecycle now n m) = fst (TransitionLifecycle now n p) \<and>
   current_plan (snd (TransitionCurrentPlanLifecycle now n m)) = Some (snd (TransitionLifecycle now n p))"
  by (simp add: TransitionCurrentPlanLifecycle_def)

lemma current_plan_SomeD: "current_plan m = Some p \<Longrightarrow> \<exists>r. pm_current m = Some r \<and> pm_heap m r = Some p"
  by (simp add: current_plan_def split: option.splits)

lemma ResumePlan_cases:
  assumes "current_plan m = Some p" and "\<exists>s\<in>set (plan_steps p). step_status s = StatusPending \<or> stopped s"
  shows "current_plan (snd (ResumePlan now m)) =
           Some (snd (TransitionLifecycle now LifecycleApproved (restart_plan now p))) \<and>
         ((\<exists>r. fst (ResumePlan now m) = Inr r) \<longleftrightarrow>
          CanTransitionTo (LifecycleState (restart_plan now p)) LifecycleApproved)"
proof -
  from current_plan_SomeD [OF assms(1)] obtain r where r: "pm_current m = Some r" by blast
  let ?m1 = "upd_current (restart_plan now) m"
  have c: "current_plan ?m1 = Some (restart_plan now p)" using assms(1) by simp
  have e: "list_ex (\<lambda>s. step_status s = StatusPending \<or> stopped s) (plan_steps p)"
    using assms(2) by (simp add: list_ex_iff)
  have R: "ResumePlan now m =
      (let (err, m2) = TransitionCurrentPlanLifecycle now LifecycleApproved ?m1
       in (case err of Some e \<Rightarrow> (Inl e, m2) | None \<Rightarrow> (Inr r, m2)))"
    by (simp add: ResumePlan_def assms(1) r e)
  have opt: "x \<noteq> None \<longleftrightarrow> (\<exists>y. x = Some y)" for x :: "plan_error option"
    by (cases x) simp_all
  show ?thesis
    unfolding R using TransitionCurrentPlanLifecycle_current [OF c, of now LifecycleApproved]
      TransitionLifecycle_error_iff [of now LifecycleApproved "restart_plan now p"]
    by (simp add: Let_def split_beta opt [symmetric] split: option.split)
qed

lemma restart_plan_lifecycle:
  "LifecycleState (restart_plan now p) =
     (if plan_lifecycle p = LifecycleUnset then LifecycleExecuting else plan_lifecycle p)"
  by (simp add: LifecycleState_def restart_plan_def)

lemma plan_steps_restart: "plan_steps (restart_plan now p) = map restart_step (plan_steps p)"
  by (simp add: restart_plan_def)

end
