(* ===== verification/PlanLedger.thy ===== *)
theory PlanLedger
  imports PlanRecovery
begin

section \<open>The run ledger\<close>

text \<open>
  What holds of the run ledger of a plan (\<^verbatim>\<open>internal/engine/plan/plan.go\<close>, \<open>RunLedgerEntry\<close> and the
  methods that write it) whatever sequence of operations led there: one entry per step, every list
  within its limit and free of duplicates. The entry is what a resumed run reads to decide whether
  repeating a step may repeat its side effects.
\<close>

subsection \<open>Entries within their limits\<close>

definition entry_ok :: "int \<Rightarrow> ledger_entry \<Rightarrow> bool" where
  "entry_ok i e \<longleftrightarrow>
     le_step_id e = i \<and> 0 \<le> le_tool_calls e \<and> 0 \<le> le_duplicate_effects e \<and>
     distinct (le_tools e) \<and> length (le_tools e) \<le> 20 \<and>
     distinct (le_files_touched e) \<and> length (le_files_touched e) \<le> 50 \<and>
     distinct (le_commands e) \<and> length (le_commands e) \<le> 20 \<and>
     distinct (le_effect_signatures e) \<and> length (le_effect_signatures e) \<le> 120"

definition ledger_ok :: "run_ledger \<Rightarrow> bool" where
  "ledger_ok l \<longleftrightarrow> distinct (map fst l) \<and> (\<forall>(i, e)\<in>set l. entry_ok i e)"

lemma ledger_ok_Nil [simp]: "ledger_ok []"
  by (simp add: ledger_ok_def)

lemma entry_ok_new: "entry_ok i (new_ledger_entry i)"
  by (simp add: entry_ok_def new_ledger_entry_def)

lemma entry_ok_ensure: "ledger_ok l \<Longrightarrow> entry_ok i (ensureLedgerEntry i l)"
  by (auto simp: ensureLedgerEntry_def ledger_ok_def entry_ok_new split: option.split dest!: map_of_SomeD)

lemma ledger_ok_update: "ledger_ok l \<Longrightarrow> entry_ok i e \<Longrightarrow> ledger_ok (AList.update i e l)"
proof -
  assume l: "ledger_ok l" and e: "entry_ok i e"
  have d: "distinct (map fst (AList.update i e l))"
    using l by (simp add: ledger_ok_def distinct_update)
  moreover have "entry_ok j f" if "(j, f) \<in> set (AList.update i e l)" for j f
  proof -
    from that d have "map_of (AList.update i e l) j = Some f" by simp
    then have "(if j = i then Some e else map_of l j) = Some f" by (simp add: update_conv' split: if_splits)
    then show ?thesis
      using l e map_of_SomeD [of l j f] by (auto simp: ledger_ok_def split: if_splits)
  qed
  ultimately show ?thesis unfolding ledger_ok_def by blast
qed

lemma ledger_ok_upd_ledger:
  "ledger_ok (plan_ledger p) \<Longrightarrow> (\<And>e. entry_ok i e \<Longrightarrow> entry_ok i (f e)) \<Longrightarrow>
   ledger_ok (plan_ledger (upd_ledger i f p))"
  by (simp add: upd_ledger_def ledger_ok_update entry_ok_ensure)

text \<open>The bounded lists of an entry under a fold of appends.\<close>

lemma foldl_append_limited:
  "0 < limit \<Longrightarrow> distinct xs \<Longrightarrow> length xs \<le> limit \<Longrightarrow>
   distinct (foldl (\<lambda>fs v. appendUniqueLimited fs v limit) xs vs) \<and>
   length (foldl (\<lambda>fs v. appendUniqueLimited fs v limit) xs vs) \<le> limit"
  by (induction vs arbitrary: xs) (simp_all add: appendUniqueLimited_distinct appendUniqueLimited_length)

lemma entry_ok_record_effect: "entry_ok i e \<Longrightarrow> entry_ok i (record_effect now sig tool args e)"
  unfolding entry_ok_def record_effect_def Let_def
  by (cases "arg_string args ''command''")
     (simp_all add: appendUniqueLimited_distinct appendUniqueLimited_length foldl_append_limited)

lemma mark_ledger_ok [simp]:
  "ledger_ok (plan_ledger p) \<Longrightarrow> ledger_ok (plan_ledger (markStepStarted now i p))"
  "ledger_ok (plan_ledger p) \<Longrightarrow> ledger_ok (plan_ledger (markStepCompleted now i p))"
  "ledger_ok (plan_ledger p) \<Longrightarrow> ledger_ok (plan_ledger (markStepFailed now i p))"
  by (simp_all only: mark_defs, auto intro!: ledger_ok_upd_ledger simp: entry_ok_def)

lemma plan_ledger_frame [simp]:
  "plan_ledger (set_step i f p) = plan_ledger p"
  "plan_ledger (add_step now s p) = plan_ledger p"
  "plan_ledger (finish_if_done p) = plan_ledger p"
  "plan_ledger (NewPlan now pid t d) = []"
  by (simp_all add: set_step_def add_step_def finish_if_done_def NewPlan_def)

text \<open>No operation leaves the limits.\<close>

lemma apply_plan_op_ledger_ok:
  assumes "ledger_ok (plan_ledger p)"
  shows "ledger_ok (plan_ledger (apply_plan_op sg now op p))"
proof (cases op)
  case (OpStart i)
  then show ?thesis
    using assms by (simp add: Plan_StartStep_def split: option.split)
next
  case (OpComplete i out)
  then show ?thesis
    using assms by (simp add: Plan_CompleteStep_def pause_unproved_def split: option.split)
next
  case (OpFail i msg)
  then show ?thesis
    using assms by (simp add: Plan_FailStep_def split: option.split)
next
  case (OpEffect i tool args)
  then show ?thesis
    using assms by (simp add: RecordStepEffect_def ledger_ok_upd_ledger entry_ok_record_effect)
qed (use assms in \<open>simp_all add: AddStepFull_def Plan_RecordStepVerification_def Plan_SkipStep_def
       Plan_RetryStep_def CheckTimeouts_def Plan_PauseStep_def Plan_ResumePausedSteps_def
       SetContextSnapshot_def Let_def split: option.split\<close>)

lemma reachable_ledger_ok: "plan_reachable sg p \<Longrightarrow> ledger_ok (plan_ledger p)"
proof (induction rule: plan_reachable.induct)
  case (created now pid t d)
  show ?case by simp
next
  case (changed p q)
  from changed.hyps(2) obtain now op where "q = apply_plan_op sg now op p"
    by (rule plan_stepE)
  with changed.IH show ?case by (simp add: apply_plan_op_ledger_ok)
qed

lemma reachable_run: "plan_reachable sg p \<Longrightarrow> plan_reachable sg (run_plan_ops sg p ops)"
proof (induction ops rule: rev_induct)
  case Nil
  then show ?case by simp
next
  case (snoc x ops)
  obtain now op where "x = (now, op)" by (cases x)
  with snoc show ?case
    by (simp add: plan_reachable.changed plan_step.intros)
qed

subsection \<open>Repeated effects\<close>

lemma entry_RecordStepEffect:
  assumes "0 < i"
  shows "map_of (plan_ledger (RecordStepEffect enc sha1hex now i tool args p)) i =
    Some (record_effect now (stepEffectSignature enc sha1hex tool args) tool args
            (ensureLedgerEntry i (plan_ledger p)))"
  using assms by (simp add: RecordStepEffect_def map_of_upd_ledger)

lemma record_effect_sel:
  "le_completed (record_effect now sig tool args e) = le_completed e"
  "le_partial_effects (record_effect now sig tool args e)"
  "le_tool_calls (record_effect now sig tool args e) = le_tool_calls e + 1"
  "le_duplicate_effects (record_effect now sig tool args e) =
     (if sig \<noteq> [] \<and> sig \<in> set (le_effect_signatures e) then le_duplicate_effects e + 1
      else le_duplicate_effects e)"
  "le_effect_signatures (record_effect now sig tool args e) =
     (if sig = [] then le_effect_signatures e else appendUniqueLimited (le_effect_signatures e) sig 120)"
  by (simp_all add: record_effect_def Let_def split: option.split)

lemma ensureLedgerEntry_Some: "map_of l i = Some e \<Longrightarrow> ensureLedgerEntry i l = e"
  by (simp add: ensureLedgerEntry_def)

lemma repeated_effect:
  fixes enc sha1hex tool args
  defines "sig \<equiv> stepEffectSignature enc sha1hex tool args"
  assumes i: "0 < i" and s: "sig \<noteq> []"
    and e0: "e0 = ensureLedgerEntry i (plan_ledger p)" and n: "\<not> le_completed e0" and d: "0 \<le> le_duplicate_effects e0"
  shows "HasDuplicateRisk i (RecordStepEffect enc sha1hex t3 i tool args
           (RecordStepEffect enc sha1hex t2 i tool args (RecordStepEffect enc sha1hex t1 i tool args p)))"
proof -
  let ?p1 = "RecordStepEffect enc sha1hex t1 i tool args p"
  let ?p2 = "RecordStepEffect enc sha1hex t2 i tool args ?p1"
  define e1 where "e1 = record_effect t1 sig tool args e0"
  define e2 where "e2 = record_effect t2 sig tool args e1"
  have 1: "ensureLedgerEntry i (plan_ledger ?p1) = e1"
    by (rule ensureLedgerEntry_Some) (simp add: entry_RecordStepEffect [OF i] e1_def e0 sig_def)
  have 2: "ensureLedgerEntry i (plan_ledger ?p2) = e2"
    by (rule ensureLedgerEntry_Some) (simp add: entry_RecordStepEffect [OF i] 1 e2_def sig_def)
  have m1: "sig \<in> set (le_effect_signatures e1)" and m2: "sig \<in> set (le_effect_signatures e2)"
    using s by (simp_all add: e1_def e2_def record_effect_sel appendUniqueLimited_member)
  have "0 \<le> le_duplicate_effects e1" using d by (simp add: e1_def record_effect_sel)
  then have "2 \<le> le_duplicate_effects (record_effect t3 sig tool args e2)"
    using s m1 m2 by (simp add: record_effect_sel e2_def)
  moreover have "\<not> le_completed (record_effect t3 sig tool args e2)"
    using n by (simp add: record_effect_sel e1_def e2_def)
  ultimately show ?thesis
    unfolding HasDuplicateRisk_def entry_RecordStepEffect [OF i] 2 sig_def [symmetric] by simp
qed

text \<open>A completed step carries neither risk.\<close>

lemma completed_entry_clean:
  "HasDuplicateRisk i (markStepCompleted now i p) = False \<and> HasPartialEffects i (markStepCompleted now i p) = False"
  by (simp add: HasDuplicateRisk_def HasPartialEffects_def markStepCompleted_def map_of_upd_ledger)

end
