(* ===== verification/PlanProps.thy ===== *)
theory PlanProps
  imports PlanLedger
begin

section \<open>Properties of plans\<close>

text \<open>
  What the plan components promise, each property with a concrete plan where it applies. The sample
  plan is built by the operations of the model: one step is added, started and given its proof.
\<close>

definition sample_signer :: signer where
  "sample_signer = \<lparr>sg_enc = (\<lambda>args. Some (concat (map fst args))), sg_sha1 = (\<lambda>s. s)\<rparr>"

definition sample_ops :: "(gotime \<times> plan_op) list" where
  "sample_ops =
     [(10, OpAddStep ''edit'' ''change f'' False [] 2 5), (11, OpStart 1),
      (12, OpVerify 1 [''contract.verify_commands_proof=true''] [])]"

definition sample_plan :: plan where
  "sample_plan = run_plan_ops sample_signer (NewPlan 5 ''plan_5'' ''t'' ''d'') sample_ops"

lemma sample_plan_wf: "plan_wf sample_plan"
  by code_simp

lemma GetStep_find: "find (has_id i) (plan_steps p) = Some s \<Longrightarrow> GetStep i p = Some s"
  by (simp add: GetStep_def)

lemma GetStep_set_step:
  "find (has_id i) (plan_steps p) = Some s \<Longrightarrow> has_id i (f s) \<Longrightarrow> GetStep i (set_step i f p) = Some (f s)"
  by (simp add: GetStep_def set_step_def find_upd_first_found)

lemma GetStep_plan_status [simp]:
  "GetStep i (p\<lparr>plan_status := x, plan_updated := y\<rparr>) = GetStep i p"
  by (simp add: GetStep_def)

lemma CanRetry_iff:
  "retry_ok s \<Longrightarrow> (step_status s \<noteq> StatusFailed \<or> step_max_retries s = 0 \<or>
     step_max_retries s \<le> step_retry_count s) \<longleftrightarrow> \<not> CanRetry s"
  unfolding retry_ok_def CanRetry_def by linarith

lemma HasTimedOut_step_expired: "HasTimedOut now = step_expired now"
  by (rule ext) (auto simp: HasTimedOut_def step_expired_def)

lemma expire_not_expired: "\<not> step_expired now (expire_step now s)"
  by (simp add: expire_step_def) (simp add: step_expired_def)

subsection \<open>Steps\<close>

text \<open>
  C1: Completion needs proof. Whatever operation of a plan is applied, a step that was not completed
  becomes completed only by completing that very step, and only when evidence was recorded for it
  that contains the proof that its verification commands ran.
\<close>

theorem step_completion_gate:
  assumes "plan_wf p" and "completed_at k (apply_plan_op sg now op p)" and "\<not> completed_at k p"
  shows "\<exists>out. op = OpComplete (step_id (plan_steps p ! k)) out \<and>
    step_evidence (plan_steps p ! k) \<noteq> [] \<and>
    containsEvidenceToken (step_evidence (plan_steps p ! k)) verify_proof_token"
  by (rule completion_needs_proof [OF assms])

theorem step_completion_gate_witness:
  "\<exists>out. OpComplete 1 ''ok'' = OpComplete (step_id (plan_steps sample_plan ! 0)) out \<and>
    step_evidence (plan_steps sample_plan ! 0) \<noteq> [] \<and>
    containsEvidenceToken (step_evidence (plan_steps sample_plan ! 0)) verify_proof_token"
proof (rule step_completion_gate [where sg = sample_signer and now = 13])
  show "plan_wf sample_plan" by (rule sample_plan_wf)
  show "completed_at 0 (apply_plan_op sample_signer 13 (OpComplete 1 ''ok'') sample_plan)" by code_simp
  show "\<not> completed_at 0 sample_plan" by code_simp
qed



text \<open>
   Retrying a step succeeds exactly when the step exists and \<open>CanRetry\<close> holds of it; then the
  step is pending again with one more retry counted and its old result erased. Otherwise the plan is
  unchanged.
\<close>

theorem retry_exact:
  assumes "plan_wf p"
  shows "case GetStep i p of
           None \<Rightarrow> Plan_RetryStep now i p = (False, p)
         | Some s \<Rightarrow>
             if CanRetry s
             then fst (Plan_RetryStep now i p) \<and>
                  GetStep i (snd (Plan_RetryStep now i p)) =
                    Some ((reset_step s)\<lparr>step_retry_count := step_retry_count s + 1, step_output := []\<rparr>)
             else Plan_RetryStep now i p = (False, p)"
proof (cases "find (has_id i) (plan_steps p)")
  case None
  then show ?thesis by (simp add: GetStep_def Plan_RetryStep_def)
next
  case (Some s)
  have "retry_ok s" "step_id s = i"
    using find_mem [OF Some] assms by (simp_all add: plan_wf_def has_id_def)
  then show ?thesis
    using GetStep_set_step [OF Some, of "\<lambda>s. (reset_step s)\<lparr>step_retry_count := step_retry_count s + 1,
            step_output := []\<rparr>"] CanRetry_iff [of s]
    by (simp add: GetStep_find [OF Some] Plan_RetryStep_def Some reset_step_def has_id_def)
qed

theorem retry_exact_witness:
  "let p = Plan_FailStep 13 1 ''boom'' sample_plan
   in fst (Plan_RetryStep 14 1 p) \<and> map_option step_status (GetStep 1 (snd (Plan_RetryStep 14 1 p))) = Some StatusPending"
proof -
  have "plan_wf (Plan_FailStep 13 1 ''boom'' sample_plan)"
    by (rule failing.preserves_wf [OF sample_plan_wf])
  from retry_exact [OF this, of 1 14] show ?thesis by code_simp
qed

text \<open>
   \<open>CheckTimeouts\<close> fails exactly the steps of which \<open>HasTimedOut\<close> holds: it reports their
  identifiers in order, leaves every other step alone, and when it returns no step is overdue.
\<close>

theorem timeouts_exact:
  "fst (CheckTimeouts now p) = map step_id (filter (HasTimedOut now) (plan_steps p)) \<and>
   plan_steps (snd (CheckTimeouts now p)) =
     map (\<lambda>s. if HasTimedOut now s
              then s\<lparr>step_status := StatusFailed,
                     step_error := ''step timed out after '' @ dur_string (step_timeout s), step_end := now\<rparr>
              else s) (plan_steps p) \<and>
   filter (HasTimedOut now) (plan_steps (snd (CheckTimeouts now p))) = []"
proof -
  have "filter (step_expired now) (map (expire_step now) (plan_steps p)) = []"
    by (simp add: filter_empty_conv expire_not_expired)
  then show ?thesis
    by (simp add: HasTimedOut_step_expired CheckTimeouts_def Let_def expire_step_def [abs_def])
qed

text \<open>
   The step contract is complete after \<open>EnsureContractDefaults\<close> and normalising it again
  changes nothing, whatever the step held before.
\<close>

theorem contract_defaults_complete:
  "contract_ok (EnsureContractDefaults s) \<and>
   EnsureContractDefaults (EnsureContractDefaults s) = EnsureContractDefaults s"
  using EnsureContractDefaults_normal [of s] EnsureContractDefaults_id [of "EnsureContractDefaults s"]
  by (simp add: contract_normal_def)

subsection \<open>The lifecycle\<close>

text \<open>
  C2: No execution without approval. In every run from a new plan, a plan is approved, executing,
  paused, failed or completed only after a request for approval and, later, an approval.
\<close>

theorem execution_needs_approval:
  "plan_lifecycle (run_plan_ops sg (NewPlan now0 pid t d) ops) \<in>
     {LifecycleApproved, LifecycleExecuting, LifecyclePaused, LifecycleFailed, LifecycleCompleted} \<Longrightarrow>
   subseq [LifecycleAwaitingApproval, LifecycleApproved] (lifecycle_requests ops)"
  by (rule executing_was_approved)

theorem execution_needs_approval_witness:
  "subseq [LifecycleAwaitingApproval, LifecycleApproved]
     (lifecycle_requests [(6, OpLifecycle LifecycleAwaitingApproval), (7, OpLifecycle LifecycleApproved),
                          (8, OpLifecycle LifecycleExecuting)])"
  by (rule execution_needs_approval [of sample_signer 5 "''plan_5''" "''t''" "''d''"]) code_simp

text \<open>
   A completed or cancelled plan stays so: no sequence of operations moves the lifecycle out of a
  terminal state.
\<close>

lemma terminal_step: "IsTerminal (plan_lifecycle p) \<Longrightarrow>
   plan_lifecycle (apply_plan_op sg now op p) = plan_lifecycle p"
proof (cases "\<exists>l. op = OpLifecycle l")
  case True
  assume t: "IsTerminal (plan_lifecycle p)"
  from True obtain l where "op = OpLifecycle l" by blast
  moreover have "LifecycleState p = plan_lifecycle p" using t by (auto simp: LifecycleState_def IsTerminal_def)
  ultimately show ?thesis
    using t terminal_absorbing [of "plan_lifecycle p" l] by (simp add: TransitionLifecycle_def Let_def)
qed (simp add: plan_ops_lifecycle_frame)

theorem terminal_forever:
  "IsTerminal (plan_lifecycle p) \<Longrightarrow> plan_lifecycle (run_plan_ops sg p ops) = plan_lifecycle p"
proof (induction ops rule: rev_induct)
  case (snoc x ops)
  obtain now op where "x = (now, op)" by (cases x)
  with snoc show ?case by (simp add: terminal_step)
qed simp

theorem terminal_forever_witness:
  "plan_lifecycle (run_plan_ops sample_signer
     (sample_plan\<lparr>plan_lifecycle := LifecycleCancelled\<rparr>) [(20, OpLifecycle LifecycleApproved)]) =
   LifecycleCancelled"
  using terminal_forever [of "sample_plan\<lparr>plan_lifecycle := LifecycleCancelled\<rparr>" sample_signer
      "[(20, OpLifecycle LifecycleApproved)]"]
  by (simp add: IsTerminal_def)

subsection \<open>The run ledger\<close>

text \<open>
   The run ledger of every reachable plan has one entry per step, and in every entry the tools,
  files, commands and effect signatures are free of duplicates and within their limits of 20, 50, 20
  and 120, so a saved plan cannot grow without bound.
\<close>

theorem ledger_bounded:
  "plan_reachable sg p \<Longrightarrow>
   distinct (map fst (plan_ledger p)) \<and>
   (\<forall>(i, e)\<in>set (plan_ledger p).
      le_step_id e = i \<and> distinct (le_tools e) \<and> length (le_tools e) \<le> 20 \<and>
      distinct (le_files_touched e) \<and> length (le_files_touched e) \<le> 50 \<and>
      distinct (le_commands e) \<and> length (le_commands e) \<le> 20 \<and>
      distinct (le_effect_signatures e) \<and> length (le_effect_signatures e) \<le> 120)"
  using reachable_ledger_ok [of sg p] unfolding ledger_ok_def entry_ok_def by blast

theorem ledger_bounded_witness: "distinct (map fst (plan_ledger sample_plan))"
proof -
  have "plan_reachable sample_signer sample_plan"
    unfolding sample_plan_def by (rule reachable_run) (rule plan_reachable.created)
  from ledger_bounded [OF this] show ?thesis by (rule conjunct1)
qed

text \<open>
   Making the same tool call three times on a step that has not completed is reported as a risk
  of duplicated side effects, and the first call alone as partial effects.
\<close>

theorem repeated_calls_flagged:
  assumes "ledger_ok (plan_ledger p)" and "0 < i"
    and "stepEffectSignature enc sha1hex tool args \<noteq> []"
    and "\<not> le_completed (ensureLedgerEntry i (plan_ledger p))"
  shows "HasPartialEffects i (RecordStepEffect enc sha1hex t1 i tool args p) \<and>
    HasDuplicateRisk i (RecordStepEffect enc sha1hex t3 i tool args
           (RecordStepEffect enc sha1hex t2 i tool args (RecordStepEffect enc sha1hex t1 i tool args p)))"
proof
  show "HasPartialEffects i (RecordStepEffect enc sha1hex t1 i tool args p)"
    using assms(4) by (simp add: HasPartialEffects_def entry_RecordStepEffect [OF assms(2)] record_effect_sel)
  have "0 \<le> le_duplicate_effects (ensureLedgerEntry i (plan_ledger p))"
    using entry_ok_ensure [OF assms(1), of i] by (simp add: entry_ok_def)
  then show "HasDuplicateRisk i (RecordStepEffect enc sha1hex t3 i tool args
           (RecordStepEffect enc sha1hex t2 i tool args (RecordStepEffect enc sha1hex t1 i tool args p)))"
    by (rule repeated_effect [OF assms(2,3) refl assms(4)])
qed

theorem repeated_calls_flagged_witness:
  "HasPartialEffects 1 (RecordStepEffect (sg_enc sample_signer) (sg_sha1 sample_signer) 20 1 ''write''
     [(''path'', ArgString ''f'')] sample_plan)"
proof (rule repeated_calls_flagged [THEN conjunct1])
  show "ledger_ok (plan_ledger sample_plan)" by code_simp
  show "stepEffectSignature (sg_enc sample_signer) (sg_sha1 sample_signer) ''write''
     [(''path'', ArgString ''f'')] \<noteq> []" by code_simp
  show "\<not> le_completed (ensureLedgerEntry 1 (plan_ledger sample_plan))" by code_simp
qed simp

subsection \<open>Scheduling\<close>

text \<open>
  C4: Only ready steps are scheduled. Every step that \<open>NextReadySteps\<close> returns is a pending step of
  the plan whose dependencies are all completed or skipped; at most four are returned; and when there
  are several, each allows parallel execution and touched no file that a running step touched.
\<close>

theorem scheduled_steps_ready:
  "length (NextReadySteps p) \<le> 4 \<and>
   (\<forall>s\<in>set (NextReadySteps p).
      s \<in> set (plan_steps p) \<and> step_status s = StatusPending \<and>
      (\<forall>d\<in>set (step_depends_on s). \<exists>t\<in>set (plan_steps p). step_id t = d \<and> is_done t) \<and>
      (1 < length (NextReadySteps p) \<longrightarrow> step_parallel s \<and> \<not> conflicts p s))"
  using NextReadySteps_batch [of p] NextReadySteps_ready [of _ p]
  unfolding done_id_def list_ex_iff maxParallelSteps_def by blast

definition two_parallel :: plan where
  "two_parallel = run_plan_ops sample_signer (NewPlan 5 ''plan_5'' ''t'' ''d'')
     [(10, OpAddStep ''a'' ''x'' True [] 0 0), (10, OpAddStep ''b'' ''x'' True [] 0 0),
      (10, OpAddStep ''c'' ''x'' False [1, 2] 0 0)]"

theorem scheduled_steps_ready_witness:
  "map step_id (NextReadySteps two_parallel) = [1, 2] \<and>
   list_all (\<lambda>s. step_parallel s \<and> \<not> conflicts two_parallel s) (NextReadySteps two_parallel)"
proof -
  have i: "map step_id (NextReadySteps two_parallel) = [1, 2]" by code_simp
  then have "length (NextReadySteps two_parallel) = 2" by (metis length_map length_Cons list.size(3) numeral_2_eq_2)
  with scheduled_steps_ready [of two_parallel] i show ?thesis by (simp add: list_all_iff)
qed



text \<open>
   Conditions are read back as they are written: for the condition \<open>step_N_failed\<close> or
  \<open>step_N_succeeded\<close> a step is skipped exactly when step \<open>N\<close> is missing or has not that outcome.
\<close>

lemma trim_step_text:
  assumes "w \<noteq> []" and "\<not> is_space (last w)"
  shows "trim_space (''step_'' @ w) = ''step_'' @ w"
proof -
  from assms have "dropWhile is_space (rev w @ ''_pets'') = rev w @ ''_pets''"
    by (cases "rev w") (auto simp: last_rev hd_rev simp flip: hd_rev)
  then show ?thesis by (simp add: trim_space_def is_space_def)
qed

theorem condition_decides_skip:
  assumes "step_condition s = ''step_'' @ itoa n @ ''_'' @ w" and "w = ''failed'' \<or> w = ''succeeded''"
    and "- (2 ^ 63) \<le> n" and "n < 2 ^ 63"
  shows "ShouldSkip s p =
    (case GetStep n p of
       None \<Rightarrow> True
     | Some r \<Rightarrow> step_status r \<noteq> (if w = ''failed'' then StatusFailed else StatusCompleted))"
proof -
  have w: "w \<noteq> []" "\<not> list_ex is_space w" "\<not> is_space (last w)"
    using assms(2) by (auto simp: is_space_def)
  have "trim_space (step_condition s) = step_condition s"
    using trim_step_text [of "itoa n @ ''_'' @ w"] w unfolding assms(1) by simp
  moreover have "scan_condition (step_condition s) = Some (n, w)"
    unfolding assms(1) by (rule scan_condition_format [OF assms(3,4) w(1,2)])
  ultimately show ?thesis
    using assms(1,2) by (auto simp: ShouldSkip_def GetStep_def split: option.split)
qed

theorem condition_decides_skip_witness:
  "\<not> ShouldSkip (zero_step\<lparr>step_condition := ''step_1_failed''\<rparr>) (Plan_FailStep 13 1 ''boom'' sample_plan)"
proof -
  have c: "step_condition (zero_step\<lparr>step_condition := ''step_1_failed''\<rparr>) = ''step_'' @ itoa 1 @ ''_'' @ ''failed''"
    by code_simp
  have "map_option step_status (GetStep 1 (Plan_FailStep 13 1 ''boom'' sample_plan)) = Some StatusFailed"
    by code_simp
  with condition_decides_skip [OF c, of "Plan_FailStep 13 1 ''boom'' sample_plan"] show ?thesis
    by (simp split: option.splits)
qed

end
