(* ===== verification/PlanStoreProps.thy ===== *)
theory PlanStoreProps
  imports PlanProps
begin

section \<open>Properties of the plan store and the plan manager\<close>

text \<open>
  What survives a crash, which saved plan is resumed, what cleaning up removes, and what the manager
  does to a plan when it replans, resumes and completes steps.
\<close>

lemma map_of_filter_distinct:
  "distinct (map fst d) \<Longrightarrow>
   map_of (filter P d) k = (case map_of d k of None \<Rightarrow> None | Some c \<Rightarrow> if P (k, c) then Some c else None)"
proof (induction d)
  case (Cons x d)
  have "map_of (filter P d) (fst x) = None"
    using Cons.prems by (auto simp: map_of_eq_None_iff)
  with Cons show ?case by (auto simp: map_of_eq_None_iff split: option.split)
qed simp

lemma GetStep_upd:
  "GetStep i p = Some s \<Longrightarrow> step_id (f s) = i \<Longrightarrow> plan_steps q = plan_steps (set_step i f p) \<Longrightarrow>
   GetStep i q = Some (f s)"
  using GetStep_set_step [of i p s f] by (simp add: GetStep_def has_id_def)

lemma CompleteStep_status:
  assumes "GetStep i p = Some s"
  shows "\<exists>t. GetStep i (Plan_CompleteStep now i out p) = Some t \<and>
    step_status t =
      (if step_evidence s \<noteq> [] \<and>
          (step_verify_commands s = [] \<or> containsEvidenceToken (step_evidence s) verify_proof_token)
       then StatusCompleted else StatusPaused)"
proof -
  have s: "find (has_id i) (plan_steps p) = Some s" "step_id s = i"
    using assms find_mem [of "has_id i" "plan_steps p" s] by (simp_all add: GetStep_def has_id_def)
  let ?proved = "step_evidence s \<noteq> [] \<and>
      (step_verify_commands s = [] \<or> containsEvidenceToken (step_evidence s) verify_proof_token)"
  show ?thesis
  proof (cases ?proved)
    case True
    let ?f = "\<lambda>s. s\<lparr>step_status := StatusCompleted, step_output := out, step_end := now\<rparr>"
    have "plan_steps (Plan_CompleteStep now i out p) = plan_steps (set_step i ?f p)"
    proof -
      from True have "step_evidence s \<noteq> []"
        and "\<not> (step_verify_commands s \<noteq> [] \<and>
                \<not> containsEvidenceToken (step_evidence s) verify_proof_token)" by blast+
      then show ?thesis by (simp only: Plan_CompleteStep_def s(1) option.case if_False) simp
    qed
    from GetStep_upd [OF assms _ this] s(2) True show ?thesis by simp
  next
    case False
    then have "step_evidence s = [] \<or> step_verify_commands s \<noteq> [] \<and>
        \<not> containsEvidenceToken (step_evidence s) verify_proof_token" by blast
    then have "\<exists>msg. Plan_CompleteStep now i out p = pause_unproved now i msg p"
      unfolding Plan_CompleteStep_def by (cases "step_evidence s = []") (simp_all add: s(1), blast+)
    then obtain msg where "Plan_CompleteStep now i out p = pause_unproved now i msg p" by blast
    then have "plan_steps (Plan_CompleteStep now i out p) =
        plan_steps (set_step i (\<lambda>s. s\<lparr>step_status := StatusPaused, step_error := msg, step_end := now\<rparr>) p)"
      by (simp add: pause_unproved_steps)
    from GetStep_upd [OF assms _ this] s(2) False show ?thesis by simp
  qed
qed

lemma complete_with_marker_status:
  assumes "GetStep i p = Some s"
  shows "\<exists>t. GetStep i (complete_with_marker now i out p) = Some t \<and>
    step_status t =
      (if step_evidence s = [] \<or> step_verify_commands s = [] \<or>
          containsEvidenceToken (step_evidence s) verify_proof_token
       then StatusCompleted else StatusPaused)"
proof (cases "step_evidence s = []")
  case False
  then have "complete_with_marker now i out p = Plan_CompleteStep now i out p"
    by (simp add: complete_with_marker_def assms)
  with CompleteStep_status [OF assms, of now out] False show ?thesis by simp
next
  case True
  let ?ev = "collect_trimmed 40 [] (manual_evidence out)"
  let ?f = "\<lambda>s. s\<lparr>step_evidence := ?ev, step_verification_note := trim_space ''Completed via plan manager''\<rparr>"
  let ?q = "snd (Plan_RecordStepVerification now i (manual_evidence out) ''Completed via plan manager'' p)"
  have s: "find (has_id i) (plan_steps p) = Some s" "step_id s = i"
    using assms find_mem [of "has_id i" "plan_steps p" s] by (simp_all add: GetStep_def has_id_def)
  have "plan_steps ?q = plan_steps (set_step i ?f p)"
    by (simp add: Plan_RecordStepVerification_def s(1) Let_def)
  from GetStep_upd [OF assms _ this] s(2) have g: "GetStep i ?q = Some (?f s)" by simp
  have tok: "?ev \<noteq> [] \<and> containsEvidenceToken ?ev verify_proof_token"
    unfolding manual_evidence_def by (cases "trim_space out \<noteq> []") (simp_all only: if_True if_False, code_simp+)
  have "complete_with_marker now i out p = Plan_CompleteStep now i out ?q"
    by (simp add: complete_with_marker_def assms True)
  with CompleteStep_status [OF g, of now out] tok True show ?thesis by simp
qed

subsection \<open>Files\<close>

text \<open>
   A plan identifier that the store accepts names a file directly in the store's directory: it
  holds no path separator, and cleaning the joined path neither changes it nor leaves the directory.
\<close>

theorem store_paths_confined:
  "SafeFilenameComponent v \<Longrightarrow>
   CHR ''/'' \<notin> set v \<and> CHR 0x5C \<notin> set v \<and> length v \<le> 240 \<and>
   path_clean (''d/'' @ v @ ''.json'') = ''d/'' @ v @ ''.json'' \<and>
   path_dir (''d/'' @ v @ ''.json'') = ''d''"
proof -
  assume v: "SafeFilenameComponent v"
  note c = SafeFilenameComponent_confined [OF v]
  have "path_dir (''d/'' @ v @ ''.json'') = path_clean ''d/''"
  proof -
    have "dropWhile (\<lambda>c. c \<noteq> CHR ''/'') (rev v @ ''/d'') = dropWhile (\<lambda>c. c \<noteq> CHR ''/'') ''/d''"
      using c(2) by (intro dropWhile_append2) auto
    then show ?thesis by (simp add: path_dir_def)
  qed
  also have "path_clean ''d/'' = ''d''" by code_simp
  finally show ?thesis
    using c v by (auto simp: SafeFilenameComponent_def list_ex_iff split: if_splits)
qed

theorem store_paths_confined_witness: "path_dir (''d/plan_5.json'') = ''d''"
  using store_paths_confined [of "''plan_5''"] by (simp add: SafeFilenameComponent_def name_char_def
      device_names_def upper_char_def)

text \<open>
   \<open>LoadLast\<close> resumes the most recent plan: the plan it returns is a resumable plan of the
  directory (or of no directory), with its contracts completed, and no such plan was updated later.
\<close>

theorem last_plan_is_latest:
  assumes "Store_LoadLast workDir d = Inr r"
  shows "\<exists>p. r = EnsureStepContracts p \<and> eligible workDir d p \<and>
             (\<forall>q. eligible workDir d q \<longrightarrow> plan_updated q \<le> plan_updated p)"
  by (rule LoadLast_latest [OF assms])

definition sample_dir :: plan_dir where
  "sample_dir = [(''plan_5'', Some sample_plan), (''plan_6'', Some (Plan_StartStep 10 1 two_parallel\<lparr>plan_id := ''plan_6''\<rparr>))]"

theorem last_plan_is_latest_witness:
  "\<exists>p r. Store_LoadLast [] sample_dir = Inr r \<and> r = EnsureStepContracts p \<and> eligible [] sample_dir p"
proof -
  have "case Store_LoadLast [] sample_dir of Inl e \<Rightarrow> False | Inr r \<Rightarrow> plan_id r = ''plan_6''" by code_simp
  then have "\<exists>r. Store_LoadLast [] sample_dir = Inr r" by (simp split: sum.splits)
  with last_plan_is_latest [of "[]" sample_dir] show ?thesis by blast
qed

text \<open>
   Cleaning up removes exactly the saved plans that expired (a paused plan after three times the
  age) and whose file can be deleted; it counts them and leaves every other file as it was.
\<close>

theorem cleanup_exact:
  assumes "distinct (map fst d)"
  shows "map_of (snd (Store_Cleanup io now maxAge d)) k =
      (case map_of d k of
         Some (Some p) \<Rightarrow>
           if SafeFilenameComponent k \<and> plan_id p = k \<and> io k \<and>
              plan_updated p < now - (if plan_status p = StatusPaused then 3 * maxAge else maxAge)
           then None else Some (Some p)
       | r \<Rightarrow> r) \<and>
    fst (Store_Cleanup io now maxAge d) + length (snd (Store_Cleanup io now maxAge d)) = length d"
proof
  let ?P = "\<lambda>f. \<not> (cleanup_removes now maxAge f \<and> io (fst f))"
  have "map_of (filter ?P d) k = (case map_of d k of None \<Rightarrow> None
      | Some c \<Rightarrow> if ?P (k, c) then Some c else None)"
    by (rule map_of_filter_distinct [OF assms])
  then show "map_of (snd (Store_Cleanup io now maxAge d)) k =
      (case map_of d k of
         Some (Some p) \<Rightarrow>
           if SafeFilenameComponent k \<and> plan_id p = k \<and> io k \<and>
              plan_updated p < now - (if plan_status p = StatusPaused then 3 * maxAge else maxAge)
           then None else Some (Some p)
       | r \<Rightarrow> r)"
    by (auto simp: Store_Cleanup_def cleanup_removes_def expired_def split: option.split)
  show "fst (Store_Cleanup io now maxAge d) + length (snd (Store_Cleanup io now maxAge d)) = length d"
    using sum_length_filter_compl [of "\<lambda>f. cleanup_removes now maxAge f \<and> io (fst f)" d]
    by (simp add: Store_Cleanup_def)
qed

theorem cleanup_exact_witness:
  "map_of (snd (Store_Cleanup (\<lambda>_. True) 1000 100 sample_dir)) ''plan_6'' = None"
proof -
  have d: "distinct (map fst sample_dir)" by code_simp
  obtain p where p: "map_of sample_dir ''plan_6'' = Some (Some p)" "plan_id p = ''plan_6''"
      "plan_status p = StatusInProgress" "plan_updated p = 10"
    by (rule that [of "Plan_StartStep 10 1 two_parallel\<lparr>plan_id := ''plan_6''\<rparr>"]) code_simp+
  have s: "SafeFilenameComponent ''plan_6''" by code_simp
  from cleanup_exact [OF d, of "\<lambda>_. True" 1000 100 "''plan_6''"] p s show ?thesis by simp
qed

subsection \<open>Crash recovery\<close>


definition sample_manager :: manager where
  "sample_manager =
     snd (LoadPlanByID ''plan_5'' ((NewManager True True)\<lparr>pm_store := Some sample_dir\<rparr>))"


subsection \<open>Replanning\<close>

text \<open>
   Replanning keeps every step that is no longer pending, in order, in front of the new ones, which
  are pending and depend only on steps of the new plan; the version grows by one.
\<close>

theorem replan_keeps_finished:
  "plan_version (replan now ns p) = plan_version p + 1 \<and>
   take (length (kept_steps p)) (plan_steps (replan now ns p)) = kept_steps p \<and>
   (\<forall>s\<in>set (drop (length (kept_steps p)) (plan_steps (replan now ns p))).
      step_status s = StatusPending \<and>
      set (step_depends_on s) \<subseteq> step_id ` set (plan_steps (replan now ns p)))"
proof -
  have "plan_version (replan now ns p) = plan_version p + 1" by (simp add: replan_def Let_def)
  moreover have "set (step_depends_on s) \<subseteq> step_id ` (set (kept_steps p) \<union> set (replan_steps (kept_steps p) ns))"
    if "s \<in> set (replan_steps (kept_steps p) ns)" for s
    unfolding image_Un using replan_steps_deps [OF that] by (rule subsetI)
  ultimately show ?thesis
    by (simp add: plan_steps_replan replan_steps_pending)
qed

theorem replan_keeps_finished_witness:
  "plan_version (replan 20 [zero_step\<lparr>step_depends_on := [2, 9]\<rparr>] (Plan_FailStep 13 1 ''boom'' two_parallel)) = 1 \<and>
   list_all (\<lambda>s. step_status s = StatusPending)
     (drop 1 (plan_steps (replan 20 [zero_step\<lparr>step_depends_on := [2, 9]\<rparr>]
                            (Plan_FailStep 13 1 ''boom'' two_parallel))))"
proof -
  let ?p = "Plan_FailStep 13 1 ''boom'' two_parallel"
  have "length (kept_steps ?p) = 1" "plan_version ?p = 0" by code_simp+
  then show ?thesis
    using replan_keeps_finished [of 20 "[zero_step\<lparr>step_depends_on := [2, 9]\<rparr>]" ?p]
    by (simp only: list_all_iff add_0, blast)
qed

text \<open>
   The new identifiers count from one past the number of kept steps, so they are unique exactly
  when no kept step already has one of them. A plan whose kept steps are not its first ones, which
  parallel steps allow, gets two steps with the same identifier.
\<close>

theorem replan_ids_unique_iff:
  assumes "plan_wf p"
  shows "distinct (map step_id (plan_steps (replan now ns p))) \<longleftrightarrow>
    (\<forall>s\<in>set (kept_steps p). step_id s \<notin>
       {int (length (kept_steps p)) + 1 .. int (length (kept_steps p)) + int (length ns)})"
  using assms by (intro replan_ids_distinct_iff) (simp add: plan_wf_def)

theorem replan_ids_unique_iff_witness:
  "\<not> distinct (map step_id (plan_steps (replan 20 [zero_step] (Plan_FailStep 13 2 ''boom'' two_parallel))))"
proof -
  let ?p = "Plan_FailStep 13 2 ''boom'' two_parallel"
  have w: "plan_wf ?p" by code_simp
  have k: "map step_id (kept_steps ?p) = [2]" by code_simp
  then obtain s where s: "kept_steps ?p = [s]" "step_id s = 2" by (auto simp: map_eq_Cons_conv)
  show ?thesis unfolding replan_ids_unique_iff [OF w] s(1) by (simp add: s(2))
qed

subsection \<open>Resuming\<close>



text \<open>
   The manager completes a step without evidence, because it records a marker and the proof token
  itself; a step with evidence of its own is completed only when that holds the token or the step
  has no verification commands, and is paused otherwise.
\<close>

theorem manual_completion:
  assumes "current_plan m = Some p" and "GetStep i p = Some s"
  shows "\<exists>q t. current_plan (Manager_CompleteStep now io i out m) = Some q \<and> GetStep i q = Some t \<and>
    step_status t =
      (if step_evidence s = [] \<or> step_verify_commands s = [] \<or>
          containsEvidenceToken (step_evidence s) verify_proof_token
       then StatusCompleted else StatusPaused)"
proof -
  have "current_plan (Manager_CompleteStep now io i out m) = Some (complete_with_marker now i out p)"
    using manager_op_current [of now io "DoComplete i out" m] assms(1) by simp
  moreover obtain t where "GetStep i (complete_with_marker now i out p) = Some t"
    "step_status t = (if step_evidence s = [] \<or> step_verify_commands s = [] \<or>
          containsEvidenceToken (step_evidence s) verify_proof_token
       then StatusCompleted else StatusPaused)"
    using complete_with_marker_status [OF assms(2)] by blast
  ultimately show ?thesis by blast
qed

theorem manual_completion_witness:
  "\<exists>q t. current_plan (Manager_CompleteStep 30 True 1 ''ok'' sample_manager) = Some q \<and>
     GetStep 1 q = Some t \<and> step_status t = StatusCompleted"
proof -
  obtain p s where p: "current_plan sample_manager = Some p" "GetStep 1 p = Some s"
    "containsEvidenceToken (step_evidence s) verify_proof_token"
    by (rule that [of sample_plan "hd (plan_steps sample_plan)"]) code_simp+
  from manual_completion [OF p(1,2), of 30 True "''ok''"] p(3) show ?thesis by simp
qed

subsection \<open>Checkpoints\<close>

text \<open>
   After any number of checkpoints the history holds the newest ones, oldest first, and never
  more than its bound (ten when none is given); each is a copy of the plan at its time.
\<close>

theorem checkpoint_history:
  "GetHistory (foldl (\<lambda>e (now, p). snd (SaveCheckpoint now (Some p) e)) (NewManagerUndoExtension n) cs) =
     last_n (nat (if n \<le> 0 then 10 else n)) (map (\<lambda>(now, p). checkpoint_of now p) cs)"
proof -
  have "foldl (\<lambda>e (now, p). snd (SaveCheckpoint now (Some p) e)) e cs =
      foldl (\<lambda>e st. push_checkpoint st e) e (map (\<lambda>(now, p). checkpoint_of now p) cs)" for e
    by (induction cs arbitrary: e) (auto simp: SaveCheckpoint_def)
  moreover have "ux_history (NewManagerUndoExtension n) = []"
    and "nat (ux_max_history (NewManagerUndoExtension n)) = nat (if n \<le> 0 then 10 else n)"
    by (simp_all add: NewManagerUndoExtension_def)
  ultimately show ?thesis
    using checkpoints.pushes [OF NewManagerUndoExtension_ok, of n "map (\<lambda>(now, p). checkpoint_of now p) cs"]
    by (simp add: GetHistory_def)
qed

end
