(* ===== verification/TaskQueue.thy ===== *)
theory TaskQueue
  imports Prelude "HOL-Library.Multiset"
begin

section \<open>The task queue\<close>

text \<open>
  \<^verbatim>\<open>internal/engine/agent/priority_queue.go\<close>: the priority queue of coordinated tasks on Go's
  \<open>container/heap\<close>. A task is a pointer; the model names it by its identifier, and \<open>tq_mem\<close> holds
  the task a name stands for, so the queue and the coordinator share tasks as the code does.
  \<open>heap_up\<close>, \<open>heap_down\<close>, \<open>heap_Push\<close>, \<open>heap_Pop\<close>, \<open>heap_Remove\<close> and \<open>heap_Fix\<close> are the functions of
  the standard library. The lemmas prove the heap order and the index bookkeeping, and the queue
  then meets the interface \<open>priority_queue\<close> that the coordinator relies on.
\<close>

subsection \<open>Tasks\<close>

datatype task_status = TaskPending | TaskBlocked | TaskReady | TaskRunning | TaskCompleted | TaskFailed

datatype agent_status = AgentPending | AgentRunning | AgentCompleted | AgentFailed | AgentCancelled

record agent_result =
  ar_agent_id :: string
  ar_type :: string
  ar_status :: agent_status
  ar_output :: string
  ar_error :: string
  ar_duration :: duration
  ar_completed :: bool

record ctask =
  ct_id :: string
  ct_prompt :: string
  ct_type :: string
  ct_prio :: int
  ct_deps :: "string list"
  ct_status :: task_status
  ct_result :: "agent_result option"
  ct_thought :: string
  ct_index :: int

record task_queue =
  tq_mem :: "string \<Rightarrow> ctask"
  tq_items :: "string list"

definition empty_queue :: "(string \<Rightarrow> ctask) \<Rightarrow> task_queue" where
  "empty_queue mem = \<lparr>tq_mem = mem, tq_items = []\<rparr>"

definition upd_task :: "string \<Rightarrow> (ctask \<Rightarrow> ctask) \<Rightarrow> task_queue \<Rightarrow> task_queue" where
  "upd_task r f q = q\<lparr>tq_mem := (tq_mem q)(r := f (tq_mem q r))\<rparr>"

subsection \<open>The methods of \<open>heap.Interface\<close>\<close>

definition Queue_Len :: "task_queue \<Rightarrow> nat" where
  "Queue_Len q = length (tq_items q)"

definition Queue_Less :: "task_queue \<Rightarrow> nat \<Rightarrow> nat \<Rightarrow> bool" where
  "Queue_Less q i j \<longleftrightarrow> ct_prio (tq_mem q (tq_items q ! j)) < ct_prio (tq_mem q (tq_items q ! i))"

definition Queue_Swap :: "nat \<Rightarrow> nat \<Rightarrow> task_queue \<Rightarrow> task_queue" where
  "Queue_Swap i j q =
     (let xs = (tq_items q)[i := tq_items q ! j, j := tq_items q ! i];
          q1 = q\<lparr>tq_items := xs\<rparr>
      in upd_task (xs ! j) (\<lambda>t. t\<lparr>ct_index := int j\<rparr>) (upd_task (xs ! i) (\<lambda>t. t\<lparr>ct_index := int i\<rparr>) q1))"

definition Queue_Push :: "string \<Rightarrow> task_queue \<Rightarrow> task_queue" where
  "Queue_Push r q =
     (upd_task r (\<lambda>t. t\<lparr>ct_index := int (length (tq_items q))\<rparr>) q)\<lparr>tq_items := tq_items q @ [r]\<rparr>"

definition Queue_Pop :: "task_queue \<Rightarrow> string \<times> task_queue" where
  "Queue_Pop q =
     (let r = last (tq_items q)
      in (r, (upd_task r (\<lambda>t. t\<lparr>ct_index := -1\<rparr>) q)\<lparr>tq_items := butlast (tq_items q)\<rparr>))"

subsection \<open>\<open>container/heap\<close>\<close>

fun heap_up :: "nat \<Rightarrow> task_queue \<Rightarrow> task_queue" where
  "heap_up j q =
     (let i = (j - 1) div 2
      in if i = j \<or> \<not> Queue_Less q j i then q else heap_up i (Queue_Swap i j q))"

text \<open>The larger child of \<open>i\<close> below \<open>n\<close>, and the loop of \<open>down\<close>, which says whether it moved.\<close>

definition heap_child :: "nat \<Rightarrow> nat \<Rightarrow> task_queue \<Rightarrow> nat" where
  "heap_child i n q =
     (let j1 = 2 * i + 1; j2 = j1 + 1 in if j2 < n \<and> Queue_Less q j2 j1 then j2 else j1)"

function heap_down :: "nat \<Rightarrow> nat \<Rightarrow> task_queue \<Rightarrow> bool \<times> task_queue" where
  "heap_down i n q =
     (if n \<le> 2 * i + 1 then (False, q)
      else let j = heap_child i n q
           in if \<not> Queue_Less q j i then (False, q)
              else (True, snd (heap_down j n (Queue_Swap i j q))))"
  by pat_completeness auto
termination
  by (relation "measure (\<lambda>(i, n, q). n - i)") (auto simp: heap_child_def Let_def)

declare heap_up.simps [simp del] heap_down.simps [simp del]

definition heap_Push :: "string \<Rightarrow> task_queue \<Rightarrow> task_queue" where
  "heap_Push r q = (let q1 = Queue_Push r q in heap_up (Queue_Len q1 - 1) q1)"

definition heap_Pop :: "task_queue \<Rightarrow> string \<times> task_queue" where
  "heap_Pop q = (let n = Queue_Len q - 1 in Queue_Pop (snd (heap_down 0 n (Queue_Swap 0 n q))))"

definition heap_settle :: "nat \<Rightarrow> nat \<Rightarrow> task_queue \<Rightarrow> task_queue" where
  "heap_settle i n q = (let (moved, q1) = heap_down i n q in if moved then q1 else heap_up i q1)"

definition heap_Remove :: "nat \<Rightarrow> task_queue \<Rightarrow> string \<times> task_queue" where
  "heap_Remove i q =
     (let n = Queue_Len q - 1
      in Queue_Pop (if n \<noteq> i then heap_settle i n (Queue_Swap i n q) else q))"

definition heap_Fix :: "nat \<Rightarrow> task_queue \<Rightarrow> task_queue" where
  "heap_Fix i q = heap_settle i (Queue_Len q) q"

subsection \<open>The queue\<close>

definition PushTask :: "string \<Rightarrow> task_queue \<Rightarrow> task_queue" where
  "PushTask r q = heap_Push r q"

definition PopTask :: "task_queue \<Rightarrow> string option \<times> task_queue" where
  "PopTask q = (if Queue_Len q = 0 then (None, q) else (let (r, q') = heap_Pop q in (Some r, q')))"

definition PeekTask :: "task_queue \<Rightarrow> string option" where
  "PeekTask q = (if Queue_Len q = 0 then None else Some (tq_items q ! 0))"

definition UpdatePriority :: "string \<Rightarrow> int \<Rightarrow> task_queue \<Rightarrow> bool \<times> task_queue" where
  "UpdatePriority r priority q =
     (let i = ct_index (tq_mem q r)
      in if i < 0 \<or> int (length (tq_items q)) \<le> i then (False, q)
         else if tq_items q ! nat i \<noteq> r then (False, q)
         else (True, heap_Fix (nat i) (upd_task r (\<lambda>t. t\<lparr>ct_prio := priority\<rparr>) q)))"

fun find_index :: "('a \<Rightarrow> bool) \<Rightarrow> 'a list \<Rightarrow> nat option" where
  "find_index P [] = None"
| "find_index P (x # xs) = (if P x then Some 0 else map_option Suc (find_index P xs))"

definition RemoveTask :: "string \<Rightarrow> task_queue \<Rightarrow> string option \<times> task_queue" where
  "RemoveTask taskID q =
     (case find_index (\<lambda>r. ct_id (tq_mem q r) = taskID) (tq_items q) of
        None \<Rightarrow> (None, q)
      | Some i \<Rightarrow> (let (r, q') = heap_Remove i q in (Some r, q')))"

definition GetReadyTasks :: "task_queue \<Rightarrow> string list" where
  "GetReadyTasks q = filter (\<lambda>r. ct_status (tq_mem q r) = TaskReady) (tq_items q)"

subsection \<open>Swapping\<close>

text \<open>The priority at a position; swapping exchanges two of them and touches nothing but indexes.\<close>

definition key :: "task_queue \<Rightarrow> nat \<Rightarrow> int" where
  "key q i = ct_prio (tq_mem q (tq_items q ! i))"

definition no_index :: "ctask \<Rightarrow> ctask" where
  "no_index t = t\<lparr>ct_index := 0\<rparr>"

definition same_tasks :: "task_queue \<Rightarrow> task_queue \<Rightarrow> bool" where
  "same_tasks q q' \<longleftrightarrow> (\<forall>r. no_index (tq_mem q' r) = no_index (tq_mem q r))"

lemma same_tasks_refl [simp]: "same_tasks q q"
  by (simp add: same_tasks_def)

lemma same_tasks_trans: "same_tasks q1 q2 \<Longrightarrow> same_tasks q2 q3 \<Longrightarrow> same_tasks q1 q3"
  by (simp add: same_tasks_def)

lemma no_index_sel [simp]:
  "ct_prio (no_index t) = ct_prio t" "ct_id (no_index t) = ct_id t" "ct_status (no_index t) = ct_status t"
  "ct_deps (no_index t) = ct_deps t" "ct_result (no_index t) = ct_result t" "ct_type (no_index t) = ct_type t"
  "no_index (t\<lparr>ct_index := i\<rparr>) = no_index t"
  by (simp_all add: no_index_def)

lemma same_tasks_sel:
  assumes "same_tasks q q'"
  shows "ct_prio (tq_mem q' r) = ct_prio (tq_mem q r)" "ct_id (tq_mem q' r) = ct_id (tq_mem q r)"
    "ct_status (tq_mem q' r) = ct_status (tq_mem q r)" "ct_deps (tq_mem q' r) = ct_deps (tq_mem q r)"
    "ct_result (tq_mem q' r) = ct_result (tq_mem q r)" "ct_type (tq_mem q' r) = ct_type (tq_mem q r)"
  using assms no_index_sel unfolding same_tasks_def by metis+

definition index_ok :: "task_queue \<Rightarrow> bool" where
  "index_ok q \<longleftrightarrow> distinct (tq_items q) \<and> (\<forall>k<length (tq_items q). ct_index (tq_mem q (tq_items q ! k)) = int k)"

lemma Queue_Less_key: "Queue_Less q i j \<longleftrightarrow> key q j < key q i"
  by (simp add: Queue_Less_def key_def)

lemma upd_index_same: "same_tasks q (upd_task r (\<lambda>t. t\<lparr>ct_index := i\<rparr>) q)"
  by (simp add: same_tasks_def upd_task_def)

lemma tq_items_upd [simp]: "tq_items (upd_task r f q) = tq_items q"
  by (simp add: upd_task_def)

lemma items_Swap [simp]: "tq_items (Queue_Swap i j q) = (tq_items q)[i := tq_items q ! j, j := tq_items q ! i]"
  by (simp add: Queue_Swap_def Let_def)

lemma same_tasks_items [simp]: "same_tasks q (q'\<lparr>tq_items := xs\<rparr>) = same_tasks q q'"
  by (simp add: same_tasks_def)

lemma same_tasks_Swap [simp]: "same_tasks q (Queue_Swap i j q)"
  unfolding Queue_Swap_def Let_def
  by (rule same_tasks_trans [OF _ upd_index_same], rule same_tasks_trans [OF _ upd_index_same]) simp

lemma mset_Swap [simp]:
  "i < length (tq_items q) \<Longrightarrow> j < length (tq_items q) \<Longrightarrow> mset (tq_items (Queue_Swap i j q)) = mset (tq_items q)"
  by (simp add: mset_swap)

lemma length_Swap [simp]: "length (tq_items (Queue_Swap i j q)) = length (tq_items q)"
  by simp

lemma key_Swap:
  "i < length (tq_items q) \<Longrightarrow> j < length (tq_items q) \<Longrightarrow>
   key (Queue_Swap i j q) = (key q)(i := key q j, j := key q i)"
proof
  fix k assume ij: "i < length (tq_items q)" "j < length (tq_items q)"
  have "key (Queue_Swap i j q) k = ct_prio (tq_mem q (tq_items (Queue_Swap i j q) ! k))"
    by (simp only: key_def same_tasks_sel(1) [OF same_tasks_Swap])
  then show "key (Queue_Swap i j q) k = ((key q)(i := key q j, j := key q i)) k"
    using ij by (cases "k < length (tq_items q)") (auto simp: key_def nth_list_update)
qed

lemma index_ok_Swap:
  assumes "index_ok q" and "i < length (tq_items q)" and "j < length (tq_items q)"
  shows "index_ok (Queue_Swap i j q)"
proof -
  let ?xs = "tq_items q"
  let ?ys = "?xs[i := ?xs ! j, j := ?xs ! i]"
  have d: "distinct ?xs" and ix: "\<And>k. k < length ?xs \<Longrightarrow> ct_index (tq_mem q (?xs ! k)) = int k"
    using assms(1) by (auto simp: index_ok_def)
  have dy: "distinct ?ys" using d assms(2,3) by (simp add: distinct_swap)
  have "ct_index (tq_mem (Queue_Swap i j q) (?ys ! k)) = int k" if k: "k < length ?xs" for k
  proof -
    have n: "?ys ! k = ?ys ! j \<longleftrightarrow> k = j" "?ys ! k = ?ys ! i \<longleftrightarrow> k = i"
      using nth_eq_iff_index_eq [OF dy, of k j] nth_eq_iff_index_eq [OF dy, of k i] k assms(2,3)
      by (simp_all only: length_list_update)
    show ?thesis
      using n ix [OF k] k
      by (simp add: Queue_Swap_def Let_def upd_task_def) (auto simp: nth_list_update)
  qed
  with dy show ?thesis by (simp add: index_ok_def)
qed

subsection \<open>The heap order\<close>

definition parent :: "nat \<Rightarrow> nat" where
  "parent c = (c - 1) div 2"

definition heap_inv :: "nat \<Rightarrow> task_queue \<Rightarrow> bool" where
  "heap_inv n q \<longleftrightarrow> (\<forall>c. 0 < c \<and> c < n \<longrightarrow> key q c \<le> key q (parent c))"

text \<open>
  The heap order everywhere below \<open>n\<close> but between \<open>i\<close> and its parent (\<open>heap_above\<close>), and but between
  \<open>i\<close> and its parent and its children (\<open>heap_around\<close>); in both the children of \<open>i\<close> respect the parent
  of \<open>i\<close>.
\<close>

definition child_of_parent :: "nat \<Rightarrow> nat \<Rightarrow> task_queue \<Rightarrow> bool" where
  "child_of_parent i n q \<longleftrightarrow> (\<forall>c. 0 < c \<and> c < n \<and> parent c = i \<and> 0 < i \<longrightarrow> key q c \<le> key q (parent i))"

definition heap_above :: "nat \<Rightarrow> nat \<Rightarrow> task_queue \<Rightarrow> bool" where
  "heap_above i n q \<longleftrightarrow>
     (\<forall>c. 0 < c \<and> c < n \<and> c \<noteq> i \<longrightarrow> key q c \<le> key q (parent c)) \<and> child_of_parent i n q"

definition heap_around :: "nat \<Rightarrow> nat \<Rightarrow> task_queue \<Rightarrow> bool" where
  "heap_around i n q \<longleftrightarrow>
     (\<forall>c. 0 < c \<and> c < n \<and> c \<noteq> i \<and> parent c \<noteq> i \<longrightarrow> key q c \<le> key q (parent c)) \<and> child_of_parent i n q"

lemma parent_less: "0 < c \<Longrightarrow> parent c < c"
  by (simp add: parent_def)

lemma parent_children [simp]: "parent (2 * i + 1) = i" "parent (2 * i + 2) = i"
  by (simp_all add: parent_def)

lemma parent_cases: "0 < c \<Longrightarrow> parent c = i \<Longrightarrow> c = 2 * i + 1 \<or> c = 2 * i + 2"
  by (simp add: parent_def) linarith

lemma heap_up_step:
  assumes "heap_above j n q" and "0 < j" and "j < n" and n: "n \<le> length (tq_items q)"
    and less: "key q (parent j) < key q j"
  shows "heap_above (parent j) n (Queue_Swap (parent j) j q)"
proof -
  let ?i = "parent j"
  have ij: "?i < j" using assms(2) by (rule parent_less)
  have ok: "key q c \<le> key q (parent c)" if "0 < c" "c < n" "c \<noteq> j" for c
    using assms(1) that by (simp add: heap_above_def)
  have gp: "key q c \<le> key q ?i" if "0 < c" "c < n" "parent c = j" for c
    using assms(1,2) that unfolding heap_above_def child_of_parent_def by blast
  have k: "key (Queue_Swap ?i j q) = (key q)(?i := key q j, j := key q ?i)"
    using ij assms(3) n by (intro key_Swap) simp_all
  have "key (Queue_Swap ?i j q) c \<le> key (Queue_Swap ?i j q) (parent c)"
    if c: "0 < c" "c < n" "c \<noteq> ?i" for c
  proof (cases "c = j")
    case True
    then show ?thesis using less ij by (simp add: k)
  next
    case False
    have "parent c < c" using c(1) by (rule parent_less)
    with False c show ?thesis
      using ok [OF c(1,2) False] gp [OF c(1,2)] less ij by (simp add: k) (fastforce)
  qed
  moreover have "child_of_parent ?i n (Queue_Swap ?i j q)"
    unfolding child_of_parent_def
  proof (intro allI impI, elim conjE)
    fix c assume c: "0 < c" "c < n" "parent c = ?i" "0 < ?i"
    have p: "parent ?i < ?i" using c(4) by (rule parent_less)
    have "key q ?i \<le> key q (parent ?i)" using ok [of ?i] c(4) ij assms(3) by simp
    moreover have "c \<noteq> ?i" using parent_less [OF c(1)] c(3) by simp
    ultimately show "key (Queue_Swap ?i j q) c \<le> key (Queue_Swap ?i j q) (parent ?i)"
      using ok [OF c(1,2)] c(3) p ij by (cases "c = j") (simp_all add: k)
  qed
  ultimately show ?thesis by (simp add: heap_above_def)
qed

lemma heap_up_inv: "heap_above j n q \<Longrightarrow> j < n \<Longrightarrow> n \<le> length (tq_items q) \<Longrightarrow> heap_inv n (heap_up j q)"
proof (induction j q rule: heap_up.induct)
  case (1 j q)
  show ?case
  proof (cases "parent j = j \<or> \<not> Queue_Less q j (parent j)")
    case True
    then have "heap_up j q = q" by (subst heap_up.simps) (simp add: parent_def Let_def)
    moreover have "key q j \<le> key q (parent j)" if "0 < j"
      using True parent_less [OF that] by (auto simp: Queue_Less_key)
    ultimately show ?thesis
      using "1.prems"(1) unfolding heap_inv_def heap_above_def by metis
  next
    case False
    then have e: "heap_up j q = heap_up (parent j) (Queue_Swap (parent j) j q)"
      by (subst heap_up.simps) (simp add: parent_def Let_def)
    have j: "0 < j" using False by (cases j) (simp_all add: parent_def)
    have "heap_above (parent j) n (Queue_Swap (parent j) j q)"
      using "1.prems" j False by (intro heap_up_step) (simp_all add: Queue_Less_key)
    with "1.IH" [of "parent j"] False "1.prems" parent_less [OF j] show ?thesis
      unfolding e by (simp add: parent_def)
  qed
qed

lemma heap_child_props:
  assumes "2 * i + 1 < n"
  shows "heap_child i n q < n" and "i < heap_child i n q" and "parent (heap_child i n q) = i"
    and "c < n \<Longrightarrow> 0 < c \<Longrightarrow> parent c = i \<Longrightarrow> key q c \<le> key q (heap_child i n q)"
proof -
  let ?l = "2 * i + 1" and ?r = "2 * i + 2"
  have e: "heap_child i n q = (if ?r < n \<and> key q ?l < key q ?r then ?r else ?l)"
    by (simp add: heap_child_def Queue_Less_key)
  show "heap_child i n q < n" "i < heap_child i n q" using assms by (simp_all add: e)
  show "parent (heap_child i n q) = i" unfolding e using parent_children [of i] by (simp split: if_split)
  show "key q c \<le> key q (heap_child i n q)" if "c < n" "0 < c" "parent c = i"
    using parent_cases [OF that(2,3)] that(1) unfolding e by (elim disjE) simp_all
qed

lemma heap_down_step:
  assumes "heap_around i n q" and "2 * i + 1 < n" and n: "n \<le> length (tq_items q)"
    and j: "j = heap_child i n q" and less: "key q i < key q j"
  shows "heap_around j n (Queue_Swap i j q)" and "\<And>c. 0 < c \<Longrightarrow> c < n \<Longrightarrow> c \<noteq> j \<Longrightarrow> parent c \<noteq> j \<Longrightarrow>
           key (Queue_Swap i j q) c \<le> key (Queue_Swap i j q) (parent c)"
    and "key (Queue_Swap i j q) j \<le> key (Queue_Swap i j q) i"
proof -
  note ch = heap_child_props [where q = q, OF assms(2), folded j]
  have k: "key (Queue_Swap i j q) = (key q)(i := key q j, j := key q i)"
    using ch(1,2) n by (intro key_Swap) simp_all
  have ok: "key q c \<le> key q (parent c)" if "0 < c" "c < n" "c \<noteq> i" "parent c \<noteq> i" for c
    using assms(1) that by (simp add: heap_around_def)
  have gp: "key q j \<le> key q (parent i)" if "0 < i"
    using assms(1) that ch(1,2,3) unfolding heap_around_def child_of_parent_def
    by (metis bot_nat_0.not_eq_extremum not_less_zero)
  have all: "key (Queue_Swap i j q) c \<le> key (Queue_Swap i j q) (parent c)"
    if c: "0 < c" "c < n" "c \<noteq> j" "parent c \<noteq> j" for c
  proof -
    note p = parent_less [OF c(1)]
    consider "c = i" | "c \<noteq> i" "parent c = i" | "c \<noteq> i" "parent c \<noteq> i" by blast
    then show ?thesis
    proof cases
      case 1
      then show ?thesis using gp c p ch(2) by (simp add: k)
    next
      case 2
      then show ?thesis using ch(4) [OF c(2,1)] c by (simp add: k)
    next
      case 3
      then show ?thesis using ok [OF c(1,2)] c by (simp add: k)
    qed
  qed
  then show "\<And>c. 0 < c \<Longrightarrow> c < n \<Longrightarrow> c \<noteq> j \<Longrightarrow> parent c \<noteq> j \<Longrightarrow>
           key (Queue_Swap i j q) c \<le> key (Queue_Swap i j q) (parent c)" .
  have "child_of_parent j n (Queue_Swap i j q)"
    unfolding child_of_parent_def
  proof (intro allI impI, elim conjE)
    fix c assume c: "0 < c" "c < n" "parent c = j"
    have "j < c" using parent_less [OF c(1)] c(3) by simp
    then have "key q c \<le> key q j" using ok [OF c(1,2)] c(3) ch(2) by simp
    then show "key (Queue_Swap i j q) c \<le> key (Queue_Swap i j q) (parent j)"
      using \<open>j < c\<close> ch(2,3) by (simp add: k)
  qed
  with all show "heap_around j n (Queue_Swap i j q)" by (simp add: heap_around_def)
  show "key (Queue_Swap i j q) j \<le> key (Queue_Swap i j q) i" using less ch(2) by (simp add: k)
qed

lemma heap_down_inv:
  "heap_around i n q \<Longrightarrow> n \<le> length (tq_items q) \<Longrightarrow>
   (fst (heap_down i n q) \<longrightarrow> heap_inv n (snd (heap_down i n q))) \<and>
   (\<not> fst (heap_down i n q) \<longrightarrow> snd (heap_down i n q) = q \<and> heap_above i n q)"
proof (induction i n q rule: heap_down.induct)
  case (1 i n q)
  show ?case
  proof (cases "n \<le> 2 * i + 1 \<or> \<not> Queue_Less q (heap_child i n q) i")
    case True
    then have e: "heap_down i n q = (False, q)" by (subst heap_down.simps) (auto simp: Let_def)
    have "key q c \<le> key q (parent c)" if c: "0 < c" "c < n" "c \<noteq> i" for c
    proof (cases "parent c = i")
      case p: True
      then have "2 * i + 1 < n" using parent_cases [OF c(1) p] c(2) by (elim disjE) simp_all
      then show ?thesis
        using True heap_child_props(4) [of i n c q] \<open>2 * i + 1 < n\<close> c p by (simp add: Queue_Less_key)
    next
      case False
      then show ?thesis using "1.prems"(1) c by (simp add: heap_around_def)
    qed
    then show ?thesis
      using "1.prems"(1) unfolding e heap_above_def heap_around_def by simp
  next
    case False
    define j where "j = heap_child i n q"
    let ?q = "Queue_Swap i j q"
    have lt: "2 * i + 1 < n" and less: "key q i < key q j"
      using False by (simp_all add: Queue_Less_key j_def)
    have e: "heap_down i n q = (True, snd (heap_down j n ?q))"
      using False by (subst heap_down.simps) (simp add: Let_def j_def)
    note st = heap_down_step [OF "1.prems"(1) lt "1.prems"(2) j_def less]
    have "n \<le> length (tq_items ?q)" using "1.prems"(2) by simp
    with "1.IH" [of j] False st(1) j_def
    have IH: "(fst (heap_down j n ?q) \<longrightarrow> heap_inv n (snd (heap_down j n ?q))) \<and>
       (\<not> fst (heap_down j n ?q) \<longrightarrow> snd (heap_down j n ?q) = ?q \<and> heap_above j n ?q)"
      by (simp add: not_le)
    have "heap_inv n (snd (heap_down j n ?q))"
    proof (cases "fst (heap_down j n ?q)")
      case True
      with IH show ?thesis by blast
    next
      case False
      with IH have s: "snd (heap_down j n ?q) = ?q" and a: "heap_above j n ?q" by blast+
      have "parent j = i" using heap_child_props(3) [where q = q, OF lt] by (simp add: j_def)
      then show ?thesis
        unfolding s heap_inv_def using a st(3) unfolding heap_above_def by metis
    qed
    then show ?thesis by (simp add: e)
  qed
qed

text \<open>What the loops leave alone: the tasks up to their index, the multiset of items, the index order.\<close>

definition same_content :: "task_queue \<Rightarrow> task_queue \<Rightarrow> bool" where
  "same_content q q' \<longleftrightarrow> same_tasks q q' \<and> mset (tq_items q') = mset (tq_items q) \<and> (index_ok q \<longrightarrow> index_ok q')"

lemma same_content_refl [simp]: "same_content q q"
  by (simp add: same_content_def)

lemma same_content_trans: "same_content q1 q2 \<Longrightarrow> same_content q2 q3 \<Longrightarrow> same_content q1 q3"
  unfolding same_content_def using same_tasks_trans by metis

lemma same_content_length: "same_content q q' \<Longrightarrow> length (tq_items q') = length (tq_items q)"
  unfolding same_content_def using mset_eq_length by blast

lemma same_content_Swap:
  "i < length (tq_items q) \<Longrightarrow> j < length (tq_items q) \<Longrightarrow> same_content q (Queue_Swap i j q)"
  unfolding same_content_def using index_ok_Swap mset_Swap same_tasks_Swap by blast

lemma heap_up_content: "j < length (tq_items q) \<Longrightarrow> same_content q (heap_up j q)"
proof (induction j q rule: heap_up.induct)
  case (1 j q)
  show ?case
  proof (cases "parent j = j \<or> \<not> Queue_Less q j (parent j)")
    case True
    then have "heap_up j q = q" by (subst heap_up.simps) (simp add: parent_def Let_def)
    then show ?thesis by simp
  next
    case False
    then have e: "heap_up j q = heap_up (parent j) (Queue_Swap (parent j) j q)"
      by (subst heap_up.simps) (simp add: parent_def Let_def)
    have p: "parent j < length (tq_items q)" using "1.prems" by (simp add: parent_def)
    with "1.IH" [of "parent j"] False have "same_content (Queue_Swap (parent j) j q) (heap_up j q)"
      unfolding e by (simp add: parent_def)
    with same_content_Swap [OF p "1.prems"] show ?thesis by (rule same_content_trans)
  qed
qed

lemma heap_down_content:
  "n \<le> length (tq_items q) \<Longrightarrow>
   same_content q (snd (heap_down i n q)) \<and>
   (\<forall>k\<ge>n. tq_items (snd (heap_down i n q)) ! k = tq_items q ! k)"
proof (induction i n q rule: heap_down.induct)
  case (1 i n q)
  show ?case
  proof (cases "n \<le> 2 * i + 1 \<or> \<not> Queue_Less q (heap_child i n q) i")
    case True
    then have "heap_down i n q = (False, q)" by (subst heap_down.simps) (auto simp: Let_def)
    then show ?thesis by simp
  next
    case False
    define j where "j = heap_child i n q"
    let ?q = "Queue_Swap i j q"
    have e: "snd (heap_down i n q) = snd (heap_down j n ?q)"
      using False by (subst heap_down.simps) (simp add: Let_def j_def)
    have lt: "2 * i + 1 < n" using False by simp
    have j: "i < j" "j < n" using heap_child_props(1,2) [where q = q, OF lt] by (simp_all add: j_def)
    have "n \<le> length (tq_items ?q)" using "1.prems" by simp
    with "1.IH" [of j] False j_def
    have IH: "same_content ?q (snd (heap_down j n ?q)) \<and>
       (\<forall>k\<ge>n. tq_items (snd (heap_down j n ?q)) ! k = tq_items ?q ! k)" by (simp add: not_le)
    have "same_content q ?q" using j "1.prems" by (intro same_content_Swap) simp_all
    moreover have "tq_items ?q ! k = tq_items q ! k" if "n \<le> k" for k
      using that j by simp
    ultimately show ?thesis unfolding e using IH same_content_trans by simp
  qed
qed

subsection \<open>The operations keep the order\<close>

definition queue_ok :: "task_queue \<Rightarrow> bool" where
  "queue_ok q \<longleftrightarrow> heap_inv (length (tq_items q)) q \<and> index_ok q"

lemma key_same_tasks:
  "same_tasks q q' \<Longrightarrow> tq_items q' ! k = tq_items q ! k \<Longrightarrow> key q' k = key q k"
  by (simp add: key_def same_tasks_sel(1))

lemma heap_inv_cong: "(\<And>k. k < n \<Longrightarrow> key q' k = key q k) \<Longrightarrow> heap_inv n q' = heap_inv n q"
  unfolding heap_inv_def using parent_less less_trans by metis

lemma heap_up_above: "\<forall>k>j. tq_items (heap_up j q) ! k = tq_items q ! k"
proof (induction j q rule: heap_up.induct)
  case (1 j q)
  show ?case
  proof (cases "parent j = j \<or> \<not> Queue_Less q j (parent j)")
    case True
    then have "heap_up j q = q" by (subst heap_up.simps) (simp add: parent_def Let_def)
    then show ?thesis by simp
  next
    case False
    then have e: "heap_up j q = heap_up (parent j) (Queue_Swap (parent j) j q)"
      by (subst heap_up.simps) (simp add: parent_def Let_def)
    have "parent j \<le> j" by (simp add: parent_def)
    moreover from "1.IH" [of "parent j"] False
    have "\<forall>k>parent j. tq_items (heap_up (parent j) (Queue_Swap (parent j) j q)) ! k =
        tq_items (Queue_Swap (parent j) j q) ! k" by (simp add: parent_def)
    ultimately show ?thesis unfolding e by simp
  qed
qed

lemma Queue_Push_props:
  assumes "queue_ok q" and "r \<notin> set (tq_items q)"
  shows "heap_above (length (tq_items q)) (Suc (length (tq_items q))) (Queue_Push r q)"
    and "index_ok (Queue_Push r q)" and "same_tasks q (Queue_Push r q)"
proof -
  let ?n = "length (tq_items q)" and ?q = "Queue_Push r q"
  show s: "same_tasks q ?q" by (simp add: Queue_Push_def upd_index_same)
  have k: "key ?q k = key q k" if "k < ?n" for k
    using that by (intro key_same_tasks [OF s]) (simp add: Queue_Push_def nth_append)
  show "heap_above ?n (Suc ?n) ?q"
    unfolding heap_above_def child_of_parent_def
  proof (intro conjI allI impI, goal_cases)
    case (1 c)
    then have "c < ?n" "parent c < ?n" using parent_less [of c] by simp_all
    with 1 assms(1) show ?case by (simp add: k queue_ok_def heap_inv_def)
  next
    case (2 c)
    then show ?case using parent_less [of c] by simp
  qed
  show "index_ok ?q"
    using assms by (auto simp: queue_ok_def index_ok_def Queue_Push_def upd_task_def nth_append)
qed

lemma heap_Push_ok:
  assumes "queue_ok q" and "r \<notin> set (tq_items q)"
  shows "queue_ok (heap_Push r q) \<and> same_tasks q (heap_Push r q) \<and>
         mset (tq_items (heap_Push r q)) = add_mset r (mset (tq_items q))"
proof -
  let ?n = "length (tq_items q)" and ?q = "Queue_Push r q"
  note p = Queue_Push_props [OF assms]
  have items: "tq_items ?q = tq_items q @ [r]" by (simp add: Queue_Push_def)
  have e: "heap_Push r q = heap_up ?n ?q" by (simp add: heap_Push_def Queue_Len_def items)
  have c: "same_content ?q (heap_up ?n ?q)" by (rule heap_up_content) (simp add: items)
  have "heap_inv (Suc ?n) (heap_up ?n ?q)" by (rule heap_up_inv [OF p(1)]) (simp_all add: items)
  then show ?thesis
    unfolding e using c p(2,3) same_tasks_trans [OF p(3)] same_content_length [OF c]
    by (simp add: queue_ok_def same_content_def items)
qed

text \<open>Dropping the last item, once it is the one to remove.\<close>

lemma Queue_Pop_ok:
  assumes "heap_inv (length (tq_items q) - 1) q" and "index_ok q" and "tq_items q \<noteq> []"
  shows "fst (Queue_Pop q) = tq_items q ! (length (tq_items q) - 1) \<and> queue_ok (snd (Queue_Pop q)) \<and>
    same_tasks q (snd (Queue_Pop q)) \<and>
    mset (tq_items (snd (Queue_Pop q))) = mset (tq_items q) - {#fst (Queue_Pop q)#}"
proof -
  let ?q = "snd (Queue_Pop q)"
  obtain xs r where x: "tq_items q = xs @ [r]" using assms(3) by (cases "tq_items q" rule: rev_cases) auto
  have f: "fst (Queue_Pop q) = r" and i: "tq_items ?q = xs" by (simp_all add: Queue_Pop_def Let_def x)
  have s: "same_tasks q ?q" by (simp add: Queue_Pop_def Let_def upd_index_same)
  have "key ?q k = key q k" if "k < length xs" for k
    using that by (intro key_same_tasks [OF s]) (simp add: i x nth_append)
  then have "heap_inv (length xs) ?q" using assms(1) heap_inv_cong [of "length xs" ?q q] by (simp add: x)
  moreover have "index_ok ?q"
    unfolding index_ok_def i
  proof (intro conjI allI impI)
    show "distinct xs" using assms(2) by (simp add: index_ok_def x)
    fix k assume k: "k < length xs"
    then have xk: "tq_items q ! k = xs ! k" and "xs ! k \<in> set xs" by (simp_all add: x nth_append)
    then have "xs ! k \<noteq> r" using assms(2) by (auto simp: index_ok_def x)
    moreover have "ct_index (tq_mem q (tq_items q ! k)) = int k"
      using assms(2) k unfolding index_ok_def x by simp
    ultimately have "xs ! k \<noteq> r" and "ct_index (tq_mem q (xs ! k)) = int k"
      unfolding xk .
    then show "ct_index (tq_mem ?q (xs ! k)) = int k" by (simp add: Queue_Pop_def Let_def upd_task_def x)
  qed
  ultimately show ?thesis using s by (simp add: f i x queue_ok_def)
qed

text \<open>Moving the item at \<open>i\<close> to the end and settling what took its place.\<close>

lemma swap_to_end:
  assumes "queue_ok q" and "i < n" and n: "Suc n = length (tq_items q)"
  shows "heap_around i n (Queue_Swap i n q)"
proof -
  have k: "key (Queue_Swap i n q) = (key q)(i := key q n, n := key q i)"
    using assms(2) n by (intro key_Swap) simp_all
  have h: "key q c \<le> key q (parent c)" if "0 < c" "c < Suc n" for c
    using assms(1) that by (simp add: queue_ok_def heap_inv_def n)
  show ?thesis
    unfolding heap_around_def child_of_parent_def
  proof (intro conjI allI impI, goal_cases)
    case (1 c)
    then show ?case using parent_less [of c] h [of c] by (simp add: k)
  next
    case (2 c)
    then have "parent i < i" "key q c \<le> key q i" "key q i \<le> key q (parent i)"
      using parent_less [of i] h [of c] h [of i] assms(2) by simp_all
    then show ?case using 2 assms(2) parent_less [of c] by (simp add: k)
  qed
qed

lemma heap_settle_ok:
  assumes "heap_around i n q" and "i < n" and n: "n \<le> length (tq_items q)"
  shows "heap_inv n (heap_settle i n q) \<and> same_content q (heap_settle i n q) \<and>
         (\<forall>k\<ge>n. tq_items (heap_settle i n q) ! k = tq_items q ! k)"
proof -
  note d = heap_down_inv [OF assms(1) n] heap_down_content [OF n, of i]
  obtain moved q1 where e: "heap_down i n q = (moved, q1)" by (cases "heap_down i n q")
  show ?thesis
  proof (cases moved)
    case True
    with d show ?thesis by (simp add: heap_settle_def e)
  next
    case False
    with d e have q1: "q1 = q" and a: "heap_above i n q" by auto
    have "i < length (tq_items q)" using assms(2) n by simp
    then show ?thesis
      using False heap_up_inv [OF a assms(2) n] heap_up_content [of i q] heap_up_above [of i q] assms(2)
      by (simp add: heap_settle_def e q1)
  qed
qed

lemma heap_Remove_ok:
  assumes "queue_ok q" and i: "i < length (tq_items q)"
  shows "fst (heap_Remove i q) = tq_items q ! i \<and> queue_ok (snd (heap_Remove i q)) \<and>
    same_tasks q (snd (heap_Remove i q)) \<and>
    mset (tq_items (snd (heap_Remove i q))) = mset (tq_items q) - {#tq_items q ! i#}"
proof -
  obtain n where n: "Suc n = length (tq_items q)" using i by (cases "length (tq_items q)") auto
  define q1 where "q1 = (if n \<noteq> i then heap_settle i n (Queue_Swap i n q) else q)"
  have e: "heap_Remove i q = Queue_Pop q1" by (simp add: heap_Remove_def Queue_Len_def n [symmetric] q1_def)
  have *: "heap_inv n q1 \<and> same_content q q1 \<and> tq_items q1 ! n = tq_items q ! i"
  proof (cases "n = i")
    case True
    have "heap_inv n q" using assms(1) by (auto simp: queue_ok_def heap_inv_def n [symmetric])
    with True show ?thesis by (simp add: q1_def)
  next
    case False
    then have i': "i < n" using i n by simp
    have "n \<le> length (tq_items (Queue_Swap i n q))" using n by simp
    note st = heap_settle_ok [OF swap_to_end [OF assms(1) i' n] i' this]
    have "same_content q (Queue_Swap i n q)" using i n by (intro same_content_Swap) simp_all
    moreover have "tq_items (Queue_Swap i n q) ! n = tq_items q ! i" using i' n by simp
    ultimately show ?thesis using st False same_content_trans unfolding q1_def by auto
  qed
  then have len: "length (tq_items q1) = Suc n" using same_content_length [of q q1] n by simp
  have "index_ok q1" using * assms(1) by (simp add: same_content_def queue_ok_def)
  with * len Queue_Pop_ok [of q1]
  have "fst (Queue_Pop q1) = tq_items q ! i \<and> queue_ok (snd (Queue_Pop q1)) \<and>
    same_tasks q1 (snd (Queue_Pop q1)) \<and>
    mset (tq_items (snd (Queue_Pop q1))) = mset (tq_items q1) - {#fst (Queue_Pop q1)#}" by force
  with * show ?thesis unfolding e same_content_def using same_tasks_trans by metis
qed

lemma heap_Pop_ok:
  assumes "queue_ok q" and "tq_items q \<noteq> []"
  shows "fst (heap_Pop q) = tq_items q ! 0 \<and> queue_ok (snd (heap_Pop q)) \<and>
    same_tasks q (snd (heap_Pop q)) \<and>
    mset (tq_items (snd (heap_Pop q))) = mset (tq_items q) - {#tq_items q ! 0#}"
proof -
  obtain n where n: "Suc n = length (tq_items q)" using assms(2) by (cases "length (tq_items q)") auto
  define q1 where "q1 = snd (heap_down 0 n (Queue_Swap 0 n q))"
  have e: "heap_Pop q = Queue_Pop q1" by (simp add: heap_Pop_def Queue_Len_def n [symmetric] q1_def)
  have nl: "n \<le> length (tq_items (Queue_Swap 0 n q))" using n by simp
  have around: "heap_around 0 n (Queue_Swap 0 n q)"
  proof (cases n)
    case 0
    then show ?thesis by (simp add: heap_around_def child_of_parent_def)
  next
    case (Suc m)
    then show ?thesis using swap_to_end [OF assms(1) _ n, of 0] by simp
  qed
  have h: "heap_inv n q1"
    using heap_down_inv [OF around nl] by (auto simp: q1_def heap_above_def heap_inv_def)
  have c: "same_content q q1"
    using heap_down_content [OF nl, of 0] same_content_trans [OF same_content_Swap [of 0 q n]] n assms(2)
    by (simp add: q1_def)
  have l: "tq_items q1 ! n = tq_items q ! 0"
    using heap_down_content [OF nl, of 0] n by (cases n) (simp_all add: q1_def)
  have len: "length (tq_items q1) = Suc n" using same_content_length [OF c] n by simp
  have "index_ok q1" using c assms(1) by (simp add: same_content_def queue_ok_def)
  with h len l Queue_Pop_ok [of q1]
  have "fst (Queue_Pop q1) = tq_items q ! 0 \<and> queue_ok (snd (Queue_Pop q1)) \<and>
    same_tasks q1 (snd (Queue_Pop q1)) \<and>
    mset (tq_items (snd (Queue_Pop q1))) = mset (tq_items q1) - {#fst (Queue_Pop q1)#}" by force
  with c show ?thesis unfolding e same_content_def using same_tasks_trans by metis
qed

lemma heap_root_max: "heap_inv n q \<Longrightarrow> k < n \<Longrightarrow> key q k \<le> key q 0"
proof (induction k rule: less_induct)
  case (less k)
  show ?case
  proof (cases "k = 0")
    case False
    then have "parent k < k" by (simp add: parent_less)
    with less.IH [OF this less.prems(1)] less.prems False show ?thesis
      unfolding heap_inv_def by (metis le_less_trans less_or_eq_imp_le neq0_conv order_trans)
  qed simp
qed

subsection \<open>The interface of a priority queue\<close>

text \<open>
  What a client of the queue may rely on: which items are in it, that an item taken out has the
  highest priority, and that nothing else changes. \<open>drain\<close> takes items out until none is left.
\<close>

fun drain :: "('q \<Rightarrow> 'r option \<times> 'q) \<Rightarrow> nat \<Rightarrow> 'q \<Rightarrow> 'r list" where
  "drain pop 0 q = []"
| "drain pop (Suc n) q = (case pop q of (None, q') \<Rightarrow> [] | (Some r, q') \<Rightarrow> r # drain pop n q')"

locale priority_queue =
  fixes push :: "'r \<Rightarrow> 'q \<Rightarrow> 'q"
    and pop :: "'q \<Rightarrow> 'r option \<times> 'q"
    and items :: "'q \<Rightarrow> 'r multiset"
    and prio :: "'q \<Rightarrow> 'r \<Rightarrow> int"
    and ok :: "'q \<Rightarrow> bool"
  assumes push: "ok q \<Longrightarrow> r \<notin># items q \<Longrightarrow>
      ok (push r q) \<and> items (push r q) = add_mset r (items q) \<and> prio (push r q) = prio q"
    and pop_empty: "ok q \<Longrightarrow> items q = {#} \<Longrightarrow> pop q = (None, q)"
    and pop_max: "ok q \<Longrightarrow> items q \<noteq> {#} \<Longrightarrow>
      \<exists>r q'. pop q = (Some r, q') \<and> r \<in># items q \<and> (\<forall>s\<in>#items q. prio q s \<le> prio q r) \<and>
             items q' = items q - {#r#} \<and> ok q' \<and> prio q' = prio q"
begin

lemma pop_None_iff: "ok q \<Longrightarrow> fst (pop q) = None \<longleftrightarrow> items q = {#}"
  using pop_empty [of q] pop_max [of q] by force

lemma drain_sorted:
  "ok q \<Longrightarrow> size (items q) \<le> n \<Longrightarrow>
   mset (drain pop n q) = items q \<and> sorted_wrt (\<lambda>r s. prio q s \<le> prio q r) (drain pop n q)"
proof (induction n arbitrary: q)
  case 0
  then show ?case by simp
next
  case (Suc n)
  show ?case
  proof (cases "items q = {#}")
    case True
    with Suc.prems(1) show ?thesis by (simp add: pop_empty)
  next
    case False
    then obtain r q' where p: "pop q = (Some r, q')" "r \<in># items q" "\<forall>s\<in>#items q. prio q s \<le> prio q r"
      "items q' = items q - {#r#}" "ok q'" "prio q' = prio q"
      using pop_max [OF Suc.prems(1)] by blast
    have "size (items q') \<le> n" using Suc.prems(2) p(2,4) by (simp add: size_Diff_singleton)
    with Suc.IH [OF p(5)] have IH: "mset (drain pop n q') = items q'"
      "sorted_wrt (\<lambda>r s. prio q s \<le> prio q r) (drain pop n q')" by (simp_all add: p(6))
    have "\<forall>s\<in>set (drain pop n q'). prio q s \<le> prio q r"
    proof
      fix s assume "s \<in> set (drain pop n q')"
      then have "s \<in># mset (drain pop n q')" by simp
      then have "s \<in># items q" unfolding IH(1) p(4) by (rule in_diffD)
      with p(3) show "prio q s \<le> prio q r" by blast
    qed
    with IH p show ?thesis by simp
  qed
qed

end

lemma PopTask_ok:
  assumes "queue_ok q" and "tq_items q \<noteq> []"
  shows "\<exists>r q'. PopTask q = (Some r, q') \<and> r \<in> set (tq_items q) \<and>
    (\<forall>s\<in>set (tq_items q). ct_prio (tq_mem q s) \<le> ct_prio (tq_mem q r)) \<and>
    mset (tq_items q') = mset (tq_items q) - {#r#} \<and> queue_ok q' \<and> same_tasks q q'"
proof -
  let ?r = "tq_items q ! 0"
  have max: "ct_prio (tq_mem q s) \<le> ct_prio (tq_mem q ?r)" if s: "s \<in> set (tq_items q)" for s
  proof -
    from s obtain k where k: "k < length (tq_items q)" "s = tq_items q ! k" by (metis in_set_conv_nth)
    with heap_root_max [of "length (tq_items q)" q k] assms(1) show ?thesis
      by (simp add: queue_ok_def key_def)
  qed
  have "PopTask q = (Some ?r, snd (heap_Pop q))"
    using heap_Pop_ok [OF assms] assms(2) by (simp add: PopTask_def Queue_Len_def split_beta)
  with heap_Pop_ok [OF assms] max assms(2) show ?thesis by simp
qed

interpretation task_queue: priority_queue PushTask PopTask "\<lambda>q. mset (tq_items q)"
  "\<lambda>q r. ct_prio (tq_mem q r)" queue_ok
proof
  fix q :: task_queue and r
  assume ok: "queue_ok q"
  show "queue_ok (PushTask r q) \<and> mset (tq_items (PushTask r q)) = add_mset r (mset (tq_items q)) \<and>
      (\<lambda>s. ct_prio (tq_mem (PushTask r q) s)) = (\<lambda>s. ct_prio (tq_mem q s))"
    if "r \<notin># mset (tq_items q)"
    using heap_Push_ok [OF ok] that same_tasks_sel(1) [of q "heap_Push r q"] by (simp add: PushTask_def)
  show "PopTask q = (None, q)" if "mset (tq_items q) = {#}"
    using that by (simp add: PopTask_def Queue_Len_def)
  show "\<exists>r q'. PopTask q = (Some r, q') \<and> r \<in># mset (tq_items q) \<and>
      (\<forall>s\<in>#mset (tq_items q). ct_prio (tq_mem q s) \<le> ct_prio (tq_mem q r)) \<and>
      mset (tq_items q') = mset (tq_items q) - {#r#} \<and> queue_ok q' \<and>
      (\<lambda>s. ct_prio (tq_mem q' s)) = (\<lambda>s. ct_prio (tq_mem q s))"
    if ne: "mset (tq_items q) \<noteq> {#}"
  proof -
    have "tq_items q \<noteq> []" using ne by auto
    from PopTask_ok [OF ok this] obtain r q' where *: "PopTask q = (Some r, q')" "r \<in> set (tq_items q)"
      "\<forall>s\<in>set (tq_items q). ct_prio (tq_mem q s) \<le> ct_prio (tq_mem q r)"
      "mset (tq_items q') = mset (tq_items q) - {#r#}" "queue_ok q'" "same_tasks q q'" by blast
    then show ?thesis using same_tasks_sel(1) [OF *(6)] by (intro exI [of _ r] exI [of _ q']) simp
  qed
qed

subsection \<open>Removing a task and changing its priority\<close>

lemma find_index_Some: "find_index P xs = Some i \<Longrightarrow> i < length xs \<and> P (xs ! i)"
  by (induction xs arbitrary: i) (auto split: if_splits)

lemma find_index_None: "find_index P xs = None \<longleftrightarrow> (\<forall>x\<in>set xs. \<not> P x)"
  by (induction xs) auto

lemma RemoveTask_ok:
  assumes "queue_ok q"
  shows "queue_ok (snd (RemoveTask i q)) \<and> same_tasks q (snd (RemoveTask i q)) \<and>
    (case fst (RemoveTask i q) of
       None \<Rightarrow> snd (RemoveTask i q) = q \<and> (\<forall>r\<in>set (tq_items q). ct_id (tq_mem q r) \<noteq> i)
     | Some r \<Rightarrow> r \<in> set (tq_items q) \<and> ct_id (tq_mem q r) = i \<and>
                 mset (tq_items (snd (RemoveTask i q))) = mset (tq_items q) - {#r#})"
proof (cases "find_index (\<lambda>r. ct_id (tq_mem q r) = i) (tq_items q)")
  case None
  then have "RemoveTask i q = (None, q)" by (simp add: RemoveTask_def)
  then show ?thesis using assms None by (simp add: find_index_None)
next
  case (Some k)
  with find_index_Some [OF Some] heap_Remove_ok [OF assms, of k] show ?thesis
    by (simp add: RemoveTask_def split_beta)
qed

lemma UpdatePriority_ok:
  assumes "queue_ok q" and "r \<in> set (tq_items q)"
  shows "fst (UpdatePriority r p q) \<and> queue_ok (snd (UpdatePriority r p q)) \<and>
    mset (tq_items (snd (UpdatePriority r p q))) = mset (tq_items q) \<and>
    (\<forall>s. ct_prio (tq_mem (snd (UpdatePriority r p q)) s) = (if s = r then p else ct_prio (tq_mem q s))) \<and>
    (\<forall>s. ct_id (tq_mem (snd (UpdatePriority r p q)) s) = ct_id (tq_mem q s))"
proof -
  obtain i where i: "i < length (tq_items q)" "tq_items q ! i = r" using assms(2) by (metis in_set_conv_nth)
  then have ix: "ct_index (tq_mem q r) = int i" using assms(1) unfolding queue_ok_def index_ok_def by blast
  let ?q = "upd_task r (\<lambda>t. t\<lparr>ct_prio := p\<rparr>) q"
  let ?n = "length (tq_items q)"
  have e: "UpdatePriority r p q = (True, heap_settle i ?n ?q)"
    using i ix by (simp add: UpdatePriority_def heap_Fix_def Queue_Len_def Let_def)
  have d: "distinct (tq_items q)" using assms(1) by (simp add: queue_ok_def index_ok_def)
  have k: "key ?q c = key q c" if "c \<noteq> i" "c < ?n" for c
  proof -
    have "tq_items q ! c \<noteq> r" using d i that by (metis nth_eq_iff_index_eq)
    then show ?thesis by (simp add: key_def upd_task_def)
  qed
  have h: "key q c \<le> key q (parent c)" if "0 < c" "c < ?n" for c
    using assms(1) that by (simp add: queue_ok_def heap_inv_def)
  have "heap_around i ?n ?q"
    unfolding heap_around_def child_of_parent_def
  proof (intro conjI allI impI, goal_cases)
    case (1 c)
    then show ?case using parent_less [of c] h [of c] by (simp add: k)
  next
    case (2 c)
    then have "parent i < i" "c \<noteq> i" "key q c \<le> key q i" "key q i \<le> key q (parent i)"
      using parent_less [of i] parent_less [of c] h [of c] h [of i] i(1) by auto
    then show ?case using 2 i(1) by (simp add: k)
  qed
  then have s: "heap_inv ?n (heap_settle i ?n ?q) \<and> same_content ?q (heap_settle i ?n ?q)"
    using heap_settle_ok [of i ?n ?q] i(1) by simp
  have "index_ok ?q" using assms(1) unfolding queue_ok_def index_ok_def upd_task_def by auto
  then have "queue_ok (heap_settle i ?n ?q)"
    using s same_content_length [of ?q "heap_settle i ?n ?q"] by (simp add: queue_ok_def same_content_def)
  moreover have "ct_prio (tq_mem (heap_settle i ?n ?q) x) = (if x = r then p else ct_prio (tq_mem q x))" for x
    using s same_tasks_sel(1) [of ?q "heap_settle i ?n ?q" x] by (simp add: same_content_def upd_task_def)
  moreover have "ct_id (tq_mem (heap_settle i ?n ?q) x) = ct_id (tq_mem q x)" for x
    using s same_tasks_sel [of ?q "heap_settle i ?n ?q" x] by (simp add: same_content_def upd_task_def)
  ultimately show ?thesis using s by (simp add: e same_content_def)
qed

lemma UpdatePriority_absent: "r \<notin> set (tq_items q) \<Longrightarrow> UpdatePriority r p q = (False, q)"
proof -
  assume r: "r \<notin> set (tq_items q)"
  let ?i = "ct_index (tq_mem q r)"
  have "tq_items q ! nat ?i \<noteq> r" if "0 \<le> ?i" "?i < int (length (tq_items q))"
  proof -
    have "nat ?i < length (tq_items q)" using that by linarith
    from nth_mem [OF this] r show ?thesis by metis
  qed
  then show ?thesis unfolding UpdatePriority_def Let_def by (simp add: not_le)
qed

lemma empty_queue_ok: "queue_ok (empty_queue mem)"
  by (simp add: queue_ok_def heap_inv_def index_ok_def empty_queue_def)

end
