(* ===== verification/QueueSpec.thy ===== *)
theory QueueSpec
  imports TaskQueue
begin

section \<open>What the task queue promises\<close>

text \<open>
  The abstract queue is a set of tasks with their priorities. Every sequence of operations of the heap
  is a sequence of steps of the abstract queue with the same answers, where taking a task off gives one
  of the highest priority.
\<close>

datatype queue_op = OpPush string | OpPop | OpRemove string | OpUpdate string int

fun queue_exec :: "queue_op \<Rightarrow> task_queue \<Rightarrow> string option \<times> task_queue" where
  "queue_exec (OpPush r) q = (None, PushTask r q)"
| "queue_exec OpPop q = PopTask q"
| "queue_exec (OpRemove i) q = RemoveTask i q"
| "queue_exec (OpUpdate r p) q = (let (b, q') = UpdatePriority r p q in (if b then Some r else None, q'))"

fun queue_run :: "queue_op list \<Rightarrow> task_queue \<Rightarrow> string option list \<times> task_queue" where
  "queue_run [] q = ([], q)"
| "queue_run (x # xs) q = (let (a, q1) = queue_exec x q; (as, q2) = queue_run xs q1 in (a # as, q2))"

text \<open>The abstract queue: the tasks in it and the priority of every task.\<close>

type_synonym queue_spec = "string set \<times> (string \<Rightarrow> int)"

fun spec_step :: "queue_op \<Rightarrow> queue_spec \<Rightarrow> string option \<Rightarrow> queue_spec \<Rightarrow> bool" where
  "spec_step (OpPush r) (S, p) a (S', p') \<longleftrightarrow> a = None \<and> S' = insert r S \<and> p' = p"
| "spec_step OpPop (S, p) a (S', p') \<longleftrightarrow>
     p' = p \<and> (case a of None \<Rightarrow> S = {} \<and> S' = S
                        | Some r \<Rightarrow> r \<in> S \<and> S' = S - {r} \<and> (\<forall>s\<in>S. p s \<le> p r))"
| "spec_step (OpRemove i) (S, p) a (S', p') \<longleftrightarrow> a = (if i \<in> S then Some i else None) \<and> S' = S - {i} \<and> p' = p"
| "spec_step (OpUpdate r k) (S, p) a (S', p') \<longleftrightarrow>
     S' = S \<and> (if r \<in> S then a = Some r \<and> p' = p(r := k) else a = None \<and> p' = p)"

fun spec_run :: "queue_op list \<Rightarrow> queue_spec \<Rightarrow> string option list \<Rightarrow> queue_spec \<Rightarrow> bool" where
  "spec_run [] s as s' \<longleftrightarrow> as = [] \<and> s' = s"
| "spec_run (x # xs) s as s' \<longleftrightarrow> (\<exists>a bs t. as = a # bs \<and> spec_step x s a t \<and> spec_run xs t bs s')"

definition abs_queue :: "task_queue \<Rightarrow> queue_spec" where
  "abs_queue q = (set (tq_items q), \<lambda>r. ct_prio (tq_mem q r))"

text \<open>No task is pushed while it is in the queue; \<open>S\<close> is what may be in it.\<close>

fun pushes_ok :: "queue_op list \<Rightarrow> task_queue \<Rightarrow> bool" where
  "pushes_ok [] q = True"
| "pushes_ok (x # xs) q =
     ((case x of OpPush r \<Rightarrow> r \<notin> set (tq_items q) | _ \<Rightarrow> True) \<and> pushes_ok xs (snd (queue_exec x q)))"

text \<open>Tasks carry their own names.\<close>

definition names_ok :: "task_queue \<Rightarrow> bool" where
  "names_ok q \<longleftrightarrow> (\<forall>r. ct_id (tq_mem q r) = r)"

definition queue_wf :: "task_queue \<Rightarrow> bool" where
  "queue_wf q \<longleftrightarrow> queue_ok q \<and> names_ok q"

lemma names_same: "same_tasks q q' \<Longrightarrow> names_ok q' = names_ok q"
  by (simp add: names_ok_def same_tasks_sel)

lemma queue_wf_distinct: "queue_wf q \<Longrightarrow> distinct (tq_items q)"
  by (simp add: queue_wf_def queue_ok_def index_ok_def)

lemma mset_remove_set:
  assumes "mset ys = mset xs - {#x#}" and "distinct xs" and "x \<in> set xs"
  shows "set ys = set xs - {x}"
proof -
  have "mset ys = mset (remove1 x xs)" using assms(1,3) by simp
  then have "set ys = set (remove1 x xs)" by (rule mset_eq_setD)
  with assms(2) show ?thesis by simp
qed

lemma prio_same: "same_tasks q q' \<Longrightarrow> (\<lambda>r. ct_prio (tq_mem q' r)) = (\<lambda>r. ct_prio (tq_mem q r))"
  by (simp add: same_tasks_sel)

lemma exec_push:
  assumes "queue_wf q" and "r \<notin> set (tq_items q)"
  shows "queue_wf (PushTask r q) \<and> spec_step (OpPush r) (abs_queue q) None (abs_queue (PushTask r q))"
proof -
  have P: "queue_ok (PushTask r q) \<and> same_tasks q (PushTask r q) \<and>
      mset (tq_items (PushTask r q)) = add_mset r (mset (tq_items q))"
    using heap_Push_ok [of q r] assms by (simp add: PushTask_def queue_wf_def)
  then have "set_mset (mset (tq_items (PushTask r q))) = insert r (set (tq_items q))"
    by (metis set_mset_add_mset_insert set_mset_mset)
  then have "set (tq_items (PushTask r q)) = insert r (set (tq_items q))" by simp
  with P assms(1) prio_same [of q "PushTask r q"] names_same [of q "PushTask r q"]
  show ?thesis by (simp add: queue_wf_def abs_queue_def)
qed

lemma exec_pop:
  assumes "queue_wf q"
  shows "queue_wf (snd (PopTask q)) \<and> spec_step OpPop (abs_queue q) (fst (PopTask q)) (abs_queue (snd (PopTask q)))"
proof (cases "tq_items q = []")
  case True
  then have "PopTask q = (None, q)" by (simp add: PopTask_def Queue_Len_def)
  with True assms show ?thesis by (simp add: abs_queue_def)
next
  case False
  obtain r q' where p: "PopTask q = (Some r, q')" "r \<in> set (tq_items q)"
    "\<forall>s\<in>set (tq_items q). ct_prio (tq_mem q s) \<le> ct_prio (tq_mem q r)"
    "mset (tq_items q') = mset (tq_items q) - {#r#}" "queue_ok q'" "same_tasks q q'"
    using PopTask_ok [OF _ False] assms unfolding queue_wf_def by blast
  have "set (tq_items q') = set (tq_items q) - {r}"
    by (rule mset_remove_set [OF p(4) queue_wf_distinct [OF assms] p(2)])
  with p assms names_same [OF p(6)] prio_same [OF p(6)] show ?thesis by (simp add: queue_wf_def abs_queue_def)
qed

lemma exec_remove:
  assumes "queue_wf q"
  shows "queue_wf (snd (RemoveTask i q)) \<and>
    spec_step (OpRemove i) (abs_queue q) (fst (RemoveTask i q)) (abs_queue (snd (RemoveTask i q)))"
proof -
  note d = queue_wf_distinct [OF assms]
  have n: "ct_id (tq_mem q r) = r" for r using assms by (simp add: queue_wf_def names_ok_def)
  obtain a q' where e: "RemoveTask i q = (a, q')" by fastforce
  have R: "queue_ok q' \<and> same_tasks q q' \<and>
      (case a of None \<Rightarrow> q' = q \<and> i \<notin> set (tq_items q)
       | Some r \<Rightarrow> r = i \<and> i \<in> set (tq_items q) \<and> mset (tq_items q') = mset (tq_items q) - {#i#})"
    using RemoveTask_ok [of q i] assms n by (auto simp: e queue_wf_def split: option.splits)
  have w: "queue_wf q'" using R assms names_same [of q q'] by (simp add: queue_wf_def)
  show ?thesis
  proof (cases a)
    case None
    with R w show ?thesis by (simp add: e abs_queue_def)
  next
    case (Some r)
    with R have "set (tq_items q') = set (tq_items q) - {i}" using mset_remove_set [OF _ d] by simp
    with R Some w prio_same [of q q'] show ?thesis by (simp add: e abs_queue_def)
  qed
qed

lemma exec_update:
  assumes "queue_wf q"
  shows "queue_wf (snd (queue_exec (OpUpdate r p) q)) \<and>
    spec_step (OpUpdate r p) (abs_queue q) (fst (queue_exec (OpUpdate r p) q)) (abs_queue (snd (queue_exec (OpUpdate r p) q)))"
proof (cases "r \<in> set (tq_items q)")
  case True
  obtain b q' where e: "UpdatePriority r p q = (b, q')" by fastforce
  have U: "b \<and> queue_ok q' \<and> mset (tq_items q') = mset (tq_items q) \<and>
      (\<forall>s. ct_prio (tq_mem q' s) = (if s = r then p else ct_prio (tq_mem q s))) \<and>
      (\<forall>s. ct_id (tq_mem q' s) = ct_id (tq_mem q s))"
    using UpdatePriority_ok [OF _ True, of p] assms by (simp add: e queue_wf_def)
  then have "set (tq_items q') = set (tq_items q)" by (metis mset_eq_setD)
  with U True assms show ?thesis by (auto simp: e queue_wf_def names_ok_def abs_queue_def)
next
  case False
  with UpdatePriority_absent [OF False, of p] assms show ?thesis by (simp add: abs_queue_def)
qed

lemma exec_refines:
  assumes "queue_wf q" and "case x of OpPush r \<Rightarrow> r \<notin> set (tq_items q) | _ \<Rightarrow> True"
  shows "queue_wf (snd (queue_exec x q)) \<and>
    spec_step x (abs_queue q) (fst (queue_exec x q)) (abs_queue (snd (queue_exec x q)))"
  using assms exec_push exec_pop exec_remove exec_update by (cases x) simp_all

lemma run_refines:
  "queue_wf q \<Longrightarrow> pushes_ok xs q \<Longrightarrow> queue_run xs q = (as, q') \<Longrightarrow>
   queue_wf q' \<and> spec_run xs (abs_queue q) as (abs_queue q')"
proof (induction xs arbitrary: q as)
  case (Cons x xs)
  obtain a q1 where e: "queue_exec x q = (a, q1)" by fastforce
  obtain bs where r: "queue_run xs q1 = (bs, q')" "as = a # bs"
    using Cons.prems(3) by (auto simp: e split: prod.splits)
  have E: "queue_wf q1 \<and> spec_step x (abs_queue q) a (abs_queue q1)"
    using exec_refines [OF Cons.prems(1), of x] Cons.prems(2) by (simp add: e)
  have "pushes_ok xs q1" using Cons.prems(2) by (simp add: e)
  with Cons.IH [OF _ _ r(1)] E have "queue_wf q'" "spec_run xs (abs_queue q1) bs (abs_queue q')" by blast+
  with E r(2) show ?case unfolding spec_run.simps by blast
qed simp

subsection \<open>Properties of the queue\<close>

lemma empty_names_ok: "(\<And>r. ct_id (mem r) = r) \<Longrightarrow> queue_wf (empty_queue mem)"
  by (simp add: queue_wf_def names_ok_def empty_queue_ok) (simp add: empty_queue_def)

text \<open>
  C13: The heap refines the abstract priority queue: from a new queue, every sequence of pushes, pops,
  removals and changes of priority gives answers that the abstract queue allows, and ends with the
  tasks and priorities of the abstract queue; a pop gives a task of the highest priority.
\<close>
theorem heap_refines_queue:
  assumes "\<And>r. ct_id (mem r) = r" and "pushes_ok xs (empty_queue mem)"
    and "queue_run xs (empty_queue mem) = (answers, q)"
  shows "spec_run xs ({}, \<lambda>r. ct_prio (mem r)) answers (abs_queue q)"
  using run_refines [OF empty_names_ok [OF assms(1)] assms(2,3)] by (simp add: abs_queue_def empty_queue_def)

definition sample_mem :: "string \<Rightarrow> ctask" where
  "sample_mem r =
     \<lparr>ct_id = r, ct_prompt = [], ct_type = [], ct_prio = int (length r), ct_deps = [], ct_status = TaskReady,
      ct_result = None, ct_thought = [], ct_index = 0\<rparr>"

definition sample_ops :: "queue_op list" where
  "sample_ops = [OpPush ''a'', OpPush ''bbb'', OpPush ''cc'', OpUpdate ''a'' 9, OpPop, OpRemove ''cc'', OpPop, OpPop]"

lemma heap_refines_queue_witness:
  "fst (queue_run sample_ops (empty_queue sample_mem)) =
     [None, None, None, Some ''a'', Some ''a'', Some ''cc'', Some ''bbb'', None] \<and>
   spec_run sample_ops ({}, \<lambda>r. ct_prio (sample_mem r)) (fst (queue_run sample_ops (empty_queue sample_mem)))
     (abs_queue (snd (queue_run sample_ops (empty_queue sample_mem))))"
proof
  show "fst (queue_run sample_ops (empty_queue sample_mem)) =
     [None, None, None, Some ''a'', Some ''a'', Some ''cc'', Some ''bbb'', None]" by code_simp
  show "spec_run sample_ops ({}, \<lambda>r. ct_prio (sample_mem r)) (fst (queue_run sample_ops (empty_queue sample_mem)))
     (abs_queue (snd (queue_run sample_ops (empty_queue sample_mem))))"
  proof (rule heap_refines_queue)
    show "ct_id (sample_mem r) = r" for r by (simp add: sample_mem_def)
    show "pushes_ok sample_ops (empty_queue sample_mem)" by code_simp
  qed (simp add: prod.collapse)
qed

text \<open>
   Taking tasks off until the queue is empty gives every task of the queue once, sorted by priority.
\<close>
theorem queue_drains_sorted:
  assumes "queue_ok q" and "Queue_Len q \<le> n"
  shows "mset (drain PopTask n q) = mset (tq_items q) \<and>
    sorted_wrt (\<lambda>r s. ct_prio (tq_mem q s) \<le> ct_prio (tq_mem q r)) (drain PopTask n q)"
  using task_queue.drain_sorted [OF assms(1), of n] assms(2) by (simp add: Queue_Len_def)

definition sample_heap :: task_queue where
  "sample_heap = PushTask ''dddd'' (PushTask ''a'' (PushTask ''ccc'' (PushTask ''bb'' (empty_queue sample_mem))))"

lemma queue_drains_sorted_witness:
  "drain PopTask 4 sample_heap = [''dddd'', ''ccc'', ''bb'', ''a''] \<and>
   sorted_wrt (\<lambda>r s. ct_prio (tq_mem sample_heap s) \<le> ct_prio (tq_mem sample_heap r)) (drain PopTask 4 sample_heap)"
proof -
  let ?e = "empty_queue sample_mem"
  have "queue_wf ?e" by (rule empty_names_ok) (simp add: sample_mem_def)
  then have "queue_wf (PushTask ''bb'' ?e)" using exec_push [of ?e "''bb''"] by (simp add: empty_queue_def)
  moreover have "''ccc'' \<notin> set (tq_items (PushTask ''bb'' ?e))" by code_simp
  ultimately have "queue_wf (PushTask ''ccc'' (PushTask ''bb'' ?e))" using exec_push by blast
  moreover have "''a'' \<notin> set (tq_items (PushTask ''ccc'' (PushTask ''bb'' ?e)))" by code_simp
  ultimately have "queue_wf (PushTask ''a'' (PushTask ''ccc'' (PushTask ''bb'' ?e)))" using exec_push by blast
  moreover have "''dddd'' \<notin> set (tq_items (PushTask ''a'' (PushTask ''ccc'' (PushTask ''bb'' ?e))))" by code_simp
  ultimately have "queue_wf sample_heap" unfolding sample_heap_def using exec_push by blast
  then have "queue_ok sample_heap" by (simp add: queue_wf_def)
  moreover have "Queue_Len sample_heap \<le> 4" by code_simp
  moreover have "drain PopTask 4 sample_heap = [''dddd'', ''ccc'', ''bb'', ''a'']" by code_simp
  ultimately show ?thesis using queue_drains_sorted [of sample_heap 4] by blast
qed

end
