(* ===== verification/Coordinator.thy ===== *)
theory Coordinator
  imports TaskQueue
begin

section \<open>The coordinator\<close>

text \<open>
  \<^verbatim>\<open>internal/engine/agent/coordinator.go\<close>: tasks with dependencies, run by at most \<open>maxParallel\<close>
  agents. The tasks map is the list \<open>co_ids\<close> of its keys over the task memory of the queue; a slice
  of the reverse dependency map that is absent is empty. Each definition is one critical section or
  a method made of them; \<open>CoordinatorSteps\<close> lets the sections interleave. What the observers are
  called with, and which agents are asked to stop, is appended to \<open>co_events\<close>. Parameters: the agent
  runner (\<open>spawn\<close>, \<open>results\<close>, \<open>cancel\<close>), the generator of task identifiers, and the order in which
  Go ranges over a map. The reflector and logging are left out, and a result has no metadata.
\<close>

datatype co_event =
    EvTaskStart ctask
  | EvTaskComplete ctask "agent_result option"
  | EvAllComplete "(string \<times> agent_result option) list"
  | EvCancelAgent string

record coordinator =
  co_queue :: task_queue
  co_ids :: "string list"
  co_dependents :: "string \<Rightarrow> string list"
  co_max_parallel :: int
  co_running :: "(string \<times> string) list"
  co_completed :: "string list"
  co_completed_order :: "string list"
  co_on_start :: bool
  co_on_complete :: bool
  co_on_all :: bool
  co_signals :: nat
  co_ctx_err :: "string option"
  co_started :: bool
  co_finished :: bool
  co_events :: "co_event list"

definition MaxCoordinatorTasks :: nat where
  "MaxCoordinatorTasks = 100"

text \<open>The zero value of a task, which fills the memory before a task is stored.\<close>

definition zero_task :: ctask where
  "zero_task = \<lparr>ct_id = [], ct_prompt = [], ct_type = [], ct_prio = 0, ct_deps = [],
     ct_status = TaskPending, ct_result = None, ct_thought = [], ct_index = 0\<rparr>"

definition NewCoordinator :: "int option \<Rightarrow> coordinator" where
  "NewCoordinator config =
     (let n = (case config of None \<Rightarrow> 3 | Some k \<Rightarrow> if k \<le> 0 then 3 else k)
      in \<lparr>co_queue = empty_queue (\<lambda>_. zero_task), co_ids = [], co_dependents = (\<lambda>_. []),
          co_max_parallel = n, co_running = [], co_completed = [], co_completed_order = [],
          co_on_start = False, co_on_complete = False, co_on_all = False, co_signals = 0,
          co_ctx_err = None, co_started = False, co_finished = False, co_events = []\<rparr>)"

subsection \<open>Tasks of the coordinator\<close>

definition task_at :: "coordinator \<Rightarrow> string \<Rightarrow> ctask" where
  "task_at c i = tq_mem (co_queue c) i"

definition status_at :: "coordinator \<Rightarrow> string \<Rightarrow> task_status" where
  "status_at c i = ct_status (task_at c i)"

definition deps_at :: "coordinator \<Rightarrow> string \<Rightarrow> string list" where
  "deps_at c i = ct_deps (task_at c i)"

definition terminal :: "task_status \<Rightarrow> bool" where
  "terminal s \<longleftrightarrow> s = TaskCompleted \<or> s = TaskFailed"

definition has_task :: "coordinator \<Rightarrow> string \<Rightarrow> bool" where
  "has_task c i \<longleftrightarrow> i \<in> set (co_ids c)"

definition is_completed :: "coordinator \<Rightarrow> string \<Rightarrow> bool" where
  "is_completed c i \<longleftrightarrow> i \<in> set (co_completed c)"

definition upd_at :: "string \<Rightarrow> (ctask \<Rightarrow> ctask) \<Rightarrow> coordinator \<Rightarrow> coordinator" where
  "upd_at i f c = c\<lparr>co_queue := upd_task i f (co_queue c)\<rparr>"

definition push_at :: "string \<Rightarrow> coordinator \<Rightarrow> coordinator" where
  "push_at i c = c\<lparr>co_queue := PushTask i (co_queue c)\<rparr>"

definition cloneCoordinatedTask :: "ctask \<Rightarrow> ctask" where
  "cloneCoordinatedTask t = t\<lparr>ct_index := -1\<rparr>"

definition record_event :: "bool \<Rightarrow> co_event \<Rightarrow> coordinator \<Rightarrow> coordinator" where
  "record_event registered e c = (if registered then c\<lparr>co_events := co_events c @ [e]\<rparr> else c)"

text \<open>A send on the buffered channel that does not block: it is dropped when the buffer is full.\<close>

definition signalTaskReady :: "coordinator \<Rightarrow> coordinator" where
  "signalTaskReady c = c\<lparr>co_signals := min 100 (co_signals c + 1)\<rparr>"

fun ParseAgentType :: "string \<Rightarrow> string" where
  "ParseAgentType s =
     (let t = to_lower (trim_space s)
      in if t \<in> {''explore'', ''bash'', ''general'', ''plan'', ''claude-code-guide''} then t else [])"

declare ParseAgentType.simps [simp del]

subsection \<open>Adding a task\<close>

definition areDependenciesMet :: "string list \<Rightarrow> coordinator \<Rightarrow> bool" where
  "areDependenciesMet deps c = list_all (is_completed c) deps"

fun valid_deps :: "coordinator \<Rightarrow> string list \<Rightarrow> string list \<Rightarrow> bool" where
  "valid_deps c seen [] = True"
| "valid_deps c seen (d # ds) =
     (if d = [] \<or> d \<in> set seen \<or> \<not> has_task c d then False else valid_deps c (d # seen) ds)"

definition add_dependents :: "string \<Rightarrow> string list \<Rightarrow> (string \<Rightarrow> string list) \<Rightarrow> string \<Rightarrow> string list" where
  "add_dependents i deps m = foldl (\<lambda>m d. m(d := m d @ [i])) m deps"

definition new_task :: "string \<Rightarrow> string \<Rightarrow> string \<Rightarrow> int \<Rightarrow> string list \<Rightarrow> ctask" where
  "new_task i prompt agentType priority deps =
     zero_task\<lparr>ct_id := i, ct_prompt := prompt, ct_type := agentType, ct_prio := priority,
               ct_deps := deps, ct_status := TaskPending\<rparr>"

text \<open>A task whose dependencies are met goes into the queue.\<close>

definition make_ready :: "string \<Rightarrow> coordinator \<Rightarrow> coordinator" where
  "make_ready i c = signalTaskReady (push_at i (upd_at i (\<lambda>t. t\<lparr>ct_status := TaskReady\<rparr>) c))"

definition AddTask :: "string \<Rightarrow> string \<Rightarrow> string \<Rightarrow> int \<Rightarrow> string list \<Rightarrow> coordinator \<Rightarrow> string \<times> coordinator" where
  "AddTask newID prompt agentType priority deps c =
     (let parsed = ParseAgentType agentType
      in if trim_space prompt = [] \<or> parsed = [] \<or> priority < 1 \<or> 10 < priority then ([], c)
         else if co_finished c then ([], c)
         else if \<not> valid_deps c [] deps then ([], c)
         else let c1 = upd_at newID (\<lambda>_. new_task newID prompt parsed priority deps)
                         (c\<lparr>co_ids := co_ids c @ [newID],
                            co_dependents := add_dependents newID deps (co_dependents c)\<rparr>)
              in (newID, if areDependenciesMet deps c1 then make_ready newID c1
                         else upd_at newID (\<lambda>t. t\<lparr>ct_status := TaskBlocked\<rparr>) c1))"

subsection \<open>Finishing a task\<close>

definition markCompleted :: "string \<Rightarrow> coordinator \<Rightarrow> coordinator" where
  "markCompleted i c =
     (if is_completed c i then c
      else c\<lparr>co_completed := co_completed c @ [i], co_completed_order := co_completed_order c @ [i]\<rparr>)"

definition unblock_one :: "string \<Rightarrow> coordinator \<Rightarrow> coordinator" where
  "unblock_one i c =
     (if \<not> has_task c i \<or> status_at c i \<noteq> TaskBlocked then c
      else if areDependenciesMet (deps_at c i) c then make_ready i c else c)"

definition unblockDependents :: "string \<Rightarrow> coordinator \<Rightarrow> coordinator" where
  "unblockDependents completedID c = foldl (\<lambda>c i. unblock_one i c) c (co_dependents c completedID)"

definition set_result :: "task_status \<Rightarrow> agent_result \<Rightarrow> ctask \<Rightarrow> ctask" where
  "set_result st r t = t\<lparr>ct_status := st, ct_result := Some r\<rparr>"

definition finish_task :: "string \<Rightarrow> task_status \<Rightarrow> agent_result \<Rightarrow> coordinator \<Rightarrow> coordinator" where
  "finish_task i st r c = markCompleted i (upd_at i (set_result st r) c)"

definition notify_complete :: "string \<Rightarrow> coordinator \<Rightarrow> coordinator" where
  "notify_complete i c =
     record_event (co_on_complete c)
       (EvTaskComplete (cloneCoordinatedTask (task_at c i)) (ct_result (task_at c i))) c"

subsection \<open>Discarding old tasks\<close>

definition canDiscardCompletedTask :: "string \<Rightarrow> coordinator \<Rightarrow> bool" where
  "canDiscardCompletedTask i c \<longleftrightarrow>
     \<not> list_ex (\<lambda>j. has_task c j \<and> (status_at c j = TaskPending \<or> status_at c j = TaskBlocked))
        (co_dependents c i)"

definition removeTaskID :: "string \<Rightarrow> string list \<Rightarrow> string list" where
  "removeTaskID target ids = filter (\<lambda>i. i \<noteq> target) ids"

definition discard_task :: "string \<Rightarrow> coordinator \<Rightarrow> coordinator" where
  "discard_task i c =
     (let deps = (if has_task c i then deps_at c i else []);
          m = foldl (\<lambda>m d. m(d := removeTaskID i (m d))) (co_dependents c) deps
      in c\<lparr>co_ids := removeTaskID i (co_ids c), co_completed := removeTaskID i (co_completed c),
           co_dependents := m(i := [])\<rparr>)"

fun cleanup_loop :: "nat \<Rightarrow> string list \<Rightarrow> coordinator \<Rightarrow> string list \<times> coordinator" where
  "cleanup_loop quota [] c = ([], c)"
| "cleanup_loop quota (i # rest) c =
     (if \<not> is_completed c i then cleanup_loop quota rest c
      else if quota = 0 \<or> \<not> canDiscardCompletedTask i c
      then (let (kept, c') = cleanup_loop quota rest c in (i # kept, c'))
      else cleanup_loop (quota - 1) rest (discard_task i c))"

definition cleanupCompletedTasks :: "coordinator \<Rightarrow> coordinator" where
  "cleanupCompletedTasks c =
     (let completedCount = length (co_completed c)
      in if completedCount \<le> MaxCoordinatorTasks then c
         else let (kept, c') = cleanup_loop (completedCount - MaxCoordinatorTasks div 2) (co_completed_order c) c
              in c'\<lparr>co_completed_order := kept\<rparr>)"

definition cleanup_if_needed :: "bool \<Rightarrow> coordinator \<Rightarrow> coordinator" where
  "cleanup_if_needed needed c = (if needed then cleanupCompletedTasks c else c)"

subsection \<open>Completion of the whole\<close>

definition isAllComplete :: "coordinator \<Rightarrow> bool" where
  "isAllComplete c \<longleftrightarrow> co_running c = [] \<and> list_all (\<lambda>i. terminal (status_at c i)) (co_ids c)"

definition resultsSnapshot :: "coordinator \<Rightarrow> (string \<times> agent_result option) list" where
  "resultsSnapshot c = map (\<lambda>i. (i, ct_result (task_at c i))) (co_ids c)"

definition publishCompletion :: "bool \<Rightarrow> coordinator \<Rightarrow> bool \<times> coordinator" where
  "publishCompletion force c =
     (if co_finished c then (True, c)
      else if \<not> force \<and> (\<not> co_started c \<or> \<not> isAllComplete c) then (False, c)
      else (True, record_event (co_on_all c) (EvAllComplete (resultsSnapshot c)) (c\<lparr>co_finished := True\<rparr>)))"

text \<open>
  Stopping: every unfinished task fails with the reason. \<open>ord\<close> is the order of ranging over the map
  of tasks; \<open>agent_of\<close> the agent that runs a task.
\<close>

definition agent_of :: "coordinator \<Rightarrow> string \<Rightarrow> string" where
  "agent_of c i = (case find (\<lambda>(a, t). t = i) (co_running c) of None \<Rightarrow> [] | Some (a, t) \<Rightarrow> a)"

definition cancelled_result :: "string \<Rightarrow> string \<Rightarrow> string \<Rightarrow> agent_result" where
  "cancelled_result agentID agentType err =
     \<lparr>ar_agent_id = agentID, ar_type = agentType, ar_status = AgentCancelled, ar_output = [],
      ar_error = err, ar_duration = 0, ar_completed = True\<rparr>"

definition remove_queued :: "string \<Rightarrow> coordinator \<Rightarrow> coordinator" where
  "remove_queued i c = c\<lparr>co_queue := snd (RemoveTask i (co_queue c))\<rparr>"

definition stop_task :: "string \<Rightarrow> string \<Rightarrow> coordinator \<Rightarrow> coordinator" where
  "stop_task reason i c =
     (if terminal (status_at c i) then c
      else finish_task i TaskFailed (cancelled_result (agent_of c i) (ct_type (task_at c i)) reason)
             (remove_queued i c))"

definition finalizeStoppedTasks :: "(string list \<Rightarrow> string list) \<Rightarrow> string \<Rightarrow> coordinator \<Rightarrow> coordinator" where
  "finalizeStoppedTasks ord reason c =
     (if co_finished c then c
      else let order = ord (co_ids c);
               open_ids = filter (\<lambda>i. \<not> terminal (status_at c i)) order;
               agents = map fst (co_running c);
               c1 = (foldl (\<lambda>c i. stop_task reason i c) c order)\<lparr>co_running := []\<rparr>;
               c2 = foldl (\<lambda>c a. record_event True (EvCancelAgent a) c) c1 agents;
               c3 = foldl (\<lambda>c i. notify_complete i c) c2 open_ids
           in snd (publishCompletion True c3))"

subsection \<open>Starting tasks\<close>

text \<open>
  The loop of \<open>processReadyTasks\<close> under the lock: it takes tasks off the queue until the slots are
  used up or the queue is empty.
\<close>

lemma length_heap_down [simp]: "length (tq_items (snd (heap_down i n q))) = length (tq_items q)"
proof (induction i n q rule: heap_down.induct)
  case (1 i n q)
  then show ?case by (subst heap_down.simps) (simp add: Let_def)
qed

lemma PopTask_shrinks: "PopTask q = (Some r, q') \<Longrightarrow> length (tq_items q') < length (tq_items q)"
  by (auto simp: PopTask_def Queue_Len_def heap_Pop_def Queue_Pop_def Let_def split: if_splits)

definition start_popped :: "string \<Rightarrow> task_queue \<Rightarrow> coordinator \<Rightarrow> coordinator" where
  "start_popped i q c = upd_at i (\<lambda>t. t\<lparr>ct_status := TaskRunning\<rparr>) (c\<lparr>co_queue := q\<rparr>)"

lemma items_start_popped [simp]: "tq_items (co_queue (start_popped i q c)) = tq_items q"
  by (simp add: start_popped_def upd_at_def)

function pop_ready :: "int \<Rightarrow> coordinator \<Rightarrow> string list \<times> coordinator" where
  "pop_ready slots c =
     (if slots \<le> 0 then ([], c)
      else case PopTask (co_queue c) of
             (None, q) \<Rightarrow> ([], c)
           | (Some i, q) \<Rightarrow>
               if ct_status (tq_mem q i) \<noteq> TaskReady then pop_ready slots (c\<lparr>co_queue := q\<rparr>)
               else let (ids, c') = pop_ready (slots - 1) (start_popped i q c) in (i # ids, c'))"
  by pat_completeness auto
termination
  by (relation "measure (\<lambda>(slots, c). length (tq_items (co_queue c)))") (auto dest: PopTask_shrinks [OF sym])

declare pop_ready.simps [simp del]

definition process_pop :: "coordinator \<Rightarrow> string list \<times> coordinator" where
  "process_pop c =
     (if co_finished c then ([], c) else pop_ready (co_max_parallel c - int (length (co_running c))) c)"

definition start_failed :: "string \<Rightarrow> string \<Rightarrow> agent_result" where
  "start_failed agentType err =
     \<lparr>ar_agent_id = [], ar_type = agentType, ar_status = AgentFailed, ar_output = [], ar_error = err,
      ar_duration = 0, ar_completed = True\<rparr>"

definition needs_cleanup :: "coordinator \<Rightarrow> bool" where
  "needs_cleanup c \<longleftrightarrow> MaxCoordinatorTasks < length (co_completed c)"

definition failTaskStart :: "string \<Rightarrow> string \<Rightarrow> string \<Rightarrow> coordinator \<Rightarrow> coordinator" where
  "failTaskStart i agentType err c =
     (if co_finished c \<or> \<not> has_task c i \<or> status_at c i \<noteq> TaskRunning then c
      else let c1 = unblockDependents i (finish_task i TaskFailed (start_failed agentType err) c)
           in snd (publishCompletion False (cleanup_if_needed (needs_cleanup c1) (notify_complete i c1))))"

text \<open>
  Starting a task is several sections: the announcement, the call of the runner, and the registration
  of the agent, which asks the agent to stop when the task is no longer to run. \<open>spawn\<close> is the
  runner, when there is one: the agent it starts, or the empty string.
\<close>

definition can_start :: "string \<Rightarrow> coordinator \<Rightarrow> bool" where
  "can_start i c \<longleftrightarrow> has_task c i \<and> status_at c i = TaskRunning \<and> \<not> co_finished c"

definition announce_start :: "string \<Rightarrow> coordinator \<Rightarrow> coordinator" where
  "announce_start i c =
     record_event (can_start i c \<and> co_on_start c) (EvTaskStart (cloneCoordinatedTask (task_at c i))) c"

definition register_agent :: "string \<Rightarrow> string \<Rightarrow> coordinator \<Rightarrow> coordinator" where
  "register_agent i a c =
     (if can_start i c then c\<lparr>co_running := (a, i) # filter (\<lambda>(b, t). b \<noteq> a) (co_running c)\<rparr>
      else record_event True (EvCancelAgent a) c)"

definition spawn_agent :: "(ctask \<Rightarrow> string) option \<Rightarrow> string \<Rightarrow> coordinator \<Rightarrow> coordinator" where
  "spawn_agent spawn i c =
     (let snap = cloneCoordinatedTask (task_at c i)
      in case spawn of
           None \<Rightarrow> failTaskStart i (ct_type snap) ''agent runner is not configured'' c
         | Some f \<Rightarrow>
             if f snap = [] then failTaskStart i (ct_type snap) ''agent runner rejected the task'' c
             else register_agent i (f snap) c)"

definition startTask ::
  "(string list \<Rightarrow> string list) \<Rightarrow> (ctask \<Rightarrow> string) option \<Rightarrow> string \<Rightarrow> coordinator \<Rightarrow> coordinator" where
  "startTask ord spawn i c =
     (case co_ctx_err c of
        Some err \<Rightarrow> finalizeStoppedTasks ord err c
      | None \<Rightarrow> if can_start i c then spawn_agent spawn i (announce_start i c) else c)"

definition processReadyTasks ::
  "(string list \<Rightarrow> string list) \<Rightarrow> (ctask \<Rightarrow> string) option \<Rightarrow> coordinator \<Rightarrow> coordinator" where
  "processReadyTasks ord spawn c =
     (let (toStart, c1) = process_pop c in foldl (\<lambda>c i. startTask ord spawn i c) c1 toStart)"

subsection \<open>Agents that complete\<close>

definition drop_running :: "string \<Rightarrow> coordinator \<Rightarrow> coordinator" where
  "drop_running a c = c\<lparr>co_running := filter (\<lambda>(b, t). b \<noteq> a) (co_running c)\<rparr>"

definition handleAgentCompletion :: "(string \<Rightarrow> agent_result option) \<Rightarrow> string \<Rightarrow> coordinator \<Rightarrow> coordinator" where
  "handleAgentCompletion results a c =
     (case map_of (co_running c) a of
        None \<Rightarrow> c
      | Some i \<Rightarrow>
          (case results a of
             None \<Rightarrow> c
           | Some r \<Rightarrow>
               if \<not> ar_completed r then c
               else if \<not> has_task c i then drop_running a c
               else let st = (if ar_status r = AgentCompleted then TaskCompleted else TaskFailed);
                        c1 = drop_running a (finish_task i st r c);
                        c2 = unblockDependents i c1
                    in snd (publishCompletion False (cleanup_if_needed (needs_cleanup c2) (notify_complete i c2)))))"

definition checkCompletedAgents :: "(string \<Rightarrow> agent_result option) \<Rightarrow> coordinator \<Rightarrow> coordinator" where
  "checkCompletedAgents results c =
     foldl (\<lambda>c a. handleAgentCompletion results a c) c (map fst (co_running c))"

subsection \<open>Cancelling a task\<close>

datatype co_error = TaskNotFound string | AlreadyComplete string | CancelFailed string

definition cancel_now :: "string \<Rightarrow> string \<Rightarrow> coordinator \<Rightarrow> coordinator" where
  "cancel_now a i c =
     (let c1 = (if a = [] then c else drop_running a c);
          c2 = unblockDependents i (finish_task i TaskFailed
                 (cancelled_result a (ct_type (task_at c i)) ''cancelled by coordinator'') (remove_queued i c1))
      in snd (publishCompletion False (cleanup_if_needed (needs_cleanup c2) (notify_complete i c2))))"

text \<open>
  \<open>CancelTask\<close> is two critical sections: the first reads the agent of the task, the second, after the
  runner was asked to stop that agent, finishes the task.
\<close>

definition cancel_commit :: "string \<Rightarrow> string \<Rightarrow> coordinator \<Rightarrow> co_error option \<times> coordinator" where
  "cancel_commit a i c =
     (if \<not> has_task c i then (Some (TaskNotFound i), c)
      else if terminal (status_at c i) then (None, c)
      else (None, cancel_now a i c))"

definition CancelTask ::
  "(string \<Rightarrow> string option) \<Rightarrow> (string \<Rightarrow> agent_result option) \<Rightarrow> string \<Rightarrow> coordinator \<Rightarrow>
   co_error option \<times> coordinator" where
  "CancelTask cancel results i c =
     (if \<not> has_task c i then (Some (TaskNotFound i), c)
      else if terminal (status_at c i) then (Some (AlreadyComplete i), c)
      else let a = agent_of c i
           in case (if a = [] then None else cancel a) of
                Some err \<Rightarrow>
                  (let c1 = handleAgentCompletion results a c
                   in if has_task c1 i \<and> terminal (status_at c1 i) then (None, c1)
                      else (Some (CancelFailed err), c1))
              | None \<Rightarrow> cancel_commit a i c)"

subsection \<open>Starting, stopping and reading the coordinator\<close>

definition Coordinator_Start :: "(string list \<Rightarrow> string list) \<Rightarrow> coordinator \<Rightarrow> coordinator" where
  "Coordinator_Start ord c =
     (if co_started c \<or> co_finished c then c
      else let c1 = c\<lparr>co_started := True\<rparr>
           in case co_ctx_err c1 of
                Some err \<Rightarrow> finalizeStoppedTasks ord err c1
              | None \<Rightarrow> let (d, c2) = publishCompletion False c1 in if d then c2 else signalTaskReady c2)"

definition Coordinator_Stop :: "(string list \<Rightarrow> string list) \<Rightarrow> coordinator \<Rightarrow> coordinator" where
  "Coordinator_Stop ord c =
     (let err = (case co_ctx_err c of None \<Rightarrow> ''context canceled'' | Some e \<Rightarrow> e)
      in finalizeStoppedTasks ord ''context canceled'' (c\<lparr>co_ctx_err := Some err\<rparr>))"

definition Coordinator_GetTask :: "string \<Rightarrow> coordinator \<Rightarrow> ctask option" where
  "Coordinator_GetTask i c = (if has_task c i then Some (cloneCoordinatedTask (task_at c i)) else None)"

definition GetTaskAgentID :: "string \<Rightarrow> coordinator \<Rightarrow> string" where
  "GetTaskAgentID i c = agent_of c i"

definition GetAllTasks :: "coordinator \<Rightarrow> ctask list" where
  "GetAllTasks c = map (\<lambda>i. cloneCoordinatedTask (task_at c i)) (co_ids c)"

record co_status =
  cs_total :: nat
  cs_pending :: nat
  cs_blocked :: nat
  cs_ready :: nat
  cs_running :: nat
  cs_completed :: nat
  cs_failed :: nat

definition GetStatus :: "coordinator \<Rightarrow> co_status" where
  "GetStatus c =
     (let n = (\<lambda>s. length (filter (\<lambda>i. status_at c i = s) (co_ids c)))
      in \<lparr>cs_total = length (co_ids c), cs_pending = n TaskPending, cs_blocked = n TaskBlocked,
          cs_ready = n TaskReady, cs_running = length (co_running c),
          cs_completed = length (co_completed c), cs_failed = n TaskFailed\<rparr>)"

definition SetCallbacks :: "bool \<Rightarrow> bool \<Rightarrow> bool \<Rightarrow> coordinator \<Rightarrow> coordinator" where
  "SetCallbacks onStart onComplete onAll c =
     (let c1 = c\<lparr>co_on_start := onStart, co_on_complete := onComplete, co_on_all := onAll\<rparr>
      in record_event (co_finished c \<and> onAll) (EvAllComplete (resultsSnapshot c1)) c1)"

subsection \<open>The processing loop\<close>

text \<open>
  The branches of \<open>processLoop\<close>, each with whether the loop ends: a signal was received, an agent is
  reported as done, or the ticker fired.
\<close>

definition loop_task_ready ::
  "(string list \<Rightarrow> string list) \<Rightarrow> (ctask \<Rightarrow> string) option \<Rightarrow> coordinator \<Rightarrow> bool \<times> coordinator" where
  "loop_task_ready ord spawn c =
     publishCompletion False (processReadyTasks ord spawn (c\<lparr>co_signals := co_signals c - 1\<rparr>))"

definition loop_agent_done ::
  "(string \<Rightarrow> agent_result option) \<Rightarrow> string \<Rightarrow> coordinator \<Rightarrow> bool \<times> coordinator" where
  "loop_agent_done results a c = publishCompletion False (handleAgentCompletion results a c)"

definition loop_tick ::
  "(string list \<Rightarrow> string list) \<Rightarrow> (ctask \<Rightarrow> string) option \<Rightarrow> (string \<Rightarrow> agent_result option) \<Rightarrow>
   coordinator \<Rightarrow> bool \<times> coordinator" where
  "loop_tick ord spawn results c =
     publishCompletion False (checkCompletedAgents results (processReadyTasks ord spawn c))"

end
