(* ===== verification/CoordinatorInv.thy ===== *)
theory CoordinatorInv
  imports Coordinator
begin

section \<open>The invariant of the coordinator\<close>

text \<open>
  What holds of the coordinator between critical sections: which tasks are in the queue, which are
  counted as completed, and why a blocked task will be woken. The conditions are stated on a view of
  the coordinator (identifiers, statuses, dependencies, queue, completed tasks, dependents), and each
  change of a task is a lemma on the view.
\<close>

subsection \<open>Views\<close>

text \<open>\<open>before d i xs\<close>: \<open>d\<close> comes before \<open>i\<close> in the order in which tasks were added.\<close>

definition before :: "'a \<Rightarrow> 'a \<Rightarrow> 'a list \<Rightarrow> bool" where
  "before d i xs \<longleftrightarrow> (\<exists>us vs. xs = us @ vs \<and> d \<in> set us \<and> i \<in> set vs)"

lemma before_append: "before d i xs \<Longrightarrow> before d i (xs @ ys)"
  unfolding before_def by (metis Un_iff append.assoc set_append)

lemma before_new: "d \<in> set xs \<Longrightarrow> before d i (xs @ [i])"
  unfolding before_def by (metis list.set_intros(1))

lemma before_filter: "before d i xs \<Longrightarrow> P d \<Longrightarrow> P i \<Longrightarrow> before d i (filter P xs)"
proof -
  assume "before d i xs" and P: "P d" "P i"
  then obtain us vs where "xs = us @ vs" "d \<in> set us" "i \<in> set vs" by (auto simp: before_def)
  with P have "filter P xs = filter P us @ filter P vs \<and> d \<in> set (filter P us) \<and> i \<in> set (filter P vs)" by simp
  then show ?thesis unfolding before_def by blast
qed

lemma before_mem: "before d i xs \<Longrightarrow> d \<in> set xs \<and> i \<in> set xs"
  by (auto simp: before_def)

definition view_ok ::
  "string list \<Rightarrow> (string \<Rightarrow> task_status) \<Rightarrow> (string \<Rightarrow> string list) \<Rightarrow> string set \<Rightarrow> string list \<Rightarrow>
   (string \<Rightarrow> string list) \<Rightarrow> bool" where
  "view_ok ids st dp queued fin dpt \<longleftrightarrow>
     distinct ids \<and> (\<forall>i\<in>set ids. st i \<noteq> TaskPending) \<and>
     queued = {i \<in> set ids. st i = TaskReady} \<and>
     distinct fin \<and> set fin = {i \<in> set ids. terminal (st i)} \<and>
     (\<forall>i\<in>set ids. st i = TaskBlocked \<longrightarrow> (\<forall>d\<in>set (dp i). before d i ids \<and> i \<in> set (dpt d))) \<and>
     (\<forall>i\<in>set ids. st i = TaskReady \<or> st i = TaskRunning \<longrightarrow>
        (\<forall>d\<in>set (dp i). d \<in> set ids \<longrightarrow> terminal (st d)))"

lemma terminal_simps [simp]:
  "terminal TaskCompleted" "terminal TaskFailed" "\<not> terminal TaskReady" "\<not> terminal TaskRunning"
  "\<not> terminal TaskBlocked" "\<not> terminal TaskPending"
  by (simp_all add: terminal_def)

lemma view_no_open_dep:
  "view_ok ids st dp queued fin dpt \<Longrightarrow> j \<in> set ids \<Longrightarrow> st j = TaskReady \<or> st j = TaskRunning \<Longrightarrow>
   i \<in> set ids \<Longrightarrow> \<not> terminal (st i) \<Longrightarrow> i \<notin> set (dp j)"
  unfolding view_ok_def by blast

lemma view_finish:
  assumes "view_ok ids st dp queued fin dpt" and "i \<in> set ids" and "\<not> terminal (st i)" and "terminal s"
  shows "view_ok ids (st(i := s)) dp (queued - {i}) (fin @ [i]) dpt"
proof -
  have "s \<noteq> TaskReady \<and> s \<noteq> TaskRunning \<and> s \<noteq> TaskBlocked \<and> s \<noteq> TaskPending"
    using assms(4) by (auto simp: terminal_def)
  with assms show ?thesis unfolding view_ok_def by auto
qed

lemma view_ready:
  assumes "view_ok ids st dp queued fin dpt" and "i \<in> set ids" and "st i = TaskBlocked"
    and "\<forall>d\<in>set (dp i). d \<in> set fin"
  shows "view_ok ids (st(i := TaskReady)) dp (insert i queued) fin dpt"
proof -
  have "i \<notin> set (dp j)" if "j \<in> set ids" "st j = TaskReady \<or> st j = TaskRunning" for j
    using view_no_open_dep [OF assms(1) that assms(2)] assms(3) by simp
  with assms show ?thesis unfolding view_ok_def by auto
qed

lemma view_run:
  assumes "view_ok ids st dp queued fin dpt" and "i \<in> set ids" and "st i = TaskReady"
  shows "view_ok ids (st(i := TaskRunning)) dp (queued - {i}) fin dpt"
proof -
  have "i \<notin> set (dp j)" if "j \<in> set ids" "st j = TaskReady \<or> st j = TaskRunning" for j
    using view_no_open_dep [OF assms(1) that assms(2)] assms(3) by simp
  with assms show ?thesis unfolding view_ok_def by auto
qed

lemma view_discard:
  assumes v: "view_ok ids st dp queued fin dpt" and "i \<in> set fin"
    and free: "\<And>j. j \<in> set (dpt i) \<Longrightarrow> j \<in> set ids \<Longrightarrow> st j \<noteq> TaskBlocked"
    and kept: "\<And>d j. d \<noteq> i \<Longrightarrow> j \<noteq> i \<Longrightarrow> j \<in> set (dpt d) \<Longrightarrow> j \<in> set (dpt' d)"
  shows "view_ok (filter (\<lambda>j. j \<noteq> i) ids) st dp queued (filter (\<lambda>j. j \<noteq> i) fin) dpt'"
proof -
  have t: "terminal (st i)" using assms(1,2) by (auto simp: view_ok_def)
  have "before d j (filter (\<lambda>j. j \<noteq> i) ids) \<and> j \<in> set (dpt' d)"
    if j: "j \<in> set ids" "j \<noteq> i" "st j = TaskBlocked" and d: "d \<in> set (dp j)" for j d
  proof -
    have b: "before d j ids" "j \<in> set (dpt d)" using v j d by (auto simp: view_ok_def)
    have "d \<noteq> i" using free [of j] b(2) j by auto
    with b j show ?thesis using kept [of d j] by (auto intro: before_filter)
  qed
  with v t show ?thesis unfolding view_ok_def by auto
qed

lemma view_add:
  assumes "view_ok ids st dp queued fin dpt" and "i \<notin> set ids" and "\<And>j. j \<in> set ids \<Longrightarrow> i \<notin> set (dp j)"
    and "set deps \<subseteq> set ids"
    and "\<And>d j. j \<in> set (dpt d) \<Longrightarrow> j \<in> set (dpt' d)" and "\<And>d. d \<in> set deps \<Longrightarrow> i \<in> set (dpt' d)"
  shows "view_ok (ids @ [i]) (st(i := TaskBlocked)) (dp(i := deps)) queued fin dpt'"
proof -
  have "before d j (ids @ [i]) \<and> j \<in> set (dpt' d)"
    if "j \<in> set ids" "st j = TaskBlocked" "d \<in> set (dp j)" for j d
    using assms(1,5) that by (auto simp: view_ok_def intro: before_append)
  moreover have "before d i (ids @ [i]) \<and> i \<in> set (dpt' d)" if "d \<in> set deps" for d
    using assms(4,6) that by (auto intro: before_new)
  moreover have "terminal ((st(i := TaskBlocked)) d)"
    if "j \<in> set ids" "st j = TaskReady \<or> st j = TaskRunning" "d \<in> set (dp j)" "d \<in> set ids \<or> d = i" for j d
    using assms(1,2,3) that by (auto simp: view_ok_def)
  moreover have "i \<notin> set (dp j)" if "j \<in> set ids" for j using assms(3) that .
  ultimately show ?thesis
    using assms(1,2) unfolding view_ok_def by (auto 0 4)
qed

text \<open>Blocked tasks that nothing will wake: all their dependencies are completed.\<close>

definition stuck_in :: "string list \<Rightarrow> (string \<Rightarrow> task_status) \<Rightarrow> (string \<Rightarrow> string list) \<Rightarrow> string list \<Rightarrow> string set" where
  "stuck_in ids st dp fin = {i \<in> set ids. st i = TaskBlocked \<and> set (dp i) \<subseteq> set fin}"

text \<open>
  Where nothing is stuck, the first unfinished task in the order of adding is not blocked.
\<close>

lemma view_progress:
  assumes v: "view_ok ids st dp queued fin dpt" and s: "stuck_in ids st dp fin = {}"
    and open_task: "i \<in> set ids" "\<not> terminal (st i)"
  shows "\<exists>j\<in>set ids. st j = TaskReady \<and> j \<in> queued \<or> st j = TaskRunning"
proof -
  obtain us j vs where ids: "ids = us @ j # vs" and j: "\<not> terminal (st j)"
    and first: "\<forall>k\<in>set us. terminal (st k)"
    using split_list_first_prop [of ids "\<lambda>k. \<not> terminal (st k)"] open_task by blast
  have "st j \<noteq> TaskBlocked"
  proof
    assume b: "st j = TaskBlocked"
    have "d \<in> set fin" if d: "d \<in> set (dp j)" for d
    proof -
      have "before d j ids" using v b d by (simp add: view_ok_def ids)
      then obtain xs ys where x: "ids = xs @ ys" "d \<in> set xs" "j \<in> set ys" by (auto simp: before_def)
      have dist: "distinct ids" using v by (simp add: view_ok_def)
      have "d \<in> set us"
      proof -
        have "j \<notin> set xs" using dist x by auto
        from x(1) ids have "xs @ ys = us @ j # vs" by simp
        then consider ws where "us = xs @ ws" | ws where "xs = us @ ws" "ws @ ys = j # vs"
          unfolding append_eq_append_conv2 by blast
        then show ?thesis
        proof cases
          case 1
          with x(2) show ?thesis by simp
        next
          case 2
          with \<open>j \<notin> set xs\<close> have "ws = []" by (cases ws) auto
          with 2 x(2) show ?thesis by simp
        qed
      qed
      with first have "terminal (st d)" by blast
      moreover have "d \<in> set ids" using \<open>d \<in> set us\<close> ids by simp
      ultimately show ?thesis using v by (simp add: view_ok_def)
    qed
    then have "j \<in> stuck_in ids st dp fin" using b by (auto simp: stuck_in_def ids)
    with s show False by simp
  qed
  moreover have "st j \<noteq> TaskPending" using v by (simp add: view_ok_def ids)
  ultimately have "st j = TaskReady \<or> st j = TaskRunning" using j by (cases "st j") simp_all
  with v show ?thesis by (auto simp: view_ok_def ids)
qed

subsection \<open>The invariant\<close>

definition co_weak :: "coordinator \<Rightarrow> bool" where
  "co_weak c \<longleftrightarrow>
     queue_ok (co_queue c) \<and> (\<forall>i\<in>set (co_ids c). ct_id (task_at c i) = i) \<and>
     view_ok (co_ids c) (status_at c) (deps_at c) (set (tq_items (co_queue c))) (co_completed c) (co_dependents c)"

definition stuck :: "coordinator \<Rightarrow> string set" where
  "stuck c = stuck_in (co_ids c) (status_at c) (deps_at c) (co_completed c)"

definition order_ok :: "coordinator \<Rightarrow> bool" where
  "order_ok c \<longleftrightarrow> distinct (co_completed_order c) \<and> set (co_completed_order c) = set (co_completed c)"

definition running_ok :: "coordinator \<Rightarrow> bool" where
  "running_ok c \<longleftrightarrow>
     distinct (map fst (co_running c)) \<and> distinct (map snd (co_running c)) \<and>
     (\<forall>(a, i)\<in>set (co_running c). a \<noteq> [] \<and> i \<in> set (co_ids c) \<and> status_at c i = TaskRunning)"

definition co_inv :: "coordinator \<Rightarrow> bool" where
  "co_inv c \<longleftrightarrow> co_weak c \<and> order_ok c \<and> running_ok c \<and> stuck c = {}"

text \<open>The part of the state that the weak invariant speaks of.\<close>

definition core :: "coordinator \<Rightarrow> task_queue \<times> string list \<times> string list \<times> (string \<Rightarrow> string list)" where
  "core c = (co_queue c, co_ids c, co_completed c, co_dependents c)"

lemma core_at: "core c' = core c \<Longrightarrow> task_at c' = task_at c \<and> status_at c' = status_at c \<and> deps_at c' = deps_at c"
  by (simp add: core_def task_at_def [abs_def] status_at_def [abs_def] deps_at_def [abs_def])

lemma core_cong: "core c' = core c \<Longrightarrow> co_weak c' = co_weak c \<and> stuck c' = stuck c"
  using core_at [of c' c] by (simp add: core_def co_weak_def stuck_def)

lemma at_upd [simp]:
  "task_at (upd_at i f c) = (task_at c)(i := f (task_at c i))"
  "status_at (upd_at i f c) = (status_at c)(i := ct_status (f (task_at c i)))"
  "deps_at (upd_at i f c) = (deps_at c)(i := ct_deps (f (task_at c i)))"
  by (auto simp: upd_at_def upd_task_def task_at_def status_at_def deps_at_def)

lemma upd_same_at [simp]:
  "(deps_at c)(i := ct_deps (task_at c i)) = deps_at c"
  "(status_at c)(i := ct_status (task_at c i)) = status_at c"
  by (auto simp: deps_at_def status_at_def)

lemma upd_at_frame [simp]:
  "co_ids (upd_at i f c) = co_ids c" "co_completed (upd_at i f c) = co_completed c"
  "co_completed_order (upd_at i f c) = co_completed_order c"
  "co_dependents (upd_at i f c) = co_dependents c" "co_running (upd_at i f c) = co_running c"
  "tq_items (co_queue (upd_at i f c)) = tq_items (co_queue c)"
  "co_finished (upd_at i f c) = co_finished c" "co_events (upd_at i f c) = co_events c"
  "co_on_complete (upd_at i f c) = co_on_complete c" "co_on_all (upd_at i f c) = co_on_all c"
  "co_started (upd_at i f c) = co_started c" "co_max_parallel (upd_at i f c) = co_max_parallel c"
  by (simp_all add: upd_at_def)

lemma queue_ok_upd:
  assumes "\<And>t. ct_prio (f t) = ct_prio t" "\<And>t. ct_index (f t) = ct_index t" and "queue_ok q"
  shows "queue_ok (upd_task i f q)"
proof -
  have "key (upd_task i f q) = key q" by (rule ext) (simp add: key_def upd_task_def assms(1))
  moreover have "index_ok (upd_task i f q)"
    using assms(2,3) by (auto simp: queue_ok_def index_ok_def upd_task_def)
  ultimately show ?thesis using assms(3) by (simp add: queue_ok_def heap_inv_def)
qed

lemma same_tasks_at:
  assumes "same_tasks (co_queue c) q"
  shows "status_at (c\<lparr>co_queue := q\<rparr>) = status_at c" "deps_at (c\<lparr>co_queue := q\<rparr>) = deps_at c"
    "ct_id (task_at (c\<lparr>co_queue := q\<rparr>) i) = ct_id (task_at c i)"
    "ct_result (task_at (c\<lparr>co_queue := q\<rparr>) i) = ct_result (task_at c i)"
    "ct_type (task_at (c\<lparr>co_queue := q\<rparr>) i) = ct_type (task_at c i)"
    "ct_prio (task_at (c\<lparr>co_queue := q\<rparr>) i) = ct_prio (task_at c i)"
  using same_tasks_sel [OF assms]
  by (auto simp: status_at_def [abs_def] deps_at_def [abs_def] task_at_def)

lemma same_tasks_at_rev:
  "same_tasks (co_queue c) q \<Longrightarrow> no_index (task_at (c\<lparr>co_queue := q\<rparr>) i) = no_index (task_at c i)"
  by (simp add: same_tasks_def task_at_def)

lemma open_not_completed:
  "co_weak c \<Longrightarrow> i \<in> set (co_ids c) \<Longrightarrow> \<not> terminal (status_at c i) \<Longrightarrow> \<not> is_completed c i"
  by (auto simp: co_weak_def view_ok_def is_completed_def)

lemma queued_ids: "co_weak c \<Longrightarrow> i \<in> set (tq_items (co_queue c)) \<longleftrightarrow> i \<in> set (co_ids c) \<and> status_at c i = TaskReady"
  by (auto simp: co_weak_def view_ok_def)

subsection \<open>Finishing a task\<close>

lemma remove_queued_props:
  assumes "co_weak c"
  shows "queue_ok (co_queue (remove_queued i c))" "same_tasks (co_queue c) (co_queue (remove_queued i c))"
    "set (tq_items (co_queue (remove_queued i c))) = set (tq_items (co_queue c)) - {i}"
proof -
  have q: "queue_ok (co_queue c)" and idt: "\<And>r. r \<in> set (tq_items (co_queue c)) \<Longrightarrow> ct_id (tq_mem (co_queue c) r) = r"
    using assms queued_ids [OF assms] by (auto simp: co_weak_def task_at_def)
  note R = RemoveTask_ok [OF q, of i]
  show "queue_ok (co_queue (remove_queued i c))" "same_tasks (co_queue c) (co_queue (remove_queued i c))"
    using R by (simp_all add: remove_queued_def)
  have d: "distinct (tq_items (co_queue c))" using q by (simp add: queue_ok_def index_ok_def)
  show "set (tq_items (co_queue (remove_queued i c))) = set (tq_items (co_queue c)) - {i}"
  proof (cases "fst (RemoveTask i (co_queue c))")
    case None
    with R have "snd (RemoveTask i (co_queue c)) = co_queue c"
      and "\<forall>r\<in>set (tq_items (co_queue c)). ct_id (tq_mem (co_queue c) r) \<noteq> i" by simp_all
    with idt show ?thesis by (auto simp: remove_queued_def)
  next
    case (Some r)
    with R have r: "r \<in> set (tq_items (co_queue c))" "ct_id (tq_mem (co_queue c) r) = i"
      and m: "mset (tq_items (snd (RemoveTask i (co_queue c)))) = mset (tq_items (co_queue c)) - {#r#}" by simp_all
    then have "r = i" using idt by auto
    then have "mset (tq_items (snd (RemoveTask i (co_queue c)))) = mset (remove1 i (tq_items (co_queue c)))"
      using m by simp
    then have "set (tq_items (snd (RemoveTask i (co_queue c)))) = set (remove1 i (tq_items (co_queue c)))"
      by (rule mset_eq_setD)
    then show ?thesis using d by (simp add: remove_queued_def set_remove1_eq)
  qed
qed

lemma remove_queued_frame [simp]:
  "co_ids (remove_queued i c) = co_ids c" "co_completed (remove_queued i c) = co_completed c"
  "co_completed_order (remove_queued i c) = co_completed_order c"
  "co_dependents (remove_queued i c) = co_dependents c" "co_running (remove_queued i c) = co_running c"
  "co_finished (remove_queued i c) = co_finished c" "co_events (remove_queued i c) = co_events c"
  "co_on_complete (remove_queued i c) = co_on_complete c" "co_started (remove_queued i c) = co_started c"
  "co_on_all (remove_queued i c) = co_on_all c" "co_max_parallel (remove_queued i c) = co_max_parallel c"
  by (simp_all add: remove_queued_def)

lemma remove_queued_at:
  assumes "co_weak c"
  shows "status_at (remove_queued i c) = status_at c" "deps_at (remove_queued i c) = deps_at c"
    "ct_id (task_at (remove_queued i c) j) = ct_id (task_at c j)"
    "ct_result (task_at (remove_queued i c) j) = ct_result (task_at c j)"
    "ct_type (task_at (remove_queued i c) j) = ct_type (task_at c j)"
    "no_index (task_at (remove_queued i c) j) = no_index (task_at c j)"
  using same_tasks_at [OF remove_queued_props(2) [OF assms]] same_tasks_at_rev [OF remove_queued_props(2) [OF assms]]
  by (simp_all add: remove_queued_def)

lemma remove_queued_id:
  assumes "co_weak c" and "status_at c i \<noteq> TaskReady \<or> i \<notin> set (co_ids c)"
  shows "remove_queued i c = c"
proof -
  have "i \<notin> set (tq_items (co_queue c))" using assms queued_ids by blast
  moreover have "\<And>r. r \<in> set (tq_items (co_queue c)) \<Longrightarrow> ct_id (tq_mem (co_queue c) r) = r"
    using assms(1) queued_ids [OF assms(1)] by (auto simp: co_weak_def task_at_def)
  ultimately have "find_index (\<lambda>r. ct_id (tq_mem (co_queue c) r) = i) (tq_items (co_queue c)) = None"
    by (auto simp: find_index_None)
  then show ?thesis by (simp add: remove_queued_def RemoveTask_def)
qed

lemma finish_at [simp]:
  "status_at (finish_task i s r c) = (status_at c)(i := s)" "deps_at (finish_task i s r c) = deps_at c"
  "task_at (finish_task i s r c) = (task_at c)(i := set_result s r (task_at c i))"
  by (auto simp: finish_task_def markCompleted_def set_result_def task_at_def status_at_def [abs_def]
      deps_at_def [abs_def] upd_at_def upd_task_def)

lemma finish_frame [simp]:
  "co_ids (finish_task i s r c) = co_ids c" "co_dependents (finish_task i s r c) = co_dependents c"
  "co_running (finish_task i s r c) = co_running c" "co_finished (finish_task i s r c) = co_finished c"
  "co_events (finish_task i s r c) = co_events c" "co_on_complete (finish_task i s r c) = co_on_complete c"
  "co_started (finish_task i s r c) = co_started c" "co_on_all (finish_task i s r c) = co_on_all c"
  "co_max_parallel (finish_task i s r c) = co_max_parallel c"
  "tq_items (co_queue (finish_task i s r c)) = tq_items (co_queue c)"
  "co_completed (finish_task i s r c) = (if is_completed c i then co_completed c else co_completed c @ [i])"
  "co_completed_order (finish_task i s r c) =
     (if is_completed c i then co_completed_order c else co_completed_order c @ [i])"
  by (simp_all add: finish_task_def markCompleted_def is_completed_def)

lemma finish_weak:
  assumes w: "co_weak c" and i: "i \<in> set (co_ids c)" "\<not> terminal (status_at c i)" and s: "terminal s"
  shows "co_weak (finish_task i s r (remove_queued i c))"
    and "order_ok c \<Longrightarrow> order_ok (finish_task i s r (remove_queued i c))"
    and "co_completed (finish_task i s r (remove_queued i c)) = co_completed c @ [i]"
    and "stuck (finish_task i s r (remove_queued i c)) \<subseteq> stuck c \<union> set (co_dependents c i)"
proof -
  let ?r = "remove_queued i c" and ?c = "finish_task i s r (remove_queued i c)"
  note nc = open_not_completed [OF w i]
  then have nr: "\<not> is_completed ?r i" by (simp add: is_completed_def)
  note at = remove_queued_at [OF w]
  have v: "view_ok (co_ids c) (status_at c) (deps_at c) (set (tq_items (co_queue c))) (co_completed c) (co_dependents c)"
    using w by (simp add: co_weak_def)
  show comp: "co_completed ?c = co_completed c @ [i]" using nr by simp
  have q: "queue_ok (co_queue ?c)"
    unfolding finish_task_def markCompleted_def is_completed_def upd_at_def
    using queue_ok_upd [OF _ _ remove_queued_props(1) [OF w], of "set_result s r"]
    by (simp add: set_result_def)
  have "ct_id (task_at ?c j) = j" if "j \<in> set (co_ids c)" for j
    using w that at(3) i(1) by (simp add: co_weak_def set_result_def)
  with q view_finish [OF v i s] show "co_weak ?c"
    using remove_queued_props(3) [OF w, of i] comp by (simp add: co_weak_def at)
  show "order_ok c \<Longrightarrow> order_ok ?c" using nr nc by (auto simp: order_ok_def is_completed_def)
  show "stuck ?c \<subseteq> stuck c \<union> set (co_dependents c i)"
  proof
    fix j assume j: "j \<in> stuck ?c"
    then have jj: "j \<in> set (co_ids c)" "j \<noteq> i" "status_at c j = TaskBlocked" "set (deps_at c j) \<subseteq> insert i (set (co_completed c))"
      using s comp unfolding stuck_def stuck_in_def by (auto simp: at split: if_splits)
    show "j \<in> stuck c \<union> set (co_dependents c i)"
    proof (cases "i \<in> set (deps_at c j)")
      case True
      with v jj show ?thesis by (auto simp: view_ok_def)
    next
      case False
      with jj show ?thesis by (auto simp: stuck_def stuck_in_def)
    qed
  qed
qed

subsection \<open>Waking the dependents\<close>

text \<open>What waking a task may change: blocked tasks become ready, and nothing else of a task.\<close>

definition wakes :: "coordinator \<Rightarrow> coordinator \<Rightarrow> bool" where
  "wakes c c' \<longleftrightarrow>
     co_ids c' = co_ids c \<and> co_completed c' = co_completed c \<and> co_completed_order c' = co_completed_order c \<and>
     co_dependents c' = co_dependents c \<and> co_running c' = co_running c \<and> co_finished c' = co_finished c \<and>
     co_events c' = co_events c \<and> co_on_complete c' = co_on_complete c \<and> co_started c' = co_started c \<and>
     co_on_all c' = co_on_all c \<and> co_max_parallel c' = co_max_parallel c \<and> deps_at c' = deps_at c \<and>
     (\<forall>j. status_at c' j = status_at c j \<or> status_at c j = TaskBlocked \<and> status_at c' j = TaskReady) \<and>
     (\<forall>j. ct_result (task_at c' j) = ct_result (task_at c j))"

lemma wakes_refl [simp]: "wakes c c"
  by (simp add: wakes_def)

lemma wakes_trans: "wakes a b \<Longrightarrow> wakes b c \<Longrightarrow> wakes a c"
  unfolding wakes_def by (simp, metis task_status.distinct)

lemma signal_frame [simp]:
  "core (signalTaskReady c) = core c" "wakes c (signalTaskReady c)"
  by (simp_all add: signalTaskReady_def core_def wakes_def status_at_def [abs_def] deps_at_def [abs_def] task_at_def [abs_def])

lemma push_at_frame [simp]:
  "co_ids (push_at i c) = co_ids c" "co_completed (push_at i c) = co_completed c"
  "co_completed_order (push_at i c) = co_completed_order c" "co_dependents (push_at i c) = co_dependents c"
  "co_running (push_at i c) = co_running c" "co_finished (push_at i c) = co_finished c"
  "co_events (push_at i c) = co_events c" "co_on_complete (push_at i c) = co_on_complete c"
  "co_started (push_at i c) = co_started c" "co_on_all (push_at i c) = co_on_all c"
  "co_max_parallel (push_at i c) = co_max_parallel c"
  by (simp_all add: push_at_def)

lemma make_ready_weak:
  assumes w: "co_weak c" and i: "i \<in> set (co_ids c)" "status_at c i = TaskBlocked"
    and d: "set (deps_at c i) \<subseteq> set (co_completed c)"
  shows "co_weak (make_ready i c) \<and> wakes c (make_ready i c) \<and> stuck (make_ready i c) = stuck c - {i} \<and>
    status_at (make_ready i c) = (status_at c)(i := TaskReady)"
proof -
  let ?u = "upd_at i (\<lambda>t. t\<lparr>ct_status := TaskReady\<rparr>) c"
  let ?c = "push_at i ?u"
  have "i \<notin> set (tq_items (co_queue c))" using queued_ids [OF w, of i] i by simp
  then have ni: "i \<notin> set (tq_items (co_queue ?u))" by simp
  have qu: "queue_ok (co_queue ?u)"
    using w queue_ok_upd [of "\<lambda>t. t\<lparr>ct_status := TaskReady\<rparr>" "co_queue c" i] by (simp add: co_weak_def upd_at_def)
  note P = heap_Push_ok [OF qu ni]
  have at: "status_at ?c = (status_at c)(i := TaskReady)" "deps_at ?c = deps_at c"
    "\<And>j. ct_id (task_at ?c j) = ct_id (task_at ?u j)" "\<And>j. ct_result (task_at ?c j) = ct_result (task_at ?u j)"
    using same_tasks_at [of ?u "PushTask i (co_queue ?u)"] P
    by (simp_all add: push_at_def PushTask_def)
  have "set (tq_items (co_queue ?c)) = insert i (set (tq_items (co_queue c)))"
  proof -
    have "set_mset (mset (tq_items (co_queue ?c))) = insert i (set (tq_items (co_queue c)))"
      using P by (simp add: push_at_def PushTask_def)
    then show ?thesis by simp
  qed
  moreover have "view_ok (co_ids c) (status_at c) (deps_at c) (set (tq_items (co_queue c))) (co_completed c) (co_dependents c)"
    using w by (simp add: co_weak_def)
  ultimately have "view_ok (co_ids ?c) (status_at ?c) (deps_at ?c) (set (tq_items (co_queue ?c)))
      (co_completed ?c) (co_dependents ?c)"
    using view_ready [of "co_ids c" "status_at c" "deps_at c" _ "co_completed c" "co_dependents c" i] i d
    by (simp add: at subset_iff)
  moreover have "ct_id (task_at ?c j) = j" if "j \<in> set (co_ids c)" for j
    using w that i(1) by (simp add: at(3) co_weak_def)
  ultimately have "co_weak ?c" using P by (simp add: co_weak_def push_at_def PushTask_def)
  moreover have "wakes c ?c" using i(2) at by (simp add: wakes_def)
  moreover have "stuck ?c = stuck c - {i}"
    using at by (auto simp: stuck_def stuck_in_def)
  ultimately show ?thesis
    using core_cong [of "signalTaskReady ?c" ?c] core_at [of "signalTaskReady ?c" ?c]
      wakes_trans [of c ?c "signalTaskReady ?c"] at(1)
    by (simp add: make_ready_def)
qed

lemma unblock_one_weak:
  assumes "co_weak c"
  shows "co_weak (unblock_one i c) \<and> wakes c (unblock_one i c) \<and> stuck (unblock_one i c) = stuck c - {i}"
proof -
  have met: "areDependenciesMet (deps_at c i) c \<longleftrightarrow> set (deps_at c i) \<subseteq> set (co_completed c)"
    by (auto simp: areDependenciesMet_def is_completed_def list_all_iff)
  show ?thesis
  proof (cases "has_task c i \<and> status_at c i = TaskBlocked \<and> set (deps_at c i) \<subseteq> set (co_completed c)")
    case True
    then have "unblock_one i c = make_ready i c" using met by (simp add: unblock_one_def)
    with True make_ready_weak [OF assms, of i] show ?thesis by (simp add: has_task_def)
  next
    case False
    then have "unblock_one i c = c" using met by (auto simp: unblock_one_def)
    moreover have "i \<notin> stuck c" using False by (auto simp: stuck_def stuck_in_def has_task_def)
    ultimately show ?thesis using assms by simp
  qed
qed

lemma unblock_fold:
  "co_weak c \<Longrightarrow>
   co_weak (foldl (\<lambda>c i. unblock_one i c) c js) \<and> wakes c (foldl (\<lambda>c i. unblock_one i c) c js) \<and>
   stuck (foldl (\<lambda>c i. unblock_one i c) c js) = stuck c - set js"
proof (induction js arbitrary: c)
  case (Cons j js)
  note u = unblock_one_weak [OF Cons.prems, of j]
  note IH = Cons.IH [OF u [THEN conjunct1]]
  have "wakes c (foldl (\<lambda>c i. unblock_one i c) (unblock_one j c) js)"
    by (rule wakes_trans [of c "unblock_one j c"]) (use u IH in blast)+
  with u IH show ?case by auto
qed simp

lemma unblock_weak:
  "co_weak c \<Longrightarrow> co_weak (unblockDependents i c) \<and> wakes c (unblockDependents i c) \<and>
   stuck (unblockDependents i c) = stuck c - set (co_dependents c i)"
  unfolding unblockDependents_def by (rule unblock_fold)

text \<open>Finishing a task and waking its dependents leaves nothing stuck.\<close>

lemma finish_and_wake:
  assumes w: "co_weak c" "order_ok c" "stuck c = {}" and i: "i \<in> set (co_ids c)" "\<not> terminal (status_at c i)"
    and s: "terminal s" and c': "c' = unblockDependents i (finish_task i s r (remove_queued i c))"
  shows "co_weak c' \<and> order_ok c' \<and> stuck c' = {} \<and> co_ids c' = co_ids c \<and> co_running c' = co_running c \<and>
    co_finished c' = co_finished c \<and> co_events c' = co_events c \<and> co_on_complete c' = co_on_complete c \<and>
    co_started c' = co_started c \<and> co_max_parallel c' = co_max_parallel c \<and> co_on_all c' = co_on_all c \<and>
    status_at c' i = s \<and> ct_result (task_at c' i) = Some r \<and>
    (\<forall>j. j \<noteq> i \<longrightarrow> (status_at c' j = status_at c j \<or> status_at c j = TaskBlocked \<and> status_at c' j = TaskReady) \<and>
                   ct_result (task_at c' j) = ct_result (task_at c j))"
proof -
  let ?f = "finish_task i s r (remove_queued i c)"
  note F = finish_weak [OF w(1) i s, of r]
  have W: "co_weak c'" "wakes ?f c'" "stuck c' = stuck ?f - set (co_dependents ?f i)"
    using unblock_weak [OF F(1), of i] unfolding c' by simp_all
  have st: "status_at ?f = (status_at c)(i := s)" using remove_queued_at [OF w(1)] by simp
  have "stuck c' = {}" using W(3) F(4) w(3) by simp
  moreover have "order_ok c'" using F(2) [OF w(2)] W(2) by (simp add: order_ok_def wakes_def)
  moreover have "status_at c' i = s" using W(2) s st unfolding wakes_def by (metis fun_upd_same terminal_simps(5))
  moreover have "ct_result (task_at c' j) = (if j = i then Some r else ct_result (task_at c j))" for j
    using W(2) remove_queued_at(4) [OF w(1)] by (simp add: wakes_def set_result_def)
  moreover have "status_at c' j = status_at c j \<or> status_at c j = TaskBlocked \<and> status_at c' j = TaskReady"
    if "j \<noteq> i" for j
    using W(2) st that unfolding wakes_def by (metis fun_upd_other)
  moreover have "co_ids c' = co_ids c \<and> co_running c' = co_running c \<and>
    co_finished c' = co_finished c \<and> co_events c' = co_events c \<and> co_on_complete c' = co_on_complete c \<and>
    co_started c' = co_started c \<and> co_max_parallel c' = co_max_parallel c \<and> co_on_all c' = co_on_all c"
    using W(2) by (simp add: wakes_def)
  ultimately show ?thesis using W(1) by simp
qed

end
