(* ===== verification/CoordinatorOps.thy ===== *)
theory CoordinatorOps
  imports CoordinatorInv
begin

section \<open>Every operation of the coordinator keeps its invariant\<close>

text \<open>
  Discarding old tasks, adding a task, taking tasks off the queue, registering an agent, completing,
  cancelling and stopping: each keeps \<open>co_inv\<close>. The identifiers that the generator gives out are
  assumed fresh: not empty, not in use, and named by no dependency.
\<close>

definition fresh_id :: "coordinator \<Rightarrow> string \<Rightarrow> bool" where
  "fresh_id c i \<longleftrightarrow> i \<noteq> [] \<and> i \<notin> set (co_ids c) \<and> (\<forall>j\<in>set (co_ids c). i \<notin> set (deps_at c j))"

text \<open>The part of the state that changes of tasks leave alone.\<close>

definition quiet :: "coordinator \<Rightarrow> coordinator \<Rightarrow> bool" where
  "quiet c c' \<longleftrightarrow>
     co_events c' = co_events c \<and> co_on_complete c' = co_on_complete c \<and> co_on_all c' = co_on_all c \<and>
     co_finished c' = co_finished c \<and> co_started c' = co_started c \<and> co_max_parallel c' = co_max_parallel c"

lemma quiet_refl [simp]: "quiet c c"
  by (simp add: quiet_def)

lemma quiet_trans: "quiet a b \<Longrightarrow> quiet b c \<Longrightarrow> quiet a c"
  by (simp add: quiet_def)

subsection \<open>Discarding old tasks\<close>

lemma at_ids [simp]:
  "task_at (c\<lparr>co_ids := x, co_completed := y, co_dependents := z\<rparr>) = task_at c"
  "status_at (c\<lparr>co_ids := x, co_completed := y, co_dependents := z\<rparr>) = status_at c"
  "deps_at (c\<lparr>co_ids := x, co_completed := y, co_dependents := z\<rparr>) = deps_at c"
  by (simp_all add: task_at_def [abs_def] status_at_def [abs_def] deps_at_def [abs_def])

lemma foldl_remove_dependents:
  "j \<noteq> i \<Longrightarrow> j \<in> set (foldl (\<lambda>m d. m(d := removeTaskID i (m d))) m ds x) \<longleftrightarrow> j \<in> set (m x)"
  by (induction ds arbitrary: m) (auto simp: removeTaskID_def)

lemma discard_props:
  assumes w: "co_weak c" and i: "is_completed c i" and d: "canDiscardCompletedTask i c"
  shows "co_weak (discard_task i c)" "stuck (discard_task i c) \<subseteq> stuck c" "quiet c (discard_task i c)"
    "co_queue (discard_task i c) = co_queue c" "co_running (discard_task i c) = co_running c"
    "set (co_ids (discard_task i c)) = set (co_ids c) - {i}"
    "set (co_completed (discard_task i c)) = set (co_completed c) - {i}"
proof -
  have free: "status_at c j \<noteq> TaskBlocked" if "j \<in> set (co_dependents c i)" "j \<in> set (co_ids c)" for j
    using d that by (auto simp: canDiscardCompletedTask_def list_ex_iff has_task_def)
  define dpt where "dpt = (foldl (\<lambda>m d. m(d := removeTaskID i (m d))) (co_dependents c)
        (if has_task c i then deps_at c i else []))(i := [])"
  have e: "discard_task i c = c\<lparr>co_ids := removeTaskID i (co_ids c), co_completed := removeTaskID i (co_completed c),
      co_dependents := dpt\<rparr>"
    by (simp add: discard_task_def dpt_def Let_def)
  have v: "view_ok (co_ids c) (status_at c) (deps_at c) (set (tq_items (co_queue c))) (co_completed c) (co_dependents c)"
    using w by (simp add: co_weak_def)
  have "view_ok (filter (\<lambda>j. j \<noteq> i) (co_ids c)) (status_at c) (deps_at c) (set (tq_items (co_queue c)))
      (filter (\<lambda>j. j \<noteq> i) (co_completed c)) dpt"
  proof (rule view_discard [OF v])
    show "i \<in> set (co_completed c)" using i by (simp add: is_completed_def)
    show "status_at c j \<noteq> TaskBlocked" if "j \<in> set (co_dependents c i)" "j \<in> set (co_ids c)" for j
      using free that .
    show "j \<in> set (dpt d)" if "d \<noteq> i" "j \<noteq> i" "j \<in> set (co_dependents c d)" for d j
      using that by (simp add: dpt_def foldl_remove_dependents)
  qed
  then show "co_weak (discard_task i c)"
    using w unfolding e removeTaskID_def by (auto simp: co_weak_def)
  show "stuck (discard_task i c) \<subseteq> stuck c"
    unfolding e removeTaskID_def by (auto simp: stuck_def stuck_in_def)
qed (auto simp: discard_task_def Let_def quiet_def removeTaskID_def)

lemma cleanup_loop_props:
  "co_weak c \<Longrightarrow> distinct order \<Longrightarrow> cleanup_loop n order c = (kept, c') \<Longrightarrow>
   co_weak c' \<and> stuck c' \<subseteq> stuck c \<and> quiet c c' \<and> co_queue c' = co_queue c \<and> co_running c' = co_running c \<and>
   set (co_ids c') \<subseteq> set (co_ids c) \<and>
   (\<forall>j\<in>set (co_ids c). \<not> terminal (status_at c j) \<longrightarrow> j \<in> set (co_ids c')) \<and>
   distinct kept \<and> set kept = {j \<in> set order. is_completed c' j} \<and>
   (\<forall>j. j \<notin> set order \<longrightarrow> is_completed c' j = is_completed c j)"
proof (induction n order c arbitrary: kept c' rule: cleanup_loop.induct)
  case (1 n c)
  then show ?case by simp
next
  case (2 n i rest c)
  consider "\<not> is_completed c i" | "is_completed c i" "n = 0 \<or> \<not> canDiscardCompletedTask i c"
    | "is_completed c i" "\<not> (n = 0 \<or> \<not> canDiscardCompletedTask i c)" by blast
  then show ?case
  proof cases
    case 1
    with "2.prems" have l: "cleanup_loop n rest c = (kept, c')" by simp
    from "2.IH"(1) [OF 1 "2.prems"(1) _ l] "2.prems"(2) 1 show ?thesis by auto
  next
    case 2
    with "2.prems" obtain kept' where l: "cleanup_loop n rest c = (kept', c')" and k: "kept = i # kept'"
      by (auto split: prod.splits)
    from "2.IH"(2) [OF _ 2(2) "2.prems"(1) _ l] "2.prems"(2) 2 show ?thesis
      unfolding k by auto
  next
    case 3
    with "2.prems" have l: "cleanup_loop (n - 1) rest (discard_task i c) = (kept, c')" by simp
    have cd: "canDiscardCompletedTask i c" using 3 by blast
    note D = discard_props [OF "2.prems"(1) 3(1) cd]
    have st: "status_at (discard_task i c) = status_at c"
      using D(4) by (simp add: status_at_def [abs_def] task_at_def)
    have t: "terminal (status_at c i)" using "2.prems"(1) 3(1) by (auto simp: co_weak_def view_ok_def is_completed_def)
    from "2.IH"(3) [OF _ 3(2) D(1) _ l] 3 "2.prems"(2)
    have IH: "co_weak c' \<and> stuck c' \<subseteq> stuck (discard_task i c) \<and> quiet (discard_task i c) c' \<and>
      co_queue c' = co_queue c \<and> co_running c' = co_running c \<and>
      set (co_ids c') \<subseteq> set (co_ids c) - {i} \<and>
      (\<forall>j\<in>set (co_ids c) - {i}. \<not> terminal (status_at c j) \<longrightarrow> j \<in> set (co_ids c')) \<and>
      distinct kept \<and> set kept = {j \<in> set rest. is_completed c' j} \<and>
      (\<forall>j. j \<notin> set rest \<longrightarrow> is_completed c' j = is_completed (discard_task i c) j)"
      by (simp add: D st)
    have "is_completed (discard_task i c) j \<longleftrightarrow> is_completed c j \<and> j \<noteq> i" for j
      using D(7) by (auto simp: is_completed_def)
    with IH D(2,3) t quiet_trans [OF D(3)] "2.prems"(2) show ?thesis by auto
  qed
qed

lemma cleanup_inv:
  assumes "co_weak c" and "order_ok c"
  defines "c' \<equiv> cleanupCompletedTasks c"
  shows "co_weak c'" "order_ok c'" "stuck c' \<subseteq> stuck c" "quiet c c'" "co_queue c' = co_queue c"
    "co_running c' = co_running c" "set (co_ids c') \<subseteq> set (co_ids c)"
    "\<forall>j\<in>set (co_ids c). \<not> terminal (status_at c j) \<longrightarrow> j \<in> set (co_ids c')"
proof -
  have *: "co_weak c' \<and> order_ok c' \<and> stuck c' \<subseteq> stuck c \<and> quiet c c' \<and> co_queue c' = co_queue c \<and>
    co_running c' = co_running c \<and> set (co_ids c') \<subseteq> set (co_ids c) \<and>
    (\<forall>j\<in>set (co_ids c). \<not> terminal (status_at c j) \<longrightarrow> j \<in> set (co_ids c'))"
  proof (cases "length (co_completed c) \<le> MaxCoordinatorTasks")
    case True
    with assms show ?thesis by (simp add: c'_def cleanupCompletedTasks_def)
  next
    case False
    define n where "n = length (co_completed c) - MaxCoordinatorTasks div 2"
    obtain kept d where l: "cleanup_loop n (co_completed_order c) c = (kept, d)" by fastforce
    have e: "c' = d\<lparr>co_completed_order := kept\<rparr>"
      using False l by (simp add: c'_def cleanupCompletedTasks_def Let_def n_def)
    have dist: "distinct (co_completed_order c)" using assms(2) by (simp add: order_ok_def)
    note P = cleanup_loop_props [OF assms(1) dist l]
    have "core c' = core d" by (simp add: e core_def)
    note C = core_cong [OF this]
    have "set (co_completed d) = set kept"
    proof
      have "set kept = {j \<in> set (co_completed c). is_completed d j}"
        and out: "\<forall>j. j \<notin> set (co_completed c) \<longrightarrow> is_completed d j = is_completed c j"
        using P assms(2) by (simp_all add: order_ok_def)
      then show "set kept \<subseteq> set (co_completed d)" by (auto simp: is_completed_def)
      show "set (co_completed d) \<subseteq> set kept"
      proof
        fix j assume "j \<in> set (co_completed d)"
        then have j: "is_completed d j" by (simp add: is_completed_def)
        then have "j \<in> set (co_completed c)" using out by (auto simp: is_completed_def)
        with j \<open>set kept = _\<close> show "j \<in> set kept" by simp
      qed
    qed
    with P have "order_ok c'" by (simp add: order_ok_def e)
    moreover have "quiet c c'" using P by (simp add: quiet_def e)
    ultimately show ?thesis using P C by (simp add: e)
  qed
  then show "co_weak c'" "order_ok c'" "stuck c' \<subseteq> stuck c" "quiet c c'" "co_queue c' = co_queue c"
    "co_running c' = co_running c" "set (co_ids c') \<subseteq> set (co_ids c)"
    "\<forall>j\<in>set (co_ids c). \<not> terminal (status_at c j) \<longrightarrow> j \<in> set (co_ids c')" by blast+
qed

lemma cleanup_co_inv: "co_inv c \<Longrightarrow> co_inv (cleanup_if_needed b c)"
proof -
  assume i: "co_inv c"
  then have w: "co_weak c" "order_ok c" by (simp_all add: co_inv_def)
  note C = cleanup_inv [OF w]
  have st: "status_at (cleanupCompletedTasks c) = status_at c"
    using C(5) by (simp add: status_at_def [abs_def] task_at_def)
  have "running_ok (cleanupCompletedTasks c)"
    using i C(8) unfolding co_inv_def running_ok_def C(6) st by auto
  then show ?thesis using i C(1,2,3) by (auto simp: co_inv_def cleanup_if_needed_def)
qed

subsection \<open>Changes that the invariant does not see\<close>

lemma co_inv_cong:
  "core c' = core c \<Longrightarrow> co_completed_order c' = co_completed_order c \<Longrightarrow> co_running c' = co_running c \<Longrightarrow>
   co_inv c' = co_inv c"
proof -
  assume k: "core c' = core c" and "co_completed_order c' = co_completed_order c" "co_running c' = co_running c"
  with core_cong [OF k] core_at [OF k] show ?thesis
    by (simp add: co_inv_def order_ok_def running_ok_def core_def)
qed

lemma record_event_core [simp]:
  "core (record_event b e c) = core c" "co_completed_order (record_event b e c) = co_completed_order c"
  "co_running (record_event b e c) = co_running c" "co_ids (record_event b e c) = co_ids c"
  "co_finished (record_event b e c) = co_finished c" "co_started (record_event b e c) = co_started c"
  "co_max_parallel (record_event b e c) = co_max_parallel c" "co_queue (record_event b e c) = co_queue c"
  "co_on_complete (record_event b e c) = co_on_complete c" "co_on_all (record_event b e c) = co_on_all c"
  by (simp_all add: record_event_def core_def)

lemma at_record_event [simp]:
  "task_at (record_event b e c) = task_at c" "status_at (record_event b e c) = status_at c"
  "deps_at (record_event b e c) = deps_at c"
  using core_at [OF record_event_core(1)] by blast+

lemma record_event_inv [simp]: "co_inv (record_event b e c) = co_inv c"
  by (rule co_inv_cong) simp_all

lemma notify_inv [simp]: "co_inv (notify_complete i c) = co_inv c"
  by (simp add: notify_complete_def)

lemma publish_core:
  "core (snd (publishCompletion f c)) = core c" "co_completed_order (snd (publishCompletion f c)) = co_completed_order c"
  "co_running (snd (publishCompletion f c)) = co_running c"
  by (simp_all add: publishCompletion_def core_def record_event_def)

lemma publish_inv [simp]: "co_inv (snd (publishCompletion f c)) = co_inv c"
  using publish_core by (intro co_inv_cong)

lemma wakes_running:
  assumes "wakes c c'" and "running_ok c"
  shows "running_ok c'"
proof -
  have "status_at c' i = TaskRunning" if "status_at c i = TaskRunning" for i
    using assms(1) that unfolding wakes_def by (metis task_status.distinct)
  moreover have "co_running c' = co_running c" "co_ids c' = co_ids c" using assms(1) by (simp_all add: wakes_def)
  ultimately show ?thesis using assms(2) by (auto simp: running_ok_def)
qed

subsection \<open>Adding a task\<close>

lemma valid_deps_ids: "valid_deps c seen deps \<Longrightarrow> set deps \<subseteq> set (co_ids c)"
  by (induction c seen deps rule: valid_deps.induct) (auto simp: has_task_def split: if_splits)

lemma add_dependents_mono: "j \<in> set (m d) \<Longrightarrow> j \<in> set (add_dependents i deps m d)"
  unfolding add_dependents_def
proof (induction deps arbitrary: m)
  case (Cons x deps)
  have "j \<in> set ((m(x := m x @ [i])) d)" using Cons.prems by auto
  from Cons.IH [of "m(x := m x @ [i])", OF this] show ?case by (simp del: fun_upd_apply)
qed simp

lemma add_dependents_new: "d \<in> set deps \<Longrightarrow> i \<in> set (add_dependents i deps m d)"
proof (induction deps arbitrary: m)
  case (Cons x deps)
  show ?case
  proof (cases "d \<in> set deps")
    case True
    then show ?thesis using Cons.IH by (simp add: add_dependents_def)
  next
    case False
    with Cons.prems have "i \<in> set ((m(x := m x @ [i])) d)" by simp
    then show ?thesis using add_dependents_mono [of i "m(x := m x @ [i])" d i deps]
      by (simp add: add_dependents_def)
  qed
qed simp

lemma queue_ok_upd_other: "queue_ok q \<Longrightarrow> i \<notin> set (tq_items q) \<Longrightarrow> queue_ok (upd_task i f q)"
proof -
  assume q: "queue_ok q" and i: "i \<notin> set (tq_items q)"
  have m: "tq_mem (upd_task i f q) (tq_items q ! k) = tq_mem q (tq_items q ! k)" if "k < length (tq_items q)" for k
    using i that nth_mem by (auto simp: upd_task_def)
  then have "heap_inv (length (tq_items q)) (upd_task i f q) = heap_inv (length (tq_items q)) q"
    by (intro heap_inv_cong) (simp add: key_def)
  with q m show ?thesis by (simp add: queue_ok_def index_ok_def)
qed

lemma upd_at_twice: "upd_at i f (upd_at i g c) = upd_at i (f \<circ> g) c"
  by (simp add: upd_at_def upd_task_def)

text \<open>The new task while it is blocked, which is how it stays when a dependency is open.\<close>

definition blocked_task :: "string \<Rightarrow> ctask \<Rightarrow> coordinator \<Rightarrow> coordinator" where
  "blocked_task i t c =
     upd_at i (\<lambda>_. t\<lparr>ct_status := TaskBlocked\<rparr>)
       (c\<lparr>co_ids := co_ids c @ [i], co_dependents := add_dependents i (ct_deps t) (co_dependents c)\<rparr>)"

lemma AddTask_shape:
  assumes t: "t = new_task i prompt (ParseAgentType ty) priority deps"
    and changed: "snd (AddTask i prompt ty priority deps c) \<noteq> c"
  shows "valid_deps c [] deps \<and> \<not> co_finished c \<and>
    snd (AddTask i prompt ty priority deps c) =
      (if set deps \<subseteq> set (co_completed c) then make_ready i (blocked_task i t c) else blocked_task i t c)"
proof -
  define c1 where "c1 = upd_at i (\<lambda>_. t)
    (c\<lparr>co_ids := co_ids c @ [i], co_dependents := add_dependents i deps (co_dependents c)\<rparr>)"
  have e: "valid_deps c [] deps \<and> \<not> co_finished c \<and> snd (AddTask i prompt ty priority deps c) =
      (if areDependenciesMet deps c1 then make_ready i c1 else upd_at i (\<lambda>t. t\<lparr>ct_status := TaskBlocked\<rparr>) c1)"
    using changed unfolding AddTask_def Let_def c1_def t by (auto split: if_splits)
  have "ct_deps t = deps" by (simp add: t new_task_def)
  then have "upd_at i (\<lambda>t. t\<lparr>ct_status := TaskBlocked\<rparr>) c1 = blocked_task i t c"
    "make_ready i c1 = make_ready i (blocked_task i t c)"
    by (simp_all add: c1_def blocked_task_def make_ready_def upd_at_twice comp_def)
  moreover have "areDependenciesMet deps c1 \<longleftrightarrow> set deps \<subseteq> set (co_completed c)"
    by (auto simp: areDependenciesMet_def is_completed_def list_all_iff c1_def)
  ultimately show ?thesis using e by simp
qed

lemma blocked_task_frame:
  "co_ids (blocked_task i t c) = co_ids c @ [i]" "co_completed (blocked_task i t c) = co_completed c"
  "co_dependents (blocked_task i t c) = add_dependents i (ct_deps t) (co_dependents c)"
  "tq_items (co_queue (blocked_task i t c)) = tq_items (co_queue c)"
  "co_running (blocked_task i t c) = co_running c" "co_completed_order (blocked_task i t c) = co_completed_order c"
  "status_at (blocked_task i t c) = (status_at c)(i := TaskBlocked)"
  "deps_at (blocked_task i t c) = (deps_at c)(i := ct_deps t)"
  "task_at (blocked_task i t c) = (task_at c)(i := t\<lparr>ct_status := TaskBlocked\<rparr>)"
  by (auto simp: blocked_task_def upd_at_def upd_task_def task_at_def status_at_def deps_at_def)

lemma blocked_task_quiet: "quiet c (blocked_task i t c)"
  by (simp add: blocked_task_def quiet_def upd_at_def)

lemma blocked_task_props:
  assumes inv: "co_inv c" and fresh: "fresh_id c i" and t: "ct_id t = i" "set (ct_deps t) \<subseteq> set (co_ids c)"
  shows "co_weak (blocked_task i t c) \<and> running_ok (blocked_task i t c) \<and> order_ok (blocked_task i t c) \<and>
    stuck (blocked_task i t c) \<subseteq> (if set (ct_deps t) \<subseteq> set (co_completed c) then {i} else {})"
proof -
  let ?cb = "blocked_task i t c"
  note F = blocked_task_frame [of i t c]
  have w: "co_weak c" using inv by (simp add: co_inv_def)
  have nq: "i \<notin> set (tq_items (co_queue c))" using queued_ids [OF w] fresh by (simp add: fresh_id_def)
  have "view_ok (co_ids c) (status_at c) (deps_at c) (set (tq_items (co_queue c))) (co_completed c) (co_dependents c)"
    using w by (simp add: co_weak_def)
  then have "view_ok (co_ids ?cb) (status_at ?cb) (deps_at ?cb) (set (tq_items (co_queue ?cb))) (co_completed ?cb)
      (co_dependents ?cb)"
    unfolding F using fresh t(2)
    by (intro view_add [where dpt = "co_dependents c"]) (auto simp: fresh_id_def intro: add_dependents_mono add_dependents_new)
  moreover have "queue_ok (co_queue ?cb)"
    using w nq queue_ok_upd_other [of "co_queue c" i] by (simp add: blocked_task_def upd_at_def co_weak_def)
  moreover have "ct_id (task_at ?cb j) = j" if "j \<in> set (co_ids ?cb)" for j
    using that w t(1) by (auto simp: F co_weak_def)
  ultimately have "co_weak ?cb" by (simp add: co_weak_def)
  moreover have "k \<noteq> i" if "(a, k) \<in> set (co_running c)" for a k
    using inv that fresh by (auto simp: co_inv_def running_ok_def fresh_id_def)
  then have "running_ok ?cb" "order_ok ?cb" using inv by (auto simp: co_inv_def running_ok_def order_ok_def F)
  moreover have "stuck ?cb \<subseteq> (if set (ct_deps t) \<subseteq> set (co_completed c) then {i} else {})"
    using inv fresh by (auto simp: co_inv_def stuck_def stuck_in_def F fresh_id_def split: if_splits)
  ultimately show ?thesis by blast
qed

lemma AddTask_props:
  assumes inv: "co_inv c" and fresh: "fresh_id c i" and c': "c' = snd (AddTask i prompt ty priority deps c)"
  shows "co_inv c' \<and> quiet c c' \<and> co_running c' = co_running c \<and>
    (c' = c \<or> \<not> co_finished c \<and> co_ids c' = co_ids c @ [i] \<and> status_at c' i \<in> {TaskReady, TaskBlocked} \<and>
       (\<forall>j. j \<noteq> i \<longrightarrow> status_at c' j = status_at c j))"
proof (cases "c' = c")
  case True
  with inv show ?thesis by simp
next
  case False
  define t where "t = new_task i prompt (ParseAgentType ty) priority deps"
  define b where "b = blocked_task i t c"
  note S = AddTask_shape [OF t_def, of c, folded c' b_def, OF False]
  have t: "ct_id t = i" "ct_deps t = deps" by (simp_all add: t_def new_task_def)
  note F = blocked_task_frame [of i t c, folded b_def]
  have B: "co_weak b" "running_ok b" "order_ok b" "stuck b \<subseteq> (if set deps \<subseteq> set (co_completed c) then {i} else {})"
    using blocked_task_props [OF inv fresh t(1)] t(2) valid_deps_ids [of c "[]" deps] S by (simp_all add: b_def)
  show ?thesis
  proof (cases "set deps \<subseteq> set (co_completed c)")
    case True
    then have e: "c' = make_ready i b" using S by simp
    have M: "co_weak c' \<and> wakes b c' \<and> stuck c' = stuck b - {i} \<and> status_at c' = (status_at b)(i := TaskReady)"
      unfolding e by (rule make_ready_weak [OF B(1)]) (use True in \<open>simp_all add: F t\<close>)
    have "order_ok c'" using M B(3) by (simp add: wakes_def order_ok_def)
    moreover have "running_ok c'" using M wakes_running [OF _ B(2)] by blast
    moreover have "stuck c' = {}" using M B(4) by (auto split: if_splits)
    ultimately have "co_inv c'" using M by (simp add: co_inv_def)
    moreover have "quiet c c'" using M blocked_task_quiet [of c i t, folded b_def] by (simp add: wakes_def quiet_def)
    ultimately show ?thesis using M S by (simp add: wakes_def F)
  next
    case False
    then have "co_inv b" using B by (simp add: co_inv_def)
    with False S blocked_task_quiet [of c i t, folded b_def] show ?thesis by (simp add: F)
  qed
qed

subsection \<open>Taking tasks off the queue\<close>

definition prio_at :: "coordinator \<Rightarrow> string \<Rightarrow> int" where
  "prio_at c i = ct_prio (task_at c i)"

text \<open>What starting the tasks \<open>js\<close> does: they run, and nothing else of any task changes.\<close>

definition runs :: "coordinator \<Rightarrow> string list \<Rightarrow> coordinator \<Rightarrow> bool" where
  "runs c js c' \<longleftrightarrow>
     quiet c c' \<and> co_ids c' = co_ids c \<and> co_completed c' = co_completed c \<and>
     co_completed_order c' = co_completed_order c \<and> co_dependents c' = co_dependents c \<and>
     co_running c' = co_running c \<and> deps_at c' = deps_at c \<and> prio_at c' = prio_at c \<and>
     status_at c' = (\<lambda>j. if j \<in> set js then TaskRunning else status_at c j) \<and>
     (\<forall>j. ct_result (task_at c' j) = ct_result (task_at c j))"

lemma pop_step:
  assumes w: "co_weak c" and p: "PopTask (co_queue c) = (Some i, q)"
  shows "ct_status (tq_mem q i) = TaskReady" "i \<in> set (co_ids c)" "status_at c i = TaskReady"
    "co_weak (start_popped i q c)" "runs c [i] (start_popped i q c)"
    "set (tq_items q) = set (tq_items (co_queue c)) - {i}"
    "\<And>j. j \<in> set (tq_items (co_queue c)) \<Longrightarrow> prio_at c j \<le> prio_at c i"
proof -
  have qok: "queue_ok (co_queue c)" using w by (simp add: co_weak_def)
  have ne: "tq_items (co_queue c) \<noteq> []" using p by (auto simp: PopTask_def Queue_Len_def)
  from PopTask_ok [OF qok ne] p have P: "i \<in> set (tq_items (co_queue c))"
    "\<forall>s\<in>set (tq_items (co_queue c)). ct_prio (tq_mem (co_queue c) s) \<le> ct_prio (tq_mem (co_queue c) i)"
    "mset (tq_items q) = mset (tq_items (co_queue c)) - {#i#}" "queue_ok q" "same_tasks (co_queue c) q"
    by auto
  show i: "i \<in> set (co_ids c)" "status_at c i = TaskReady" using queued_ids [OF w] P(1) by simp_all
  note S = same_tasks_at [OF P(5)]
  show "ct_status (tq_mem q i) = TaskReady"
    using same_tasks_sel(3) [OF P(5)] i(2) by (simp add: status_at_def task_at_def)
  show items: "set (tq_items q) = set (tq_items (co_queue c)) - {i}"
  proof -
    have "mset (tq_items q) = mset (remove1 i (tq_items (co_queue c)))" using P(3) by simp
    then have "set (tq_items q) = set (remove1 i (tq_items (co_queue c)))" by (rule mset_eq_setD)
    then show ?thesis using qok by (simp add: queue_ok_def index_ok_def set_remove1_eq)
  qed
  have st: "status_at (start_popped i q c) = (status_at c)(i := TaskRunning)"
    and dp: "deps_at (start_popped i q c) = deps_at c"
  proof -
    show "status_at (start_popped i q c) = (status_at c)(i := TaskRunning)" by (simp add: start_popped_def S)
    have "deps_at (start_popped i q c) = deps_at (c\<lparr>co_queue := q\<rparr>)" by (simp add: start_popped_def)
    then show "deps_at (start_popped i q c) = deps_at c" by (simp add: S)
  qed
  have fr: "co_ids (start_popped i q c) = co_ids c" "co_completed (start_popped i q c) = co_completed c"
    "co_completed_order (start_popped i q c) = co_completed_order c"
    "co_dependents (start_popped i q c) = co_dependents c" "co_running (start_popped i q c) = co_running c"
    "quiet c (start_popped i q c)"
    by (simp_all add: start_popped_def quiet_def)
  have id: "ct_id (task_at (start_popped i q c) j) = ct_id (task_at c j)"
    and res: "ct_result (task_at (start_popped i q c) j) = ct_result (task_at c j)"
    and pr: "ct_prio (task_at (start_popped i q c) j) = ct_prio (task_at c j)" for j
    using S(3,4,6) by (simp_all add: start_popped_def)
  have "queue_ok (co_queue (start_popped i q c))"
    using queue_ok_upd [of "\<lambda>t. t\<lparr>ct_status := TaskRunning\<rparr>" q i] P(4) by (simp add: start_popped_def upd_at_def)
  moreover have "view_ok (co_ids c) (status_at c) (deps_at c) (set (tq_items (co_queue c))) (co_completed c) (co_dependents c)"
    using w by (simp add: co_weak_def)
  note view_run [OF this i]
  ultimately show "co_weak (start_popped i q c)"
    using w by (simp add: co_weak_def st dp fr items id)
  show "runs c [i] (start_popped i q c)"
    using res pr by (auto simp: runs_def fr st dp prio_at_def)
  show "prio_at c j \<le> prio_at c i" if "j \<in> set (tq_items (co_queue c))" for j
    using P(2) that by (simp add: prio_at_def task_at_def)
qed

lemma pop_ready_props:
  "co_weak c \<Longrightarrow> pop_ready slots c = (js, c') \<Longrightarrow>
   co_weak c' \<and> runs c js c' \<and> distinct js \<and> int (length js) \<le> max 0 slots \<and>
   set js \<subseteq> set (tq_items (co_queue c)) \<and>
   set (tq_items (co_queue c')) = set (tq_items (co_queue c)) - set js \<and>
   (int (length js) < slots \<longrightarrow> tq_items (co_queue c') = []) \<and>
   sorted_wrt (\<lambda>i j. prio_at c j \<le> prio_at c i) js \<and>
   (\<forall>i\<in>set js. \<forall>j\<in>set (tq_items (co_queue c')). prio_at c j \<le> prio_at c i)"
proof (induction slots c arbitrary: js c' rule: pop_ready.induct)
  case (1 slots c)
  consider "slots \<le> 0" | q where "0 < slots" "PopTask (co_queue c) = (None, q)"
    | i q where "0 < slots" "PopTask (co_queue c) = (Some i, q)"
    by (metis not_le option.exhaust surj_pair)
  then show ?case
  proof cases
    case 1
    then have "js = []" "c' = c" using "1.prems"(2) by (simp_all add: pop_ready.simps)
    then show ?thesis using 1 "1.prems"(1) by (simp add: runs_def)
  next
    case (2 q)
    then have "js = []" "c' = c" using "1.prems"(2) by (simp_all add: pop_ready.simps)
    moreover have "tq_items (co_queue c) = []"
      using 2 by (auto simp: PopTask_def Queue_Len_def split: if_splits prod.splits)
    ultimately show ?thesis using 2 "1.prems"(1) by (simp add: runs_def)
  next
    case (3 i q)
    note P = pop_step [OF "1.prems"(1) 3(2)]
    let ?c = "start_popped i q c"
    obtain ks where r: "pop_ready (slots - 1) ?c = (ks, c')" and js: "js = i # ks"
      using "1.prems"(2) 3 P(1) by (subst (asm) pop_ready.simps) (auto split: prod.splits)
    have IH: "co_weak c' \<and> runs ?c ks c' \<and> distinct ks \<and> int (length ks) \<le> max 0 (slots - 1) \<and>
       set ks \<subseteq> set (tq_items q) \<and> set (tq_items (co_queue c')) = set (tq_items q) - set ks \<and>
       (int (length ks) < slots - 1 \<longrightarrow> tq_items (co_queue c') = []) \<and>
       sorted_wrt (\<lambda>i j. prio_at ?c j \<le> prio_at ?c i) ks \<and>
       (\<forall>i\<in>set ks. \<forall>j\<in>set (tq_items (co_queue c')). prio_at ?c j \<le> prio_at ?c i)"
      using "1.IH"(2) [OF _ 3(2) [symmetric] refl _ P(4) r] 3(1) P(1) by simp
    have pr: "prio_at ?c = prio_at c" using P(5) by (simp add: runs_def)
    have "runs c js c'"
      using P(5) IH quiet_trans [of c ?c c'] unfolding runs_def js by (auto simp: fun_eq_iff)
    moreover have "i \<notin> set ks" using IH P(6) by auto
    moreover have "\<forall>j\<in>set ks. prio_at c j \<le> prio_at c i" using IH P(6,7) by auto
    moreover have "\<forall>j\<in>set (tq_items (co_queue c')). prio_at c j \<le> prio_at c i" using IH P(6,7) by auto
    moreover have "i \<in> set (tq_items (co_queue c))" using queued_ids [OF "1.prems"(1)] P(2,3) by simp
    ultimately show ?thesis using IH P(6) 3(1) unfolding js pr by auto
  qed
qed

lemma runs_inv:
  assumes "co_inv c" and "co_weak c'" and "runs c js c'" and "set js \<subseteq> set (tq_items (co_queue c))"
  shows "co_inv c'"
proof -
  have w: "co_weak c" using assms(1) by (simp add: co_inv_def)
  have rdy: "status_at c j = TaskReady" if "j \<in> set js" for j using queued_ids [OF w] assms(4) that by auto
  have r: "co_ids c' = co_ids c" "co_completed c' = co_completed c" "co_completed_order c' = co_completed_order c"
    "co_running c' = co_running c" "deps_at c' = deps_at c"
    "status_at c' = (\<lambda>j. if j \<in> set js then TaskRunning else status_at c j)"
    using assms(3) by (simp_all add: runs_def)
  have "running_ok c'" using assms(1) by (auto simp: co_inv_def running_ok_def r)
  moreover have "stuck c' \<subseteq> stuck c" using rdy by (auto simp: stuck_def stuck_in_def r split: if_splits)
  ultimately show ?thesis using assms(1,2) by (auto simp: co_inv_def order_ok_def r)
qed

lemma process_pop_inv: "co_inv c \<Longrightarrow> co_inv (snd (process_pop c))"
proof -
  assume i: "co_inv c"
  obtain js c' where p: "pop_ready (co_max_parallel c - int (length (co_running c))) c = (js, c')" by fastforce
  have "co_weak c" using i by (simp add: co_inv_def)
  from pop_ready_props [OF this p] have "co_inv c'" using runs_inv [OF i] by blast
  with i p show ?thesis by (simp add: process_pop_def)
qed

end
