(* ===== verification/CoordinatorSteps.thy ===== *)
theory CoordinatorSteps
  imports CoordinatorOps
begin

section \<open>Runs of the coordinator\<close>

text \<open>
  The handlers that finish tasks, and the coordinator as a transition system in which they interleave:
  adding, taking off the queue, announcing, registering, failing to start, completing, cancelling,
  stopping. \<open>run_ok\<close> is the invariant of every run, which adds to \<open>co_inv\<close> that the number of running
  tasks stays within \<open>maxParallel\<close> and that the completion of a task is reported once.
\<close>

lemma filter_other_task: "i \<notin> snd ` set xs \<Longrightarrow> filter (\<lambda>(a, t). t \<noteq> i) xs = xs"
  by (induction xs) auto

lemma filter_other_agent: "a \<notin> fst ` set xs \<Longrightarrow> filter (\<lambda>(b, t). b \<noteq> a) xs = xs"
  by (induction xs) auto

lemma filter_agent_task:
  "distinct (map fst xs) \<Longrightarrow> distinct (map snd xs) \<Longrightarrow> (a, i) \<in> set xs \<Longrightarrow>
   filter (\<lambda>(b, t). b \<noteq> a) xs = filter (\<lambda>(b, t). t \<noteq> i) xs"
proof (induction xs)
  case (Cons x xs)
  obtain b t where x: "x = (b, t)" by fastforce
  show ?case
  proof (cases "(a, i) \<in> set xs")
    case True
    then have "a \<in> fst ` set xs" "i \<in> snd ` set xs" by force+
    with Cons True x show ?thesis by auto
  next
    case False
    with Cons.prems x have "b = a" "t = i" by auto
    moreover have "filter (\<lambda>(b, t). b \<noteq> a) xs = xs" "filter (\<lambda>(b, t). t \<noteq> i) xs = xs"
      using Cons.prems x calculation by (simp_all add: filter_other_agent filter_other_task)
    ultimately show ?thesis using x by simp
  qed
qed simp

subsection \<open>Reported completions\<close>

fun is_completion :: "string \<Rightarrow> co_event \<Rightarrow> bool" where
  "is_completion i (EvTaskComplete t r) = (ct_id t = i)"
| "is_completion i _ = False"

definition completions :: "string \<Rightarrow> coordinator \<Rightarrow> nat" where
  "completions i c = length (filter (is_completion i) (co_events c))"

definition once_ok :: "coordinator \<Rightarrow> bool" where
  "once_ok c \<longleftrightarrow>
     (\<forall>i. completions i c \<le> 1) \<and>
     (\<forall>i\<in>set (co_ids c). completions i c = (if terminal (status_at c i) \<and> co_on_complete c then 1 else 0))"

text \<open>The completion of the whole is reported when it is set.\<close>

fun is_all :: "co_event \<Rightarrow> bool" where
  "is_all (EvAllComplete r) = True"
| "is_all _ = False"

definition all_ok :: "coordinator \<Rightarrow> bool" where
  "all_ok c \<longleftrightarrow> length (filter is_all (co_events c)) = (if co_finished c \<and> co_on_all c then 1 else 0)"

text \<open>
  What one handler does to the tasks: the tasks \<open>js\<close>, which were open, are finished and reported;
  other tasks keep their result, and their status but for waking; only finished tasks disappear.
\<close>

definition finishes :: "coordinator \<Rightarrow> string list \<Rightarrow> coordinator \<Rightarrow> bool" where
  "finishes c js c' \<longleftrightarrow>
     set (co_ids c') \<subseteq> set (co_ids c) \<and> co_on_complete c' = co_on_complete c \<and>
     co_max_parallel c' = co_max_parallel c \<and> co_on_all c' = co_on_all c \<and> co_started c' = co_started c \<and>
     (co_finished c \<longrightarrow> co_finished c') \<and> (co_finished c' \<longrightarrow> co_finished c \<or> isAllComplete c') \<and>
     (all_ok c \<longrightarrow> all_ok c') \<and>
     co_running c' = filter (\<lambda>(a, t). t \<notin> set js) (co_running c) \<and>
     distinct js \<and> (\<forall>j\<in>set js. j \<in> set (co_ids c) \<and> \<not> terminal (status_at c j) \<and> terminal (status_at c' j)) \<and>
     (\<forall>j\<in>set (co_ids c). \<not> terminal (status_at c j) \<and> j \<notin> set js \<longrightarrow> j \<in> set (co_ids c')) \<and>
     (\<forall>j. j \<notin> set js \<longrightarrow>
        (status_at c' j = status_at c j \<or> status_at c j = TaskBlocked \<and> status_at c' j = TaskReady) \<and>
        ct_result (task_at c' j) = ct_result (task_at c j)) \<and>
     (\<forall>j. completions j c' = completions j c + (if j \<in> set js \<and> co_on_complete c then 1 else 0))"

lemma finishes_refl [simp]: "finishes c [] c"
  by (simp add: finishes_def)

lemma all_ok_frame:
  "co_events c' = co_events c \<Longrightarrow> co_finished c' = co_finished c \<Longrightarrow> co_on_all c' = co_on_all c \<Longrightarrow>
   all_ok c' = all_ok c"
  by (simp add: all_ok_def)

lemma all_ok_record: "\<not> is_all e \<Longrightarrow> all_ok (record_event b e c) = all_ok c"
  by (auto simp: all_ok_def record_event_def)

lemma all_ok_publish: "all_ok c \<Longrightarrow> all_ok (snd (publishCompletion f c))"
  by (auto simp: all_ok_def publishCompletion_def record_event_def)

lemma isAllComplete_cong:
  "co_running c' = co_running c \<Longrightarrow> co_ids c' = co_ids c \<Longrightarrow> status_at c' = status_at c \<Longrightarrow>
   isAllComplete c' = isAllComplete c"
  by (simp add: isAllComplete_def)

lemma finishes_once:
  assumes "finishes c js c'" and "once_ok c"
  shows "once_ok c'"
proof -
  have js: "\<And>j. j \<in> set js \<Longrightarrow> j \<in> set (co_ids c) \<and> \<not> terminal (status_at c j) \<and> terminal (status_at c' j)"
    and other: "\<And>j. j \<notin> set js \<Longrightarrow> terminal (status_at c' j) = terminal (status_at c j)"
    and ids: "set (co_ids c') \<subseteq> set (co_ids c)" and on: "co_on_complete c' = co_on_complete c"
    and n: "\<And>j. completions j c' = completions j c + (if j \<in> set js \<and> co_on_complete c then 1 else 0)"
  proof -
    show "terminal (status_at c' j) = terminal (status_at c j)" if "j \<notin> set js" for j
      using assms(1) that unfolding finishes_def by (metis terminal_simps(3,5))
  qed (use assms(1) in \<open>auto simp: finishes_def\<close>)
  have "completions j c' \<le> 1 \<and>
        (j \<in> set (co_ids c') \<longrightarrow> completions j c' = (if terminal (status_at c' j) \<and> co_on_complete c' then 1 else 0))" for j
    using assms(2) js [of j] other [of j] ids unfolding once_ok_def n on by (cases "j \<in> set js") auto
  then show ?thesis by (simp add: once_ok_def)
qed

lemma completions_frame:
  "co_events c' = co_events c \<Longrightarrow> completions j c' = completions j c"
  by (simp add: completions_def)

lemma completions_notify:
  "completions j (notify_complete i c) =
     completions j c + (if co_on_complete c \<and> ct_id (task_at c i) = j then 1 else 0)"
  by (simp add: completions_def notify_complete_def record_event_def cloneCoordinatedTask_def)

lemma completions_publish: "completions j (snd (publishCompletion f c)) = completions j c"
  by (simp add: completions_def publishCompletion_def record_event_def)

lemma publish_frame [simp]:
  "co_ids (snd (publishCompletion f c)) = co_ids c"
  "co_on_complete (snd (publishCompletion f c)) = co_on_complete c"
  "co_max_parallel (snd (publishCompletion f c)) = co_max_parallel c"
  "co_running (snd (publishCompletion f c)) = co_running c"
  "co_on_all (snd (publishCompletion f c)) = co_on_all c"
  "co_started (snd (publishCompletion f c)) = co_started c"
  "co_finished c \<Longrightarrow> co_finished (snd (publishCompletion f c))"
  "task_at (snd (publishCompletion f c)) = task_at c"
  "status_at (snd (publishCompletion f c)) = status_at c"
  "deps_at (snd (publishCompletion f c)) = deps_at c"
  using core_at [OF publish_core(1) [of f c]]
  by (simp_all add: publishCompletion_def record_event_def)

lemma publish_finished:
  "co_finished (snd (publishCompletion False c)) \<Longrightarrow> co_finished c \<or> isAllComplete c"
  by (auto simp: publishCompletion_def split: if_splits)

subsection \<open>Handlers that finish a task\<close>

text \<open>The end of every handler: report, clean up, publish.\<close>

definition settle :: "string \<Rightarrow> coordinator \<Rightarrow> coordinator" where
  "settle i c = snd (publishCompletion False (cleanup_if_needed (needs_cleanup c) (notify_complete i c)))"

lemma settle_inv: "co_inv c \<Longrightarrow> co_inv (settle i c)"
  by (simp add: settle_def cleanup_co_inv)

lemma drop_running_frame [simp]:
  "core (drop_running a c) = core c" "co_completed_order (drop_running a c) = co_completed_order c"
  "co_ids (drop_running a c) = co_ids c" "co_events (drop_running a c) = co_events c"
  "co_on_complete (drop_running a c) = co_on_complete c" "co_finished (drop_running a c) = co_finished c"
  "co_max_parallel (drop_running a c) = co_max_parallel c"
  by (simp_all add: drop_running_def core_def)

lemma at_drop_running [simp]:
  "task_at (drop_running a c) = task_at c" "status_at (drop_running a c) = status_at c"
  "deps_at (drop_running a c) = deps_at c"
  using core_at [OF drop_running_frame(1)] by blast+

lemma co_running_drop [simp]: "co_running (drop_running a c) = filter (\<lambda>(b, t). b \<noteq> a) (co_running c)"
  by (simp add: drop_running_def)

lemma drop_running_inv: "co_inv c \<Longrightarrow> co_inv (drop_running a c)"
proof -
  assume i: "co_inv c"
  have "order_ok (drop_running a c) = order_ok c"
    by (simp add: order_ok_def) (simp add: drop_running_def)
  moreover have "running_ok (drop_running a c)"
    using i by (auto simp: co_inv_def running_ok_def distinct_map_filter)
  ultimately show ?thesis
    using i core_cong [OF drop_running_frame(1) [of a c]] by (simp add: co_inv_def)
qed

lemma finish_inv:
  assumes inv: "co_inv c" and i: "i \<in> set (co_ids c)" "\<not> terminal (status_at c i)" and s: "terminal s"
    and nr: "i \<notin> snd ` set (co_running c)" and c': "c' = unblockDependents i (finish_task i s r (remove_queued i c))"
  shows "co_inv c'"
proof -
  have w: "co_weak c" "order_ok c" "stuck c = {}" "running_ok c" using inv by (simp_all add: co_inv_def)
  note F = finish_and_wake [OF w(1,2,3) i s c']
  have "status_at c' j = TaskRunning" if "(a, j) \<in> set (co_running c)" for a j
  proof -
    have "j \<noteq> i" using nr that by force
    moreover have "status_at c j = TaskRunning" using w(4) that by (auto simp: running_ok_def)
    ultimately show ?thesis using F by (metis task_status.distinct(19) task_status.distinct(17) task_status.simps(14))
  qed
  then have "running_ok c'" using w(4) F by (auto simp: running_ok_def)
  with F show ?thesis by (simp add: co_inv_def)
qed

lemma finish_settle:
  assumes inv: "co_inv c" and i: "i \<in> set (co_ids c)" "\<not> terminal (status_at c i)" and s: "terminal s"
    and nr: "i \<notin> snd ` set (co_running c)"
    and c': "c' = settle i (unblockDependents i (finish_task i s r (remove_queued i c)))"
  shows "co_inv c' \<and> finishes c [i] c' \<and> co_running c' = co_running c"
proof -
  define d where "d = unblockDependents i (finish_task i s r (remove_queued i c))"
  have w: "co_weak c" "order_ok c" "stuck c = {}" using inv by (simp_all add: co_inv_def)
  note F = finish_and_wake [OF w i s d_def]
  have dinv: "co_inv d" by (rule finish_inv [OF inv i s nr d_def])
  have cid: "ct_id (task_at d i) = i" using dinv i(1) F by (auto simp: co_inv_def co_weak_def)
  define n where "n = notify_complete i d"
  have nat: "status_at n = status_at d" "task_at n = task_at d" "co_ids n = co_ids d" "co_running n = co_running d"
    "co_on_all n = co_on_all d" "co_started n = co_started d"
    "co_on_complete n = co_on_complete d" "co_max_parallel n = co_max_parallel d" "co_finished n = co_finished d"
    by (simp_all add: n_def notify_complete_def)
  have ninv: "co_inv n" using dinv by (simp add: n_def)
  define k where "k = cleanup_if_needed (needs_cleanup d) n"
  have K: "set (co_ids k) \<subseteq> set (co_ids n)" "quiet n k" "task_at k = task_at n" "status_at k = status_at n"
    "\<forall>j\<in>set (co_ids n). \<not> terminal (status_at n j) \<longrightarrow> j \<in> set (co_ids k)" "co_running k = co_running n"
    using cleanup_inv [of n] ninv
    by (auto simp: k_def cleanup_if_needed_def co_inv_def task_at_def [abs_def] status_at_def [abs_def])
  have e: "c' = snd (publishCompletion False k)" by (simp add: c' settle_def d_def [symmetric] n_def k_def)
  have comp: "completions j c' = completions j c + (if j = i \<and> co_on_complete c then 1 else 0)" for j
  proof -
    have "completions j k = completions j n" using K(2) by (intro completions_frame) (simp add: quiet_def)
    moreover have "completions j n = completions j d + (if co_on_complete d \<and> i = j then 1 else 0)"
      by (simp add: n_def completions_notify cid)
    moreover have "completions j d = completions j c" using F by (intro completions_frame) simp
    ultimately show ?thesis using F by (simp add: e completions_publish)
  qed
  have at: "status_at c' = status_at d" "task_at c' = task_at d" by (simp_all add: e K nat)
  have run: "co_running c' = co_running c" using F by (simp add: e K nat)
  have fr: "co_on_complete c' = co_on_complete c \<and> co_max_parallel c' = co_max_parallel c \<and>
      co_on_all c' = co_on_all c \<and> co_started c' = co_started c \<and> (co_finished c \<longrightarrow> co_finished c')"
    using F K(2) by (simp add: e nat quiet_def)
  have fin: "co_finished c' \<longrightarrow> co_finished c \<or> isAllComplete c'"
    using publish_finished [of k] isAllComplete_cong [of c' k] F K(2) by (auto simp: e nat quiet_def)
  have "all_ok c \<longrightarrow> all_ok c'"
  proof
    assume "all_ok c"
    then have "all_ok d" using F all_ok_frame [of d c] by simp
    then have "all_ok n" by (simp add: n_def notify_complete_def all_ok_record)
    then have "all_ok k" using K(2) all_ok_frame [of k n] by (simp add: quiet_def)
    then show "all_ok c'" by (simp add: e all_ok_publish)
  qed
  moreover have "co_running c' = filter (\<lambda>(a, t). t \<notin> set [i]) (co_running c)"
    using filter_other_task [OF nr] run by simp
  moreover have ids: "co_ids c' = co_ids k" by (simp add: e)
  moreover have "set (co_ids c') \<subseteq> set (co_ids c)" using K(1) F by (simp add: ids nat)
  moreover have "status_at c' i = s" using F by (simp add: at)
  moreover have "\<forall>j\<in>set (co_ids c). \<not> terminal (status_at c j) \<and> j \<notin> set [i] \<longrightarrow> j \<in> set (co_ids c')"
  proof (intro ballI impI)
    fix j assume j: "j \<in> set (co_ids c)" "\<not> terminal (status_at c j) \<and> j \<notin> set [i]"
    then have "\<not> terminal (status_at d j)" using F by (metis list.set_intros(1) terminal_simps(3))
    then show "j \<in> set (co_ids c')" using K(5) F j(1) by (simp add: ids nat)
  qed
  moreover have "\<forall>j. j \<notin> set [i] \<longrightarrow>
      (status_at c' j = status_at c j \<or> status_at c j = TaskBlocked \<and> status_at c' j = TaskReady) \<and>
      ct_result (task_at c' j) = ct_result (task_at c j)"
    using F by (simp add: at)
  ultimately have "finishes c [i] c'"
    using fr fin comp i s unfolding finishes_def by simp
  moreover have "co_inv c'" using settle_inv [OF dinv] by (simp add: c' d_def)
  ultimately show ?thesis using run by blast
qed

subsection \<open>The handlers\<close>

lemma finish_drop: "drop_running a (finish_task i s r c) = finish_task i s r (drop_running a c)"
  by (simp add: drop_running_def finish_task_def markCompleted_def is_completed_def upd_at_def)

lemma finishes_drop:
  assumes "finishes (drop_running a c) [i] c'" and "running_ok c" and "(a, i) \<in> set (co_running c)"
  shows "finishes c [i] c'"
proof -
  have "filter (\<lambda>(b, t). b \<noteq> a) (co_running c) = filter (\<lambda>(b, t). t \<noteq> i) (co_running c)"
    using assms(2,3) by (intro filter_agent_task) (simp_all add: running_ok_def)
  then have "filter (\<lambda>(b, t). t \<notin> set [i]) (filter (\<lambda>(b, t). b \<noteq> a) (co_running c)) =
      filter (\<lambda>(b, t). t \<notin> set [i]) (co_running c)"
    by simp
  moreover have "all_ok (drop_running a c) = all_ok c" by (rule all_ok_frame) (simp_all add: drop_running_def)
  moreover have "completions j (drop_running a c) = completions j c" for j by (rule completions_frame) simp
  moreover have "co_on_all (drop_running a c) = co_on_all c" "co_started (drop_running a c) = co_started c"
    by (simp_all add: drop_running_def)
  ultimately show ?thesis using assms(1) unfolding finishes_def by simp
qed

lemma agent_of_props:
  assumes "running_ok c"
  shows "(a, i) \<in> set (co_running c) \<Longrightarrow> agent_of c i = a"
    and "agent_of c i \<noteq> [] \<Longrightarrow> (agent_of c i, i) \<in> set (co_running c)"
    and "agent_of c i = [] \<Longrightarrow> i \<notin> snd ` set (co_running c)"
proof -
  have f: "find (\<lambda>(a, t). t = i) (co_running c) = Some (a, i)" if "(a, i) \<in> set (co_running c)" for a
  proof (cases "find (\<lambda>(a, t). t = i) (co_running c)")
    case None
    with that show ?thesis by (auto simp: find_None_iff)
  next
    case (Some p)
    then have "p \<in> set (co_running c)" "snd p = i" by (auto dest: find_mem)
    moreover have "distinct (map snd (co_running c))" using assms by (simp add: running_ok_def)
    ultimately have "p = (a, i)" using that by (metis eq_key_imp_eq_value distinct_map inj_onD prod.sel(2))
    with Some show ?thesis by simp
  qed
  show 1: "agent_of c i = a" if "(a, i) \<in> set (co_running c)" for a using f [OF that] by (simp add: agent_of_def)
  show "(agent_of c i, i) \<in> set (co_running c)" if "agent_of c i \<noteq> []"
  proof (cases "find (\<lambda>(a, t). t = i) (co_running c)")
    case (Some p)
    then have "p \<in> set (co_running c)" "snd p = i" by (auto dest: find_mem)
    moreover obtain b where "p = (b, i)" using calculation(2) by (cases p) simp
    ultimately show ?thesis using 1 [of b] by simp
  qed (use that in \<open>simp add: agent_of_def\<close>)
  show "i \<notin> snd ` set (co_running c)" if "agent_of c i = []"
  proof
    assume "i \<in> snd ` set (co_running c)"
    then obtain a where a: "(a, i) \<in> set (co_running c)" by force
    with 1 [OF a] that show False using assms by (auto simp: running_ok_def)
  qed
qed

lemma running_lookup:
  assumes "running_ok c" and "map_of (co_running c) a = Some i"
  shows "(a, i) \<in> set (co_running c)" "i \<in> set (co_ids c)" "status_at c i = TaskRunning"
  using assms by (auto simp: running_ok_def dest: map_of_SomeD)

lemma settle_after_drop:
  assumes inv: "co_inv c" and ai: "(a, i) \<in> set (co_running c)" and s: "terminal s"
    and c': "c' = settle i (unblockDependents i (finish_task i s r (remove_queued i (drop_running a c))))"
  shows "co_inv c' \<and> finishes c [i] c'"
proof -
  let ?d = "drop_running a c"
  have r: "running_ok c" using inv by (simp add: co_inv_def)
  then have i: "i \<in> set (co_ids ?d)" "\<not> terminal (status_at ?d i)" using ai by (auto simp: running_ok_def)
  have "i \<notin> snd ` set (co_running ?d)"
    using filter_agent_task [of "co_running c" a i] r ai by (auto simp: running_ok_def)
  from finish_settle [OF drop_running_inv [OF inv] i s this c'] finishes_drop [OF _ r ai]
  show ?thesis by blast
qed

lemma handle_step:
  assumes inv: "co_inv c"
  shows "co_inv (handleAgentCompletion results a c) \<and>
    (\<exists>js. finishes c js (handleAgentCompletion results a c))"
proof (cases "\<exists>i r. map_of (co_running c) a = Some i \<and> results a = Some r \<and> ar_completed r")
  case False
  then have "handleAgentCompletion results a c = c"
    by (auto simp: handleAgentCompletion_def split: option.splits)
  with inv finishes_refl show ?thesis by metis
next
  case True
  then obtain i r where m: "map_of (co_running c) a = Some i" "results a = Some r" "ar_completed r" by blast
  have ro: "running_ok c" using inv by (simp add: co_inv_def)
  note R = running_lookup [OF ro m(1)]
  have d: "co_weak (drop_running a c)" using drop_running_inv [OF inv] by (simp add: co_inv_def)
  have q: "remove_queued i (drop_running a c) = drop_running a c"
    by (rule remove_queued_id [OF d]) (simp add: R(3))
  define st where "st = (if ar_status r = AgentCompleted then TaskCompleted else TaskFailed)"
  have "handleAgentCompletion results a c =
      settle i (unblockDependents i (finish_task i st r (remove_queued i (drop_running a c))))"
    using m R(2) by (simp add: handleAgentCompletion_def has_task_def st_def [symmetric] finish_drop settle_def q Let_def)
  moreover have "terminal st" by (simp add: st_def)
  ultimately show ?thesis using settle_after_drop [OF inv R(1)] by blast
qed

lemma fail_step:
  assumes inv: "co_inv c" and nr: "i \<notin> snd ` set (co_running c)"
  shows "co_inv (failTaskStart i ty err c) \<and> finishes c (if can_start i c then [i] else []) (failTaskStart i ty err c)"
proof (cases "can_start i c")
  case False
  then have "failTaskStart i ty err c = c" by (auto simp: failTaskStart_def can_start_def)
  with inv False show ?thesis by simp
next
  case True
  then have i: "i \<in> set (co_ids c)" "\<not> terminal (status_at c i)" by (simp_all add: has_task_def can_start_def)
  have "remove_queued i c = c"
    using inv True by (intro remove_queued_id) (simp_all add: co_inv_def can_start_def)
  then have "failTaskStart i ty err c =
      settle i (unblockDependents i (finish_task i TaskFailed (start_failed ty err) (remove_queued i c)))"
    using True by (simp add: failTaskStart_def settle_def Let_def can_start_def)
  from finish_settle [OF inv i _ nr this] True show ?thesis by simp
qed

lemma cancel_now_step:
  assumes inv: "co_inv c" and i: "i \<in> set (co_ids c)" "\<not> terminal (status_at c i)"
  shows "co_inv (cancel_now (agent_of c i) i c) \<and> finishes c [i] (cancel_now (agent_of c i) i c)"
proof -
  have ro: "running_ok c" using inv by (simp add: co_inv_def)
  note A = agent_of_props [OF ro]
  define r where "r = cancelled_result (agent_of c i) (ct_type (task_at c i)) ''cancelled by coordinator''"
  show ?thesis
  proof (cases "agent_of c i = []")
    case True
    have e: "cancel_now (agent_of c i) i c = settle i (unblockDependents i (finish_task i TaskFailed r (remove_queued i c)))"
      using True by (simp add: cancel_now_def settle_def r_def Let_def)
    show ?thesis using finish_settle [OF inv i _ A(3) [OF True] e] by simp
  next
    case False
    have e: "cancel_now (agent_of c i) i c =
        settle i (unblockDependents i (finish_task i TaskFailed r (remove_queued i (drop_running (agent_of c i) c))))"
      using False by (simp add: cancel_now_def settle_def r_def Let_def)
    show ?thesis using settle_after_drop [OF inv A(2) [OF False] _ e] by simp
  qed
qed

lemma commit_step:
  assumes inv: "co_inv c"
  shows "co_inv (snd (cancel_commit (agent_of c i) i c)) \<and>
    (\<exists>js. finishes c js (snd (cancel_commit (agent_of c i) i c)))"
proof (cases "has_task c i \<and> \<not> terminal (status_at c i)")
  case True
  with cancel_now_step [OF inv, of i] show ?thesis by (auto simp: cancel_commit_def has_task_def)
next
  case False
  then have "snd (cancel_commit (agent_of c i) i c) = c" by (auto simp: cancel_commit_def)
  with inv finishes_refl show ?thesis by metis
qed

lemma CancelTask_cases:
  "snd (CancelTask cancel results i c) \<in>
     {c, handleAgentCompletion results (agent_of c i) c, snd (cancel_commit (agent_of c i) i c)}"
  by (cases "if agent_of c i = [] then None else cancel (agent_of c i)") (simp_all add: CancelTask_def Let_def)

lemma cancel_step:
  assumes inv: "co_inv c"
  shows "co_inv (snd (CancelTask cancel results i c)) \<and> (\<exists>js. finishes c js (snd (CancelTask cancel results i c)))"
  using CancelTask_cases [of cancel results i c] inv finishes_refl [of c]
    handle_step [OF inv, of results "agent_of c i"] commit_step [OF inv, of i]
  by (elim insertE emptyE) metis+

subsection \<open>Stopping\<close>

definition stopped_status :: "string list \<Rightarrow> coordinator \<Rightarrow> string \<Rightarrow> task_status" where
  "stopped_status xs c j = (if j \<in> set xs \<and> \<not> terminal (status_at c j) then TaskFailed else status_at c j)"

definition cancelled_for :: "string \<Rightarrow> agent_result option \<Rightarrow> bool" where
  "cancelled_for reason r \<longleftrightarrow> (\<exists>x. r = Some x \<and> ar_status x = AgentCancelled \<and> ar_error x = reason)"

text \<open>Stopping the tasks \<open>xs\<close>: those that are open fail with the reason, and nothing else of a task changes.\<close>

definition stops :: "string \<Rightarrow> string list \<Rightarrow> coordinator \<Rightarrow> coordinator \<Rightarrow> bool" where
  "stops reason xs c c' \<longleftrightarrow>
     co_weak c' \<and> order_ok c' \<and> quiet c c' \<and> co_ids c' = co_ids c \<and> co_running c' = co_running c \<and>
     status_at c' = stopped_status xs c \<and>
     (\<forall>j. j \<in> set xs \<and> \<not> terminal (status_at c j) \<longrightarrow> cancelled_for reason (ct_result (task_at c' j))) \<and>
     (\<forall>j. j \<notin> set xs \<or> terminal (status_at c j) \<longrightarrow> ct_result (task_at c' j) = ct_result (task_at c j))"

lemma stop_task_props:
  assumes w: "co_weak c" "order_ok c" and i: "i \<in> set (co_ids c)" and c': "c' = stop_task reason i c"
  shows "stops reason [i] c c'"
proof (cases "terminal (status_at c i)")
  case True
  then show ?thesis using w by (auto simp: c' stop_task_def stopped_status_def stops_def)
next
  case False
  define r where "r = cancelled_result (agent_of c i) (ct_type (task_at c i)) reason"
  have e: "c' = finish_task i TaskFailed r (remove_queued i c)" using False by (simp add: c' stop_task_def r_def)
  note at = remove_queued_at [OF w(1)]
  have "status_at c' = stopped_status [i] c" using False by (auto simp: e at stopped_status_def)
  moreover have "quiet c c'" by (simp add: e quiet_def)
  moreover have "cancelled_for reason (Some r)" by (simp add: cancelled_for_def r_def cancelled_result_def)
  ultimately show ?thesis
    using finish_weak(1,2) [OF w(1) i False, of TaskFailed r] w(2) False
    by (auto simp: e at stops_def set_result_def)
qed

lemma stop_fold:
  "co_weak c \<Longrightarrow> order_ok c \<Longrightarrow> set xs \<subseteq> set (co_ids c) \<Longrightarrow> stops reason xs c (foldl (\<lambda>c i. stop_task reason i c) c xs)"
proof (induction xs arbitrary: c)
  case Nil
  then show ?case by (simp add: stopped_status_def [abs_def] stops_def)
next
  case (Cons i xs)
  let ?d = "stop_task reason i c" and ?e = "foldl (\<lambda>c i. stop_task reason i c) c (i # xs)"
  have i: "i \<in> set (co_ids c)" using Cons.prems(3) by simp
  note S = stop_task_props [OF Cons.prems(1,2) i refl, of reason]
  have IH: "stops reason xs ?d ?e" using Cons.IH [of ?d] S Cons.prems(3) by (simp add: stops_def)
  have st: "status_at ?d = stopped_status [i] c" using S by (simp add: stops_def)
  have "stopped_status xs ?d = stopped_status (i # xs) c"
    by (auto simp: stopped_status_def st fun_eq_iff)
  moreover have "cancelled_for reason (ct_result (task_at ?e j))"
    if "j \<in> set (i # xs)" "\<not> terminal (status_at c j)" for j
  proof (cases "j = i")
    case True
    then have "terminal (status_at ?d j)" using that by (simp add: st stopped_status_def)
    with IH S True that show ?thesis by (simp add: stops_def)
  next
    case False
    then have "\<not> terminal (status_at ?d j)" using that by (simp add: st stopped_status_def)
    with IH False that show ?thesis by (simp add: stops_def)
  qed
  moreover have "ct_result (task_at ?e j) = ct_result (task_at c j)"
    if "j \<notin> set (i # xs) \<or> terminal (status_at c j)" for j
  proof -
    have "j \<notin> set xs \<or> terminal (status_at ?d j)" using that by (auto simp: st stopped_status_def)
    then have "ct_result (task_at ?e j) = ct_result (task_at ?d j)" using IH by (simp add: stops_def)
    also have "\<dots> = ct_result (task_at c j)" using S that by (auto simp: stops_def)
    finally show ?thesis .
  qed
  ultimately show ?case using IH S quiet_trans [of c ?d ?e] unfolding stops_def by simp
qed

lemma cancel_events_frame:
  "core (foldl (\<lambda>c a. record_event True (EvCancelAgent a) c) c as) = core c \<and>
   co_completed_order (foldl (\<lambda>c a. record_event True (EvCancelAgent a) c) c as) = co_completed_order c \<and>
   co_running (foldl (\<lambda>c a. record_event True (EvCancelAgent a) c) c as) = co_running c \<and>
   co_on_complete (foldl (\<lambda>c a. record_event True (EvCancelAgent a) c) c as) = co_on_complete c \<and>
   co_on_all (foldl (\<lambda>c a. record_event True (EvCancelAgent a) c) c as) = co_on_all c \<and>
   co_finished (foldl (\<lambda>c a. record_event True (EvCancelAgent a) c) c as) = co_finished c \<and>
   co_started (foldl (\<lambda>c a. record_event True (EvCancelAgent a) c) c as) = co_started c \<and>
   co_max_parallel (foldl (\<lambda>c a. record_event True (EvCancelAgent a) c) c as) = co_max_parallel c \<and>
   completions j (foldl (\<lambda>c a. record_event True (EvCancelAgent a) c) c as) = completions j c \<and>
   all_ok (foldl (\<lambda>c a. record_event True (EvCancelAgent a) c) c as) = all_ok c"
  by (induction as arbitrary: c) (simp_all add: all_ok_record, simp add: completions_def record_event_def)

lemma notify_frame [simp]:
  "core (notify_complete i c) = core c" "co_completed_order (notify_complete i c) = co_completed_order c"
  "co_running (notify_complete i c) = co_running c" "co_on_complete (notify_complete i c) = co_on_complete c"
  "co_on_all (notify_complete i c) = co_on_all c" "co_finished (notify_complete i c) = co_finished c"
  "co_started (notify_complete i c) = co_started c" "co_max_parallel (notify_complete i c) = co_max_parallel c"
  "task_at (notify_complete i c) = task_at c" "all_ok (notify_complete i c) = all_ok c"
  by (simp_all add: notify_complete_def all_ok_record)

lemma notify_fold:
  "distinct js \<Longrightarrow> (\<And>j. j \<in> set js \<Longrightarrow> ct_id (task_at c j) = j) \<Longrightarrow>
   (let c' = foldl (\<lambda>c i. notify_complete i c) c js
    in core c' = core c \<and> co_completed_order c' = co_completed_order c \<and> co_running c' = co_running c \<and>
       co_on_complete c' = co_on_complete c \<and> co_on_all c' = co_on_all c \<and> co_finished c' = co_finished c \<and>
       co_started c' = co_started c \<and> co_max_parallel c' = co_max_parallel c \<and> all_ok c' = all_ok c \<and>
       (\<forall>j. completions j c' = completions j c + (if j \<in> set js \<and> co_on_complete c then 1 else 0)))"
proof (induction js arbitrary: c)
  case (Cons i js)
  have "(let c' = foldl (\<lambda>c i. notify_complete i c) (notify_complete i c) js; d = notify_complete i c
    in core c' = core d \<and> co_completed_order c' = co_completed_order d \<and> co_running c' = co_running d \<and>
       co_on_complete c' = co_on_complete d \<and> co_on_all c' = co_on_all d \<and> co_finished c' = co_finished d \<and>
       co_started c' = co_started d \<and> co_max_parallel c' = co_max_parallel d \<and> all_ok c' = all_ok d \<and>
       (\<forall>j. completions j c' = completions j d + (if j \<in> set js \<and> co_on_complete d then 1 else 0)))"
    using Cons.IH [of "notify_complete i c"] Cons.prems by (simp add: Let_def)
  then show ?case using Cons.prems by (auto simp: Let_def completions_notify)
qed (simp add: Let_def)

end
