(* ===== verification/CoordinatorRuns.thy ===== *)
theory CoordinatorRuns
  imports CoordinatorSteps
begin

section \<open>The coordinator as a transition system\<close>

text \<open>
  The critical sections interleave: clients add and cancel tasks and stop the coordinator while the
  processing loop takes tasks off the queue and starts them one by one. The loop is one goroutine, so
  it takes new tasks only when it has no task left to start. \<open>run_ok\<close> is the invariant of every run.
\<close>

subsection \<open>Stopping finishes every task\<close>

lemma finalize_step:
  assumes inv: "co_inv c" and ord: "mset (order (co_ids c)) = mset (co_ids c)" and open_co: "\<not> co_finished c"
    and c'_def: "c' = finalizeStoppedTasks order reason c"
  shows "co_inv c' \<and> finishes c (filter (\<lambda>i. \<not> terminal (status_at c i)) (order (co_ids c))) c' \<and>
    co_finished c' \<and> isAllComplete c' \<and> co_ids c' = co_ids c \<and>
    (\<forall>j\<in>set (co_ids c). \<not> terminal (status_at c j) \<longrightarrow>
       status_at c' j = TaskFailed \<and> cancelled_for reason (ct_result (task_at c' j)))"
proof -
  define xs where "xs = order (co_ids c)"
  define js where "js = filter (\<lambda>i. \<not> terminal (status_at c i)) xs"
  define a where "a = foldl (\<lambda>c i. stop_task reason i c) c xs"
  define e where "e = a\<lparr>co_running := []\<rparr>"
  define b where "b = foldl (\<lambda>c a. record_event True (EvCancelAgent a) c) e (map fst (co_running c))"
  define d where "d = foldl (\<lambda>c i. notify_complete i c) b js"
  have c': "c' = snd (publishCompletion True d)"
    using open_co by (simp add: c'_def finalizeStoppedTasks_def Let_def d_def b_def e_def a_def js_def xs_def)
  have w: "co_weak c" "order_ok c" "running_ok c" using inv by (simp_all add: co_inv_def)
  have xs: "set xs = set (co_ids c)" using ord by (metis mset_eq_setD xs_def)
  have dist: "distinct js"
    using w(1) ord unfolding js_def xs_def co_weak_def view_ok_def
    by (metis distinct_filter mset_eq_imp_distinct_iff)
  have A: "stops reason xs c a" using stop_fold [OF w(1,2), of xs reason] xs by (simp add: a_def)
  have E: "core e = core a" "co_completed_order e = co_completed_order a" "co_running e = []"
    "co_events e = co_events a" "quiet a e" by (simp_all add: e_def core_def quiet_def)
  have Q: "quiet c e" using quiet_trans [OF _ E(5), of c] A by (simp add: stops_def)
  have Qe: "all_ok e = all_ok c" "completions j e = completions j c" for j
    using Q all_ok_frame [of e c] completions_frame [of e c] by (simp_all add: quiet_def)
  have B: "core b = core a" "co_completed_order b = co_completed_order a" "co_running b = []"
    "co_on_complete b = co_on_complete c" "co_on_all b = co_on_all c" "co_finished b = co_finished c"
    "co_started b = co_started c" "co_max_parallel b = co_max_parallel c"
    "all_ok b = all_ok c" "completions j b = completions j c" for j
    using cancel_events_frame [of e "map fst (co_running c)" j, folded b_def] E Q Qe
    unfolding quiet_def by simp_all
  have b_at: "task_at b = task_at a" "status_at b = status_at a" using core_at [OF B(1)] by simp_all
  have js: "set js = {i \<in> set (co_ids c). \<not> terminal (status_at c i)}" using xs by (auto simp: js_def)
  have idb: "ct_id (task_at b j) = j" if "j \<in> set js" for j
    using A js that by (simp add: b_at stops_def co_weak_def)
  note D = notify_fold [OF dist, of b, OF idb, folded d_def, unfolded Let_def, THEN conjunct1]
    notify_fold [OF dist, of b, OF idb, folded d_def, unfolded Let_def, THEN conjunct2]
  have core: "core d = core a" using D(1) B(1) by simp
  have at: "task_at d = task_at a" "status_at d = stopped_status xs c"
    using core_at [OF core] A by (simp_all add: stops_def)
  have ids: "co_ids d = co_ids c" using core A by (simp add: core_def stops_def)
  have closed: "terminal (status_at d j)" if "j \<in> set (co_ids c)" for j
    using that xs by (simp add: at stopped_status_def)
  have all: "isAllComplete d" using D(2) B(3) closed by (simp add: isAllComplete_def ids list_all_iff)
  have "stuck d = {}" by (force simp: stuck_def stuck_in_def ids terminal_def dest: closed)
  moreover have "co_weak d" using core_cong [OF core] A by (simp add: stops_def)
  moreover have "order_ok d" using D(2) B(2) A core by (simp add: order_ok_def stops_def core_def)
  moreover have "running_ok d" using D(2) B(3) by (simp add: running_ok_def)
  ultimately have "co_inv d" by (simp add: co_inv_def)
  moreover have "filter (\<lambda>(a, t). t \<notin> set js) (co_running c) = []"
    using w(3) js by (auto simp: running_ok_def filter_empty_conv)
  moreover have "ct_result (task_at c' j) = ct_result (task_at c j)" if "j \<notin> set js" for j
    using A that xs js by (auto simp: c' at stops_def)
  moreover have "cancelled_for reason (ct_result (task_at c' j))"
    if "j \<in> set (co_ids c)" "\<not> terminal (status_at c j)" for j
    using A that xs by (simp add: c' at stops_def)
  moreover have "all_ok c \<longrightarrow> all_ok c'" using D(2) B(9) all_ok_publish by (simp add: c')
  moreover have "completions j c' = completions j c + (if j \<in> set js \<and> co_on_complete c then 1 else 0)" for j
    using D(2) B(4,10) by (simp add: c' completions_publish)
  moreover have "co_finished c'" by (simp add: c' publishCompletion_def record_event_def)
  moreover have "isAllComplete c'" using all isAllComplete_cong [of c' d] by (simp add: c')
  moreover have "status_at c' = stopped_status xs c" by (simp add: c' at)
  ultimately show ?thesis
    using D(2) B(3-8) js dist xs closed unfolding finishes_def
    by (simp add: c' ids xs_def [symmetric] js_def [symmetric] at stopped_status_def)
qed

subsection \<open>The machine\<close>

text \<open>
  \<open>m_starting\<close> is what is left of \<open>toStart\<close> in \<open>processReadyTasks\<close>; \<open>m_announced\<close> says that its first
  task was announced, so that the runner is called next. The identifiers of new tasks are unused ones,
  which is what the random generator is for, and so are the agents the runner starts. The second
  section of \<open>CancelTask\<close> runs with the agent that the task has then.
\<close>

record co_machine =
  m_co :: coordinator
  m_starting :: "string list"
  m_announced :: bool

definition live :: "coordinator \<Rightarrow> string \<Rightarrow> bool" where
  "live c i \<longleftrightarrow> has_task c i \<and> status_at c i = TaskRunning"

definition unused :: "co_machine \<Rightarrow> string \<Rightarrow> bool" where
  "unused m i \<longleftrightarrow> fresh_id (m_co m) i \<and> i \<notin> set (m_starting m) \<and> completions i (m_co m) = 0"

definition new_agent :: "coordinator \<Rightarrow> string \<Rightarrow> bool" where
  "new_agent c a \<longleftrightarrow> a \<noteq> [] \<and> a \<notin> fst ` set (co_running c)"

definition upd_co :: "(coordinator \<Rightarrow> coordinator) \<Rightarrow> co_machine \<Rightarrow> co_machine" where
  "upd_co f m = m\<lparr>m_co := f (m_co m)\<rparr>"

definition start_next :: "string list \<Rightarrow> (coordinator \<Rightarrow> coordinator) \<Rightarrow> co_machine \<Rightarrow> co_machine" where
  "start_next rest f m = \<lparr>m_co = f (m_co m), m_starting = rest, m_announced = False\<rparr>"

inductive co_step :: "co_machine \<Rightarrow> co_machine \<Rightarrow> bool" where
  add: "unused m i \<Longrightarrow> co_step m (upd_co (\<lambda>c. snd (AddTask i prompt ty priority deps c)) m)"
| launch: "\<forall>ids. mset (order ids) = mset ids \<Longrightarrow> co_step m (upd_co (Coordinator_Start order) m)"
| take: "m_starting m = [] \<Longrightarrow> co_started (m_co m) \<Longrightarrow>
    co_step m \<lparr>m_co = snd (process_pop (m_co m)), m_starting = fst (process_pop (m_co m)), m_announced = False\<rparr>"
| skip: "m_starting m = i # rest \<Longrightarrow> \<not> can_start i (m_co m) \<Longrightarrow> co_step m (start_next rest (\<lambda>c. c) m)"
| announce: "m_starting m = i # rest \<Longrightarrow> can_start i (m_co m) \<Longrightarrow>
    co_step m (upd_co (announce_start i) m\<lparr>m_announced := True\<rparr>)"
| register: "m_starting m = i # rest \<Longrightarrow> m_announced m \<Longrightarrow> new_agent (m_co m) a \<Longrightarrow>
    co_step m (start_next rest (register_agent i a) m)"
| start_fails: "m_starting m = i # rest \<Longrightarrow> m_announced m \<Longrightarrow>
    co_step m (start_next rest (\<lambda>c. failTaskStart i ty err c) m)"
| complete: "co_step m (upd_co (handleAgentCompletion results a) m)"
| cancel: "co_step m (upd_co (\<lambda>c. snd (CancelTask cancel results i c)) m)"
| expire: "co_step m (upd_co (\<lambda>c. c\<lparr>co_ctx_err := Some err\<rparr>) m)"
| finalize: "\<forall>ids. mset (order ids) = mset ids \<Longrightarrow> co_step m (upd_co (finalizeStoppedTasks order reason) m)"
| stop: "\<forall>ids. mset (order ids) = mset ids \<Longrightarrow> co_step m (upd_co (Coordinator_Stop order) m)"
| publish: "co_step m (upd_co (\<lambda>c. snd (publishCompletion False c)) m)"

inductive co_run :: "coordinator \<Rightarrow> co_machine \<Rightarrow> bool" for c0 where
  start: "co_run c0 \<lparr>m_co = c0, m_starting = [], m_announced = False\<rparr>"
| step: "co_run c0 m \<Longrightarrow> co_step m m' \<Longrightarrow> co_run c0 m'"

subsection \<open>The invariant of runs\<close>

definition run_ok :: "co_machine \<Rightarrow> bool" where
  "run_ok m \<longleftrightarrow>
     (let c = m_co m; S = m_starting m
      in co_inv c \<and> once_ok c \<and> all_ok c \<and> (co_finished c \<longrightarrow> isAllComplete c) \<and>
         distinct S \<and> set S \<inter> snd ` set (co_running c) = {} \<and>
         (\<forall>i. live c i \<longrightarrow> i \<in> snd ` set (co_running c) \<or> i \<in> set S) \<and>
         int (length (co_running c) + length (filter (live c) S)) \<le> co_max_parallel c)"

lemma run_okI:
  assumes "co_inv c" "once_ok c" "all_ok c" "co_finished c \<Longrightarrow> isAllComplete c" "distinct S"
    "\<And>i. i \<in> set S \<Longrightarrow> i \<notin> snd ` set (co_running c)"
    "\<And>i. live c i \<Longrightarrow> i \<in> snd ` set (co_running c) \<or> i \<in> set S"
    "int (length (co_running c) + length (filter (live c) S)) \<le> co_max_parallel c"
  shows "run_ok \<lparr>m_co = c, m_starting = S, m_announced = b\<rparr>"
  using assms unfolding run_ok_def Let_def by auto

lemma run_okD:
  assumes "run_ok \<lparr>m_co = c, m_starting = S, m_announced = b\<rparr>"
  shows "co_inv c" "once_ok c" "all_ok c" "co_finished c \<Longrightarrow> isAllComplete c" "distinct S"
    "i \<in> set S \<Longrightarrow> i \<notin> snd ` set (co_running c)"
    "live c i \<Longrightarrow> i \<in> snd ` set (co_running c) \<or> i \<in> set S"
    "int (length (co_running c) + length (filter (live c) S)) \<le> co_max_parallel c"
  using assms unfolding run_ok_def Let_def by auto

lemma finishes_live: "finishes c js c' \<Longrightarrow> live c' i \<Longrightarrow> live c i \<and> i \<notin> set js"
  unfolding finishes_def live_def has_task_def
  by (metis subsetD task_status.distinct(19) task_status.distinct(21) terminal_simps(4) task_status.simps(26) task_status.simps(24) task_status.simps(22))

text \<open>A handler that finishes tasks keeps the invariant, whatever is left to start.\<close>

lemma finishes_run_ok:
  assumes ok: "run_ok \<lparr>m_co = c, m_starting = S, m_announced = b\<rparr>" and f: "finishes c js c'" and inv: "co_inv c'"
  shows "run_ok \<lparr>m_co = c', m_starting = S, m_announced = b'\<rparr>"
proof (rule run_okI)
  note D = run_okD [OF ok]
  have run: "co_running c' = filter (\<lambda>(a, t). t \<notin> set js) (co_running c)" using f by (simp add: finishes_def)
  note live = finishes_live [OF f]
  show "once_ok c'" by (rule finishes_once [OF f D(2)])
  show "all_ok c'" using f D(3) by (simp add: finishes_def)
  show "i \<notin> snd ` set (co_running c')" if "i \<in> set S" for i using D(6) [OF that] run by auto
  show "i \<in> snd ` set (co_running c') \<or> i \<in> set S" if "live c' i" for i
    using D(7) [of i] live [OF that] run by force
  have "length (filter (live c') S) \<le> length (filter (live c) S)"
    using live by (induction S) auto
  moreover have "length (co_running c') \<le> length (co_running c)" by (simp add: run)
  ultimately show "int (length (co_running c') + length (filter (live c') S)) \<le> co_max_parallel c'"
    using D(8) f unfolding finishes_def by linarith
  show "isAllComplete c'" if "co_finished c'"
  proof (cases "co_finished c")
    case True
    then have all: "isAllComplete c" by (rule D(4))
    have "js = []" using f all unfolding finishes_def isAllComplete_def list_all_iff
      by (metis list.set_sel(1))
    then have "terminal (status_at c' j)" if "j \<in> set (co_ids c')" for j
      using f all that unfolding finishes_def isAllComplete_def list_all_iff
      by (metis empty_iff list.set(1) subsetD terminal_simps(5))
    then show ?thesis using run all by (simp add: isAllComplete_def list_all_iff)
  next
    case False
    then show ?thesis using f that by (simp add: finishes_def)
  qed
qed (use inv run_okD(5) [OF ok] in auto)

lemma not_live: "run_ok \<lparr>m_co = c, m_starting = S, m_announced = b\<rparr> \<Longrightarrow> \<not> can_start i c \<Longrightarrow> \<not> live c i"
proof
  assume ok: "run_ok \<lparr>m_co = c, m_starting = S, m_announced = b\<rparr>" and n: "\<not> can_start i c" and l: "live c i"
  then have "co_finished c" by (simp add: can_start_def live_def)
  from run_okD(4) [OF ok this] l show False
    by (auto simp: isAllComplete_def list_all_iff live_def has_task_def)
qed

lemma run_ok_drop:
  assumes ok: "run_ok \<lparr>m_co = c, m_starting = i # rest, m_announced = b\<rparr>" and "\<not> live c i"
  shows "run_ok \<lparr>m_co = c, m_starting = rest, m_announced = b'\<rparr>"
proof (rule run_okI)
  note D = run_okD [OF ok]
  show "k \<in> snd ` set (co_running c) \<or> k \<in> set rest" if "live c k" for k
    using D(7) [OF that] that assms(2) by auto
  show "int (length (co_running c) + length (filter (live c) rest)) \<le> co_max_parallel c"
    using D(8) assms(2) by simp
qed (use run_okD [OF ok] in auto)

text \<open>Fields that the invariant does not speak of may change.\<close>

lemma run_ok_cong:
  assumes ok: "run_ok \<lparr>m_co = c, m_starting = S, m_announced = b\<rparr>"
    and "core c' = core c" "co_completed_order c' = co_completed_order c" "co_running c' = co_running c"
    and "co_on_complete c' = co_on_complete c" "co_finished c' = co_finished c"
    and "co_max_parallel c' = co_max_parallel c" and "\<And>i. completions i c' = completions i c" and "all_ok c'"
  shows "run_ok \<lparr>m_co = c', m_starting = S, m_announced = b'\<rparr>"
proof -
  note D = run_okD [OF ok]
  have ids: "co_ids c' = co_ids c" using assms(2) by (simp add: core_def)
  have st: "status_at c' = status_at c" using core_at [OF assms(2)] by simp
  have live: "live c' = live c" by (simp add: live_def fun_eq_iff has_task_def ids st)
  show ?thesis
  proof (rule run_okI)
    show "co_inv c'" using D(1) co_inv_cong [OF assms(2-4)] by simp
    show "once_ok c'" using D(2) by (simp add: once_ok_def ids st assms)
    show "isAllComplete c'" if "co_finished c'" using D(4) that assms(6) isAllComplete_cong [OF assms(4) ids st] by simp
  qed (use D assms live in auto)
qed

lemma register_ok:
  assumes ok: "run_ok \<lparr>m_co = c, m_starting = i # rest, m_announced = b\<rparr>" and a: "new_agent c a"
  shows "run_ok \<lparr>m_co = register_agent i a c, m_starting = rest, m_announced = b'\<rparr>"
proof (cases "can_start i c")
  case False
  note run_ok_drop [OF ok not_live [OF ok False], of b]
  moreover have "completions k (record_event True (EvCancelAgent a) c) = completions k c" for k
    by (simp add: completions_def record_event_def)
  ultimately have "run_ok \<lparr>m_co = record_event True (EvCancelAgent a) c, m_starting = rest, m_announced = b'\<rparr>"
    using run_okD(3) [OF ok] by (rule_tac run_ok_cong) (simp_all add: all_ok_record)
  with False show ?thesis by (simp add: register_agent_def)
next
  case True
  note D = run_okD [OF ok]
  define c' where "c' = c\<lparr>co_running := (a, i) # co_running c\<rparr>"
  have e: "register_agent i a c = c'"
  proof -
    have "filter (\<lambda>(b, t). b \<noteq> a) (co_running c) = co_running c"
      using a by (intro filter_other_agent) (simp add: new_agent_def)
    then show ?thesis using True by (simp add: register_agent_def c'_def)
  qed
  have at: "core c' = core c" "co_ids c' = co_ids c" "status_at c' = status_at c" "co_running c' = (a, i) # co_running c"
    using core_at [of c' c] by (simp_all add: c'_def core_def)
  have live: "live c' = live c" by (simp add: live_def fun_eq_iff has_task_def at)
  have i: "i \<in> set (co_ids c)" "status_at c i = TaskRunning" "live c i" "\<not> co_finished c"
    using True by (simp_all add: can_start_def has_task_def live_def)
  show ?thesis unfolding e
  proof (rule run_okI)
    have "running_ok c'"
      using D(1) D(6) [of i] i a by (auto simp: co_inv_def running_ok_def at new_agent_def)
    then show "co_inv c'" using D(1) core_cong [OF at(1)] by (simp add: co_inv_def order_ok_def c'_def)
    have "completions k c' = completions k c" for k by (rule completions_frame) (simp add: c'_def)
    moreover have "co_on_complete c' = co_on_complete c" by (simp add: c'_def)
    ultimately show "once_ok c'" using D(2) by (simp add: once_ok_def at)
    show "all_ok c'" using D(3) by (simp add: all_ok_def c'_def)
    show "isAllComplete c'" if "co_finished c'" using that i(4) by (simp add: c'_def)
    show "k \<notin> snd ` set (co_running c')" if "k \<in> set rest" for k using D(5) D(6) [of k] that by (auto simp: at)
    show "k \<in> snd ` set (co_running c') \<or> k \<in> set rest" if "live c' k" for k
      using D(7) [of k] that by (auto simp: at live)
    show "int (length (co_running c') + length (filter (live c') rest)) \<le> co_max_parallel c'"
      using D(8) i(3) by (simp add: at live) (simp add: c'_def)
  qed (use D in auto)
qed

lemma take_ok:
  assumes ok: "run_ok \<lparr>m_co = c, m_starting = [], m_announced = b\<rparr>" and p: "process_pop c = (js, c')"
  shows "run_ok \<lparr>m_co = c', m_starting = js, m_announced = b'\<rparr>"
proof (cases "co_finished c")
  case True
  then show ?thesis using p ok by (simp add: process_pop_def run_ok_def)
next
  case False
  note D = run_okD [OF ok]
  have pr: "pop_ready (co_max_parallel c - int (length (co_running c))) c = (js, c')"
    using p False by (simp add: process_pop_def)
  have w: "co_weak c" using D(1) by (simp add: co_inv_def)
  note P = pop_ready_props [OF w pr]
  have R: "quiet c c'" "co_ids c' = co_ids c" "co_running c' = co_running c"
    "status_at c' = (\<lambda>j. if j \<in> set js then TaskRunning else status_at c j)"
    using P by (simp_all add: runs_def)
  have rdy: "status_at c j = TaskReady \<and> j \<in> set (co_ids c)" if "j \<in> set js" for j
    using P queued_ids [OF w, of j] that by blast
  have ready_agent: "j \<notin> snd ` set (co_running c)" if "j \<in> set js" for j
    using rdy [OF that] D(1) by (auto simp: co_inv_def running_ok_def)
  show ?thesis
  proof (rule run_okI)
    show "co_inv c'" using process_pop_inv [OF D(1)] p by simp
    have "completions k c' = completions k c" for k using R(1) by (intro completions_frame) (simp add: quiet_def)
    then show "once_ok c'" using D(2) rdy R(1) by (auto simp: once_ok_def R quiet_def)
    show "all_ok c'" using D(3) R(1) all_ok_frame [of c' c] by (simp add: quiet_def)
    show "isAllComplete c'" if "co_finished c'" using that R(1) False by (simp add: quiet_def)
    show "distinct js" using P by simp
    show "k \<notin> snd ` set (co_running c')" if "k \<in> set js" for k using ready_agent [OF that] by (simp add: R)
    show "k \<in> snd ` set (co_running c') \<or> k \<in> set js" if "live c' k" for k
      using D(7) [of k] that by (auto simp: live_def has_task_def R split: if_splits)
    have "int (length (co_running c)) \<le> co_max_parallel c" using D(8) by simp
    moreover have "length (filter (live c') js) \<le> length js" by simp
    moreover have "int (length js) \<le> max 0 (co_max_parallel c - int (length (co_running c)))" using P by blast
    moreover have "co_max_parallel c' = co_max_parallel c" using R(1) by (simp add: quiet_def)
    ultimately show "int (length (co_running c') + length (filter (live c') js)) \<le> co_max_parallel c'"
      unfolding R(3) by linarith
  qed
qed

lemma add_ok:
  assumes ok: "run_ok \<lparr>m_co = c, m_starting = S, m_announced = b\<rparr>"
    and new: "fresh_id c i" "i \<notin> set S" "completions i c = 0"
    and c': "c' = snd (AddTask i prompt ty priority deps c)"
  shows "run_ok \<lparr>m_co = c', m_starting = S, m_announced = b'\<rparr>"
proof -
  note D = run_okD [OF ok]
  note A = AddTask_props [OF D(1) new(1) c']
  have comp: "completions k c' = completions k c" for k
    using A by (intro completions_frame) (simp add: quiet_def)
  have fr: "co_running c' = co_running c" "co_on_complete c' = co_on_complete c" "co_finished c' = co_finished c"
    "co_max_parallel c' = co_max_parallel c"
    using A by (auto simp: quiet_def)
  have ni: "i \<notin> set (co_ids c)" using new(1) by (simp add: fresh_id_def)
  have st: "k \<noteq> i \<Longrightarrow> status_at c' k = status_at c k" for k using A by metis
  have live: "live c' k \<longleftrightarrow> live c k" for k
    using A st [of k] ni by (cases "k = i") (auto simp: live_def has_task_def)
  show ?thesis
  proof (rule run_okI)
    show "co_inv c'" using A by blast
    have "completions k c' = (if terminal (status_at c' k) \<and> co_on_complete c then 1 else 0)"
      if k: "k \<in> set (co_ids c')" for k
    proof (cases "k \<in> set (co_ids c)")
      case True
      then have "k \<noteq> i" using ni by blast
      with True show ?thesis using D(2) st [of k] comp by (simp add: once_ok_def)
    next
      case False
      with A k have "k = i \<and> \<not> terminal (status_at c' i)" by auto
      then show ?thesis using new(3) comp by simp
    qed
    then show "once_ok c'" using D(2) comp fr by (simp add: once_ok_def)
    show "all_ok c'" using D(3) A all_ok_frame [of c' c] by (simp add: quiet_def)
    show "isAllComplete c'" if "co_finished c'" using that A D(4) fr by metis
    have "live c' = live c" using live by (simp add: fun_eq_iff)
    then show "int (length (co_running c') + length (filter (live c') S)) \<le> co_max_parallel c'"
      using D(8) by (simp add: fr)
  qed (use D live fr in auto)
qed

lemma finalize_ok:
  assumes ok: "run_ok \<lparr>m_co = c, m_starting = S, m_announced = b\<rparr>" and ord: "\<forall>ids. mset (order ids) = mset ids"
  shows "run_ok \<lparr>m_co = finalizeStoppedTasks order reason c, m_starting = S, m_announced = b'\<rparr>"
proof (cases "co_finished c")
  case True
  with ok show ?thesis by (simp add: finalizeStoppedTasks_def run_ok_def)
next
  case False
  have "mset (order (co_ids c)) = mset (co_ids c)" using ord by blast
  note finalize_step [where reason = reason and order = order, OF run_okD(1) [OF ok] this False refl]
  then show ?thesis using finishes_run_ok [OF ok] by blast
qed

lemma publish_ok:
  assumes ok: "run_ok \<lparr>m_co = c, m_starting = S, m_announced = b\<rparr>"
  shows "run_ok \<lparr>m_co = snd (publishCompletion False c), m_starting = S, m_announced = b'\<rparr>"
proof (rule finishes_run_ok [OF ok])
  show "finishes c [] (snd (publishCompletion False c))"
    using publish_finished [of c] isAllComplete_cong [of "snd (publishCompletion False c)" c]
    by (auto simp: finishes_def completions_publish all_ok_publish)
  show "co_inv (snd (publishCompletion False c))" using run_okD(1) [OF ok] by simp
qed

lemma set_fields_ok:
  assumes ok: "run_ok \<lparr>m_co = c, m_starting = S, m_announced = b\<rparr>"
    and c': "c' = c\<lparr>co_started := s, co_ctx_err := e\<rparr> \<or> c' = signalTaskReady c"
  shows "run_ok \<lparr>m_co = c', m_starting = S, m_announced = b'\<rparr>"
  by (rule run_ok_cong [OF ok])
    (use c' run_okD(3) [OF ok] in \<open>auto simp: core_def completions_def all_ok_def signalTaskReady_def\<close>)

lemma launch_ok:
  assumes ok: "run_ok \<lparr>m_co = c, m_starting = S, m_announced = b\<rparr>" and ord: "\<forall>ids. mset (order ids) = mset ids"
  shows "run_ok \<lparr>m_co = Coordinator_Start order c, m_starting = S, m_announced = b\<rparr>"
proof -
  let ?c = "c\<lparr>co_started := True\<rparr>"
  have s: "run_ok \<lparr>m_co = ?c, m_starting = S, m_announced = b\<rparr>"
    by (rule set_fields_ok [OF ok, of _ "co_ctx_err c" True]) simp
  note p = publish_ok [OF s]
  have g: "run_ok \<lparr>m_co = signalTaskReady (snd (publishCompletion False ?c)), m_starting = S, m_announced = b\<rparr>"
    by (rule set_fields_ok [OF p]) simp
  show ?thesis
    using ok p g finalize_ok [OF s ord]
    by (auto simp: Coordinator_Start_def Let_def split: option.splits prod.splits)
qed

lemma announce_ok:
  assumes ok: "run_ok \<lparr>m_co = c, m_starting = S, m_announced = b\<rparr>"
  shows "run_ok \<lparr>m_co = announce_start i c, m_starting = S, m_announced = b'\<rparr>"
proof -
  have "completions k (announce_start i c) = completions k c" for k
    by (simp add: announce_start_def completions_def record_event_def)
  moreover have "all_ok (announce_start i c)" using run_okD(3) [OF ok] by (simp add: announce_start_def all_ok_record)
  ultimately show ?thesis by (intro run_ok_cong [OF ok]) (simp_all add: announce_start_def)
qed

lemma start_fails_ok:
  assumes ok: "run_ok \<lparr>m_co = c, m_starting = i # rest, m_announced = b\<rparr>"
  shows "run_ok \<lparr>m_co = failTaskStart i ty err c, m_starting = rest, m_announced = b'\<rparr>"
proof -
  have "i \<notin> snd ` set (co_running c)" using run_okD(6) [OF ok] by simp
  note F = fail_step [OF run_okD(1) [OF ok] this, of ty err]
  have "run_ok \<lparr>m_co = failTaskStart i ty err c, m_starting = i # rest, m_announced = b\<rparr>"
    using finishes_run_ok [OF ok] F by blast
  moreover have "\<not> live (failTaskStart i ty err c) i"
    using finishes_live [OF F [THEN conjunct2], of i] not_live [OF ok, of i] by (auto split: if_splits)
  ultimately show ?thesis by (rule run_ok_drop)
qed

lemma step_ok: "co_step m m' \<Longrightarrow> run_ok m \<Longrightarrow> run_ok m'"
proof (cases m)
  fix c S b assume m: "m = \<lparr>m_co = c, m_starting = S, m_announced = b\<rparr>"
  assume s: "co_step m m'" and "run_ok m"
  then have ok: "run_ok \<lparr>m_co = c, m_starting = S, m_announced = b\<rparr>" by (simp add: m)
  note inv = run_okD(1) [OF ok]
  from s show "run_ok m'"
  proof cases
    case (stop order)
    have c: "run_ok \<lparr>m_co = c\<lparr>co_ctx_err := e\<rparr>, m_starting = S, m_announced = b\<rparr>" for e
      by (rule set_fields_ok [OF ok, of _ e "co_started c"]) simp
    show ?thesis using stop finalize_ok [OF c] by (simp add: m upd_co_def Coordinator_Stop_def Let_def)
  next
    case (skip i rest)
    then show ?thesis using ok run_ok_drop [of c i rest b] not_live [OF ok] by (simp add: m start_next_def)
  next
    case (expire err)
    then show ?thesis using set_fields_ok [OF ok, of "c\<lparr>co_ctx_err := Some err\<rparr>" "Some err" "co_started c"] by (simp add: m upd_co_def)
  next
    case take
    then show ?thesis using ok take_ok [of c b "fst (process_pop c)" "snd (process_pop c)"] by (simp add: m)
  next
    case (complete results a)
    obtain js where "finishes c js (handleAgentCompletion results a c)" "co_inv (handleAgentCompletion results a c)"
      using handle_step [OF inv] by blast
    from finishes_run_ok [OF ok this, of b] complete show ?thesis by (simp add: m upd_co_def)
  next
    case (cancel cancel results i)
    obtain js where "finishes c js (snd (CancelTask cancel results i c))" "co_inv (snd (CancelTask cancel results i c))"
      using cancel_step [OF inv] by blast
    from finishes_run_ok [OF ok this, of b] cancel show ?thesis by (simp add: m upd_co_def)
  qed (use ok add_ok [OF ok] launch_ok [OF ok] announce_ok [OF ok] register_ok start_fails_ok
        finalize_ok [OF ok] publish_ok [OF ok] in \<open>auto simp: m upd_co_def start_next_def unused_def\<close>)
qed

lemma run_invariant: "co_run c0 m \<Longrightarrow> run_ok \<lparr>m_co = c0, m_starting = [], m_announced = False\<rparr> \<Longrightarrow> run_ok m"
  by (induction rule: co_run.induct) (auto intro: step_ok)

end
