(* ===== verification/CoordinatorProps.thy ===== *)
theory CoordinatorProps
  imports CoordinatorRuns
begin

section \<open>Properties of the task queue and the coordinator\<close>

text \<open>
  The properties of the coordinator speak of every run from a new coordinator with the observers set,
  in whatever order its critical sections interleave. Their witnesses are runs of a small coordinator
  with two slots and three tasks, one of which depends on another.
\<close>

subsection \<open>The initial coordinator\<close>

definition initial :: "bool \<Rightarrow> bool \<Rightarrow> bool \<Rightarrow> int option \<Rightarrow> coordinator" where
  "initial onStart onComplete onAll config = SetCallbacks onStart onComplete onAll (NewCoordinator config)"

lemma initial_ok: "run_ok \<lparr>m_co = initial s t a config, m_starting = [], m_announced = False\<rparr>"
proof (rule run_okI)
  let ?c = "initial s t a config"
  have f: "co_ids ?c = []" "co_running ?c = []" "co_completed ?c = []" "co_completed_order ?c = []" "co_events ?c = []"
    "co_finished ?c = False" "co_queue ?c = empty_queue (\<lambda>_. zero_task)" "0 < co_max_parallel ?c"
    by (auto simp: initial_def SetCallbacks_def NewCoordinator_def record_event_def Let_def split: option.splits)
  show "co_inv ?c"
    using empty_queue_ok by (simp add: co_inv_def co_weak_def order_ok_def running_ok_def stuck_def stuck_in_def view_ok_def f)
      (simp add: empty_queue_def)
  show "once_ok ?c" "all_ok ?c" by (simp_all add: once_ok_def all_ok_def completions_def f)
  show "i \<in> snd ` set (co_running ?c) \<or> i \<in> set []" if "live ?c i" for i using that by (simp add: live_def has_task_def f)
  show "int (length (co_running ?c) + length (filter (live ?c) [])) \<le> co_max_parallel ?c" using f by simp
qed (auto simp: initial_def SetCallbacks_def NewCoordinator_def record_event_def Let_def isAllComplete_def)

lemma reachable_ok: "co_run (initial s t a config) m \<Longrightarrow> run_ok m"
  by (erule run_invariant) (rule initial_ok)

lemma reachable_inv: "co_run (initial s t a config) m \<Longrightarrow> co_inv (m_co m)"
  using reachable_ok by (simp add: run_ok_def Let_def)

lemma reachable_view:
  "co_run (initial s t a config) m \<Longrightarrow>
   view_ok (co_ids (m_co m)) (status_at (m_co m)) (deps_at (m_co m)) (set (tq_items (co_queue (m_co m))))
     (co_completed (m_co m)) (co_dependents (m_co m))"
  using reachable_inv by (simp add: co_inv_def co_weak_def)

subsection \<open>A sample run\<close>

definition sample_start :: co_machine where
  "sample_start = \<lparr>m_co = initial True True True (Some 2), m_starting = [], m_announced = False\<rparr>"

definition sample_add :: "string \<Rightarrow> int \<Rightarrow> string list \<Rightarrow> co_machine \<Rightarrow> co_machine" where
  "sample_add i priority deps = upd_co (\<lambda>c. snd (AddTask i ''work'' ''general'' priority deps c))"

definition sample_queued :: co_machine where
  "sample_queued =
     upd_co (Coordinator_Start (\<lambda>ids. ids))
       (sample_add ''c'' 10 [''a''] (sample_add ''b'' 9 [] (sample_add ''a'' 5 [] sample_start)))"

definition sample_taken :: co_machine where
  "sample_taken =
     \<lparr>m_co = snd (process_pop (m_co sample_queued)), m_starting = fst (process_pop (m_co sample_queued)),
      m_announced = False\<rparr>"

definition sample_running :: co_machine where
  "sample_running =
     start_next [] (register_agent ''a'' ''y'')
       (upd_co (announce_start ''a'')
          (start_next [''a''] (register_agent ''b'' ''x'')
             (upd_co (announce_start ''b'') sample_taken\<lparr>m_announced := True\<rparr>))\<lparr>m_announced := True\<rparr>)"

definition sample_result :: "string \<Rightarrow> agent_result option" where
  "sample_result a =
     Some \<lparr>ar_agent_id = a, ar_type = ''general'', ar_status = AgentCompleted, ar_output = ''done'', ar_error = [],
           ar_duration = 1, ar_completed = True\<rparr>"

definition sample_done :: co_machine where
  "sample_done = upd_co (handleAgentCompletion sample_result ''y'') sample_running"

definition unused_check :: "co_machine \<Rightarrow> string \<Rightarrow> bool" where
  "unused_check m i \<longleftrightarrow>
     i \<noteq> [] \<and> i \<notin> set (co_ids (m_co m)) \<and> list_all (\<lambda>j. i \<notin> set (deps_at (m_co m) j)) (co_ids (m_co m)) \<and>
     i \<notin> set (m_starting m) \<and> filter (is_completion i) (co_events (m_co m)) = []"

lemma unused_checkD: "unused_check m i \<Longrightarrow> unused m i"
  by (simp add: unused_check_def unused_def fresh_id_def completions_def list_all_iff)

lemma run_sample_add:
  assumes "co_run c0 m" and "unused_check m i"
  shows "co_run c0 (sample_add i priority deps m)"
  unfolding sample_add_def by (rule co_run.step [OF assms(1) co_step.add [OF unused_checkD [OF assms(2)]]])

lemma run_queued: "co_run (initial True True True (Some 2)) sample_queued"
proof -
  let ?c = "initial True True True (Some 2)"
  let ?a = "sample_add ''a'' 5 [] sample_start"
  let ?b = "sample_add ''b'' 9 [] ?a"
  let ?d = "sample_add ''c'' 10 [''a''] ?b"
  have "co_run ?c sample_start" unfolding sample_start_def by (rule co_run.start)
  then have "co_run ?c ?a" by (rule run_sample_add) code_simp
  then have "co_run ?c ?b" by (rule run_sample_add) code_simp
  then have d: "co_run ?c ?d" by (rule run_sample_add) code_simp
  have "co_step ?d sample_queued" unfolding sample_queued_def by (rule co_step.launch) simp
  with d show ?thesis by (rule co_run.step)
qed

lemma run_taken: "co_run (initial True True True (Some 2)) sample_taken"
proof -
  have "m_starting sample_queued = []" "co_started (m_co sample_queued)" by code_simp+
  then have "co_step sample_queued sample_taken" unfolding sample_taken_def by (rule co_step.take)
  with run_queued show ?thesis by (rule co_run.step)
qed

lemma run_running: "co_run (initial True True True (Some 2)) sample_running"
proof -
  let ?c = "initial True True True (Some 2)"
  define m1 where "m1 = upd_co (announce_start ''b'') sample_taken\<lparr>m_announced := True\<rparr>"
  define m2 where "m2 = start_next [''a''] (register_agent ''b'' ''x'') m1"
  define m3 where "m3 = upd_co (announce_start ''a'') m2\<lparr>m_announced := True\<rparr>"
  have 1: "m_starting sample_taken = [''b'', ''a'']" "can_start ''b'' (m_co sample_taken)" by code_simp+
  have 2: "m_starting m1 = [''b'', ''a'']" "m_announced m1" "new_agent (m_co m1) ''x''"
    unfolding m1_def by code_simp+
  have 3: "m_starting m2 = [''a'']" "can_start ''a'' (m_co m2)"
    unfolding m2_def m1_def by code_simp+
  have 4: "m_starting m3 = [''a'']" "m_announced m3" "new_agent (m_co m3) ''y''"
    unfolding m3_def m2_def m1_def by code_simp+
  have "co_step sample_taken m1" unfolding m1_def by (rule co_step.announce [OF 1])
  with run_taken have r: "co_run ?c m1" by (rule co_run.step)
  have "co_step m1 m2" unfolding m2_def by (rule co_step.register [OF 2])
  with r have r: "co_run ?c m2" by (rule co_run.step)
  have "co_step m2 m3" unfolding m3_def by (rule co_step.announce [OF 3])
  with r have r: "co_run ?c m3" by (rule co_run.step)
  have "co_step m3 sample_running"
    unfolding sample_running_def m1_def [symmetric] m2_def [symmetric] m3_def [symmetric]
    by (rule co_step.register [OF 4])
  with r show ?thesis by (rule co_run.step)
qed

lemma run_done: "co_run (initial True True True (Some 2)) sample_done"
  unfolding sample_done_def by (rule co_run.step [OF run_running], rule co_step.complete)

subsection \<open>Progress\<close>



text \<open>
   The loop takes as many ready tasks as there are free slots, in the order of their priority, and
  no task that stays in the queue has a higher priority than one that was taken.
\<close>
theorem ready_tasks_taken_by_priority:
  assumes "co_run (initial onStart onComplete onAll config) m" and "\<not> co_finished (m_co m)"
    and "process_pop (m_co m) = (js, c')"
  shows "int (length js) = min (int (length (tq_items (co_queue (m_co m)))))
           (max 0 (co_max_parallel (m_co m) - int (length (co_running (m_co m))))) \<and>
    sorted_wrt (\<lambda>i j. prio_at (m_co m) j \<le> prio_at (m_co m) i) js \<and>
    list_all (\<lambda>i. status_at (m_co m) i = TaskReady \<and> status_at c' i = TaskRunning \<and>
      list_all (\<lambda>j. prio_at (m_co m) j \<le> prio_at (m_co m) i) (tq_items (co_queue c'))) js"
proof -
  let ?c = "m_co m" and ?q = "tq_items (co_queue (m_co m))"
  let ?n = "co_max_parallel (m_co m) - int (length (co_running (m_co m)))"
  have w: "co_weak ?c" using reachable_inv [OF assms(1)] by (simp add: co_inv_def)
  have "pop_ready ?n ?c = (js, c')" using assms(2,3) by (simp add: process_pop_def)
  note P = pop_ready_props [OF w this]
  have dist: "distinct ?q" using w by (simp add: co_weak_def queue_ok_def index_ok_def)
  have js: "distinct js" "set js \<subseteq> set ?q" using P by blast+
  then have le: "length js \<le> length ?q" using dist by (metis card_mono distinct_card finite_set)
  have "length js = length ?q" if "int (length js) < ?n"
  proof -
    have "set ?q - set js = {}" using P that by (metis list.set(1))
    then have "set js = set ?q" using js by blast
    then show ?thesis using js dist by (metis distinct_card)
  qed
  then have "int (length js) = min (int (length ?q)) (max 0 ?n)" using P le by linarith
  moreover have "status_at c' i = TaskRunning" if "i \<in> set js" for i using P that by (simp add: runs_def)
  moreover have "status_at ?c i = TaskReady" if "i \<in> set js" for i using js(2) queued_ids [OF w, of i] that by blast
  ultimately show ?thesis using P by (simp add: list_all_iff)
qed

lemma ready_tasks_taken_by_priority_witness:
  "fst (process_pop (m_co sample_queued)) = [''b'', ''a''] \<and>
   int (length (fst (process_pop (m_co sample_queued)))) =
     min (int (length (tq_items (co_queue (m_co sample_queued)))))
       (max 0 (co_max_parallel (m_co sample_queued) - int (length (co_running (m_co sample_queued)))))"
proof -
  have "\<not> co_finished (m_co sample_queued)" by code_simp
  moreover have "fst (process_pop (m_co sample_queued)) = [''b'', ''a'']" by code_simp
  ultimately show ?thesis
    using ready_tasks_taken_by_priority [OF run_queued _ prod.collapse [symmetric]] by blast
qed

subsection \<open>Dependencies and slots\<close>

text \<open>
  C11: A task that is ready or running has no unfinished dependency: each of its dependencies that the
  coordinator still holds is completed or failed.
\<close>
theorem dependencies_finish_first:
  assumes "co_run (initial onStart onComplete onAll config) m" and "has_task (m_co m) i"
    and "status_at (m_co m) i = TaskReady \<or> status_at (m_co m) i = TaskRunning"
    and "d \<in> set (deps_at (m_co m) i)" and "has_task (m_co m) d"
  shows "terminal (status_at (m_co m) d) \<and> is_completed (m_co m) d"
  using reachable_view [OF assms(1)] assms(2-5)
  unfolding view_ok_def has_task_def is_completed_def by blast

lemma dependencies_finish_first_witness:
  "terminal (status_at (m_co sample_done) ''a'') \<and> is_completed (m_co sample_done) ''a''"
proof -
  have "has_task (m_co sample_done) ''c''"
    and "status_at (m_co sample_done) ''c'' = TaskReady"
    and "deps_at (m_co sample_done) ''c'' = [''a'']" and "has_task (m_co sample_done) ''a''" by code_simp+
  then show ?thesis using dependencies_finish_first [OF run_done, of "''c''" "''a''"] by simp
qed

text \<open>
  C9: Never more than \<open>maxParallel\<close> tasks run: the running agents and the tasks that were taken and
  whose agent is still to be registered are together at most that many; an agent runs one task and a
  task is run by one agent.
\<close>
theorem parallelism_bounded:
  assumes "co_run (initial onStart onComplete onAll config) m"
  shows "int (length (co_running (m_co m)) + length (filter (live (m_co m)) (m_starting m))) \<le> co_max_parallel (m_co m) \<and>
    distinct (map fst (co_running (m_co m))) \<and> distinct (map snd (co_running (m_co m)))"
  using reachable_ok [OF assms] reachable_inv [OF assms]
  by (simp add: run_ok_def Let_def co_inv_def running_ok_def)

lemma parallelism_bounded_witness:
  "int (length (co_running (m_co sample_running)) + length (filter (live (m_co sample_running)) (m_starting sample_running)))
     \<le> co_max_parallel (m_co sample_running) \<and> co_running (m_co sample_running) = [(''y'', ''a''), (''x'', ''b'')]"
proof -
  have "co_running (m_co sample_running) = [(''y'', ''a''), (''x'', ''b'')]" by code_simp
  with parallelism_bounded [OF run_running] show ?thesis by blast
qed

subsection \<open>Reports\<close>



text \<open>
  C12: Stopping ends everything: every task that was unfinished fails as cancelled and is reported once
  more, the finished ones keep their status and result, no agent is left running and the coordinator
  is finished, whatever the order in which the map of tasks is ranged over.
\<close>
theorem stop_finishes_everything:
  assumes "co_run (initial onStart onComplete onAll config) m" and "\<not> co_finished (m_co m)"
    and "\<forall>ids. mset (order ids) = mset ids" and "c' = Coordinator_Stop order (m_co m)"
  shows "co_finished c' \<and> co_running c' = [] \<and> co_ids c' = co_ids (m_co m) \<and>
    list_all (\<lambda>j.
      if terminal (status_at (m_co m) j)
      then status_at c' j = status_at (m_co m) j \<and> ct_result (task_at c' j) = ct_result (task_at (m_co m) j) \<and>
           completions j c' = completions j (m_co m)
      else status_at c' j = TaskFailed \<and> cancelled_for ''context canceled'' (ct_result (task_at c' j)) \<and>
           completions j c' = completions j (m_co m) + (if co_on_complete (m_co m) then 1 else 0)) (co_ids c')"
proof -
  define e where "e = (case co_ctx_err (m_co m) of None \<Rightarrow> ''context canceled'' | Some e \<Rightarrow> e)"
  define d where "d = (m_co m)\<lparr>co_ctx_err := Some e\<rparr>"
  have d: "core d = core (m_co m)" "co_completed_order d = co_completed_order (m_co m)" "co_running d = co_running (m_co m)"
    "co_finished d = co_finished (m_co m)" "co_ids d = co_ids (m_co m)" "co_on_complete d = co_on_complete (m_co m)"
    "completions j d = completions j (m_co m)" for j
    by (simp_all add: d_def core_def completions_def)
  have at: "task_at d = task_at (m_co m)" "status_at d = status_at (m_co m)" using core_at [OF d(1)] by simp_all
  have c': "c' = finalizeStoppedTasks order ''context canceled'' d"
    by (simp add: assms(4) Coordinator_Stop_def d_def e_def Let_def)
  have inv: "co_inv d" using co_inv_cong [OF d(1-3)] reachable_inv [OF assms(1)] by simp
  have ord: "mset (order (co_ids d)) = mset (co_ids d)" using assms(3) by blast
  then have s: "set (order (co_ids d)) = set (co_ids d)" by (rule mset_eq_setD)
  have "\<not> co_finished d" using assms(2) d(4) by simp
  note F = finalize_step [where order = order, OF inv ord this c', unfolded d at]
  define xs where "xs = filter (\<lambda>i. \<not> terminal (status_at d i)) (order (co_ids d))"
  have "finishes d xs c'" using F by (simp add: xs_def d at)
  then have comp: "\<And>j. completions j c' = completions j d + (if j \<in> set xs \<and> co_on_complete d then 1 else 0)"
    and other: "\<And>j. j \<notin> set xs \<Longrightarrow> (status_at c' j = status_at d j \<or> status_at d j = TaskBlocked) \<and>
        ct_result (task_at c' j) = ct_result (task_at d j)"
    unfolding finishes_def by blast+
  have xs: "j \<in> set xs \<longleftrightarrow> j \<in> set (co_ids d) \<and> \<not> terminal (status_at d j)" for j by (auto simp: xs_def s)
  have kept: "status_at c' j = status_at d j \<and> ct_result (task_at c' j) = ct_result (task_at d j) \<and>
      completions j c' = completions j d" if "terminal (status_at d j)" for j
    using other [of j] comp [of j] that xs [of j] by auto
  have failed: "status_at c' j = TaskFailed \<and> cancelled_for ''context canceled'' (ct_result (task_at c' j)) \<and>
      completions j c' = completions j d + (if co_on_complete d then 1 else 0)"
    if "j \<in> set (co_ids d)" "\<not> terminal (status_at d j)" for j
    using F comp [of j] that xs [of j] by (simp add: d at)
  have "co_running c' = []" using F by (simp add: isAllComplete_def)
  with F kept failed show ?thesis by (simp add: list_all_iff d at)
qed

lemma stop_finishes_everything_witness:
  "co_finished (Coordinator_Stop rev (m_co sample_running)) \<and>
   co_running (Coordinator_Stop rev (m_co sample_running)) = [] \<and> co_running (m_co sample_running) \<noteq> []"
proof -
  have "\<not> co_finished (m_co sample_running)" "co_running (m_co sample_running) \<noteq> []" by code_simp+
  with stop_finishes_everything [OF run_running _ _ refl, of rev] show ?thesis by simp
qed

subsection \<open>A cancellation that races with a start\<close>

definition race_before :: coordinator where
  "race_before = announce_start ''b'' (m_co sample_taken)"

definition race_cancelled :: coordinator where
  "race_cancelled =
     snd (cancel_commit (agent_of race_before ''b'') ''b'' (register_agent ''b'' ''x'' race_before))"

text \<open>
   The two sections of \<open>CancelTask\<close> with the registration of the agent between them: the first has
  read that the task, which was taken and announced, has no agent; the second then cancels the task and
  leaves the agent registered, and its result is taken over. The task is reported twice, as failed and
  as completed, so \<open>completion_reported_once\<close> needs the two sections to agree on the agent.
\<close>
theorem cancel_registration_race:
  "agent_of race_before ''b'' = [] \<and> status_at race_before ''b'' = TaskRunning \<and>
   status_at race_cancelled ''b'' = TaskFailed \<and> co_running race_cancelled = [(''x'', ''b'')] \<and>
   completions ''b'' race_cancelled = 1 \<and>
   status_at (handleAgentCompletion sample_result ''x'' race_cancelled) ''b'' = TaskCompleted \<and>
   completions ''b'' (handleAgentCompletion sample_result ''x'' race_cancelled) = 2"
proof (intro conjI)
  show "agent_of race_before ''b'' = []" "status_at race_before ''b'' = TaskRunning" by code_simp+
  show "status_at race_cancelled ''b'' = TaskFailed" "co_running race_cancelled = [(''x'', ''b'')]"
    "completions ''b'' race_cancelled = 1" by code_simp+
  show "status_at (handleAgentCompletion sample_result ''x'' race_cancelled) ''b'' = TaskCompleted"
    "completions ''b'' (handleAgentCompletion sample_result ''x'' race_cancelled) = 2" by code_simp+
qed

subsection \<open>A slot that waits for the ticker\<close>

text \<open>
  Only adding or waking a task sends a signal. With one slot and two independent tasks the signals are
  used up before the first agent is done; then the slot is free and the second task ready, but only
  the ticker starts it.
\<close>

definition waiting :: coordinator where
  "waiting =
     (let ord = (\<lambda>ids. ids);
          spawn = Some (\<lambda>t. ''x'');
          c0 = snd (AddTask ''b'' ''work'' ''bash'' 5 [] (snd (AddTask ''a'' ''work'' ''bash'' 9 [] (NewCoordinator (Some 1)))));
          c1 = snd (loop_task_ready ord spawn (Coordinator_Start ord c0));
          c2 = snd (loop_task_ready ord spawn (snd (loop_task_ready ord spawn c1)))
      in snd (loop_agent_done sample_result ''x'' c2))"

lemma slot_waits_for_ticker:
  "co_signals waiting = 0" "co_running waiting = []" "status_at waiting ''b'' = TaskReady" "\<not> co_finished waiting"
  "co_running (snd (loop_tick (\<lambda>ids. ids) (Some (\<lambda>t. ''y'')) (\<lambda>a. None) waiting)) = [(''y'', ''b'')]"
  by code_simp+

end
