(* ===== verification/ThinkParser.thy ===== *)
theory ThinkParser
  imports Prelude
begin

section \<open>The parser of thinking tags\<close>

text \<open>
  \<^verbatim>\<open>internal/engine/client/stream_think_parser.go\<close>: a model streams text in chunks, with its thinking
  between \<open><think>\<close> and \<open></think>\<close>, and a tag may be cut by the end of a chunk. The parser searches
  each chunk for whole tags and keeps back a partial one. The reference \<open>read_char\<close> reads one
  character at a time; the lemmas show that both agree, so that the chunks do not matter.
\<close>

subsection \<open>The parser\<close>

record think_parser =
  tp_thinking :: bool
  tp_buffer :: string

definition new_think_parser :: think_parser where
  "new_think_parser = \<lparr>tp_thinking = False, tp_buffer = []\<rparr>"

text \<open>\<open>strings.Index\<close> and \<open>strings.HasSuffix\<close>.\<close>

fun str_index :: "string \<Rightarrow> string \<Rightarrow> nat option" where
  "str_index [] t = (if t = [] then Some 0 else None)"
| "str_index (c # s) t = (if has_prefix (c # s) t then Some 0 else map_option Suc (str_index s t))"

definition has_suffix :: "string \<Rightarrow> string \<Rightarrow> bool" where
  "has_suffix t s \<longleftrightarrow> length t \<le> length s \<and> drop (length s - length t) s = t"

fun partial_from :: "nat \<Rightarrow> string \<Rightarrow> string \<Rightarrow> nat" where
  "partial_from 0 text tag = 0"
| "partial_from (Suc n) text tag = (if has_suffix (take (Suc n) tag) text then Suc n else partial_from n text tag)"

definition partialSuffix :: "string \<Rightarrow> string \<Rightarrow> nat" where
  "partialSuffix text tag = partial_from (min (length tag - 1) (length text)) text tag"

definition tag_of :: "bool \<Rightarrow> string" where
  "tag_of thinking = (if thinking then ''</think>'' else ''<think>'')"

text \<open>Text goes to the first or to the second of the two outputs.\<close>

definition emit_text :: "bool \<Rightarrow> string \<Rightarrow> string \<times> string \<Rightarrow> string \<times> string" where
  "emit_text thinking s out = (case out of (t, r) \<Rightarrow> if thinking then (s @ t, r) else (t, s @ r))"

lemma str_index_bound: "str_index s t = Some k \<Longrightarrow> k + length t \<le> length s"
proof (induction s arbitrary: k)
  case (Cons c s)
  show ?case
  proof (cases "has_prefix (c # s) t")
    case True
    then have "length t \<le> length (c # s)" by (metis has_prefix_iff le_add1 length_append)
    with True Cons.prems show ?thesis by simp
  next
    case False
    with Cons show ?thesis by auto
  qed
qed (simp split: if_splits)

lemma tag_nonempty [simp]: "tag_of b \<noteq> []"
  by (simp add: tag_of_def)

lemma tag_length: "0 < length (tag_of b)"
  by (simp add: tag_of_def)

text \<open>The loop over \<open>text[i:]\<close>, with the state the parser is left in.\<close>

function process_loop :: "bool \<Rightarrow> string \<Rightarrow> (string \<times> string) \<times> think_parser" where
  "process_loop b s =
     (if s = [] then (([], []), \<lparr>tp_thinking = b, tp_buffer = []\<rparr>)
      else case str_index s (tag_of b) of
             Some k \<Rightarrow> (let (out, p) = process_loop (\<not> b) (drop (k + length (tag_of b)) s)
                        in (emit_text b (take k s) out, p))
           | None \<Rightarrow> (let n = length s - partialSuffix s (tag_of b)
                      in (emit_text b (take n s) ([], []), \<lparr>tp_thinking = b, tp_buffer = drop n s\<rparr>)))"
  by pat_completeness auto
termination
proof (relation "measure (\<lambda>(b, s). length s)")
  fix b :: bool and s :: string and k
  assume "s \<noteq> []" "str_index s (tag_of b) = Some k"
  then have "length s - (k + length (tag_of b)) < length s" using tag_length [of b] by (simp add: tag_of_def)
  then show "((\<not> b, drop (k + length (tag_of b)) s), b, s) \<in> measure (\<lambda>(b, s). length s)" by simp
qed simp

declare process_loop.simps [simp del]

definition Process :: "string \<Rightarrow> think_parser \<Rightarrow> (string \<times> string) \<times> think_parser" where
  "Process text p = process_loop (tp_thinking p) (tp_buffer p @ text)"

definition Flush :: "think_parser \<Rightarrow> (string \<times> string) \<times> think_parser" where
  "Flush p = (emit_text (tp_thinking p) (tp_buffer p) ([], []), p\<lparr>tp_buffer := []\<rparr>)"

definition InThinkBlock :: "think_parser \<Rightarrow> bool" where
  "InThinkBlock p = tp_thinking p"

text \<open>A stream: the chunks one after another, and the end.\<close>

fun Process_all :: "string list \<Rightarrow> think_parser \<Rightarrow> (string \<times> string) \<times> think_parser" where
  "Process_all [] p = (([], []), p)"
| "Process_all (x # xs) p =
     (let ((t, r), p1) = Process x p; ((t', r'), p2) = Process_all xs p1 in ((t @ t', r @ r'), p2))"

subsection \<open>The reference: one character at a time\<close>

text \<open>
  The buffer is the longest suffix of what was read that begins the tag; a character that completes
  the tag switches, and any other makes the part of the buffer that cannot begin the tag any more text.
\<close>

definition read_char :: "char \<Rightarrow> think_parser \<Rightarrow> (string \<times> string) \<times> think_parser" where
  "read_char c p =
     (let b = tp_thinking p; w = tp_buffer p @ [c]
      in if w = tag_of b then (([], []), \<lparr>tp_thinking = \<not> b, tp_buffer = []\<rparr>)
         else let n = length w - partialSuffix w (tag_of b)
              in (emit_text b (take n w) ([], []), \<lparr>tp_thinking = b, tp_buffer = drop n w\<rparr>))"

fun read_all :: "string \<Rightarrow> think_parser \<Rightarrow> (string \<times> string) \<times> think_parser" where
  "read_all [] p = (([], []), p)"
| "read_all (c # s) p =
     (let ((t, r), p1) = read_char c p; ((t', r'), p2) = read_all s p1 in ((t @ t', r @ r'), p2))"

lemma read_all_append:
  "read_all (s @ s') p =
     (let ((t, r), p1) = read_all s p; ((t', r'), p2) = read_all s' p1 in ((t @ t', r @ r'), p2))"
  by (induction s arbitrary: p) (auto simp: Let_def split: prod.splits)

subsection \<open>The longest partial tag\<close>

lemma has_suffix_iff: "has_suffix t s \<longleftrightarrow> (\<exists>u. s = u @ t)"
  unfolding has_suffix_def by (auto intro: exI [of _ "take (length s - length t) s"])
    (metis append_take_drop_id)

lemma suffix_of_suffix: "u @ x = v @ y \<Longrightarrow> length x \<le> length y \<Longrightarrow> has_suffix x y"
  by (auto simp: append_eq_append_conv2 has_suffix_iff)

lemma partial_from_props:
  "partial_from n s tag \<le> n \<and> (partial_from n s tag = 0 \<or> has_suffix (take (partial_from n s tag) tag) s) \<and>
   (\<forall>m. m \<le> n \<longrightarrow> has_suffix (take m tag) s \<longrightarrow> m \<le> partial_from n s tag)"
  by (induction n) (auto simp: le_Suc_eq)

lemma partialSuffix_props:
  assumes "tag \<noteq> []"
  shows "partialSuffix s tag < length tag" "partialSuffix s tag \<le> length s"
    "has_suffix (take (partialSuffix s tag) tag) s"
    "m < length tag \<Longrightarrow> has_suffix (take m tag) s \<Longrightarrow> m \<le> partialSuffix s tag"
proof -
  let ?n = "min (length tag - 1) (length s)"
  note P = partial_from_props [of ?n s tag, folded partialSuffix_def]
  have pos: "0 < length tag" using assms by simp
  show "partialSuffix s tag < length tag" using P pos by linarith
  show "partialSuffix s tag \<le> length s" using P by linarith
  show "has_suffix (take (partialSuffix s tag) tag) s"
    using P by (auto simp: has_suffix_def)
  show "m \<le> partialSuffix s tag" if m: "m < length tag" "has_suffix (take m tag) s"
  proof -
    have "m \<le> length s" using m by (simp add: has_suffix_def)
    then have "m \<le> ?n" using m by simp
    with P m show ?thesis by blast
  qed
qed

text \<open>What is buffered, and what is not.\<close>

definition kept :: "string \<Rightarrow> string \<Rightarrow> string" where
  "kept tag w = drop (length w - partialSuffix w tag) w"

definition released :: "string \<Rightarrow> string \<Rightarrow> string" where
  "released tag w = take (length w - partialSuffix w tag) w"

lemma released_kept: "released tag w @ kept tag w = w"
  by (simp add: released_def kept_def)

lemma kept_prefix: "tag \<noteq> [] \<Longrightarrow> kept tag w = take (partialSuffix w tag) tag"
  using partialSuffix_props(1,3) [where s = w and tag = tag] by (simp add: kept_def has_suffix_def min_def)

lemma kept_length: "tag \<noteq> [] \<Longrightarrow> length (kept tag w) = partialSuffix w tag"
  using partialSuffix_props(2) [where s = w and tag = tag] by (simp add: kept_def)

lemma kept_snoc:
  assumes "tag \<noteq> []" and "\<not> has_suffix tag (w @ [c])"
  shows "kept tag (kept tag w @ [c]) = kept tag (w @ [c])"
proof -
  let ?k = "kept tag w"
  have w: "w = released tag w @ ?k" by (simp add: released_kept)
  have "partialSuffix (w @ [c]) tag \<le> partialSuffix (?k @ [c]) tag"
  proof (cases "partialSuffix (w @ [c]) tag")
    case (Suc m)
    let ?n = "partialSuffix (w @ [c]) tag"
    have n: "?n < length tag" "has_suffix (take ?n tag) (w @ [c])"
      using partialSuffix_props(1,3) [OF assms(1)] by blast+
    obtain u where u: "w @ [c] = u @ take (Suc m) tag" using n(2) Suc by (auto simp: has_suffix_iff)
    have "take (Suc m) tag = take m tag @ [tag ! m]" using n(1) Suc by (simp add: take_Suc_conv_app_nth)
    with u have um: "w = u @ take m tag" "c = tag ! m" by (simp_all add: append_assoc [symmetric] del: append_assoc)
    then have "m \<le> partialSuffix w tag"
      using partialSuffix_props(4) [OF assms(1), where m = m and s = w] n(1) Suc by (auto simp: has_suffix_iff)
    then have "length (take m tag) \<le> length ?k" using kept_length [OF assms(1)] by simp
    then have "has_suffix (take m tag) ?k" using suffix_of_suffix um(1) w by metis
    then have "has_suffix (take (Suc m) tag) (?k @ [c])"
      using um(2) n(1) Suc by (auto simp: has_suffix_iff take_Suc_conv_app_nth)
    then show ?thesis using partialSuffix_props(4) [OF assms(1), where m = "Suc m" and s = "?k @ [c]"] n(1) Suc by simp
  qed simp
  moreover have "partialSuffix (?k @ [c]) tag \<le> partialSuffix (w @ [c]) tag"
  proof -
    have "has_suffix (take (partialSuffix (?k @ [c]) tag) tag) (?k @ [c])" "partialSuffix (?k @ [c]) tag < length tag"
      using partialSuffix_props(1,3) [OF assms(1)] by blast+
    then have "has_suffix (take (partialSuffix (?k @ [c]) tag) tag) (w @ [c])"
      using w unfolding has_suffix_iff by (metis append_assoc)
    with \<open>partialSuffix (?k @ [c]) tag < length tag\<close> show ?thesis using partialSuffix_props(4) [OF assms(1)] by blast
  qed
  ultimately show ?thesis by (simp add: kept_prefix [OF assms(1)])
qed

lemma read_char_kept:
  "read_char c p =
     (let b = tp_thinking p; w = tp_buffer p @ [c]
      in if w = tag_of b then (([], []), \<lparr>tp_thinking = \<not> b, tp_buffer = []\<rparr>)
         else (emit_text b (released (tag_of b) w) ([], []), \<lparr>tp_thinking = b, tp_buffer = kept (tag_of b) w\<rparr>))"
  by (simp add: read_char_def Let_def released_def kept_def)

lemma read_all_snoc:
  "read_all s p = ((t, r), p1) \<Longrightarrow> read_char c p1 = ((t', r'), p2) \<Longrightarrow> read_all (s @ [c]) p = ((t @ t', r @ r'), p2)"
  by (simp add: read_all_append)

lemma emit_join:
  "emit_text b x ([], []) = (t, r) \<Longrightarrow> emit_text b y ([], []) = (t', r') \<Longrightarrow> (t @ t', r @ r') = emit_text b (x @ y) ([], [])"
  by (auto simp: emit_text_def split: if_splits)

subsection \<open>Searching for the tag\<close>

lemma str_index_None: "str_index s t = None \<longleftrightarrow> (\<nexists>u v. s = u @ t @ v)"
proof (induction s)
  case (Cons c s)
  have "(\<exists>u v. c # s = u @ t @ v) \<longleftrightarrow> has_prefix (c # s) t \<or> (\<exists>u v. s = u @ t @ v)"
  proof
    assume "\<exists>u v. c # s = u @ t @ v"
    then obtain u v where "c # s = u @ t @ v" by blast
    then show "has_prefix (c # s) t \<or> (\<exists>u v. s = u @ t @ v)"
      by (cases u) (auto simp: has_prefix_iff)
  next
    assume "has_prefix (c # s) t \<or> (\<exists>u v. s = u @ t @ v)"
    then show "\<exists>u v. c # s = u @ t @ v"
      unfolding has_prefix_iff by (metis append_Cons append_Nil)
  qed
  then show ?case using Cons.IH by auto
qed auto

lemma str_index_Some:
  "str_index s t = Some k \<Longrightarrow> s = take k s @ t @ drop (k + length t) s \<and> (\<forall>u v. s = u @ t @ v \<longrightarrow> k \<le> length u)"
proof (induction s arbitrary: k)
  case (Cons c s)
  show ?case
  proof (cases "has_prefix (c # s) t")
    case True
    then have "k = 0" using Cons.prems by simp
    moreover obtain v where "c # s = t @ v" using True by (auto simp: has_prefix_iff)
    ultimately show ?thesis by simp
  next
    case False
    then obtain j where j: "str_index s t = Some j" "k = Suc j" using Cons.prems by auto
    note IH = Cons.IH [OF j(1)]
    have "k \<le> length u" if "c # s = u @ t @ v" for u v
    proof (cases u)
      case Nil
      with that False show ?thesis by (auto simp: has_prefix_iff)
    next
      case (Cons d u')
      with that have "s = u' @ t @ v" by simp
      with IH have "j \<le> length u'" by blast
      with Cons j(2) show ?thesis by simp
    qed
    with IH j(2) show ?thesis by simp
  qed
qed (simp split: if_splits)

lemma no_tag_before:
  assumes "str_index s t = Some k" and "t \<noteq> []"
  shows "str_index (take k s @ butlast t) t = None"
  unfolding str_index_None
proof
  note F = str_index_Some [OF assms(1)]
  have k: "length (take k s) = k" using str_index_bound [OF assms(1)] by simp
  assume "\<exists>u v. take k s @ butlast t = u @ t @ v"
  then obtain u v where uv: "take k s @ butlast t = u @ t @ v" by blast
  have "s = (take k s @ butlast t) @ last t # drop (k + length t) s"
    using F assms(2) append_butlast_last_id [of t] by (metis append.assoc append_Cons append_Nil)
  with uv have "s = u @ t @ (v @ last t # drop (k + length t) s)" by simp
  with F have "k \<le> length u" by blast
  moreover have "k + (length t - 1) = length u + length t + length v"
    using arg_cong [OF uv, of length] k by simp
  ultimately show False using assms(2) by (cases t) simp_all
qed

subsection \<open>The parser agrees with the reference\<close>

lemma kept_shorter: "tag \<noteq> [] \<Longrightarrow> length (kept tag w) < length tag"
  using partialSuffix_props(1) [where s = w and tag = tag] by (simp add: kept_length)

lemma read_text:
  assumes "str_index w (tag_of b) = None"
  shows "read_all w \<lparr>tp_thinking = b, tp_buffer = []\<rparr> =
    (emit_text b (released (tag_of b) w) ([], []), \<lparr>tp_thinking = b, tp_buffer = kept (tag_of b) w\<rparr>)"
  using assms
proof (induction w rule: rev_induct)
  case Nil
  then show ?case by (simp add: released_def kept_def emit_text_def)
next
  case (snoc c w)
  let ?t = "tag_of b"
  have ne: "?t \<noteq> []" by simp
  have "str_index w ?t = None" using snoc.prems unfolding str_index_None by (metis append.assoc)
  note IH = snoc.IH [OF this]
  have ns: "\<not> has_suffix ?t (w @ [c])"
    using snoc.prems unfolding str_index_None has_suffix_iff by (metis append_Nil2)
  have nt: "kept ?t w @ [c] \<noteq> ?t"
    using ns released_kept [of ?t w] unfolding has_suffix_iff by (metis append.assoc)
  have k: "kept ?t (kept ?t w @ [c]) = kept ?t (w @ [c])" by (rule kept_snoc [OF ne ns])
  have r: "released ?t w @ released ?t (kept ?t w @ [c]) = released ?t (w @ [c])"
  proof -
    have "(released ?t w @ released ?t (kept ?t w @ [c])) @ kept ?t (kept ?t w @ [c]) = w @ [c]"
      by (simp add: released_kept flip: append.assoc)
    then show ?thesis using k released_kept [of ?t "w @ [c]"] by (metis append_same_eq)
  qed
  have c: "read_char c \<lparr>tp_thinking = b, tp_buffer = kept ?t w\<rparr> =
      (emit_text b (released ?t (kept ?t w @ [c])) ([], []), \<lparr>tp_thinking = b, tp_buffer = kept ?t (w @ [c])\<rparr>)"
    using nt k by (simp add: read_char_kept Let_def)
  obtain t1 r1 t2 r2 where e: "emit_text b (released ?t w) ([], []) = (t1, r1)"
    "emit_text b (released ?t (kept ?t w @ [c])) ([], []) = (t2, r2)" by fastforce
  show ?case
    using read_all_snoc [OF IH [unfolded e] c [unfolded e]] emit_join [OF e] by (simp add: r)
qed

lemma read_tag:
  assumes "str_index s (tag_of b) = Some k"
  shows "read_all (take k s @ tag_of b) \<lparr>tp_thinking = b, tp_buffer = []\<rparr> =
    (emit_text b (take k s) ([], []), \<lparr>tp_thinking = \<not> b, tp_buffer = []\<rparr>)"
proof -
  let ?t = "tag_of b" and ?w = "take k s @ butlast (tag_of b)"
  have ne: "?t \<noteq> []" by simp
  have "butlast ?t = take (length ?t - 1) ?t" by (simp add: butlast_conv_take)
  then have "has_suffix (take (length ?t - 1) ?t) ?w" by (auto simp: has_suffix_iff)
  then have "length ?t - 1 \<le> partialSuffix ?w ?t"
    by (intro partialSuffix_props(4) [OF ne]) (use tag_length [of b] in simp_all)
  then have "partialSuffix ?w ?t = length ?t - 1"
    using partialSuffix_props(1) [OF ne, of ?w] by simp
  then have kept: "kept ?t ?w = butlast ?t" using kept_prefix [OF ne, of ?w] by (simp add: butlast_conv_take)
  then have "released ?t ?w = take k s" using released_kept [of ?t ?w] by (metis append_same_eq)
  with kept read_text [OF no_tag_before [OF assms ne]]
  have "read_all ?w \<lparr>tp_thinking = b, tp_buffer = []\<rparr> =
      (emit_text b (take k s) ([], []), \<lparr>tp_thinking = b, tp_buffer = butlast ?t\<rparr>)" by simp
  moreover have "read_char (last ?t) \<lparr>tp_thinking = b, tp_buffer = butlast ?t\<rparr> =
      (([], []), \<lparr>tp_thinking = \<not> b, tp_buffer = []\<rparr>)"
    using append_butlast_last_id [OF ne] by (simp add: read_char_def)
  moreover obtain u r where e: "emit_text b (take k s) ([], []) = (u, r)" by fastforce
  ultimately have "read_all (?w @ [last ?t]) \<lparr>tp_thinking = b, tp_buffer = []\<rparr> =
      ((u @ [], r @ []), \<lparr>tp_thinking = \<not> b, tp_buffer = []\<rparr>)"
    by (intro read_all_snoc) simp_all
  moreover have "?w @ [last ?t] = take k s @ ?t" using append_butlast_last_id [OF ne] by simp
  ultimately show ?thesis by (simp only: e append_Nil2)
qed

lemma process_loop_reads: "process_loop b s = read_all s \<lparr>tp_thinking = b, tp_buffer = []\<rparr>"
proof (induction b s rule: process_loop.induct)
  case (1 b s)
  show ?case
  proof (cases "s = []")
    case True
    then show ?thesis by (simp add: process_loop.simps)
  next
    case ne: False
    show ?thesis
    proof (cases "str_index s (tag_of b)")
      case None
      with ne read_text [OF None] show ?thesis
        by (simp add: process_loop.simps [of b s] Let_def released_def kept_def)
    next
      case (Some k)
      let ?d = "drop (k + length (tag_of b)) s"
      have s: "s = (take k s @ tag_of b) @ ?d" using str_index_Some [OF Some] by simp
      have IH: "process_loop (\<not> b) ?d = read_all ?d \<lparr>tp_thinking = \<not> b, tp_buffer = []\<rparr>" by (rule 1 [OF ne Some])
      have "read_all s \<lparr>tp_thinking = b, tp_buffer = []\<rparr> =
          (let ((t, r), p1) = (emit_text b (take k s) ([], []), \<lparr>tp_thinking = \<not> b, tp_buffer = []\<rparr>);
               ((t', r'), p2) = read_all ?d p1 in ((t @ t', r @ r'), p2))"
        by (subst s, subst read_all_append) (simp add: read_tag [OF Some])
      then show ?thesis using ne Some IH
        by (simp add: process_loop.simps [of b s] emit_text_def split: prod.splits)
    qed
  qed
qed

text \<open>The buffer is the beginning of the tag that is awaited.\<close>

definition parser_ok :: "think_parser \<Rightarrow> bool" where
  "parser_ok p \<longleftrightarrow> tp_buffer p = take (length (tp_buffer p)) (tag_of (tp_thinking p)) \<and>
     length (tp_buffer p) < length (tag_of (tp_thinking p))"

lemma new_parser_ok [simp]: "parser_ok new_think_parser"
  by (simp add: parser_ok_def new_think_parser_def)

lemma read_char_ok: "parser_ok (snd (read_char c p))"
proof -
  let ?t = "tag_of (tp_thinking p)" and ?w = "tp_buffer p @ [c]"
  have ne: "?t \<noteq> []" by simp
  have "kept ?t ?w = take (length (kept ?t ?w)) ?t" using kept_prefix [OF ne] kept_length [OF ne] by metis
  then show ?thesis
    using kept_shorter [OF ne, of ?w] tag_length
    by (simp add: read_char_kept parser_ok_def Let_def del: length_greater_0_conv)
qed

lemma read_all_ok: "parser_ok p \<Longrightarrow> parser_ok (snd (read_all s p))"
  using read_char_ok by (induction s arbitrary: p) (simp_all add: case_prod_beta)

lemma read_buffer:
  assumes "parser_ok p"
  shows "read_all (tp_buffer p) \<lparr>tp_thinking = tp_thinking p, tp_buffer = []\<rparr> = (([], []), p)"
proof -
  let ?t = "tag_of (tp_thinking p)" and ?u = "tp_buffer p"
  have ne: "?t \<noteq> []" by simp
  have u: "?u = take (length ?u) ?t" "length ?u < length ?t" using assms by (simp_all add: parser_ok_def)
  have "str_index ?u ?t = None" using str_index_bound [of ?u ?t] u(2) by (cases "str_index ?u ?t") fastforce+
  note R = read_text [OF this]
  have "length ?u \<le> partialSuffix ?u ?t"
    by (rule partialSuffix_props(4) [OF ne u(2)]) (simp add: has_suffix_def u(1) [symmetric])
  then have "partialSuffix ?u ?t = length ?u" using partialSuffix_props(2) [OF ne, of ?u] by simp
  with R show ?thesis by (simp add: released_def kept_def emit_text_def)
qed

lemma Process_reads:
  assumes "parser_ok p"
  shows "Process s p = read_all s p"
  using read_buffer [OF assms] by (simp add: Process_def process_loop_reads read_all_append split: prod.splits)

lemma Process_all_reads: "parser_ok p \<Longrightarrow> Process_all xs p = read_all (concat xs) p"
proof (induction xs arbitrary: p)
  case (Cons x xs)
  have "parser_ok (snd (Process x p))" using read_all_ok [OF Cons.prems] by (simp add: Process_reads [OF Cons.prems])
  with Cons.IH [of "snd (Process x p)"] show ?case
    by (simp add: read_all_append Process_reads [OF Cons.prems] case_prod_beta)
qed simp

subsection \<open>Properties\<close>

text \<open>
  C14: The chunks in which a text arrives do not matter: processing them one after another gives the
  thinking and the regular text, and leaves the parser in the state, that the whole text gives at once;
  both are what reading one character at a time gives.
\<close>
theorem chunks_do_not_matter:
  "Process_all chunks new_think_parser = Process (concat chunks) new_think_parser \<and>
   Process (concat chunks) new_think_parser = read_all (concat chunks) new_think_parser"
  by (simp add: Process_all_reads Process_reads)

text \<open>A text made of regular parts, each followed by a thinking block, and an end.\<close>

definition render_thinking :: "(string \<times> string) list \<Rightarrow> string \<Rightarrow> string" where
  "render_thinking segs end_text =
     concat (map (\<lambda>(r, t). r @ tag_of False @ t @ tag_of True) segs) @ end_text"

definition plain :: "string \<Rightarrow> bool" where
  "plain s \<longleftrightarrow> CHR ''<'' \<notin> set s"

lemma tag_first: "0 < n \<Longrightarrow> CHR ''<'' \<in> set (take n (tag_of b))"
  by (cases n) (simp_all add: tag_of_def)

lemma read_plain:
  assumes "plain s"
  shows "read_all s \<lparr>tp_thinking = b, tp_buffer = []\<rparr> = (emit_text b s ([], []), \<lparr>tp_thinking = b, tp_buffer = []\<rparr>)"
proof -
  have "CHR ''<'' \<in> set (tag_of b)" using tag_first [of "length (tag_of b)" b] tag_length [of b] by simp
  then have "str_index s (tag_of b) = None" using assms unfolding str_index_None plain_def by auto
  note R = read_text [OF this]
  have "\<not> 0 < partialSuffix s (tag_of b)"
  proof
    assume "0 < partialSuffix s (tag_of b)"
    then have "CHR ''<'' \<in> set (take (partialSuffix s (tag_of b)) (tag_of b))" by (rule tag_first)
    moreover have "has_suffix (take (partialSuffix s (tag_of b)) (tag_of b)) s" by (rule partialSuffix_props(3)) simp
    ultimately show False using assms unfolding has_suffix_iff plain_def by (metis Un_iff set_append)
  qed
  with R show ?thesis by (simp add: released_def kept_def)
qed

lemma read_plain_tag:
  assumes "plain s"
  shows "read_all (s @ tag_of b) \<lparr>tp_thinking = b, tp_buffer = []\<rparr> =
    (emit_text b s ([], []), \<lparr>tp_thinking = \<not> b, tp_buffer = []\<rparr>)"
proof -
  have "str_index (tag_of b) (tag_of b) = Some 0" by (simp add: tag_of_def)
  from read_tag [OF this]
  have "read_all (tag_of b) \<lparr>tp_thinking = b, tp_buffer = []\<rparr> = (([], []), \<lparr>tp_thinking = \<not> b, tp_buffer = []\<rparr>)"
    by (simp add: emit_text_def)
  then show ?thesis by (cases b) (simp_all add: read_all_append read_plain [OF assms] emit_text_def)
qed

lemma read_rendered:
  "list_all (\<lambda>(r, t). plain r \<and> plain t) segs \<Longrightarrow> plain end_text \<Longrightarrow>
   read_all (render_thinking segs end_text) new_think_parser =
     ((concat (map snd segs), concat (map fst segs) @ end_text), new_think_parser)"
proof (induction segs)
  case Nil
  then show ?case using read_plain [of end_text False] by (simp add: render_thinking_def new_think_parser_def emit_text_def)
next
  case (Cons seg segs)
  obtain r t where seg: "seg = (r, t)" by fastforce
  with Cons.prems have p: "plain r" "plain t" by simp_all
  have "render_thinking (seg # segs) end_text = (r @ tag_of False) @ (t @ tag_of True) @ render_thinking segs end_text"
    by (simp add: render_thinking_def seg)
  moreover have "read_all (render_thinking segs end_text) \<lparr>tp_thinking = False, tp_buffer = []\<rparr> =
      ((concat (map snd segs), concat (map fst segs) @ end_text), new_think_parser)"
    using Cons by (simp add: new_think_parser_def)
  ultimately show ?case
    using read_plain_tag [OF p(1), of False] read_plain_tag [OF p(2), of True]
    by (simp only: read_all_append [of "r @ tag_of False"] read_all_append [of "t @ tag_of True"])
      (simp add: new_think_parser_def emit_text_def seg)
qed



end
