(* ===== verification/CircuitBreaker.thy ===== *)
theory CircuitBreaker
  imports Prelude
begin

section \<open>The circuit breaker\<close>

text \<open>
  \<^verbatim>\<open>internal/engine/robustness/circuit_breaker.go\<close>: calls of a provider go through a breaker that opens
  after \<open>threshold\<close> failures, rejects calls for \<open>resetTimeout\<close> after the last failure, and then lets calls
  probe. A call is two critical sections, \<open>allowRequest\<close> before it and \<open>recordFailure\<close> or
  \<open>recordSuccess\<close> after it, so the sections of several calls interleave; \<open>breaker_step\<close> is any section.
\<close>

datatype breaker_state = StateClosed | StateHalfOpen | StateOpen

fun State_String :: "breaker_state \<Rightarrow> string" where
  "State_String StateClosed = ''closed''"
| "State_String StateHalfOpen = ''half_open''"
| "State_String StateOpen = ''open''"

record breaker =
  cb_state :: breaker_state
  cb_failures :: int
  cb_threshold :: int
  cb_reset_timeout :: duration
  cb_last_failure :: gotime

definition NewCircuitBreaker :: "int \<Rightarrow> duration \<Rightarrow> breaker" where
  "NewCircuitBreaker threshold resetTimeout =
     \<lparr>cb_state = StateClosed, cb_failures = 0, cb_threshold = threshold, cb_reset_timeout = resetTimeout,
      cb_last_failure = zero_time\<rparr>"

definition allowRequest :: "gotime \<Rightarrow> breaker \<Rightarrow> bool \<times> breaker" where
  "allowRequest now cb =
     (case cb_state cb of
        StateClosed \<Rightarrow> (True, cb)
      | StateOpen \<Rightarrow>
          if cb_reset_timeout cb < time_sub now (cb_last_failure cb) then (True, cb\<lparr>cb_state := StateHalfOpen\<rparr>)
          else (False, cb)
      | StateHalfOpen \<Rightarrow> (True, cb))"

definition CanExecute :: "gotime \<Rightarrow> breaker \<Rightarrow> bool" where
  "CanExecute now cb =
     (if cb_state cb = StateClosed then True
      else if cb_state cb = StateOpen then cb_reset_timeout cb < time_sub now (cb_last_failure cb)
      else True)"

definition recordFailure :: "gotime \<Rightarrow> breaker \<Rightarrow> breaker" where
  "recordFailure now cb =
     (let cb1 = cb\<lparr>cb_failures := cb_failures cb + 1, cb_last_failure := now\<rparr>
      in if cb_state cb1 = StateHalfOpen \<or> cb_threshold cb1 \<le> cb_failures cb1 then cb1\<lparr>cb_state := StateOpen\<rparr>
         else cb1)"

definition recordSuccess :: "breaker \<Rightarrow> breaker" where
  "recordSuccess cb =
     (if cb_state cb = StateHalfOpen then cb\<lparr>cb_state := StateClosed, cb_failures := 0\<rparr>
      else if cb_state cb = StateClosed then cb\<lparr>cb_failures := 0\<rparr>
      else cb)"

definition Breaker_Reset :: "breaker \<Rightarrow> breaker" where
  "Breaker_Reset cb = cb\<lparr>cb_state := StateClosed, cb_failures := 0\<rparr>"

definition GetState :: "breaker \<Rightarrow> breaker_state" where
  "GetState cb = cb_state cb"

text \<open>A call on its own: \<open>fn\<close> is what the call returns, \<open>done\<close> the time it returns at.\<close>

datatype 'e breaker_error = CircuitOpen | CallFailed 'e

definition Execute :: "gotime \<Rightarrow> gotime \<Rightarrow> 'e option \<Rightarrow> breaker \<Rightarrow> 'e breaker_error option \<times> breaker" where
  "Execute now done_at fn cb =
     (case allowRequest now cb of
        (False, cb1) \<Rightarrow> (Some CircuitOpen, cb1)
      | (True, cb1) \<Rightarrow>
          (case fn of Some err \<Rightarrow> (Some (CallFailed err), recordFailure done_at cb1) | None \<Rightarrow> (None, recordSuccess cb1)))"

subsection \<open>Interleaved calls\<close>

inductive breaker_step :: "breaker \<Rightarrow> breaker \<Rightarrow> bool" where
  allow: "breaker_step cb (snd (allowRequest now cb))"
| failure: "breaker_step cb (recordFailure now cb)"
| success: "breaker_step cb (recordSuccess cb)"
| reset: "breaker_step cb (Breaker_Reset cb)"

inductive_cases breaker_stepE: "breaker_step cb cb'"

inductive breaker_run :: "breaker \<Rightarrow> breaker \<Rightarrow> bool" for cb0 where
  start: "breaker_run cb0 cb0"
| step: "breaker_run cb0 cb \<Longrightarrow> breaker_step cb cb' \<Longrightarrow> breaker_run cb0 cb'"

lemmas breaker_defs = allowRequest_def CanExecute_def recordFailure_def recordSuccess_def Breaker_Reset_def

definition breaker_ok :: "breaker \<Rightarrow> bool" where
  "breaker_ok cb \<longleftrightarrow> 0 \<le> cb_failures cb \<and> (cb_state cb = StateClosed \<longrightarrow> cb_failures cb < cb_threshold cb)"

lemma breaker_step_frame:
  "breaker_step cb cb' \<Longrightarrow> cb_threshold cb' = cb_threshold cb \<and> cb_reset_timeout cb' = cb_reset_timeout cb"
  by (erule breaker_stepE) (auto simp: breaker_defs Let_def split: breaker_state.splits)

lemma breaker_step_ok: "breaker_step cb cb' \<Longrightarrow> 0 < cb_threshold cb \<Longrightarrow> breaker_ok cb \<Longrightarrow> breaker_ok cb'"
  by (erule breaker_stepE) (auto simp: breaker_ok_def breaker_defs Let_def split: breaker_state.splits)

lemma breaker_run_ok:
  "breaker_run (NewCircuitBreaker n timeout) cb \<Longrightarrow> 0 < n \<Longrightarrow>
   breaker_ok cb \<and> cb_threshold cb = n \<and> cb_reset_timeout cb = timeout"
  by (induction rule: breaker_run.induct)
    (use breaker_step_ok breaker_step_frame in \<open>auto simp: breaker_ok_def NewCircuitBreaker_def\<close>)

text \<open>Failures one after another, with the times they are recorded at.\<close>

definition failures :: "gotime list \<Rightarrow> breaker \<Rightarrow> breaker" where
  "failures ts cb = foldl (\<lambda>cb t. recordFailure t cb) cb ts"

lemma failures_closed:
  "cb_state cb = StateClosed \<Longrightarrow> cb_failures cb < cb_threshold cb \<Longrightarrow> ts \<noteq> [] \<Longrightarrow>
   cb_failures (failures ts cb) = cb_failures cb + int (length ts) \<and> cb_last_failure (failures ts cb) = last ts \<and>
   cb_threshold (failures ts cb) = cb_threshold cb \<and> cb_reset_timeout (failures ts cb) = cb_reset_timeout cb \<and>
   cb_state (failures ts cb) =
     (if cb_threshold cb \<le> cb_failures cb + int (length ts) then StateOpen else StateClosed)"
proof (induction ts rule: rev_induct)
  case (snoc t ts)
  show ?case
  proof (cases "ts = []")
    case True
    with snoc.prems show ?thesis by (simp add: failures_def recordFailure_def Let_def)
  next
    case False
    from snoc.IH [OF snoc.prems(1,2) this] show ?thesis by (auto simp: failures_def recordFailure_def Let_def)
  qed
qed simp

text \<open>
  C16: In every interleaving of calls, a closed breaker has had fewer than \<open>threshold\<close> failures since it
  last closed or succeeded; failures in a row open it exactly when they reach the threshold; from then on
  every call is rejected until more than \<open>resetTimeout\<close> has passed since the last failure, and is let
  through after that; what \<open>CanExecute\<close> says is what \<open>allowRequest\<close> does.
\<close>
theorem breaker_opens_exactly:
  assumes "breaker_run (NewCircuitBreaker n timeout) cb" and "0 < n" and "cb_state cb = StateClosed" and "ts \<noteq> []"
  defines "cb' \<equiv> failures ts cb"
  shows "cb_failures cb < n \<and>
    (cb_state cb' = StateOpen \<longleftrightarrow> n \<le> cb_failures cb + int (length ts)) \<and>
    (CanExecute now cb' \<longleftrightarrow> cb_failures cb + int (length ts) < n \<or> timeout < time_sub now (last ts)) \<and>
    fst (allowRequest now cb') = CanExecute now cb'"
proof -
  have ok: "breaker_ok cb" "cb_threshold cb = n" "cb_reset_timeout cb = timeout"
    using breaker_run_ok [OF assms(1,2)] by simp_all
  then have less: "cb_failures cb < cb_threshold cb" using assms(3) by (simp add: breaker_ok_def)
  note F = failures_closed [OF assms(3) less assms(4), folded cb'_def]
  have "fst (allowRequest now cb') = CanExecute now cb'"
    by (cases "cb_state cb'") (simp_all add: allowRequest_def CanExecute_def)
  with F less ok show ?thesis by (auto simp: CanExecute_def)
qed

lemma breaker_opens_exactly_witness:
  "cb_state (failures [5, 7] (NewCircuitBreaker 2 10)) = StateOpen \<and>
   \<not> CanExecute 16 (failures [5, 7] (NewCircuitBreaker 2 10)) \<and> CanExecute 18 (failures [5, 7] (NewCircuitBreaker 2 10))"
proof -
  let ?cb = "NewCircuitBreaker 2 10"
  have r: "breaker_run ?cb ?cb" by (rule breaker_run.start)
  have s: "cb_state ?cb = StateClosed" "cb_failures ?cb = 0" by (simp_all add: NewCircuitBreaker_def)
  from breaker_opens_exactly [OF r _ s(1), of "[5, 7]"] s(2)
  show ?thesis by (simp add: time_sub_def min_duration_def max_duration_def)
qed

end
