(* ===== verification/UndoManager.thy ===== *)
theory UndoManager
  imports BoundedLog
begin

section \<open>Undo and redo\<close>

text \<open>
  \<^verbatim>\<open>internal/engine/undo\<close>: the tracker keeps the last file changes, and the manager reverts and re-applies
  them. Files are a map from paths to nodes; an operation on them may fail, which the argument \<open>io\<close>
  decides, and a failed operation leaves the files alone. What a path needs above it (\<open>MkdirAll\<close>) is
  an operation that may fail and changes no node of the map.
\<close>

subsection \<open>Files\<close>

datatype node = Dir | File string

type_synonym files = "string \<Rightarrow> node option"

datatype file_op = OpRemoveFile string | OpWrite string string | OpRename string string | OpMkdirAll string

text \<open>A removal of what does not exist is no error to the caller; a rename needs its source, and a write
  or a rename does not replace a directory.\<close>

definition file_op_ok :: "(file_op \<Rightarrow> files \<Rightarrow> bool) \<Rightarrow> file_op \<Rightarrow> files \<Rightarrow> bool" where
  "file_op_ok io op fs =
     (case op of
        OpRemoveFile path \<Rightarrow> (case fs path of None \<Rightarrow> True | Some n \<Rightarrow> io op fs)
      | OpWrite path content \<Rightarrow> io op fs \<and> fs path \<noteq> Some Dir
      | OpRename source dest \<Rightarrow> io op fs \<and> fs source \<noteq> None \<and> (fs dest \<noteq> Some Dir \<or> source = dest)
      | OpMkdirAll path \<Rightarrow> io op fs)"

definition do_file_op :: "file_op \<Rightarrow> files \<Rightarrow> files" where
  "do_file_op op fs =
     (case op of
        OpRemoveFile path \<Rightarrow> fs(path := None)
      | OpWrite path content \<Rightarrow> fs(path := Some (File content))
      | OpRename source dest \<Rightarrow> (if source = dest then fs else fs(source := None, dest := fs source))
      | OpMkdirAll path \<Rightarrow> fs)"

text \<open>Operations one after another, up to the first that fails.\<close>

fun file_ops :: "(file_op \<Rightarrow> files \<Rightarrow> bool) \<Rightarrow> file_op list \<Rightarrow> files \<Rightarrow> bool \<times> files" where
  "file_ops io [] fs = (True, fs)"
| "file_ops io (op # ops) fs = (if file_op_ok io op fs then file_ops io ops (do_file_op op fs) else (False, fs))"

subsection \<open>Changes and the tracker\<close>

record file_change =
  fc_id :: string
  fc_path :: string
  fc_tool :: string
  fc_time :: gotime
  fc_old :: string
  fc_new :: string
  fc_was_new :: bool
  fc_group :: string

definition NewFileChange :: "string \<Rightarrow> gotime \<Rightarrow> string \<Rightarrow> string \<Rightarrow> string \<Rightarrow> string \<Rightarrow> bool \<Rightarrow> file_change" where
  "NewFileChange newID now filePath tool oldContent newContent wasNew =
     \<lparr>fc_id = newID, fc_path = filePath, fc_tool = tool, fc_time = now, fc_old = oldContent, fc_new = newContent,
      fc_was_new = wasNew, fc_group = []\<rparr>"

definition Change_Summary :: "file_change \<Rightarrow> string" where
  "Change_Summary c = (if fc_was_new c then ''created '' @ fc_path c else ''modified '' @ fc_path c)"

definition SizeChange :: "file_change \<Rightarrow> int" where
  "SizeChange c = int (length (fc_new c)) - int (length (fc_old c))"

record tracker =
  tk_changes :: "file_change list"
  tk_max :: nat

definition DefaultMaxChanges :: nat where
  "DefaultMaxChanges = 100"

definition NewTracker :: tracker where
  "NewTracker = \<lparr>tk_changes = [], tk_max = DefaultMaxChanges\<rparr>"

definition NewTrackerWithSize :: "int \<Rightarrow> tracker" where
  "NewTrackerWithSize maxSize = \<lparr>tk_changes = [], tk_max = (if maxSize \<le> 0 then DefaultMaxChanges else nat maxSize)\<rparr>"

definition Tracker_Record :: "file_change \<Rightarrow> tracker \<Rightarrow> tracker" where
  "Tracker_Record c t =
     (let cs = (if tk_max t \<le> length (tk_changes t) then tl (tk_changes t) else tk_changes t)
      in t\<lparr>tk_changes := cs @ [c]\<rparr>)"

definition GetLast :: "tracker \<Rightarrow> file_change option" where
  "GetLast t = (if tk_changes t = [] then None else Some (last (tk_changes t)))"

definition PopLast :: "tracker \<Rightarrow> file_change option \<times> tracker" where
  "PopLast t =
     (if tk_changes t = [] then (None, t)
      else (Some (last (tk_changes t)), t\<lparr>tk_changes := butlast (tk_changes t)\<rparr>))"

definition ListRecent :: "int \<Rightarrow> tracker \<Rightarrow> file_change list" where
  "ListRecent n t = (if n \<le> 0 then [] else take (nat n) (rev (tk_changes t)))"

definition Tracker_Clear :: "tracker \<Rightarrow> tracker" where
  "Tracker_Clear t = t\<lparr>tk_changes := []\<rparr>"

definition GetByID :: "string \<Rightarrow> tracker \<Rightarrow> file_change option" where
  "GetByID i t = find (\<lambda>c. fc_id c = i) (rev (tk_changes t))"

text \<open>The newest change with the identifier is taken out.\<close>

fun remove_first :: "('a \<Rightarrow> bool) \<Rightarrow> 'a list \<Rightarrow> 'a list" where
  "remove_first P [] = []"
| "remove_first P (x # xs) = (if P x then xs else x # remove_first P xs)"

definition RemoveByID :: "string \<Rightarrow> tracker \<Rightarrow> file_change option \<times> tracker" where
  "RemoveByID i t =
     (GetByID i t, t\<lparr>tk_changes := rev (remove_first (\<lambda>c. fc_id c = i) (rev (tk_changes t)))\<rparr>)"

interpretation change_log: bounded_log Tracker_Record tk_changes tk_max
  "\<lambda>t. 0 < tk_max t \<and> length (tk_changes t) \<le> tk_max t"
proof
  fix t :: tracker and c
  assume ok: "0 < tk_max t \<and> length (tk_changes t) \<le> tk_max t"
  then show "tk_changes (Tracker_Record c t) = last_n (tk_max t) (tk_changes t @ [c])"
    using room_before [of "tk_max t" "tk_changes t" c] by (simp add: Tracker_Record_def Let_def)
  from ok show "0 < tk_max (Tracker_Record c t) \<and> length (tk_changes (Tracker_Record c t)) \<le> tk_max (Tracker_Record c t)"
    by (auto simp: Tracker_Record_def Let_def)
qed (auto simp: Tracker_Record_def Let_def)

subsection \<open>Reverting and applying a change\<close>

text \<open>\<open>dir_of\<close> is \<open>filepath.Dir\<close>; a move holds its source in \<open>fc_old\<close>.\<close>

datatype undo_error = NothingToUndo | NothingToRedo | NoGroup string | MissingSource | FileError | UndoFailed undo_error |
  RedoFailed undo_error | GroupRolledBack undo_error | GroupRollbackIncomplete undo_error

definition run_change :: "(file_op \<Rightarrow> files \<Rightarrow> bool) \<Rightarrow> file_op list \<Rightarrow> files \<Rightarrow> undo_error option \<times> files" where
  "run_change io ops fs = (case file_ops io ops fs of (ok, fs') \<Rightarrow> (if ok then None else Some FileError, fs'))"

definition revertMove :: "(file_op \<Rightarrow> files \<Rightarrow> bool) \<Rightarrow> file_change \<Rightarrow> files \<Rightarrow> undo_error option \<times> files" where
  "revertMove io c fs =
     (if fc_old c = [] then (Some MissingSource, fs)
      else run_change io [OpMkdirAll (path_dir (fc_old c)), OpRename (fc_path c) (fc_old c)] fs)"

definition applyMove :: "(file_op \<Rightarrow> files \<Rightarrow> bool) \<Rightarrow> file_change \<Rightarrow> files \<Rightarrow> undo_error option \<times> files" where
  "applyMove io c fs =
     (if fc_old c = [] then (Some MissingSource, fs)
      else run_change io [OpMkdirAll (path_dir (fc_path c)), OpRename (fc_old c) (fc_path c)] fs)"

definition revertChange :: "(file_op \<Rightarrow> files \<Rightarrow> bool) \<Rightarrow> file_change \<Rightarrow> files \<Rightarrow> undo_error option \<times> files" where
  "revertChange io c fs =
     (if fc_tool c = ''move'' then revertMove io c fs
      else if fc_was_new c then run_change io [OpRemoveFile (fc_path c)] fs
      else run_change io [OpMkdirAll (path_dir (fc_path c)), OpWrite (fc_path c) (fc_old c)] fs)"

definition applyChange :: "(file_op \<Rightarrow> files \<Rightarrow> bool) \<Rightarrow> file_change \<Rightarrow> files \<Rightarrow> undo_error option \<times> files" where
  "applyChange io c fs =
     (if fc_tool c = ''move'' then applyMove io c fs
      else run_change io [OpMkdirAll (path_dir (fc_path c)), OpWrite (fc_path c) (fc_new c)] fs)"

subsection \<open>The manager\<close>

record undo_manager =
  um_tracker :: tracker
  um_undone :: "file_change list"
  um_max_redo :: nat
  um_group :: string

definition NewManagerWithTracker :: "tracker \<Rightarrow> undo_manager" where
  "NewManagerWithTracker t = \<lparr>um_tracker = t, um_undone = [], um_max_redo = 50, um_group = []\<rparr>"

definition NewUndoManager :: undo_manager where
  "NewUndoManager = NewManagerWithTracker NewTracker"

definition SetActiveGroup :: "string \<Rightarrow> undo_manager \<Rightarrow> undo_manager" where
  "SetActiveGroup g m = m\<lparr>um_group := g\<rparr>"

definition ClearActiveGroup :: "undo_manager \<Rightarrow> undo_manager" where
  "ClearActiveGroup m = m\<lparr>um_group := []\<rparr>"

definition upd_tracker :: "(tracker \<Rightarrow> tracker) \<Rightarrow> undo_manager \<Rightarrow> undo_manager" where
  "upd_tracker f m = m\<lparr>um_tracker := f (um_tracker m)\<rparr>"

definition Undo_Record :: "file_change \<Rightarrow> undo_manager \<Rightarrow> undo_manager" where
  "Undo_Record c m =
     (let c1 = (if um_group m \<noteq> [] \<and> fc_group c = [] then c\<lparr>fc_group := um_group m\<rparr> else c)
      in (upd_tracker (Tracker_Record c1) m)\<lparr>um_undone := []\<rparr>)"

definition push_undone :: "file_change \<Rightarrow> undo_manager \<Rightarrow> undo_manager" where
  "push_undone c m =
     (let u = (if um_max_redo m \<le> length (um_undone m) then tl (um_undone m) else um_undone m)
      in m\<lparr>um_undone := u @ [c]\<rparr>)"

type_synonym io = "file_op \<Rightarrow> files \<Rightarrow> bool"

definition Manager_Undo :: "io \<Rightarrow> undo_manager \<times> files \<Rightarrow> (undo_error + file_change) \<times> undo_manager \<times> files" where
  "Manager_Undo io s =
     (case s of (m, fs) \<Rightarrow>
        (case PopLast (um_tracker m) of
           (None, t) \<Rightarrow> (Inl NothingToUndo, m, fs)
         | (Some c, t) \<Rightarrow>
             let m1 = m\<lparr>um_tracker := t\<rparr>
             in (case revertChange io c fs of
                   (Some err, fs') \<Rightarrow> (Inl (UndoFailed err), upd_tracker (Tracker_Record c) m1, fs')
                 | (None, fs') \<Rightarrow> (Inr c, push_undone c m1, fs'))))"

definition Manager_Redo :: "io \<Rightarrow> undo_manager \<times> files \<Rightarrow> (undo_error + file_change) \<times> undo_manager \<times> files" where
  "Manager_Redo io s =
     (case s of (m, fs) \<Rightarrow>
        (if um_undone m = [] then (Inl NothingToRedo, m, fs)
         else let c = last (um_undone m); m1 = m\<lparr>um_undone := butlast (um_undone m)\<rparr>
              in (case applyChange io c fs of
                    (Some err, fs') \<Rightarrow> (Inl (RedoFailed err), m1\<lparr>um_undone := um_undone m1 @ [c]\<rparr>, fs')
                  | (None, fs') \<Rightarrow> (Inr c, upd_tracker (Tracker_Record c) m1, fs'))))"

text \<open>
  Undoing a group: \<open>revert_all\<close> reverts the changes in turn and returns those it reverted, with the
  error that stopped it; \<open>reapply_all\<close> applies changes and says whether all of them worked.
\<close>

fun revert_all :: "io \<Rightarrow> file_change list \<Rightarrow> files \<Rightarrow> undo_error option \<times> file_change list \<times> files" where
  "revert_all io [] fs = (None, [], fs)"
| "revert_all io (c # cs) fs =
     (case revertChange io c fs of
        (Some err, fs') \<Rightarrow> (Some err, [], fs')
      | (None, fs') \<Rightarrow> (let (e, done_cs, fs'') = revert_all io cs fs' in (e, c # done_cs, fs'')))"

fun reapply_all :: "io \<Rightarrow> file_change list \<Rightarrow> files \<Rightarrow> bool \<times> files" where
  "reapply_all io [] fs = (True, fs)"
| "reapply_all io (c # cs) fs =
     (let (e, fs') = applyChange io c fs; (ok, fs'') = reapply_all io cs fs' in (e = None \<and> ok, fs''))"

definition undoGroup :: "io \<Rightarrow> string \<Rightarrow> undo_manager \<times> files \<Rightarrow> (undo_error + file_change list) \<times> undo_manager \<times> files" where
  "undoGroup io g s =
     (case s of (m, fs) \<Rightarrow>
        (let grouped = filter (\<lambda>c. fc_group c = g) (rev (tk_changes (um_tracker m)))
         in if grouped = [] then (Inl (NoGroup g), m, fs)
            else case revert_all io grouped fs of
                   (Some err, reverted, fs') \<Rightarrow>
                     (let (ok, fs'') = reapply_all io (rev reverted) fs'
                      in (Inl (if ok then GroupRolledBack err else GroupRollbackIncomplete err), m, fs''))
                 | (None, reverted, fs') \<Rightarrow>
                     (let m1 = upd_tracker (\<lambda>t. t\<lparr>tk_changes := filter (\<lambda>c. fc_group c \<noteq> g) (tk_changes t)\<rparr>) m
                      in (Inr reverted, foldl (\<lambda>m c. push_undone c m) m1 reverted, fs'))))"

definition UndoLastGroup :: "io \<Rightarrow> undo_manager \<times> files \<Rightarrow> (undo_error + file_change list) \<times> undo_manager \<times> files" where
  "UndoLastGroup io s =
     (case GetLast (um_tracker (fst s)) of
        None \<Rightarrow> (Inl NothingToUndo, s)
      | Some c \<Rightarrow>
          if fc_group c = []
          then (case Manager_Undo io s of (Inl err, s') \<Rightarrow> (Inl err, s') | (Inr c', s') \<Rightarrow> (Inr [c'], s'))
          else undoGroup io (fc_group c) s)"

definition UndoManager_CanUndo :: "undo_manager \<Rightarrow> bool" where
  "UndoManager_CanUndo m \<longleftrightarrow> tk_changes (um_tracker m) \<noteq> []"

definition CanRedo :: "undo_manager \<Rightarrow> bool" where
  "CanRedo m \<longleftrightarrow> um_undone m \<noteq> []"

definition UndoManager_Clear :: "undo_manager \<Rightarrow> undo_manager" where
  "UndoManager_Clear m = (upd_tracker Tracker_Clear m)\<lparr>um_undone := []\<rparr>"

definition RestoreChanges :: "file_change list \<Rightarrow> undo_manager \<Rightarrow> undo_manager" where
  "RestoreChanges cs m =
     (upd_tracker (\<lambda>t. foldl (\<lambda>t c. Tracker_Record c t) (Tracker_Clear t) cs) m)\<lparr>um_undone := []\<rparr>"

definition SetRedoStack :: "file_change list \<Rightarrow> undo_manager \<Rightarrow> undo_manager" where
  "SetRedoStack cs m = m\<lparr>um_undone := cs\<rparr>"

end
