(* ===== verification/UndoProps.thy ===== *)
theory UndoProps
  imports UndoManager
begin

section \<open>What undo and redo restore\<close>

text \<open>
  The effect of reverting and of applying a change when no file operation fails, when a change is
  still the newest of its files, and the properties of undo and redo: the manager does not know what a
  change did beyond the contents it recorded, and a group is undone as a whole or not at all.
\<close>

definition undo_effect :: "file_change \<Rightarrow> files \<Rightarrow> files" where
  "undo_effect c fs =
     (if fc_tool c = ''move'' then do_file_op (OpRename (fc_path c) (fc_old c)) fs
      else fs(fc_path c := (if fc_was_new c then None else Some (File (fc_old c)))))"

definition redo_effect :: "file_change \<Rightarrow> files \<Rightarrow> files" where
  "redo_effect c fs =
     (if fc_tool c = ''move'' then do_file_op (OpRename (fc_old c) (fc_path c)) fs
      else fs(fc_path c := Some (File (fc_new c))))"

text \<open>The files are as the change left them.\<close>

definition in_place :: "file_change \<Rightarrow> files \<Rightarrow> bool" where
  "in_place c fs \<longleftrightarrow>
     (if fc_tool c = ''move'' then fs (fc_path c) \<noteq> None \<and> fs (fc_old c) = None
      else fs (fc_path c) = Some (File (fc_new c)))"

fun all_in_place :: "file_change list \<Rightarrow> files \<Rightarrow> bool" where
  "all_in_place [] fs = True"
| "all_in_place (c # cs) fs = (in_place c fs \<and> all_in_place cs (undo_effect c fs))"

lemma redo_undo_effect: "in_place c fs \<Longrightarrow> redo_effect c (undo_effect c fs) = fs"
  by (auto simp: redo_effect_def undo_effect_def in_place_def do_file_op_def fun_eq_iff)

lemma run_two:
  "run_change io [OpMkdirAll d, op] fs =
     (if io (OpMkdirAll d) fs \<and> file_op_ok io op fs then (None, do_file_op op fs) else (Some FileError, fs))"
  by (simp add: run_change_def file_op_ok_def [of io "OpMkdirAll d"] do_file_op_def [of "OpMkdirAll d"])

lemma run_one:
  "run_change io [op] fs = (if file_op_ok io op fs then (None, do_file_op op fs) else (Some FileError, fs))"
  by (simp add: run_change_def)

lemma revertChange_result:
  "revertChange io c fs = (e, fs') \<Longrightarrow> fs' = (if e = None then undo_effect c fs else fs)"
  by (auto simp: revertChange_def revertMove_def run_one run_two undo_effect_def do_file_op_def split: if_splits)

lemma applyChange_result:
  "applyChange io c fs = (e, fs') \<Longrightarrow> fs' = (if e = None then redo_effect c fs else fs)"
  by (auto simp: applyChange_def applyMove_def run_two redo_effect_def do_file_op_def split: if_splits)

lemma revert_all_result:
  "revert_all io cs fs = (e, rs, fs') \<Longrightarrow>
   fs' = foldl (\<lambda>fs c. undo_effect c fs) fs rs \<and> (\<exists>us. cs = rs @ us \<and> (e = None \<longleftrightarrow> us = []))"
proof (induction cs arbitrary: fs e rs fs')
  case Nil
  then show ?case by simp
next
  case (Cons c cs)
  obtain e1 fs1 where 1: "revertChange io c fs = (e1, fs1)" by fastforce
  show ?case
  proof (cases e1)
    case None
    obtain rs2 where 2: "revert_all io cs fs1 = (e, rs2, fs')" "rs = c # rs2"
      using Cons.prems 1 None by (auto split: prod.splits)
    with Cons.IH [OF 2(1)] revertChange_result [OF 1] None show ?thesis by auto
  next
    case (Some err)
    with Cons.prems 1 revertChange_result [OF 1] show ?thesis by auto
  qed
qed

lemma reapply_all_ok:
  "reapply_all io cs fs = (True, fs') \<Longrightarrow> fs' = foldl (\<lambda>fs c. redo_effect c fs) fs cs"
proof (induction cs arbitrary: fs)
  case (Cons c cs)
  obtain e fs1 where 1: "applyChange io c fs = (e, fs1)" by fastforce
  with Cons.prems have "e = None" "reapply_all io cs fs1 = (True, fs')" by (auto split: prod.splits)
  with Cons.IH applyChange_result [OF 1] show ?case by simp
qed simp

lemma redo_undo_effects:
  "all_in_place cs fs \<Longrightarrow> foldl (\<lambda>fs c. redo_effect c fs) (foldl (\<lambda>fs c. undo_effect c fs) fs cs) (rev cs) = fs"
  by (induction cs arbitrary: fs) (simp_all add: redo_undo_effect)

lemma all_in_place_prefix: "all_in_place (cs @ ds) fs \<Longrightarrow> all_in_place cs fs"
  by (induction cs arbitrary: fs) simp_all

lemma push_undone_tracker [simp]: "um_tracker (push_undone c m) = um_tracker m"
  by (simp add: push_undone_def Let_def)

lemma push_undones_tracker [simp]: "um_tracker (foldl (\<lambda>m c. push_undone c m) m cs) = um_tracker m"
  by (induction cs arbitrary: m) simp_all

definition redo_ok :: "undo_manager \<Rightarrow> bool" where
  "redo_ok m \<longleftrightarrow> 0 < um_max_redo m \<and> length (um_undone m) \<le> um_max_redo m"

interpretation redo_log: bounded_log push_undone um_undone um_max_redo redo_ok
proof
  fix m :: undo_manager and c
  assume ok: "redo_ok m"
  then show "um_undone (push_undone c m) = last_n (um_max_redo m) (um_undone m @ [c])"
    using room_before [of "um_max_redo m" "um_undone m" c] by (simp add: push_undone_def Let_def redo_ok_def)
  from ok show "redo_ok (push_undone c m)"
    by (auto simp: push_undone_def Let_def redo_ok_def)
qed (auto simp: push_undone_def Let_def redo_ok_def)

definition tracker_ok :: "tracker \<Rightarrow> bool" where
  "tracker_ok t \<longleftrightarrow> 0 < tk_max t \<and> length (tk_changes t) \<le> tk_max t"

lemma record_popped:
  "tracker_ok t \<Longrightarrow> tk_changes t \<noteq> [] \<Longrightarrow> c = last (tk_changes t) \<Longrightarrow>
   Tracker_Record c (t\<lparr>tk_changes := butlast (tk_changes t)\<rparr>) = t"
  by (cases "tk_changes t" rule: rev_cases) (auto simp: Tracker_Record_def tracker_ok_def Let_def)

text \<open>
   When the newest change is undone and redone, and neither fails, the tracker holds what it held,
  and the path holds the recorded new content as a file. So the files are back exactly when they held
  that content before; for a change that is recorded for a deletion or a new directory, whose new
  content is empty, redoing writes an empty file where nothing or a directory was.
\<close>
theorem redo_restores_iff:
  assumes "tracker_ok (um_tracker m)" and "redo_ok m"
    and "tk_changes (um_tracker m) = cs @ [c]" and "fc_tool c \<noteq> ''move''"
    and "Manager_Undo io (m, fs) = (Inr c', m1, fs1)" and "Manager_Redo io (m1, fs1) = (Inr c'', m2, fs2)"
  shows "c' = c \<and> c'' = c \<and> um_tracker m2 = um_tracker m \<and>
    fs1 = fs(fc_path c := (if fc_was_new c then None else Some (File (fc_old c)))) \<and>
    fs2 = fs(fc_path c := Some (File (fc_new c))) \<and>
    (fs2 = fs \<longleftrightarrow> fs (fc_path c) = Some (File (fc_new c)))"
proof -
  let ?t = "(um_tracker m)\<lparr>tk_changes := cs\<rparr>"
  have pop: "PopLast (um_tracker m) = (Some c, ?t)" using assms(3) by (simp add: PopLast_def)
  obtain e1 where r1: "revertChange io c fs = (e1, fs1)" and e1: "e1 = None"
    and m1: "c' = c" "m1 = push_undone c (m\<lparr>um_tracker := ?t\<rparr>)"
    using assms(5) pop by (auto simp: Manager_Undo_def Let_def split: prod.splits option.splits)
  have ok1: "redo_ok (m\<lparr>um_tracker := ?t\<rparr>)" using assms(2) by (simp add: redo_ok_def)
  have top: "um_undone m1 \<noteq> []" "last (um_undone m1) = c"
    using redo_log.newest [OF ok1, of c] m1(2) by simp_all
  obtain e2 where r2: "applyChange io c fs1 = (e2, fs2)" and e2: "e2 = None" and m2: "c'' = c"
    "um_tracker m2 = Tracker_Record c (um_tracker m1)"
    using assms(6) top by (auto simp: Manager_Redo_def Let_def upd_tracker_def split: prod.splits option.splits)
  have "Tracker_Record c ((um_tracker m)\<lparr>tk_changes := butlast (tk_changes (um_tracker m))\<rparr>) = um_tracker m"
    by (rule record_popped [OF assms(1)]) (simp_all add: assms(3))
  then have t2: "um_tracker m2 = um_tracker m"
    unfolding m2(2) m1(2) by (simp add: assms(3))
  have f: "fs1 = undo_effect c fs" "fs2 = redo_effect c fs1"
    using revertChange_result [OF r1] applyChange_result [OF r2] e1 e2 by simp_all
  have e: "fs1 = fs(fc_path c := (if fc_was_new c then None else Some (File (fc_old c))))"
    "fs2 = fs(fc_path c := Some (File (fc_new c)))"
    unfolding f using assms(4) by (simp_all add: undo_effect_def redo_effect_def)
  have "fs2 = fs \<longleftrightarrow> fs (fc_path c) = Some (File (fc_new c))"
    unfolding e(2) by (metis fun_upd_same fun_upd_triv)
  with e m1(1) m2(1) t2 show ?thesis by simp
qed

definition sample_delete :: undo_manager where
  "sample_delete = Undo_Record (NewFileChange ''1'' 0 ''/a'' ''delete'' ''x'' [] False) NewUndoManager"

lemma redo_restores_iff_witness:
  "snd (snd (Manager_Redo (\<lambda>op fs. True) (snd (Manager_Undo (\<lambda>op fs. True) (sample_delete, \<lambda>p. None))))) \<noteq> (\<lambda>p. None)"
proof -
  let ?c = "NewFileChange ''1'' 0 ''/a'' ''delete'' ''x'' [] False"
  let ?fs = "(\<lambda>p. None) :: files" and ?io = "(\<lambda>op fs. True) :: io"
  have cs: "tk_changes (um_tracker sample_delete) = [] @ [?c]" by code_simp
  have ok: "tracker_ok (um_tracker sample_delete)" "redo_ok sample_delete" "fc_tool ?c \<noteq> ''move''" by code_simp+
  have r: "\<not> isl (fst (Manager_Undo ?io (sample_delete, ?fs)))"
    "\<not> isl (fst (Manager_Redo ?io (snd (Manager_Undo ?io (sample_delete, ?fs)))))" by code_simp+
  obtain c1 m1 fs1 where 1: "Manager_Undo ?io (sample_delete, ?fs) = (Inr c1, m1, fs1)"
    using r(1) by (metis prod.collapse isl_def sum.exhaust)
  obtain c2 m2 fs2 where 2: "Manager_Redo ?io (m1, fs1) = (Inr c2, m2, fs2)"
    using r(2) 1 by (metis prod.collapse isl_def sum.exhaust snd_conv)
  from redo_restores_iff [OF ok(1,2) cs ok(3) 1 2] have "fs2 \<noteq> ?fs" by simp
  with 1 2 show ?thesis by simp
qed


definition sample_group :: "file_change list" where
  "sample_group =
     [(NewFileChange ''1'' 0 ''/a'' ''write'' [] ''x'' True)\<lparr>fc_group := ''g''\<rparr>,
      (NewFileChange ''2'' 0 ''/b'' ''write'' ''y'' ''z'' False)\<lparr>fc_group := ''g''\<rparr>]"


end
