(* ===== verification/ToolPairs.thy ===== *)
theory ToolPairs
  imports Prelude
begin

section \<open>Tool calls and their responses in a history\<close>

text \<open>
  A conversation is a list of messages whose parts are text, calls of tools and responses to them; a
  provider refuses a history in which a call and its response are not together. Modelled are the three
  places that keep them together: \<^verbatim>\<open>internal/engine/chat/session.go\<close> and its twin
  \<^verbatim>\<open>internal/engine/context/tool_pairs.go\<close>, which move the place where a history is cut, and
  \<^verbatim>\<open>internal/engine/client/history_sanitizer.go\<close>, which drops what has lost its partner.
\<close>

subsection \<open>Messages\<close>

text \<open>
  The types of the client library, as far as the code uses them. Pointers may be nil; the arguments
  of a call and the content of a response are passed along unread, as text.
\<close>

record tool_part =
  tool_id :: string
  tool_name :: string
  tool_data :: string

record part =
  part_text :: string
  part_call :: "tool_part option"
  part_response :: "tool_part option"
  part_thought :: bool
  part_signature :: string

record message =
  msg_role :: string
  msg_parts :: "part option list"

type_synonym history = "message option list"

text \<open>The identifiers of the calls and of the responses, those that are not empty.\<close>

definition tool_ids :: "tool_part option \<Rightarrow> string list" where
  "tool_ids t = (case t of None \<Rightarrow> [] | Some f \<Rightarrow> if tool_id f \<noteq> [] then [tool_id f] else [])"

definition part_calls :: "part option \<Rightarrow> string list" where
  "part_calls p = (case p of None \<Rightarrow> [] | Some q \<Rightarrow> tool_ids (part_call q))"

definition part_responses :: "part option \<Rightarrow> string list" where
  "part_responses p = (case p of None \<Rightarrow> [] | Some q \<Rightarrow> tool_ids (part_response q))"

definition msg_calls :: "message option \<Rightarrow> string list" where
  "msg_calls m = (case m of None \<Rightarrow> [] | Some c \<Rightarrow> concat (map part_calls (msg_parts c)))"

definition msg_responses :: "message option \<Rightarrow> string list" where
  "msg_responses m = (case m of None \<Rightarrow> [] | Some c \<Rightarrow> concat (map part_responses (msg_parts c)))"

definition calls_of :: "history \<Rightarrow> string list" where
  "calls_of h = concat (map msg_calls h)"

definition responses_of :: "history \<Rightarrow> string list" where
  "responses_of h = concat (map msg_responses h)"

subsection \<open>Where a history is cut\<close>

definition collectToolIDs :: "history \<Rightarrow> nat \<Rightarrow> string list \<times> string list" where
  "collectToolIDs h boundary = (calls_of (drop boundary h), responses_of (drop boundary h))"

text \<open>
  The scan to the left looks at the message before \<open>i\<close>, as long as that is at most ten before the
  boundary, which moves with the scan; the scan to the right looks at the ten messages from where the
  first one left the boundary, up to one that holds no orphaned response.
\<close>

fun scan_left :: "history \<Rightarrow> string list \<Rightarrow> nat \<Rightarrow> nat \<Rightarrow> nat" where
  "scan_left h responses 0 adjusted = adjusted"
| "scan_left h responses (Suc i) adjusted =
     (if adjusted \<le> i + 10
      then scan_left h responses i (if list_ex (\<lambda>c. c \<in> set responses) (msg_calls (h ! i)) then i else adjusted)
      else adjusted)"

fun scan_right :: "string list \<Rightarrow> history \<Rightarrow> nat \<Rightarrow> nat \<Rightarrow> nat" where
  "scan_right calls [] i adjusted = adjusted"
| "scan_right calls (m # ms) i adjusted =
     (case m of
        None \<Rightarrow> scan_right calls ms (Suc i) adjusted
      | Some c \<Rightarrow>
          if list_ex (\<lambda>r. r \<notin> set calls) (msg_responses m) then scan_right calls ms (Suc i) (Suc i) else adjusted)"

fun adjust_loop :: "nat \<Rightarrow> history \<Rightarrow> nat \<Rightarrow> nat" where
  "adjust_loop 0 h adjusted = adjusted"
| "adjust_loop (Suc n) h adjusted =
     (let prev = adjusted;
          a1 = scan_left h (snd (collectToolIDs h adjusted)) adjusted adjusted;
          a2 = scan_right (fst (collectToolIDs h a1)) (take 10 (drop a1 h)) a1 a1
      in if a2 = prev then a2 else adjust_loop n h a2)"

definition adjustBoundaryForToolPairs :: "history \<Rightarrow> int \<Rightarrow> int" where
  "adjustBoundaryForToolPairs h boundary =
     (if boundary \<le> 0 \<or> int (length h) \<le> boundary then boundary
      else int (min (adjust_loop 3 h (nat boundary)) (length h)))"

text \<open>After a cut on the right: the messages at the end that only answer calls no longer there go.\<close>

definition orphan_part :: "string list \<Rightarrow> part option \<Rightarrow> bool" where
  "orphan_part calls p =
     (case p of
        None \<Rightarrow> True
      | Some q \<Rightarrow>
          if part_responses p \<noteq> [] then list_all (\<lambda>r. r \<notin> set calls) (part_responses p)
          else part_text q = [] \<and> part_call q = None)"

fun drop_orphans :: "string list \<Rightarrow> history \<Rightarrow> history" where
  "drop_orphans calls [] = []"
| "drop_orphans calls (m # ms) =
     (case m of
        None \<Rightarrow> drop_orphans calls ms
      | Some c \<Rightarrow>
          if msg_responses m \<noteq> [] \<and> list_all (orphan_part calls) (msg_parts c) then drop_orphans calls ms
          else m # ms)"

definition removeOrphanedToolParts :: "history \<Rightarrow> history" where
  "removeOrphanedToolParts h = rev (drop_orphans (calls_of h) (rev h))"

subsection \<open>The sanitizer of the client\<close>

text \<open>
  Calls and responses are counted per identifier; of each as many are kept, the first ones, as there
  are partners. The counts of a Go map are zero for what it does not hold. The responses still to be
  sent count as present.
\<close>

type_synonym counts = "string \<Rightarrow> nat"

definition pending_ids :: "tool_part option list \<Rightarrow> string list" where
  "pending_ids pending = concat (map tool_ids pending)"

definition tool_budget :: "history \<Rightarrow> tool_part option list \<Rightarrow> counts" where
  "tool_budget h pending =
     (\<lambda>i. min (count_list (calls_of h) i) (count_list (responses_of h @ pending_ids pending) i))"

text \<open>A part that carries an identifier takes one from the budget of that identifier, or is dropped.\<close>

definition spend :: "string list \<Rightarrow> counts \<Rightarrow> bool \<times> counts" where
  "spend ids budget =
     (case ids of [] \<Rightarrow> (True, budget)
      | i # _ \<Rightarrow> if 0 < budget i then (True, budget(i := budget i - 1)) else (False, budget))"

fun keep_parts :: "part option list \<Rightarrow> counts \<times> counts \<Rightarrow> part option list \<times> counts \<times> counts" where
  "keep_parts [] b = ([], b)"
| "keep_parts (p # ps) b =
     (if p = None then keep_parts ps b
      else let (ok1, cb) = spend (part_calls p) (fst b); (ok2, rb) = spend (part_responses p) (snd b);
               (qs, b') = keep_parts ps (cb, rb)
           in (if ok1 \<and> ok2 then p # qs else qs, b'))"

fun keep_messages :: "history \<Rightarrow> counts \<times> counts \<Rightarrow> history" where
  "keep_messages [] b = []"
| "keep_messages (m # ms) b =
     (case m of
        None \<Rightarrow> keep_messages ms b
      | Some c \<Rightarrow>
          (let (ps, b') = keep_parts (msg_parts c) b
           in if ps = [] then keep_messages ms b' else Some (c\<lparr>msg_parts := ps\<rparr>) # keep_messages ms b'))"

definition no_orphans :: "history \<Rightarrow> tool_part option list \<Rightarrow> bool" where
  "no_orphans h pending \<longleftrightarrow>
     list_all (\<lambda>i. count_list (calls_of h) i = count_list (responses_of h @ pending_ids pending) i)
       (calls_of h @ responses_of h @ pending_ids pending)"

definition sanitizeToolPairsWithPendingResults :: "history \<Rightarrow> tool_part option list \<Rightarrow> history" where
  "sanitizeToolPairsWithPendingResults h pending =
     (if h = [] then h
      else if no_orphans h pending then h
      else keep_messages h (tool_budget h pending, tool_budget h pending))"

definition sanitizeToolPairs :: "history \<Rightarrow> history" where
  "sanitizeToolPairs h = sanitizeToolPairsWithPendingResults h []"

end
