(* ===== verification/ChatSession.thy ===== *)
theory ChatSession
  imports ToolPairs "HOL-Library.Char_ord" "HOL-Library.List_Lexorder"
begin

section \<open>Chat sessions\<close>

text \<open>
  \<^verbatim>\<open>internal/engine/chat/session.go\<close> and \<^verbatim>\<open>session_state.go\<close>: a session is the history of a
  conversation with token counts, a version, named checkpoints and branches, which are sessions
  themselves. An operation that announces a change returns the events sent to the handler, if there is
  one. Exports and the redaction of secrets are left out.
\<close>

subsection \<open>The state\<close>

record tool_checkpoint =
  tc_call_id :: string
  tc_tool :: string
  tc_args :: string
  tc_result :: string
  tc_signature :: string
  tc_time :: gotime

record session_core =
  se_id :: string
  se_start :: gotime
  se_work_dir :: string
  se_history :: history
  se_checkpoints :: "(string \<times> int) list"
  se_system :: string
  se_tokens :: "int list"
  se_total :: int
  se_version :: int
  se_watched :: bool
  se_scratchpad :: string
  se_tool_checkpoints :: "tool_checkpoint list"

datatype session = Session (core_of: session_core) (branches_of: "(string \<times> session) list")

record change_event =
  ce_old :: nat
  ce_new :: nat
  ce_version :: int

definition MaxMessages :: nat where
  "MaxMessages = 100"

definition new_core :: "string \<Rightarrow> gotime \<Rightarrow> session_core" where
  "new_core newID now =
     \<lparr>se_id = newID, se_start = now, se_work_dir = [], se_history = [], se_checkpoints = [], se_system = [], se_tokens = [],
      se_total = 0, se_version = 0, se_watched = False, se_scratchpad = [], se_tool_checkpoints = []\<rparr>"

definition NewSession :: "string \<Rightarrow> gotime \<Rightarrow> session" where
  "NewSession newID now = Session (new_core newID now) []"

subsection \<open>Messages\<close>

definition notifyChange :: "nat \<Rightarrow> session_core \<Rightarrow> session_core \<times> change_event list" where
  "notifyChange oldCount s =
     (s, if se_watched s then [\<lparr>ce_old = oldCount, ce_new = length (se_history s), ce_version = se_version s\<rparr>] else [])"

definition trimHistory :: "session_core \<Rightarrow> session_core" where
  "trimHistory s =
     (if length (se_history s) \<le> MaxMessages then s
      else let boundary = adjustBoundaryForToolPairs (se_history s) (int (length (se_history s)) - int MaxMessages);
               s1 = s\<lparr>se_history := drop (nat boundary) (se_history s)\<rparr>
           in if boundary < int (length (se_tokens s))
              then let ts = drop (nat boundary) (se_tokens s) in s1\<lparr>se_tokens := ts, se_total := sum_list ts\<rparr>
              else s1\<lparr>se_tokens := [], se_total := 0\<rparr>)"

definition AddContent :: "message option \<Rightarrow> session_core \<Rightarrow> session_core \<times> change_event list" where
  "AddContent m s =
     notifyChange (length (se_history s))
       (trimHistory (s\<lparr>se_history := se_history s @ [m], se_version := se_version s + 1\<rparr>))"

definition text_content :: "string \<Rightarrow> string \<Rightarrow> message option" where
  "text_content txt role =
     Some \<lparr>msg_role = role,
       msg_parts = [Some \<lparr>part_text = txt, part_call = None, part_response = None, part_thought = False, part_signature = []\<rparr>]\<rparr>"

definition AddUserMessage :: "string \<Rightarrow> session_core \<Rightarrow> session_core \<times> change_event list" where
  "AddUserMessage txt s = AddContent (text_content txt ''user'') s"

definition AddModelMessage :: "string \<Rightarrow> session_core \<Rightarrow> session_core \<times> change_event list" where
  "AddModelMessage txt s = AddContent (text_content txt ''model'') s"

definition AddContentWithTokens :: "message option \<Rightarrow> int \<Rightarrow> session_core \<Rightarrow> session_core \<times> change_event list" where
  "AddContentWithTokens m n s =
     notifyChange (length (se_history s))
       (s\<lparr>se_history := se_history s @ [m], se_tokens := se_tokens s @ [n], se_total := se_total s + n,
          se_version := se_version s + 1\<rparr>)"

definition window :: "history \<Rightarrow> history" where
  "window h =
     (if MaxMessages < length h
      then drop (nat (adjustBoundaryForToolPairs h (int (length h) - int MaxMessages))) h else h)"

definition SetHistory :: "history \<Rightarrow> session_core \<Rightarrow> session_core \<times> change_event list" where
  "SetHistory h s =
     notifyChange (length (se_history s))
       (s\<lparr>se_history := window h, se_tokens := [], se_total := 0, se_version := se_version s + 1\<rparr>)"

definition SetHistoryIfVersion :: "history \<Rightarrow> int \<Rightarrow> session_core \<Rightarrow> bool \<times> session_core \<times> change_event list" where
  "SetHistoryIfVersion h expected s =
     (if se_version s \<noteq> expected then (False, s, []) else (True, SetHistory h s))"

definition Session_Clear :: "session_core \<Rightarrow> session_core \<times> change_event list" where
  "Session_Clear s =
     notifyChange (length (se_history s)) (s\<lparr>se_history := [], se_tokens := [], se_total := 0, se_version := se_version s + 1\<rparr>)"

text \<open>A negative index makes Go's slicing panic, which is \<open>None\<close>.\<close>

definition ReplaceWithSummary :: "int \<Rightarrow> message option \<Rightarrow> int \<Rightarrow> session_core \<Rightarrow> session_core option" where
  "ReplaceWithSummary upTo summary summaryTokens s =
     (let i = adjustBoundaryForToolPairs (se_history s) (min upTo (int (length (se_history s))));
          ts = (if i \<le> int (length (se_tokens s)) then drop (nat i) (se_tokens s) else [])
      in if i < 0 then None
         else Some (s\<lparr>se_history := summary # drop (nat i) (se_history s), se_tokens := summaryTokens # ts,
                      se_total := summaryTokens + sum_list ts, se_version := se_version s + 1\<rparr>))"

definition SetTotalTokens :: "int \<Rightarrow> session_core \<Rightarrow> session_core" where
  "SetTotalTokens n s = s\<lparr>se_total := n\<rparr>"

definition Session_SetWorkDir :: "string \<Rightarrow> session_core \<Rightarrow> session_core" where
  "Session_SetWorkDir dir s = s\<lparr>se_work_dir := dir\<rparr>"

definition SetScratchpad :: "string \<Rightarrow> session_core \<Rightarrow> session_core" where
  "SetScratchpad txt s = s\<lparr>se_scratchpad := txt\<rparr>"

definition SetToolCheckpoints :: "tool_checkpoint list \<Rightarrow> session_core \<Rightarrow> session_core" where
  "SetToolCheckpoints cs s = s\<lparr>se_tool_checkpoints := cs\<rparr>"

definition SetChangeHandler :: "bool \<Rightarrow> session_core \<Rightarrow> session_core" where
  "SetChangeHandler present s = s\<lparr>se_watched := present\<rparr>"

subsection \<open>Branches and checkpoints\<close>

definition Fork :: "string \<Rightarrow> string \<Rightarrow> gotime \<Rightarrow> session \<Rightarrow> session \<times> session" where
  "Fork name newID now s =
     (let c = core_of s;
          b = Session ((new_core newID now)\<lparr>se_work_dir := se_work_dir c, se_history := se_history c, se_tokens := se_tokens c,
                 se_total := se_total c, se_scratchpad := se_scratchpad c, se_system := se_system c\<rparr>) []
      in (b, Session c (AList.update name b (branches_of s))))"

definition GetBranch :: "string \<Rightarrow> session \<Rightarrow> session option" where
  "GetBranch name s = map_of (branches_of s) name"

text \<open>Names come sorted; checkpoints by their index, those with the same one in the order of the map, which is any.\<close>

definition ListBranches :: "session \<Rightarrow> string list" where
  "ListBranches s = sort (map fst (branches_of s))"

definition ListCheckpoints :: "(string \<times> int) list \<Rightarrow> string list" where
  "ListCheckpoints entries = map fst (sort_key snd entries)"

definition Session_SaveCheckpoint :: "string \<Rightarrow> session_core \<Rightarrow> session_core" where
  "Session_SaveCheckpoint name s =
     s\<lparr>se_checkpoints := AList.update name (int (length (se_history s))) (se_checkpoints s)\<rparr>"

definition truncate_history :: "int \<Rightarrow> session_core \<Rightarrow> session_core" where
  "truncate_history idx s =
     (let s1 = (if idx < int (length (se_history s))
                then s\<lparr>se_history := removeOrphanedToolParts (take (nat idx) (se_history s))\<rparr> else s);
          n = length (se_history s1)
      in if n < length (se_tokens s1)
         then s1\<lparr>se_tokens := take n (se_tokens s1), se_total := sum_list (take n (se_tokens s1))\<rparr> else s1)"

definition RestoreCheckpoint :: "string \<Rightarrow> session_core \<Rightarrow> (bool \<times> session_core) option" where
  "RestoreCheckpoint name s =
     (case map_of (se_checkpoints s) name of
        None \<Rightarrow> Some (False, s)
      | Some idx \<Rightarrow>
          if idx < 0 then None
          else let s1 = truncate_history idx s
               in Some (True, s1\<lparr>se_checkpoints := filter (\<lambda>(n, i). i \<le> idx) (se_checkpoints s1),
                                  se_version := se_version s1 + 1\<rparr>))"

subsection \<open>The saved form\<close>

record saved_part =
  sp_type :: string
  sp_text :: string
  sp_call :: "tool_part option"
  sp_response :: "tool_part option"
  sp_thought :: bool
  sp_signature :: string

record saved_content =
  sc_role :: string
  sc_parts :: "saved_part list"

record state_core =
  st_id :: string
  st_start :: gotime
  st_last_active :: gotime
  st_work_dir :: string
  st_history :: "saved_content list"
  st_tokens :: "int list"
  st_total :: int
  st_version :: int
  st_summary :: string
  st_scratchpad :: string
  st_system :: string
  st_checkpoints :: "(string \<times> int) list"
  st_tool_checkpoints :: "tool_checkpoint list"

datatype session_state = SessionState (state_core_of: state_core) (saved_branches: "(string \<times> session_state) list")

text \<open>Reading a nil part or a nil message panics.\<close>

definition serializePart :: "part option \<Rightarrow> saved_part option" where
  "serializePart p =
     (case p of
        None \<Rightarrow> None
      | Some q \<Rightarrow>
          Some (let sp = \<lparr>sp_type = [], sp_text = [], sp_call = None, sp_response = None,
                          sp_thought = part_thought q, sp_signature = part_signature q\<rparr>
                in case part_call q of
                     Some f \<Rightarrow> sp\<lparr>sp_type := ''function_call'', sp_call := Some f\<rparr>
                   | None \<Rightarrow>
                       (case part_response q of
                          Some r \<Rightarrow> sp\<lparr>sp_type := ''function_response'', sp_response := Some r\<rparr>
                        | None \<Rightarrow> sp\<lparr>sp_type := ''text'', sp_text := (if part_text q \<noteq> [] then part_text q else '' '')\<rparr>)))"

definition SerializeContent :: "message option \<Rightarrow> saved_content option" where
  "SerializeContent m =
     (case m of
        None \<Rightarrow> None
      | Some c \<Rightarrow>
          (case those (map serializePart (msg_parts c)) of
             None \<Rightarrow> None | Some ps \<Rightarrow> Some \<lparr>sc_role = msg_role c, sc_parts = ps\<rparr>))"

definition plain_text :: "string \<Rightarrow> part" where
  "plain_text s = \<lparr>part_text = s, part_call = None, part_response = None, part_thought = False, part_signature = []\<rparr>"

text \<open>Reading back never fails, although the code returns an error.\<close>

definition deserializePart :: "saved_part \<Rightarrow> part" where
  "deserializePart sp =
     (let txt = plain_text (if sp_text sp = [] then '' '' else sp_text sp);
          p = (if sp_type sp = ''text'' then txt
               else if sp_type sp = ''function_call'' then
                 (case sp_call sp of None \<Rightarrow> plain_text '' '' | Some f \<Rightarrow> (plain_text [])\<lparr>part_call := Some f\<rparr>)
               else if sp_type sp = ''function_response'' then
                 (case sp_response sp of None \<Rightarrow> plain_text '' '' | Some r \<Rightarrow> (plain_text [])\<lparr>part_response := Some r\<rparr>)
               else txt)
      in p\<lparr>part_thought := sp_thought sp, part_signature := sp_signature sp\<rparr>)"

definition DeserializeContent :: "saved_content \<Rightarrow> message" where
  "DeserializeContent sc = \<lparr>msg_role = sc_role sc, msg_parts = map (Some \<circ> deserializePart) (sc_parts sc)\<rparr>"

text \<open>
  Old sessions have calls without an identifier; they get new ones, the \<open>n\<close>-th one drawn being
  \<open>draw n\<close>, and the responses of the next message the same in their order.
\<close>

fun name_calls :: "string list \<Rightarrow> part option list \<Rightarrow> part option list" where
  "name_calls ids [] = []"
| "name_calls ids (p # ps) =
     (case (p, ids) of
        (Some q, i # is) \<Rightarrow>
          (case part_call q of
             Some f \<Rightarrow> if tool_id f = [] then Some (q\<lparr>part_call := Some (f\<lparr>tool_id := i\<rparr>)\<rparr>) # name_calls is ps
                       else p # name_calls ids ps
           | None \<Rightarrow> p # name_calls ids ps)
      | _ \<Rightarrow> p # name_calls ids ps)"

fun name_responses :: "string list \<Rightarrow> part option list \<Rightarrow> part option list" where
  "name_responses ids [] = []"
| "name_responses ids (p # ps) =
     (case (p, ids) of
        (Some q, i # is) \<Rightarrow>
          (case part_response q of
             Some f \<Rightarrow> if tool_id f = [] then Some (q\<lparr>part_response := Some (f\<lparr>tool_id := i\<rparr>)\<rparr>) # name_responses is ps
                       else p # name_responses ids ps
           | None \<Rightarrow> p # name_responses ids ps)
      | _ \<Rightarrow> p # name_responses ids ps)"

definition unnamed_call :: "part option \<Rightarrow> bool" where
  "unnamed_call p \<longleftrightarrow> (case p of None \<Rightarrow> False | Some q \<Rightarrow>
     (case part_call q of None \<Rightarrow> False | Some f \<Rightarrow> tool_id f = []))"

fun fixEmptyToolIDs :: "(nat \<Rightarrow> string) \<Rightarrow> nat \<Rightarrow> message list \<Rightarrow> message list" where
  "fixEmptyToolIDs draw n [] = []"
| "fixEmptyToolIDs draw n [c] = [c]"
| "fixEmptyToolIDs draw n (c # c' # cs) =
     (let k = length (filter unnamed_call (msg_parts c)); ids = map draw [n..<n + k]
      in if msg_role c = ''model'' \<and> msg_role c' = ''user'' \<and> 0 < k
         then c\<lparr>msg_parts := name_calls ids (msg_parts c)\<rparr> #
              fixEmptyToolIDs draw (n + k) (c'\<lparr>msg_parts := name_responses ids (msg_parts c')\<rparr> # cs)
         else c # fixEmptyToolIDs draw n (c' # cs))"

definition content_text :: "saved_content \<Rightarrow> string" where
  "content_text c =
     (case find (\<lambda>p. sp_type p = ''text'' \<and> sp_text p \<noteq> []) (sc_parts c) of None \<Rightarrow> [] | Some p \<Rightarrow> sp_text p)"

definition GenerateSummary :: "saved_content list \<Rightarrow> string" where
  "GenerateSummary h =
     (case find (\<lambda>c. sc_role c = ''user'' \<and> sc_parts c \<noteq> []) (drop 2 h) of
        None \<Rightarrow> []
      | Some c \<Rightarrow> let s = content_text c in if 100 < length s then take 97 s @ ''...'' else s)"

definition state_of_core :: "gotime \<Rightarrow> session_core \<Rightarrow> state_core option" where
  "state_of_core now s =
     (case those (map SerializeContent (se_history s)) of
        None \<Rightarrow> None
      | Some h \<Rightarrow>
          Some \<lparr>st_id = se_id s, st_start = se_start s, st_last_active = now, st_work_dir = se_work_dir s, st_history = h,
                st_tokens = se_tokens s, st_total = se_total s, st_version = se_version s, st_summary = GenerateSummary h,
                st_scratchpad = se_scratchpad s, st_system = se_system s, st_checkpoints = se_checkpoints s,
                st_tool_checkpoints = se_tool_checkpoints s\<rparr>)"

primrec GetState :: "gotime \<Rightarrow> session \<Rightarrow> session_state option"
  and branch_states :: "gotime \<Rightarrow> (string \<times> session) list \<Rightarrow> (string \<times> session_state) list option"
  and branch_state :: "gotime \<Rightarrow> string \<times> session \<Rightarrow> (string \<times> session_state) option" where
  "GetState now (Session c bs) =
     (case state_of_core now c of
        None \<Rightarrow> None
      | Some st \<Rightarrow> (case branch_states now bs of None \<Rightarrow> None | Some sts \<Rightarrow> Some (SessionState st sts)))"
| "branch_states now [] = Some []"
| "branch_states now (b # bs) =
     (case branch_state now b of
        None \<Rightarrow> None
      | Some st \<Rightarrow> (case branch_states now bs of None \<Rightarrow> None | Some sts \<Rightarrow> Some (st # sts)))"
| "branch_state now (p, s) = (case GetState now s of None \<Rightarrow> None | Some st \<Rightarrow> Some (p, st))"

definition restore_core :: "(nat \<Rightarrow> string) \<Rightarrow> state_core \<Rightarrow> session_core \<Rightarrow> session_core" where
  "restore_core draw st s =
     s\<lparr>se_id := st_id st, se_start := st_start st, se_work_dir := st_work_dir st,
       se_history := map Some (fixEmptyToolIDs draw 0 (map DeserializeContent (st_history st))),
       se_tokens := st_tokens st, se_total := st_total st, se_version := st_version st, se_scratchpad := st_scratchpad st,
       se_system := st_system st,
       se_checkpoints := (if st_checkpoints st \<noteq> [] then st_checkpoints st else se_checkpoints s),
       se_tool_checkpoints := (if st_tool_checkpoints st \<noteq> [] then st_tool_checkpoints st else se_tool_checkpoints s)\<rparr>"

text \<open>The identifiers drawn for a branch are those of its path of names.\<close>

primrec restored :: "(string list \<Rightarrow> nat \<Rightarrow> string) \<Rightarrow> string list \<Rightarrow> session_state \<Rightarrow> session"
  and restored_branches :: "(string list \<Rightarrow> nat \<Rightarrow> string) \<Rightarrow> string list \<Rightarrow> (string \<times> session_state) list \<Rightarrow> (string \<times> session) list"
  and restored_branch :: "(string list \<Rightarrow> nat \<Rightarrow> string) \<Rightarrow> string list \<Rightarrow> string \<times> session_state \<Rightarrow> string \<times> session" where
  "restored draw path (SessionState st bs) =
     Session (restore_core (draw path) st (new_core [] 0)) (restored_branches draw path bs)"
| "restored_branches draw path [] = []"
| "restored_branches draw path (b # bs) = restored_branch draw path b # restored_branches draw path bs"
| "restored_branch draw path (name, st) = (name, restored draw (path @ [name]) st)"

text \<open>
  A branch is restored into a new session, whose identifier and start are those of the state, the session itself over what it holds: a state without
  checkpoints, branches or tool checkpoints leaves those of the session in place.
\<close>

definition RestoreFromState :: "(string list \<Rightarrow> nat \<Rightarrow> string) \<Rightarrow> session_state \<Rightarrow> session \<Rightarrow> session" where
  "RestoreFromState draw st s =
     Session (restore_core (draw []) (state_core_of st) (core_of s))
       (if saved_branches st \<noteq> [] then restored_branches draw [] (saved_branches st) else branches_of s)"

end
