(* ===== verification/ChatStore.thy ===== *)
theory ChatStore
  imports PlanStore ChatSession
begin

section \<open>Sessions on disk\<close>

text \<open>
  \<^verbatim>\<open>internal/engine/chat/history.go\<close> and \<^verbatim>\<open>session_manager.go\<close>: a directory of full session states
  and one of plain transcripts, as lists of named files in the order of their names with what decoding
  a file gives; and the manager that saves its session from a background saver, a timer and when it
  stops, loads the last one of a directory and removes old ones. A write or a removal succeeds or not
  (\<open>io\<close>) and a failed one changes nothing.
\<close>

datatype chat_error = InvalidSessionId | SessionNotFound | ReadFailed | SessionMismatch string string | WriteFailed |
  NilMessage | RemoveFailed

subsection \<open>Transcripts\<close>

record history_entry =
  he_role :: string
  he_content :: string
  he_time :: gotime

record history_file =
  hf_session :: string
  hf_start :: gotime
  hf_end :: gotime
  hf_entries :: "history_entry list"

type_synonym 'a store_dir = "(string \<times> 'a option) list"

definition entry_of :: "gotime \<Rightarrow> saved_content \<Rightarrow> history_entry" where
  "entry_of now c = \<lparr>he_role = sc_role c, he_content = concat (map sp_text (sc_parts c)), he_time = now\<rparr>"

text \<open>\<open>GetState\<close> panics on a nil message, which is the error \<open>NilMessage\<close> here.\<close>

definition History_Save :: "bool \<Rightarrow> gotime \<Rightarrow> session \<Rightarrow> history_file store_dir \<Rightarrow> chat_error option \<times> history_file store_dir" where
  "History_Save io now s d =
     (case GetState now s of
        None \<Rightarrow> (Some NilMessage, d)
      | Some st \<Rightarrow>
          let i = st_id (state_core_of st);
              f = \<lparr>hf_session = i, hf_start = st_start (state_core_of st), hf_end = now,
                   hf_entries = map (entry_of now) (st_history (state_core_of st))\<rparr>
          in if \<not> SafeFilenameComponent i then (Some InvalidSessionId, d)
             else if io then (None, dir_write i (Some f) d)
             else (Some WriteFailed, d))"

definition History_Load :: "string \<Rightarrow> history_file store_dir \<Rightarrow> chat_error + history_file" where
  "History_Load i d =
     (if \<not> SafeFilenameComponent i then Inl InvalidSessionId
      else case map_of d i of
             None \<Rightarrow> Inl SessionNotFound
           | Some None \<Rightarrow> Inl ReadFailed
           | Some (Some f) \<Rightarrow> if hf_session f \<noteq> i then Inl (SessionMismatch i (hf_session f)) else Inr f)"

definition History_List :: "history_file store_dir \<Rightarrow> string list" where
  "History_List d = filter SafeFilenameComponent (map fst d)"

definition Store_remove :: "bool \<Rightarrow> string \<Rightarrow> 'a store_dir \<Rightarrow> chat_error option \<times> 'a store_dir" where
  "Store_remove io i d =
     (if \<not> SafeFilenameComponent i then (Some InvalidSessionId, d)
      else if map_of d i = None then (Some SessionNotFound, d)
      else if io then (None, dir_remove i d)
      else (Some RemoveFailed, d))"

definition History_Delete :: "bool \<Rightarrow> string \<Rightarrow> history_file store_dir \<Rightarrow> chat_error option \<times> history_file store_dir" where
  "History_Delete io i d = Store_remove io i d"

subsection \<open>Full sessions\<close>

type_synonym session_dir = "session_state store_dir"

record session_info =
  si_id :: string
  si_start :: gotime
  si_last_active :: gotime
  si_summary :: string
  si_count :: nat
  si_work_dir :: string

abbreviation state_id :: "session_state \<Rightarrow> string" where
  "state_id st \<equiv> st_id (state_core_of st)"

definition save_state :: "bool \<Rightarrow> session_state \<Rightarrow> session_dir \<Rightarrow> chat_error option \<times> session_dir" where
  "save_state io st d =
     (if \<not> SafeFilenameComponent (state_id st) then (Some InvalidSessionId, d)
      else if io then (None, dir_write (state_id st) (Some st) d)
      else (Some WriteFailed, d))"

definition SaveFull :: "bool \<Rightarrow> gotime \<Rightarrow> session \<Rightarrow> session_dir \<Rightarrow> chat_error option \<times> session_dir" where
  "SaveFull io now s d = (case GetState now s of None \<Rightarrow> (Some NilMessage, d) | Some st \<Rightarrow> save_state io st d)"

definition load_full :: "string \<Rightarrow> session_dir \<Rightarrow> chat_error + session_state" where
  "load_full i d =
     (case map_of d i of
        None \<Rightarrow> Inl SessionNotFound
      | Some None \<Rightarrow> Inl ReadFailed
      | Some (Some st) \<Rightarrow>
          if state_id st \<noteq> i then Inl (SessionMismatch i (state_id st)) else Inr st)"

definition LoadFull :: "string \<Rightarrow> session_dir \<Rightarrow> chat_error + session_state" where
  "LoadFull i d = (if \<not> SafeFilenameComponent i then Inl InvalidSessionId else load_full i d)"

definition info_of_state :: "session_state \<Rightarrow> session_info" where
  "info_of_state st =
     (let c = state_core_of st
      in \<lparr>si_id = st_id c, si_start = st_start c, si_last_active = st_last_active c, si_summary = st_summary c,
          si_count = length (st_history c), si_work_dir = st_work_dir c\<rparr>)"

definition ListSessions :: "session_dir \<Rightarrow> session_info list" where
  "ListSessions d =
     List.map_filter (\<lambda>(n, c).
       if \<not> SafeFilenameComponent n then None
       else case load_full n d of Inl e \<Rightarrow> None | Inr st \<Rightarrow> Some (info_of_state st)) d"

definition DeleteSession :: "bool \<Rightarrow> string \<Rightarrow> session_dir \<Rightarrow> chat_error option \<times> session_dir" where
  "DeleteSession io i d = Store_remove io i d"

text \<open>The contract of the plan store holds of the session store, too.\<close>

interpretation session_store: keyed_store save_state LoadFull DeleteSession "\<lambda>st. state_id st" "\<lambda>st. st"
proof
  show "LoadFull (state_id st) (snd (save_state io st d)) = Inr st" if "fst (save_state io st d) = None" for io st d
    using that by (simp add: save_state_def LoadFull_def load_full_def map_of_dir_write split: if_splits)
  show "LoadFull k (snd (save_state io st d)) = LoadFull k d" if "k \<noteq> state_id st" for k io st d
    using that by (simp add: save_state_def LoadFull_def load_full_def map_of_dir_write)
  show "snd (save_state io st d) = d" if "fst (save_state io st d) \<noteq> None" for io st d
    using that by (simp add: save_state_def split: if_splits)
  show "\<exists>e. LoadFull k (snd (DeleteSession io k d)) = Inl e" if "fst (DeleteSession io k d) = None" for io k d
    using that
    by (simp add: DeleteSession_def Store_remove_def LoadFull_def load_full_def map_of_dir_remove split: if_splits)
  show "LoadFull j (snd (DeleteSession io k d)) = LoadFull j d" if "j \<noteq> k" for j k io d
    using that by (simp add: DeleteSession_def Store_remove_def LoadFull_def load_full_def map_of_dir_remove)
qed

subsection \<open>The session manager\<close>

record manager_config =
  mc_enabled :: bool
  mc_interval :: duration
  mc_auto_load :: bool
  mc_max_age :: duration
  mc_max_count :: int

definition DefaultSessionManagerConfig :: manager_config where
  "DefaultSessionManagerConfig =
     \<lparr>mc_enabled = True, mc_interval = 120 * 1000000000, mc_auto_load = True,
      mc_max_age = 30 * 24 * 3600 * 1000000000, mc_max_count = 50\<rparr>"

text \<open>
  The channel of the saver holds at most one request; \<open>sm_pending\<close> says whether it does, and
  \<open>sm_channel\<close> whether it is there. The saver runs, and the timer is armed, while the manager is
  started and not stopped.
\<close>

record session_manager =
  sm_session :: session
  sm_config :: manager_config
  sm_dir :: session_dir
  sm_last_save :: gotime
  sm_channel :: bool
  sm_pending :: bool
  sm_started :: bool
  sm_stopped :: bool

definition NewSessionManager :: "session \<Rightarrow> manager_config \<Rightarrow> session_dir \<Rightarrow> session_manager" where
  "NewSessionManager s c d =
     \<lparr>sm_session = s, sm_config = c, sm_dir = d, sm_last_save = zero_time, sm_channel = False, sm_pending = False,
      sm_started = False, sm_stopped = False\<rparr>"

definition SessionManager_Start :: "gotime \<Rightarrow> session_manager \<Rightarrow> session_manager" where
  "SessionManager_Start now m =
     (if \<not> mc_enabled (sm_config m) then m
      else if sm_started m \<or> sm_stopped m then m
      else let c = sm_config m;
               c1 = (if mc_interval c \<le> 0 then c\<lparr>mc_interval := mc_interval DefaultSessionManagerConfig\<rparr> else c)
           in m\<lparr>sm_started := True, sm_last_save := now, sm_channel := True, sm_pending := False, sm_config := c1\<rparr>)"

definition save_session :: "bool \<Rightarrow> gotime \<Rightarrow> bool \<Rightarrow> session_manager \<Rightarrow> chat_error option \<times> session_manager" where
  "save_session io now final m =
     (if \<not> mc_enabled (sm_config m) then (None, m)
      else if sm_stopped m \<and> \<not> final then (None, m)
      else case SaveFull io now (sm_session m) (sm_dir m) of
             (Some e, d) \<Rightarrow> (Some e, m\<lparr>sm_dir := d\<rparr>)
           | (None, d) \<Rightarrow> (None, m\<lparr>sm_dir := d, sm_last_save := now\<rparr>))"

definition SessionManager_Save :: "bool \<Rightarrow> gotime \<Rightarrow> session_manager \<Rightarrow> chat_error option \<times> session_manager" where
  "SessionManager_Save io now m = save_session io now False m"

text \<open>Stopping sets the flag in one critical section; the final save comes after the background work has ended.\<close>

definition SessionManager_Stop :: "bool \<Rightarrow> gotime \<Rightarrow> session_manager \<Rightarrow> session_manager" where
  "SessionManager_Stop io now m =
     (if sm_stopped m then m else snd (save_session io now True (m\<lparr>sm_stopped := True\<rparr>)))"

definition SaveAfterMessage :: "session_manager \<Rightarrow> session_manager" where
  "SaveAfterMessage m =
     (if \<not> mc_enabled (sm_config m) then m
      else if sm_channel m \<and> \<not> sm_stopped m then m\<lparr>sm_pending := True\<rparr> else m)"

text \<open>The saver after its delay: a request that came in the meantime is dropped, then it saves.\<close>

definition saver_step :: "bool \<Rightarrow> gotime \<Rightarrow> session_manager \<Rightarrow> session_manager" where
  "saver_step io now m =
     (if sm_pending m then snd (SessionManager_Save io now (m\<lparr>sm_pending := False\<rparr>)) else m)"

definition periodicSave :: "bool \<Rightarrow> gotime \<Rightarrow> session_manager \<Rightarrow> session_manager" where
  "periodicSave io now m = snd (SessionManager_Save io now m)"

fun latest_info :: "string \<Rightarrow> session_info option \<Rightarrow> session_info list \<Rightarrow> session_info option" where
  "latest_info target best [] = best"
| "latest_info target best (i # is) =
     (let dir = (if si_work_dir i \<noteq> [] then path_clean (si_work_dir i) else [])
      in if target = [] \<or> dir = [] \<or> dir \<noteq> target then latest_info target best is
         else if (case best of None \<Rightarrow> True | Some b \<Rightarrow> si_last_active b < si_last_active i) then latest_info target (Some i) is
         else latest_info target best is)"

text \<open>\<open>Inr None\<close> is that there is nothing to load.\<close>

definition SessionManager_LoadLast :: "session_manager \<Rightarrow> chat_error + (session_state \<times> session_info) option" where
  "SessionManager_LoadLast m =
     (if \<not> mc_enabled (sm_config m) \<or> \<not> mc_auto_load (sm_config m) then Inr None
      else let wd = se_work_dir (core_of (sm_session m)); target = (if wd \<noteq> [] then path_clean wd else [])
           in case latest_info target None (ListSessions (sm_dir m)) of
                None \<Rightarrow> Inr None
              | Some i \<Rightarrow> (case LoadFull (si_id i) (sm_dir m) of Inl e \<Rightarrow> Inl e | Inr st \<Rightarrow> Inr (Some (st, i))))"

definition Manager_RestoreFromState :: "(string list \<Rightarrow> nat \<Rightarrow> string) \<Rightarrow> gotime \<Rightarrow> session_state \<Rightarrow> session_manager \<Rightarrow> session_manager" where
  "Manager_RestoreFromState draw now st m = m\<lparr>sm_session := RestoreFromState draw st (sm_session m), sm_last_save := now\<rparr>"

definition ClearCurrentSession :: "bool \<Rightarrow> session_manager \<Rightarrow> chat_error option \<times> session_manager" where
  "ClearCurrentSession io m =
     (if \<not> mc_enabled (sm_config m) then (None, m)
      else case DeleteSession io (se_id (core_of (sm_session m))) (sm_dir m) of
             (Some SessionNotFound, d) \<Rightarrow> (None, m\<lparr>sm_dir := d\<rparr>)
           | (e, d) \<Rightarrow> (e, m\<lparr>sm_dir := d\<rparr>))"

text \<open>
  \<open>newest\<close> sorts the sessions by their last activity, the newest first, as \<open>sort.Slice\<close> does, which
  leaves the order of equal ones open; \<open>io\<close> says for which sessions the removal works.
\<close>

definition too_old :: "gotime \<Rightarrow> manager_config \<Rightarrow> nat \<Rightarrow> session_info \<Rightarrow> bool" where
  "too_old cutoff c i s \<longleftrightarrow> si_last_active s < cutoff \<or> mc_max_count c \<le> int i"

definition cleanup_list :: "gotime \<Rightarrow> string \<Rightarrow> manager_config \<Rightarrow> session_info list \<Rightarrow> string list" where
  "cleanup_list cutoff current c infos =
     map (si_id \<circ> snd) (filter (\<lambda>(i, s). si_id s \<noteq> current \<and> too_old cutoff c i s) (enumerate 0 infos))"

definition CleanupOldSessions ::
  "(string \<Rightarrow> bool) \<Rightarrow> (session_info list \<Rightarrow> session_info list) \<Rightarrow> gotime \<Rightarrow> session_manager \<Rightarrow> session_manager" where
  "CleanupOldSessions io newest now m =
     m\<lparr>sm_dir := foldl (\<lambda>d i. snd (DeleteSession (io i) i d)) (sm_dir m)
         (cleanup_list (now - mc_max_age (sm_config m)) (se_id (core_of (sm_session m))) (sm_config m)
            (newest (ListSessions (sm_dir m))))\<rparr>"

end
