(* ===== verification/PairProps.thy ===== *)
theory PairProps
  imports ToolPairs
begin

section \<open>Cutting and sanitizing histories\<close>

text \<open>
  In a paired history the responses follow in the message after their calls. The lemmas show where such
  a history is cut, that a cut keeps it paired, and what the sanitizer leaves of any history.
\<close>

fun paired :: "string list \<Rightarrow> history \<Rightarrow> bool" where
  "paired prev [] = True"
| "paired prev (m # ms) =
     (set (msg_responses m) \<subseteq> set prev \<and> (msg_responses m = [] \<or> msg_calls m = []) \<and> paired (msg_calls m) ms)"

definition paired_history :: "history \<Rightarrow> bool" where
  "paired_history h \<longleftrightarrow> distinct (calls_of h) \<and> paired [] h"

lemma calls_of_simps [simp]: "calls_of [] = []" "calls_of (m # ms) = msg_calls m @ calls_of ms"
  "calls_of (xs @ ys) = calls_of xs @ calls_of ys"
  by (simp_all add: calls_of_def)

lemma responses_of_simps [simp]: "responses_of [] = []" "responses_of (m # ms) = msg_responses m @ responses_of ms"
  "responses_of (xs @ ys) = responses_of xs @ responses_of ys"
  by (simp_all add: responses_of_def)

lemma paired_append:
  "paired prev (xs @ ys) \<longleftrightarrow> paired prev xs \<and> paired (if xs = [] then prev else msg_calls (last xs)) ys"
  by (induction xs arbitrary: prev) auto

lemma paired_answers: "paired prev h \<Longrightarrow> set (responses_of h) \<subseteq> set prev \<union> set (calls_of h)"
  by (induction h arbitrary: prev) fastforce+

lemma paired_start: "paired prev (m # ms) \<Longrightarrow> msg_responses m = [] \<Longrightarrow> paired [] (m # ms)"
  by simp

lemma paired_drop:
  assumes "paired_history h" and "a < length h" and "msg_responses (h ! a) = []"
  shows "paired_history (drop a h)"
proof -
  have h: "h = take a h @ drop a h" by simp
  have "distinct (calls_of (take a h @ drop a h))" "paired [] (take a h @ drop a h)"
    using assms(1) h unfolding paired_history_def by metis+
  moreover have "drop a h = h ! a # drop (Suc a) h" using assms(2) by (simp add: Cons_nth_drop_Suc)
  ultimately show ?thesis using assms(3) unfolding paired_history_def calls_of_simps(3) paired_append by auto
qed

subsection \<open>The scans on a paired history\<close>

lemma scan_left_none:
  "(\<And>j. j < i \<Longrightarrow> set (msg_calls (h ! j)) \<inter> set rs = {}) \<Longrightarrow> scan_left h rs i a = a"
  by (induction i) (auto simp: list_ex_iff disjoint_iff)

lemma scan_right_none:
  "(\<And>m. m \<in> set ms \<Longrightarrow> set (msg_responses m) \<subseteq> set calls) \<Longrightarrow> scan_right calls ms i a = a"
proof (induction ms arbitrary: i)
  case (Cons m ms)
  have "\<not> list_ex (\<lambda>r. r \<notin> set calls) (msg_responses m)" using Cons.prems [of m] by (auto simp: list_ex_iff)
  with Cons show ?case by (cases m) simp_all
qed simp

lemma scan_right_paired:
  assumes "paired_history (drop a h)"
  shows "scan_right (fst (collectToolIDs h a)) (take 10 (drop a h)) a a = a"
proof (rule scan_right_none)
  fix m
  assume "m \<in> set (take 10 (drop a h))"
  then have "m \<in> set (drop a h)" by (metis in_set_takeD)
  then have "set (msg_responses m) \<subseteq> set (responses_of (drop a h))" by (auto simp: responses_of_def)
  then show "set (msg_responses m) \<subseteq> set (fst (collectToolIDs h a))"
    using paired_answers [of "[]" "drop a h"] assms by (auto simp: paired_history_def collectToolIDs_def)
qed

lemma scan_left_paired:
  assumes "paired_history h" and "Suc k < length h"
  shows "scan_left h (responses_of (drop (Suc k) h)) (Suc k) (Suc k) =
    (if msg_responses (h ! Suc k) = [] then Suc k else k)"
proof -
  let ?us = "take k h" and ?p = "h ! k" and ?m = "h ! Suc k" and ?ws = "drop (Suc (Suc k)) h"
  have h: "h = ?us @ ?p # ?m # ?ws" using assms(2) by (simp add: Cons_nth_drop_Suc)
  have d: "drop (Suc k) h = ?m # ?ws" using assms(2) by (simp add: Cons_nth_drop_Suc)
  have P: "distinct (calls_of (?us @ ?p # ?m # ?ws))" "paired [] (?us @ ?p # ?m # ?ws)"
    using assms(1) h unfolding paired_history_def by metis+
  then have m: "set (msg_responses ?m) \<subseteq> set (msg_calls ?p)" and ws: "paired (msg_calls ?m) ?ws"
    by (simp_all add: paired_append)
  have rs: "set (responses_of (?m # ?ws)) \<subseteq> set (msg_calls ?p) \<union> set (msg_calls ?m) \<union> set (calls_of ?ws)"
    using m paired_answers [OF ws] by auto
  have "set (msg_calls (h ! j)) \<inter> set (responses_of (?m # ?ws)) = {}" if "j < k" for j
  proof -
    have "h ! j \<in> set ?us" using that assms(2) by (auto simp: in_set_conv_nth)
    then have "set (msg_calls (h ! j)) \<subseteq> set (calls_of ?us)" by (auto simp: calls_of_def)
    with P(1) rs show ?thesis by auto
  qed
  then have rest: "scan_left h (responses_of (?m # ?ws)) k a = a" for a by (rule scan_left_none)
  have "list_ex (\<lambda>c. c \<in> set (responses_of (?m # ?ws))) (msg_calls ?p) \<longleftrightarrow> msg_responses ?m \<noteq> []"
  proof
    assume "list_ex (\<lambda>c. c \<in> set (responses_of (?m # ?ws))) (msg_calls ?p)"
    then obtain c where c: "c \<in> set (msg_calls ?p)" "c \<in> set (msg_responses ?m) \<or> c \<in> set (responses_of ?ws)"
      by (auto simp: list_ex_iff)
    with P(1) paired_answers [OF ws] show "msg_responses ?m \<noteq> []" by auto
  next
    assume "msg_responses ?m \<noteq> []"
    with m show "list_ex (\<lambda>c. c \<in> set (responses_of (?m # ?ws))) (msg_calls ?p)"
      by (cases "msg_responses ?m") (auto simp: list_ex_iff)
  qed
  with rest d show ?thesis by simp
qed

definition safe_cut :: "history \<Rightarrow> nat \<Rightarrow> nat" where
  "safe_cut h b = (if msg_responses (h ! b) = [] then b else b - 1)"

lemma safe_cut_less: "b < length h \<Longrightarrow> safe_cut h b < length h"
  by (auto simp: safe_cut_def)

lemma paired_caller:
  assumes "paired_history h" and "Suc k < length h" and "msg_responses (h ! Suc k) \<noteq> []"
  shows "msg_responses (h ! k) = [] \<and> msg_calls (h ! k) \<noteq> []"
proof -
  have h: "h = take k h @ h ! k # h ! Suc k # drop (Suc (Suc k)) h" using assms(2) by (simp add: Cons_nth_drop_Suc)
  have "paired [] (take k h @ h ! k # h ! Suc k # drop (Suc (Suc k)) h)"
    using assms(1) h unfolding paired_history_def by metis
  then have "set (msg_responses (h ! Suc k)) \<subseteq> set (msg_calls (h ! k))"
    "msg_responses (h ! k) = [] \<or> msg_calls (h ! k) = []" by (simp_all add: paired_append)
  with assms(3) show ?thesis by (cases "msg_responses (h ! Suc k)") auto
qed

lemma safe_cut_paired:
  assumes "paired_history h" and "b < length h"
  shows "msg_responses (h ! safe_cut h b) = []" and "paired_history (drop (safe_cut h b) h)"
proof -
  show r: "msg_responses (h ! safe_cut h b) = []"
  proof (cases b)
    case 0
    have "msg_responses (h ! 0) = []"
      using assms 0 by (cases h) (auto simp: paired_history_def)
    with 0 show ?thesis by (simp add: safe_cut_def)
  next
    case (Suc k)
    with assms paired_caller [OF assms(1), of k] show ?thesis by (auto simp: safe_cut_def)
  qed
  have "safe_cut h b < length h" using assms(2) by (rule safe_cut_less)
  then show "paired_history (drop (safe_cut h b) h)" by (rule paired_drop [OF assms(1) _ r])
qed

lemma adjust_round:
  assumes "paired_history h" and "b < length h"
  shows "scan_left h (snd (collectToolIDs h b)) b b = safe_cut h b"
proof (cases b)
  case 0
  with safe_cut_paired(1) [OF assms] show ?thesis by (simp add: safe_cut_def)
next
  case (Suc k)
  with scan_left_paired [OF assms(1), of k] assms(2) show ?thesis
    by (simp add: collectToolIDs_def safe_cut_def)
qed

lemma adjust_loop_safe:
  assumes "paired_history h" and "b < length h"
  shows "adjust_loop (Suc (Suc n)) h b = safe_cut h b"
proof -
  let ?c = "safe_cut h b"
  have c: "?c < length h" using assms(2) by (rule safe_cut_less)
  have cc: "safe_cut h ?c = ?c" using safe_cut_paired(1) [OF assms] by (simp add: safe_cut_def)
  have right: "scan_right (fst (collectToolIDs h ?c)) (take 10 (drop ?c h)) ?c ?c = ?c"
    by (rule scan_right_paired [OF safe_cut_paired(2) [OF assms]])
  have "adjust_loop (Suc k) h b = (if ?c = b then b else adjust_loop k h ?c)" for k
    unfolding adjust_loop.simps Let_def adjust_round [OF assms] right by auto
  moreover have "adjust_loop (Suc n) h ?c = ?c"
    unfolding adjust_loop.simps Let_def adjust_round [OF assms(1) c] cc right by simp
  ultimately show ?thesis by metis
qed

lemma adjust_paired:
  assumes "paired_history h" and "0 < b" and "b < int (length h)"
  shows "adjustBoundaryForToolPairs h b = int (safe_cut h (nat b))"
proof -
  have b: "nat b < length h" using assms by simp
  then have "safe_cut h (nat b) < length h" by (rule safe_cut_less)
  with adjust_loop_safe [OF assms(1) b, of 1] assms(2,3) show ?thesis
    by (simp add: adjustBoundaryForToolPairs_def eval_nat_numeral del: adjust_loop.simps)
qed

lemma adjust_range:
  "0 \<le> b \<Longrightarrow> b \<le> int (length h) \<Longrightarrow> 0 \<le> adjustBoundaryForToolPairs h b \<and> adjustBoundaryForToolPairs h b \<le> int (length h)"
  by (simp add: adjustBoundaryForToolPairs_def)

subsection \<open>What the sanitizer leaves\<close>

definition all_parts :: "history \<Rightarrow> part option list" where
  "all_parts h = concat (map (\<lambda>m. case m of None \<Rightarrow> [] | Some c \<Rightarrow> msg_parts c) h)"

definition plain_part :: "part option \<Rightarrow> bool" where
  "plain_part p \<longleftrightarrow> p \<noteq> None \<and> part_calls p = [] \<and> part_responses p = []"

text \<open>No part is a call and a response at once, with identifiers.\<close>

definition one_kind :: "part option \<Rightarrow> bool" where
  "one_kind p \<longleftrightarrow> part_calls p = [] \<or> part_responses p = []"

abbreviation part_count :: "(part option \<Rightarrow> string list) \<Rightarrow> part option list \<Rightarrow> string \<Rightarrow> nat" where
  "part_count f ps i \<equiv> count_list (concat (map f ps)) i"

lemma calls_of_parts: "calls_of h = concat (map part_calls (all_parts h))"
  by (induction h) (auto simp: all_parts_def msg_calls_def split: option.splits)

lemma responses_of_parts: "responses_of h = concat (map part_responses (all_parts h))"
  by (induction h) (auto simp: all_parts_def msg_responses_def split: option.splits)

lemma part_ids_cases: "part_calls p = [] \<or> (\<exists>i. part_calls p = [i])" "part_responses p = [] \<or> (\<exists>i. part_responses p = [i])"
  by (auto simp: part_calls_def part_responses_def tool_ids_def split: option.splits)

lemma part_ids_None [simp]: "part_calls None = []" "part_responses None = []"
  by (simp_all add: part_calls_def part_responses_def)

lemma spend_props:
  "spend [] b = (True, b)"
  "spend [j] b = (if 0 < b j then (True, b(j := b j - 1)) else (False, b))"
  by (simp_all add: spend_def)

definition kept_within :: "(part option \<Rightarrow> string list) \<Rightarrow> part option list \<Rightarrow> part option list \<Rightarrow> counts \<Rightarrow> counts \<Rightarrow> bool" where
  "kept_within f ps qs b b' \<longleftrightarrow>
     (\<forall>i. part_count f qs i = min (part_count f ps i) (b i) \<and> b' i = b i - part_count f ps i)"

lemma kept_within_free: "f p = [] \<Longrightarrow> kept_within f (p # ps) (if c then p # qs else qs) b b' \<longleftrightarrow> kept_within f ps qs b b'"
  by (simp add: kept_within_def)

lemma kept_within_spend:
  assumes "f p = [j]" and "spend (f p) b = (ok, b1)" and "kept_within f ps qs b1 b'"
  shows "kept_within f (p # ps) (if ok then p # qs else qs) b b'"
  unfolding kept_within_def
proof (rule allI)
  fix i
  show "part_count f (if ok then p # qs else qs) i = min (part_count f (p # ps) i) (b i) \<and> b' i = b i - part_count f (p # ps) i"
    using assms unfolding kept_within_def
    by (cases "i = j") (auto simp: spend_props split: if_splits)
qed

lemma keep_parts_counts:
  assumes "list_all one_kind ps" and "keep_parts ps (cb, rb) = (qs, cb', rb')"
  shows "kept_within part_calls ps qs cb cb' \<and> kept_within part_responses ps qs rb rb' \<and>
    filter plain_part qs = filter plain_part ps"
  using assms
proof (induction ps arbitrary: cb rb qs cb' rb')
  case Nil
  then show ?case by (auto simp: kept_within_def)
next
  case (Cons p ps)
  show ?case
  proof (cases "p = None")
    case True
    with Cons show ?thesis by (simp add: kept_within_def plain_part_def)
  next
    case False
    obtain ok1 cb1 where c: "spend (part_calls p) cb = (ok1, cb1)" by fastforce
    obtain ok2 rb1 where r: "spend (part_responses p) rb = (ok2, rb1)" by fastforce
    obtain qs1 where k: "keep_parts ps (cb1, rb1) = (qs1, cb', rb')"
      and qs: "qs = (if ok1 \<and> ok2 then p # qs1 else qs1)"
      using Cons.prems(2) False c r by (auto simp: Let_def split: prod.splits)
    from Cons.IH [OF _ k] Cons.prems(1)
    have IH: "kept_within part_calls ps qs1 cb1 cb'" "kept_within part_responses ps qs1 rb1 rb'"
      "filter plain_part qs1 = filter plain_part ps" by simp_all
    consider (plain) "part_calls p = []" "part_responses p = []"
      | (call) j where "part_calls p = [j]" "part_responses p = []"
      | (response) j where "part_calls p = []" "part_responses p = [j]"
      using Cons.prems(1) part_ids_cases [of p] by (auto simp: one_kind_def)
    then show ?thesis
    proof cases
      case plain
      with c r qs IH show ?thesis by (simp add: spend_props kept_within_def)
    next
      case (call j)
      with r have ok2: "ok2" "rb1 = rb" by (simp_all add: spend_props)
      with call qs have "filter plain_part qs = filter plain_part (p # ps)" using IH(3) by (simp add: plain_part_def)
      with kept_within_spend [OF call(1) c IH(1)] kept_within_free [of part_responses p, OF call(2)] IH(2) qs ok2
      show ?thesis by simp
    next
      case (response j)
      with c have ok1: "ok1" "cb1 = cb" by (simp_all add: spend_props)
      with response qs have "filter plain_part qs = filter plain_part (p # ps)" using IH(3) by (simp add: plain_part_def)
      with kept_within_spend [OF response(2) r IH(2)] kept_within_free [of part_calls p, OF response(1)] IH(1) qs ok1
      show ?thesis by simp
    qed
  qed
qed

lemma kept_within_append:
  "kept_within f ps qs b b1 \<Longrightarrow> kept_within f ps' qs' b1 b2 \<Longrightarrow> kept_within f (ps @ ps') (qs @ qs') b b2"
  unfolding kept_within_def by auto

lemma all_parts_simps [simp]:
  "all_parts [] = []" "all_parts (None # ms) = all_parts ms" "all_parts (Some c # ms) = msg_parts c @ all_parts ms"
  by (simp_all add: all_parts_def)

lemma keep_messages_counts:
  "list_all one_kind (all_parts h) \<Longrightarrow>
   \<exists>b'. kept_within part_calls (all_parts h) (all_parts (keep_messages h (cb, rb))) cb (fst b') \<and>
        kept_within part_responses (all_parts h) (all_parts (keep_messages h (cb, rb))) rb (snd b') \<and>
        filter plain_part (all_parts (keep_messages h (cb, rb))) = filter plain_part (all_parts h)"
proof (induction h arbitrary: cb rb)
  case Nil
  have "kept_within f [] [] b b" for f b by (simp add: kept_within_def)
  then show ?case by (auto intro: exI [of _ "(cb, rb)"])
next
  case (Cons m h)
  show ?case
  proof (cases m)
    case None
    with Cons show ?thesis by simp
  next
    case (Some c)
    obtain qs cb1 rb1 where k: "keep_parts (msg_parts c) (cb, rb) = (qs, cb1, rb1)" by (metis surj_pair)
    have ps: "list_all one_kind (msg_parts c)" "list_all one_kind (all_parts h)" using Cons.prems Some by simp_all
    obtain b2 where IH: "kept_within part_calls (all_parts h) (all_parts (keep_messages h (cb1, rb1))) cb1 (fst b2)"
      "kept_within part_responses (all_parts h) (all_parts (keep_messages h (cb1, rb1))) rb1 (snd b2)"
      "filter plain_part (all_parts (keep_messages h (cb1, rb1))) = filter plain_part (all_parts h)"
      using Cons.IH [OF ps(2), of cb1 rb1] by blast
    have out: "all_parts (keep_messages (m # h) (cb, rb)) = qs @ all_parts (keep_messages h (cb1, rb1))"
      using Some k by simp
    note K = keep_parts_counts [OF ps(1) k]
    have "kept_within part_calls (msg_parts c @ all_parts h) (qs @ all_parts (keep_messages h (cb1, rb1))) cb (fst b2)"
      using K IH(1) kept_within_append by blast
    moreover have "kept_within part_responses (msg_parts c @ all_parts h) (qs @ all_parts (keep_messages h (cb1, rb1))) rb (snd b2)"
      using K IH(2) kept_within_append by blast
    ultimately show ?thesis
      unfolding out using K IH(3) Some by (intro exI [of _ b2]) simp
  qed
qed

text \<open>
  C18: Whatever history a client is given, the sanitizer leaves of each identifier as many calls, and as
  many responses, as there were partners for them, the responses still to be sent included; the parts
  without an identifier stay in their order. Without pending responses every identifier is then called
  as often as it is answered.
\<close>
theorem sanitizer_balances:
  assumes "list_all one_kind (all_parts h)" and out_def: "out = sanitizeToolPairsWithPendingResults h pending"
  shows "count_list (calls_of out) i =
      min (count_list (calls_of h) i) (count_list (responses_of h) i + count_list (pending_ids pending) i) \<and>
    count_list (responses_of out) i = min (count_list (responses_of h) i) (count_list (calls_of h) i) \<and>
    filter plain_part (all_parts out) = filter plain_part (all_parts h) \<and>
    (pending = [] \<longrightarrow> count_list (calls_of out) i = count_list (responses_of out) i)"
proof -
  have count0: "count_list xs i = 0" if "i \<notin> set xs" for xs :: "string list" using that by (induction xs) auto
  let ?c = "count_list (calls_of h) i" and ?r = "count_list (responses_of h) i" and ?p = "count_list (pending_ids pending) i"
  have main: "count_list (calls_of out) i = min ?c (?r + ?p) \<and> count_list (responses_of out) i = min ?r ?c \<and>
    filter plain_part (all_parts out) = filter plain_part (all_parts h)"
  proof (cases "h = [] \<or> no_orphans h pending")
    case True
    then have out: "out = h" by (auto simp: out_def sanitizeToolPairsWithPendingResults_def)
    have "?c = ?r + ?p \<or> h = []"
    proof (cases "i \<in> set (calls_of h @ responses_of h @ pending_ids pending)")
      case in_set: True
      with True show ?thesis by (auto simp: no_orphans_def list_all_iff)
    qed (auto simp: count0)
    with out show ?thesis by auto
  next
    case False
    let ?b = "tool_budget h pending"
    have out: "out = keep_messages h (?b, ?b)" using False by (simp add: out_def sanitizeToolPairsWithPendingResults_def)
    obtain b' where K: "kept_within part_calls (all_parts h) (all_parts out) ?b (fst b')"
      "kept_within part_responses (all_parts h) (all_parts out) ?b (snd b')"
      "filter plain_part (all_parts out) = filter plain_part (all_parts h)"
      using keep_messages_counts [OF assms(1), of ?b ?b] unfolding out by blast
    have "?b i = min ?c (?r + ?p)" by (simp add: tool_budget_def)
    with K show ?thesis
      unfolding calls_of_parts responses_of_parts kept_within_def by simp
  qed
  then show ?thesis by (auto simp: pending_ids_def)
qed

definition text_part :: "string \<Rightarrow> part" where
  "text_part s = \<lparr>part_text = s, part_call = None, part_response = None, part_thought = False, part_signature = []\<rparr>"

definition call_msg :: "string \<Rightarrow> message option" where
  "call_msg i = Some \<lparr>msg_role = ''model'',
     msg_parts = [Some ((text_part [])\<lparr>part_call := Some \<lparr>tool_id = i, tool_name = ''read'', tool_data = []\<rparr>\<rparr>)]\<rparr>"

definition response_msg :: "string \<Rightarrow> message option" where
  "response_msg i = Some \<lparr>msg_role = ''user'',
     msg_parts = [Some ((text_part [])\<lparr>part_response := Some \<lparr>tool_id = i, tool_name = ''read'', tool_data = []\<rparr>\<rparr>)]\<rparr>"

definition text_msg :: "string \<Rightarrow> string \<Rightarrow> message option" where
  "text_msg r s = Some \<lparr>msg_role = r, msg_parts = [Some (text_part s)]\<rparr>"

lemma sanitizer_balances_witness:
  "count_list (calls_of (sanitizeToolPairsWithPendingResults
      [call_msg ''a'', text_msg ''user'' ''x'', call_msg ''a'', response_msg ''a''] [])) ''a'' = 1"
proof -
  have "list_all one_kind (all_parts [call_msg ''a'', text_msg ''user'' ''x'', call_msg ''a'', response_msg ''a''])"
    by code_simp
  from sanitizer_balances [OF this refl, of "[]" "''a''"] show ?thesis
    by (simp add: call_msg_def text_msg_def response_msg_def text_part_def msg_calls_def msg_responses_def
        part_calls_def part_responses_def tool_ids_def pending_ids_def)
qed

text \<open>
  Counting does not pair by position: when the first of two calls with one identifier is the unanswered
  one, it is kept and the answered one dropped, and the response no longer follows its call.
\<close>

lemma sanitizer_keeps_wrong_call:
  "paired [] (sanitizeToolPairs [call_msg ''a'', text_msg ''user'' ''x'', call_msg ''a'', response_msg ''a'']) = False"
  "sanitizeToolPairs [call_msg ''a'', text_msg ''user'' ''x'', call_msg ''a'', response_msg ''a''] =
     [call_msg ''a'', text_msg ''user'' ''x'', response_msg ''a'']"
  by code_simp+

end
