(* ===== verification/ChatProps.thy ===== *)
theory ChatProps
  imports ChatSession PairProps
begin

section \<open>What a session keeps\<close>

text \<open>
  The window of a session over its conversation, what a checkpoint brings back, and what saving and
  restoring a session loses.
\<close>

subsection \<open>The window\<close>

definition add_all :: "history \<Rightarrow> session_core \<Rightarrow> session_core" where
  "add_all ms s = foldl (\<lambda>s m. fst (AddContent m s)) s ms"

lemma se_history_trim: "se_history (trimHistory s) = window (se_history s)"
  by (auto simp: trimHistory_def window_def Let_def)

lemma se_checkpoints_trim [simp]: "se_checkpoints (trimHistory s) = se_checkpoints s"
  by (simp add: trimHistory_def Let_def)

lemma AddContent_sel:
  "se_history (fst (AddContent m s)) = window (se_history s @ [m])"
  "se_checkpoints (fst (AddContent m s)) = se_checkpoints s"
  by (simp_all add: AddContent_def notifyChange_def se_history_trim)

lemma window_paired:
  assumes "paired_history h"
  obtains d where "window h = drop d h" and "paired_history (drop d h)" and "length h - d \<le> Suc MaxMessages"
    and "length h \<le> MaxMessages \<Longrightarrow> d = 0" and "MaxMessages < length h \<Longrightarrow> MaxMessages \<le> length h - d"
proof (cases "MaxMessages < length h")
  case True
  let ?b = "length h - MaxMessages"
  have b: "nat (int (length h) - int MaxMessages) = ?b" "?b < length h" using True by (simp_all add: MaxMessages_def)
  have "window h = drop (safe_cut h ?b) h"
    using True adjust_paired [OF assms, of "int (length h) - int MaxMessages"] b
    by (simp add: window_def MaxMessages_def)
  moreover have "length h - safe_cut h ?b \<le> Suc MaxMessages" "MaxMessages \<le> length h - safe_cut h ?b"
    using True by (auto simp: safe_cut_def)
  ultimately show thesis using that [OF _ safe_cut_paired(2) [OF assms b(2)]] True by simp
next
  case False
  then have "window h = drop 0 h" by (simp add: window_def)
  with assms False show thesis using that [of 0] by simp
qed

lemma paired_prefix: "paired_history (xs @ ys) \<Longrightarrow> paired_history xs"
  by (simp add: paired_history_def paired_append)

lemma paired_drop_append:
  assumes "paired_history (xs @ ys)" and "paired_history (drop d xs)" and "drop d xs = [] \<longrightarrow> d = 0"
  shows "paired_history (drop d xs @ ys)"
proof (cases "drop d xs = []")
  case True
  with assms(1,3) show ?thesis by simp
next
  case False
  then have l: "last (drop d xs) = last xs" "xs \<noteq> []" by auto
  have "set (calls_of (drop d xs)) \<subseteq> set (calls_of xs)" by (auto simp: calls_of_def dest: in_set_dropD)
  with assms(1,2) False l show ?thesis by (auto simp: paired_history_def paired_append)
qed

text \<open>What is left of a conversation of which \<open>d\<close> messages are gone.\<close>

definition windowed :: "history \<Rightarrow> nat \<Rightarrow> history \<Rightarrow> bool" where
  "windowed conv d h \<longleftrightarrow>
     h = drop d conv \<and> paired_history h \<and> (0 < d \<longrightarrow> MaxMessages \<le> length h) \<and> (length conv \<le> MaxMessages \<longrightarrow> d = 0)"

lemma windowedD:
  assumes "windowed conv d h"
  shows "h = drop d conv" "paired_history (drop d conv)" "0 < d \<Longrightarrow> MaxMessages \<le> length (drop d conv)"
    "length conv \<le> MaxMessages \<Longrightarrow> d = 0"
  using assms unfolding windowed_def by blast+

lemma windowed_step:
  assumes "windowed conv d h" and "paired_history (conv @ [m])"
  obtains e where "windowed (conv @ [m]) e (window (h @ [m]))" and "length (window (h @ [m])) \<le> Suc MaxMessages"
proof -
  have h: "h = drop d conv" and d: "0 < d \<longrightarrow> MaxMessages \<le> length h"
    using windowedD [OF assms(1)] by auto
  have "h = [] \<longrightarrow> d = 0" using d by (auto simp: MaxMessages_def)
  then have P: "paired_history (h @ [m])"
    using paired_drop_append [OF assms(2), of d] windowedD(2) [OF assms(1)] h by simp
  have len: "d = 0 \<or> d \<le> length conv" using d h by (auto simp: MaxMessages_def)
  obtain k where k: "window (h @ [m]) = drop k (h @ [m])" "paired_history (drop k (h @ [m]))"
    "length (h @ [m]) - k \<le> Suc MaxMessages" "length (h @ [m]) \<le> MaxMessages \<Longrightarrow> k = 0"
    "MaxMessages < length (h @ [m]) \<Longrightarrow> MaxMessages \<le> length (h @ [m]) - k"
    using window_paired [OF P] by blast
  have "windowed (conv @ [m]) (d + k) (window (h @ [m]))"
    unfolding windowed_def
  proof (intro conjI)
    show "window (h @ [m]) = drop (d + k) (conv @ [m])" using k(1) h len by (auto simp: add.commute)
    show "paired_history (window (h @ [m]))" using k(1,2) by simp
    have "length (window (h @ [m])) = length (h @ [m]) - k" unfolding k(1) by (rule length_drop)
    with k(4,5) d show "0 < d + k \<longrightarrow> MaxMessages \<le> length (window (h @ [m]))"
      by (cases "k = 0") fastforce+
    show "length (conv @ [m]) \<le> MaxMessages \<longrightarrow> d + k = 0"
      using k(4) assms(1) h by (auto simp: windowed_def)
  qed
  then show thesis using that k(1,3) by simp
qed

lemma add_all_windowed:
  assumes "paired_history (se_history s @ ms)"
  shows "\<exists>d. windowed (se_history s @ ms) d (se_history (add_all ms s)) \<and>
    (ms \<noteq> [] \<longrightarrow> length (se_history (add_all ms s)) \<le> Suc MaxMessages)"
  using assms
proof (induction ms rule: rev_induct)
  case Nil
  then show ?case by (intro exI [of _ 0]) (simp add: windowed_def add_all_def)
next
  case (snoc m ms)
  have "paired_history (se_history s @ ms)" using snoc.prems paired_prefix [of "se_history s @ ms" "[m]"] by simp
  from snoc.IH [OF this] obtain d where d: "windowed (se_history s @ ms) d (se_history (add_all ms s))" by blast
  obtain e where "windowed ((se_history s @ ms) @ [m]) e (window (se_history (add_all ms s) @ [m]))"
    "length (window (se_history (add_all ms s) @ [m])) \<le> Suc MaxMessages"
    using windowed_step [OF d] snoc.prems by auto
  then show ?case by (auto simp: add_all_def AddContent_sel)
qed

lemma add_all_checkpoints: "se_checkpoints (add_all ms s) = se_checkpoints s"
  by (induction ms rule: rev_induct) (simp_all add: add_all_def AddContent_sel)

lemma paired_answered: "paired_history h \<Longrightarrow> set (responses_of h) \<subseteq> set (calls_of h)"
  using paired_answers [of "[]" h] by (simp add: paired_history_def)


definition sample_conv :: history where
  "sample_conv = [text_msg ''user'' ''x'', call_msg ''a'', response_msg ''a''] @ replicate 99 (text_msg ''user'' ''y'')"


subsection \<open>Checkpoints\<close>

lemma no_orphans_removed:
  assumes "paired_history h" and "list_all (\<lambda>m. m \<noteq> None) h"
  shows "removeOrphanedToolParts h = h"
proof (cases h rule: rev_cases)
  case Nil
  then show ?thesis by (simp add: removeOrphanedToolParts_def)
next
  case (snoc ms m)
  with assms(2) obtain c where c: "m = Some c" by auto
  have "\<not> (msg_responses m \<noteq> [] \<and> list_all (orphan_part (calls_of h)) (msg_parts c))"
  proof
    assume a: "msg_responses m \<noteq> [] \<and> list_all (orphan_part (calls_of h)) (msg_parts c)"
    then obtain p r where p: "p \<in> set (msg_parts c)" "r \<in> set (part_responses p)"
      by (auto simp: msg_responses_def c concat_eq_Nil_conv) (metis last_in_set)
    with a have "orphan_part (calls_of h) p" "part_responses p \<noteq> []" by (auto simp: list_all_iff)
    with p(2) have "r \<notin> set (calls_of h)" by (cases p) (auto simp: orphan_part_def list_all_iff)
    moreover have "r \<in> set (responses_of h)" using p c snoc by (auto simp: msg_responses_def)
    ultimately show False using paired_answered [OF assms(1)] by blast
  qed
  with snoc c show ?thesis by (auto simp: removeOrphanedToolParts_def)
qed

lemma paired_take: "paired_history h \<Longrightarrow> paired_history (take n h)"
  by (metis append_take_drop_id paired_prefix)

lemma truncate_history_take:
  assumes "paired_history (se_history s)" and "list_all (\<lambda>m. m \<noteq> None) (se_history s)"
  shows "se_history (truncate_history (int n) s) = take n (se_history s)"
proof -
  have "list_all (\<lambda>m. m \<noteq> None) (take n (se_history s))" using assms(2) by (auto simp: list_all_iff dest: in_set_takeD)
  from no_orphans_removed [OF paired_take [OF assms(1)] this] show ?thesis
    by (simp add: truncate_history_def Let_def)
qed

text \<open>
   A checkpoint is a position, not a history: restoring it gives as many messages of the present
  history as there were when it was saved. When nothing was trimmed in between, which is so up to 100
  messages, that is the history that was saved; after that, as many messages from after the checkpoint
  stay as were trimmed before it.
\<close>
theorem checkpoint_is_position:
  assumes "paired_history (se_history s @ ms)" and "list_all (\<lambda>m. m \<noteq> None) (se_history s @ ms)"
  shows "\<exists>s' d. RestoreCheckpoint name (add_all ms (Session_SaveCheckpoint name s)) = Some (True, s') \<and>
    se_history s' = take (length (se_history s)) (drop d (se_history s @ ms)) \<and>
    (if length (se_history s @ ms) \<le> 100 then d = 0 \<and> se_history s' = se_history s
     else ms = [] \<or> length (se_history s @ ms) - d \<le> 101)"
proof -
  let ?s = "Session_SaveCheckpoint name s" and ?n = "length (se_history s)"
  have h: "se_history ?s = se_history s" by (simp add: Session_SaveCheckpoint_def)
  obtain d where d: "windowed (se_history s @ ms) d (se_history (add_all ms ?s))"
    "ms \<noteq> [] \<longrightarrow> length (se_history (add_all ms ?s)) \<le> Suc MaxMessages"
    using add_all_windowed [of ?s ms] assms(1) h by auto
  note D = windowedD [OF d(1)]
  have "list_all (\<lambda>m. m \<noteq> None) (drop d (se_history s @ ms))"
    using assms(2) unfolding list_all_iff by (metis in_set_dropD)
  with D(1,2) have trunc: "se_history (truncate_history (int ?n) (add_all ms ?s)) = take ?n (drop d (se_history s @ ms))"
    using truncate_history_take [of "add_all ms ?s" ?n] by metis
  have cp: "map_of (se_checkpoints (add_all ms ?s)) name = Some (int ?n)"
    by (simp add: add_all_checkpoints Session_SaveCheckpoint_def update_conv')
  define s' where "s' = (truncate_history (int ?n) (add_all ms ?s))
    \<lparr>se_checkpoints := filter (\<lambda>(k, i). i \<le> int ?n) (se_checkpoints (truncate_history (int ?n) (add_all ms ?s))),
      se_version := se_version (truncate_history (int ?n) (add_all ms ?s)) + 1\<rparr>"
  have "RestoreCheckpoint name (add_all ms ?s) = Some (True, s')"
    by (simp add: RestoreCheckpoint_def cp Let_def s'_def)
  moreover have "se_history s' = take ?n (drop d (se_history s @ ms))" by (simp add: s'_def trunc)
  ultimately show ?thesis
    using D(4) d(2) D(1) by (intro exI [of _ s'] exI [of _ d]) (auto simp: MaxMessages_def)
qed

definition sample_filled :: session_core where
  "sample_filled = (new_core [] 0)\<lparr>se_history := [text_msg ''user'' ''x'']\<rparr>"

lemma checkpoint_is_position_witness:
  "\<exists>s' d. RestoreCheckpoint ''c'' (add_all (replicate 101 (text_msg ''user'' ''y'')) (Session_SaveCheckpoint ''c'' sample_filled)) = Some (True, s') \<and>
     se_history s' = take 1 (drop d (text_msg ''user'' ''x'' # replicate 101 (text_msg ''user'' ''y''))) \<and> 0 < d"
proof -
  let ?ms = "replicate 101 (text_msg ''user'' ''y'')"
  have h: "se_history sample_filled = [text_msg ''user'' ''x'']" by (simp add: sample_filled_def)
  have p: "paired_history (se_history sample_filled @ ?ms)" "list_all (\<lambda>m. m \<noteq> None) (se_history sample_filled @ ?ms)"
    by code_simp+
  from checkpoint_is_position [OF p, of "''c''"] obtain s' d where
    "RestoreCheckpoint ''c'' (add_all ?ms (Session_SaveCheckpoint ''c'' sample_filled)) = Some (True, s')"
    "se_history s' = take 1 (drop d (text_msg ''user'' ''x'' # ?ms))" "102 - d \<le> 101"
    unfolding h by auto
  then show ?thesis by (intro exI [of _ s'] exI [of _ d]) auto
qed

subsection \<open>Saving and restoring\<close>

text \<open>What is saved without loss: a part is a named call, a response or a text, and nothing else besides.\<close>

definition saveable_part :: "part option \<Rightarrow> bool" where
  "saveable_part p =
     (case p of
        None \<Rightarrow> False
      | Some q \<Rightarrow>
          (case part_call q of
             Some f \<Rightarrow> tool_id f \<noteq> [] \<and> part_response q = None \<and> part_text q = []
           | None \<Rightarrow> (case part_response q of Some r \<Rightarrow> part_text q = [] | None \<Rightarrow> part_text q \<noteq> [])))"

definition saveable_msg :: "message option \<Rightarrow> bool" where
  "saveable_msg m = (case m of None \<Rightarrow> False | Some c \<Rightarrow> list_all saveable_part (msg_parts c))"

primrec saveable :: "session \<Rightarrow> bool"
  and saveable_branches :: "(string \<times> session) list \<Rightarrow> bool"
  and saveable_branch :: "string \<times> session \<Rightarrow> bool" where
  "saveable (Session c bs) = (list_all saveable_msg (se_history c) \<and> saveable_branches bs)"
| "saveable_branches [] = True"
| "saveable_branches (b # bs) = (saveable_branch b \<and> saveable_branches bs)"
| "saveable_branch (p, s) = saveable s"

primrec unwatched :: "session \<Rightarrow> session"
  and unwatched_branches :: "(string \<times> session) list \<Rightarrow> (string \<times> session) list"
  and unwatched_branch :: "string \<times> session \<Rightarrow> string \<times> session" where
  "unwatched (Session c bs) = Session (c\<lparr>se_watched := False\<rparr>) (unwatched_branches bs)"
| "unwatched_branches [] = []"
| "unwatched_branches (b # bs) = unwatched_branch b # unwatched_branches bs"
| "unwatched_branch (p, s) = (p, unwatched s)"

lemma part_back: "saveable_part p \<Longrightarrow> \<exists>sp. serializePart p = Some sp \<and> Some (deserializePart sp) = p"
  by (cases p)
    (auto simp: saveable_part_def serializePart_def deserializePart_def plain_text_def Let_def split: option.splits)

lemma those_back:
  "(\<And>x. x \<in> set xs \<Longrightarrow> \<exists>y. f x = Some y \<and> g y = x) \<Longrightarrow> \<exists>ys. those (map f xs) = Some ys \<and> map g ys = xs"
proof (induction xs)
  case (Cons x xs)
  then obtain y ys where "f x = Some y" "g y = x" "those (map f xs) = Some ys" "map g ys = xs"
    by (metis list.set_intros)
  then show ?case by (intro exI [of _ "y # ys"]) simp
qed simp

lemma msg_back:
  assumes "saveable_msg m"
  shows "\<exists>sc. SerializeContent m = Some sc \<and> Some (DeserializeContent sc) = m"
proof -
  obtain c where c: "m = Some c" "list_all saveable_part (msg_parts c)" using assms by (auto simp: saveable_msg_def split: option.splits)
  have "\<exists>ps. those (map serializePart (msg_parts c)) = Some ps \<and> map (Some \<circ> deserializePart) ps = msg_parts c"
    by (rule those_back) (use c(2) part_back in \<open>auto simp: list_all_iff\<close>)
  then obtain ps where ps: "those (map serializePart (msg_parts c)) = Some ps" "map (Some \<circ> deserializePart) ps = msg_parts c"
    by blast
  have "SerializeContent m = Some \<lparr>sc_role = msg_role c, sc_parts = ps\<rparr>" by (simp add: SerializeContent_def c(1) ps(1))
  moreover have "DeserializeContent \<lparr>sc_role = msg_role c, sc_parts = ps\<rparr> = c"
    unfolding DeserializeContent_def saved_content.select_convs ps(2) by simp
  ultimately show ?thesis using c(1) by blast
qed

lemma saveable_named: "saveable_part p \<Longrightarrow> \<not> unnamed_call p"
  by (auto simp: saveable_part_def unnamed_call_def split: option.splits)

lemma fix_named: "list_all (\<lambda>c. list_all (\<lambda>p. \<not> unnamed_call p) (msg_parts c)) cs \<Longrightarrow> fixEmptyToolIDs draw n cs = cs"
proof (induction draw n cs rule: fixEmptyToolIDs.induct)
  case (3 draw n c c' cs)
  have k: "filter unnamed_call (msg_parts c) = []" using 3(3) by (simp add: filter_empty_conv list_all_iff)
  have "fixEmptyToolIDs draw n (c' # cs) = c' # cs" by (rule 3(2) [OF refl refl]) (use 3(3) k in simp_all)
  with k show ?case unfolding fixEmptyToolIDs.simps Let_def by simp
qed simp_all

lemma core_back:
  assumes "list_all saveable_msg (se_history c)"
  obtains st where "state_of_core now c = Some st"
    and "\<And>draw t. restore_core draw st t =
      c\<lparr>se_watched := se_watched t,
        se_checkpoints := (if se_checkpoints c \<noteq> [] then se_checkpoints c else se_checkpoints t),
        se_tool_checkpoints := (if se_tool_checkpoints c \<noteq> [] then se_tool_checkpoints c else se_tool_checkpoints t)\<rparr>"
    and "st_checkpoints st = se_checkpoints c"
proof -
  have "\<exists>h. those (map SerializeContent (se_history c)) = Some h \<and> map (Some \<circ> DeserializeContent) h = se_history c"
    by (rule those_back) (use assms msg_back in \<open>auto simp: list_all_iff\<close>)
  then obtain h where h: "those (map SerializeContent (se_history c)) = Some h" "map (Some \<circ> DeserializeContent) h = se_history c"
    by blast
  have "list_all (\<lambda>c. list_all (\<lambda>p. \<not> unnamed_call p) (msg_parts c)) (map DeserializeContent h)"
    unfolding list_all_iff
  proof (intro ballI)
    fix d p
    assume d: "d \<in> set (map DeserializeContent h)" "p \<in> set (msg_parts d)"
    then have "Some d \<in> set (se_history c)" unfolding h(2) [symmetric] by auto
    then have "saveable_msg (Some d)" using assms by (auto simp: list_all_iff)
    with d(2) show "\<not> unnamed_call p" using saveable_named by (auto simp: saveable_msg_def list_all_iff)
  qed
  then have "map Some (fixEmptyToolIDs draw 0 (map DeserializeContent h)) = se_history c" for draw
    using h(2) by (simp add: fix_named)
  then show thesis using that h(1) by (simp add: state_of_core_def restore_core_def)
qed

lemma restored_new_core:
  assumes "list_all saveable_msg (se_history c)" and "state_of_core now c = Some st"
  shows "restore_core draw st (new_core i t) = c\<lparr>se_watched := False\<rparr>"
proof -
  obtain st' where st': "state_of_core now c = Some st'"
    "\<And>draw t. restore_core draw st' t =
      c\<lparr>se_watched := se_watched t,
        se_checkpoints := (if se_checkpoints c \<noteq> [] then se_checkpoints c else se_checkpoints t),
        se_tool_checkpoints := (if se_tool_checkpoints c \<noteq> [] then se_tool_checkpoints c else se_tool_checkpoints t)\<rparr>"
    using core_back [OF assms(1), of now] by metis
  then have "restore_core draw st (new_core i t) = restore_core draw st' (new_core i t)" using assms(2) by simp
  also have "\<dots> = c\<lparr>se_watched := False\<rparr>" unfolding st'(2) by (simp add: new_core_def)
  finally show ?thesis .
qed

lemma branches_back:
  "(\<And>p s. (p, s) \<in> set bs \<Longrightarrow> saveable s \<Longrightarrow>
      \<exists>st. GetState now s = Some st \<and> (\<forall>draw path. restored draw path st = unwatched s)) \<Longrightarrow>
   saveable_branches bs \<Longrightarrow>
   \<exists>sts. branch_states now bs = Some sts \<and> (\<forall>draw path. restored_branches draw path sts = unwatched_branches bs)"
proof (induction bs)
  case (Cons b bs)
  obtain p s where b: "b = (p, s)" by fastforce
  with Cons.prems obtain st where st: "GetState now s = Some st" "\<forall>draw path. restored draw path st = unwatched s"
    by (metis list.set_intros(1) saveable_branch.simps saveable_branches.simps(2))
  from Cons.IH Cons.prems obtain sts where sts: "branch_states now bs = Some sts"
    "\<forall>draw path. restored_branches draw path sts = unwatched_branches bs"
    by (metis list.set_intros(2) saveable_branches.simps(2))
  from b st sts show ?case by simp
qed simp

lemma state_back:
  "saveable s \<Longrightarrow> \<exists>st. GetState now s = Some st \<and> (\<forall>draw path. restored draw path st = unwatched s)"
proof (induction s)
  case (Session c bs)
  have "list_all saveable_msg (se_history c)" using Session.prems by simp
  then obtain st where st: "state_of_core now c = Some st" by (rule core_back)
  have r: "restore_core draw st (new_core [] 0) = c\<lparr>se_watched := False\<rparr>" for draw
    using restored_new_core [OF _ st] Session.prems by simp
  have "\<exists>sts. branch_states now bs = Some sts \<and> (\<forall>draw path. restored_branches draw path sts = unwatched_branches bs)"
  proof (rule branches_back)
    fix p s
    assume "(p, s) \<in> set bs" "saveable s"
    then show "\<exists>st. GetState now s = Some st \<and> (\<forall>draw path. restored draw path st = unwatched s)"
      using Session.IH [of "(p, s)" s] by simp
  qed (use Session.prems in simp)
  with st r show ?case by auto
qed

text \<open>
   What is saved of a session comes back. When every part of its messages, and of those of its
  branches, is a named call, a response or a text, the saved state restored into a new session gives
  the session itself, all branches included, but for the handlers of changes. Restored into a session
  that is in use it gives the same history; but checkpoints and branches the saved session did not have
  stay those of the session it is restored into.
\<close>
theorem session_state_roundtrip:
  assumes "saveable s"
  shows "\<exists>st. GetState now s = Some st \<and>
    RestoreFromState draw st (NewSession i t) = unwatched s \<and>
    se_history (core_of (RestoreFromState draw st s')) = se_history (core_of s) \<and>
    se_checkpoints (core_of (RestoreFromState draw st s')) =
      (if se_checkpoints (core_of s) = [] then se_checkpoints (core_of s') else se_checkpoints (core_of s)) \<and>
    branches_of (RestoreFromState draw st s') =
      (if branches_of s = [] then branches_of s' else unwatched_branches (branches_of s))"
proof -
  obtain c bs where s: "s = Session c bs" by (cases s)
  obtain st where st: "GetState now s = Some st" "\<forall>draw path. restored draw path st = unwatched s"
    using state_back [OF assms] by blast
  have c: "list_all saveable_msg (se_history c)" using assms s by simp
  obtain stc where stc: "state_of_core now c = Some stc"
    "\<And>draw t. restore_core draw stc t =
      c\<lparr>se_watched := se_watched t,
        se_checkpoints := (if se_checkpoints c \<noteq> [] then se_checkpoints c else se_checkpoints t),
        se_tool_checkpoints := (if se_tool_checkpoints c \<noteq> [] then se_tool_checkpoints c else se_tool_checkpoints t)\<rparr>"
    using core_back [OF c, of now] by metis
  obtain sts where sts: "st = SessionState stc sts" "branch_states now bs = Some sts"
    using st(1) s stc(1) by (auto split: option.splits)
  have bs: "restored_branches draw path sts = unwatched_branches bs" for draw path
    using st(2) s sts(1) by simp
  have empty: "sts = [] \<longleftrightarrow> bs = []" using sts(2) by (cases bs) (auto split: option.splits)
  have "restored_branches draw [] [] = []" by simp
  with bs empty have ub: "(if sts \<noteq> [] then restored_branches draw [] sts else []) = unwatched_branches bs"
    by (cases "sts = []") auto
  have "RestoreFromState draw st (NewSession i t) = unwatched s"
    unfolding RestoreFromState_def NewSession_def sts(1) s using restored_new_core [OF c stc(1)] ub
    by (simp only: session.sel session_state.sel unwatched.simps)
  with st(1) show ?thesis
    unfolding RestoreFromState_def sts(1) s using stc(2) bs empty by auto
qed

definition sample_session :: session where
  "sample_session = Session ((new_core ''s'' 3)\<lparr>se_history := [text_msg ''user'' ''x'', call_msg ''a'', response_msg ''a'']\<rparr>)
     [(''b'', Session ((new_core ''t'' 4)\<lparr>se_history := [text_msg ''user'' ''y'']\<rparr>) [])]"

lemma session_state_roundtrip_witness:
  "\<exists>st. GetState 5 sample_session = Some st \<and> RestoreFromState (\<lambda>p n. ''id'') st (NewSession [] 0) = sample_session"
proof -
  have "saveable sample_session" by code_simp
  from session_state_roundtrip [OF this, of 5 "\<lambda>p n. ''id''" "[]" 0] obtain st where
    "GetState 5 sample_session = Some st" "RestoreFromState (\<lambda>p n. ''id'') st (NewSession [] 0) = unwatched sample_session" by blast
  then show ?thesis by (simp add: sample_session_def new_core_def)
qed

end
