(* ===== verification/ChatStoreProps.thy ===== *)
theory ChatStoreProps
  imports ChatStore ChatProps
begin

section \<open>Sessions survive on disk\<close>

text \<open>
  A saved session is found and restored by the next manager of the same directory, and the cleanup
  removes only what is too old or too much.
\<close>

definition info_dir :: "session_info \<Rightarrow> string" where
  "info_dir i = (if si_work_dir i \<noteq> [] then path_clean (si_work_dir i) else [])"

lemma latest_info_Cons:
  "latest_info target best (i # is) =
     (if target = [] \<or> info_dir i = [] \<or> info_dir i \<noteq> target then latest_info target best is
      else if (case best of None \<Rightarrow> True | Some b \<Rightarrow> si_last_active b < si_last_active i) then latest_info target (Some i) is
      else latest_info target best is)"
  by (simp add: info_dir_def Let_def)

lemma latest_info_newest:
  assumes "target \<noteq> []" and "info_dir x = target"
    and "list_all (\<lambda>y. y = x \<or> si_last_active y < si_last_active x) is"
    and "x \<in> set is \<or> best = Some x"
    and "case best of None \<Rightarrow> True | Some b \<Rightarrow> b = x \<or> si_last_active b < si_last_active x"
  shows "latest_info target best is = Some x"
  using assms(3-5)
proof (induction "is" arbitrary: best)
  case (Cons i "is")
  show ?case
  proof (cases "i = x")
    case True
    have "latest_info target (Some x) is = Some x" by (rule Cons.IH) (use Cons.prems(1) in simp_all)
    moreover have "best = Some x \<or> (case best of None \<Rightarrow> True | Some b \<Rightarrow> si_last_active b < si_last_active x)"
      using Cons.prems(3) by (auto split: option.splits)
    ultimately show ?thesis
      unfolding latest_info_Cons using True assms(1,2) by auto
  next
    case False
    with Cons.prems have i: "si_last_active i < si_last_active x" "list_all (\<lambda>y. y = x \<or> si_last_active y < si_last_active x) is"
      "x \<in> set is \<or> best = Some x" by auto
    have skip: "latest_info target best is = Some x" by (rule Cons.IH) (use i Cons.prems(3) in auto)
    have take_i: "latest_info target (Some i) is = Some x" if "best \<noteq> Some x"
      by (rule Cons.IH) (use i that in auto)
    show ?thesis
      unfolding latest_info_Cons using skip take_i i(1) by (cases "best = Some x") auto
  qed
qed simp

lemma ListSessions_mem:
  assumes "distinct (map fst d)"
  shows "x \<in> set (ListSessions d) \<longleftrightarrow>
    (\<exists>n st. map_of d n = Some (Some st) \<and> SafeFilenameComponent n \<and> st_id (state_core_of st) = n \<and> x = info_of_state st)"
proof
  assume "x \<in> set (ListSessions d)"
  then obtain n c where n: "(n, c) \<in> set d" "SafeFilenameComponent n"
    "(case load_full n d of Inl e \<Rightarrow> None | Inr st \<Rightarrow> Some (info_of_state st)) = Some x"
    by (auto simp: ListSessions_def List.map_filter_def split: if_splits)
  then obtain st where "load_full n d = Inr st" "x = info_of_state st" by (auto split: sum.splits)
  with n show "\<exists>n st. map_of d n = Some (Some st) \<and> SafeFilenameComponent n \<and> st_id (state_core_of st) = n \<and> x = info_of_state st"
    by (auto simp: load_full_def split: option.splits if_splits)
next
  assume "\<exists>n st. map_of d n = Some (Some st) \<and> SafeFilenameComponent n \<and> st_id (state_core_of st) = n \<and> x = info_of_state st"
  then obtain n st where s: "map_of d n = Some (Some st)" "SafeFilenameComponent n" "st_id (state_core_of st) = n" "x = info_of_state st"
    by blast
  then have "(n, Some st) \<in> set d" "load_full n d = Inr st" by (auto dest: map_of_SomeD simp: load_full_def)
  with s show "x \<in> set (ListSessions d)"
    by (auto simp: ListSessions_def List.map_filter_def intro!: image_eqI [of _ _ "(n, Some st)"])
qed

text \<open>A directory lists its files in the order of their names.\<close>

definition dir_sorted :: "(string \<times> 'a) list \<Rightarrow> bool" where
  "dir_sorted d \<longleftrightarrow> sorted_wrt char_less (map fst d)"

lemma char_less_irrefl: "\<not> char_less x x"
  by (induction x) auto

lemma char_less_trans: "char_less x y \<Longrightarrow> char_less y z \<Longrightarrow> char_less x z"
proof (induction x y arbitrary: z rule: char_less.induct)
  case (3 x xs y ys)
  then show ?case by (cases z) auto
qed (auto elim: char_less.elims)

lemma char_less_total: "x \<noteq> y \<Longrightarrow> \<not> char_less x y \<Longrightarrow> char_less y x"
proof (induction x y rule: char_less.induct)
  case (3 x xs y ys)
  show ?case
  proof (cases "x = y")
    case True
    with 3 show ?thesis by simp
  next
    case False
    then have "(of_char x :: nat) \<noteq> of_char y" by simp
    with 3(3) False show ?thesis by (simp del: of_char_eq_iff)
  qed
qed (auto simp: neq_Nil_conv)

lemma dir_sorted_write: "dir_sorted d \<Longrightarrow> dir_sorted (dir_write n c d)"
proof (induction n c d rule: dir_write.induct)
  case (2 n c m e fs)
  have "fst ` set (dir_write n c fs) = insert n (fst ` set fs)"
    by (induction n c fs rule: dir_write.induct) auto
  with 2 show ?case
    by (auto simp: dir_sorted_def dest: char_less_trans char_less_total)
qed (simp add: dir_sorted_def)

lemma dir_sorted_distinct: "dir_sorted d \<Longrightarrow> distinct (map fst d)"
  unfolding dir_sorted_def by (induction d) (use char_less_irrefl in fastforce)+

lemma GetState_sel:
  assumes "GetState now s = Some st"
  shows "state_id st = se_id (core_of s)" "st_work_dir (state_core_of st) = se_work_dir (core_of s)"
    "st_last_active (state_core_of st) = now"
  using assms by (cases s, auto simp: state_of_core_def split: option.splits)+


definition sample_named :: session where
  "sample_named = Session ((new_core ''s1'' 3)\<lparr>se_work_dir := ''/w'', se_history := [text_msg ''user'' ''x'']\<rparr>) []"


subsection \<open>The cleanup\<close>

lemma load_after_removals:
  "LoadFull k (foldl (\<lambda>d i. snd (DeleteSession (io i) i d)) d is) = LoadFull k d" if "k \<notin> set is"
  using that by (induction "is" arbitrary: d) (simp_all add: session_store.load_delete_other)

text \<open>
  Cleaning up keeps the session in use, and every session that was active within the age limit and is
  among the newest ones the limit allows.
\<close>

lemma cleanup_keeps_newest:
  assumes "infos = newest (ListSessions (sm_dir m))" and "distinct (map si_id infos)"
    and "k = se_id (core_of (sm_session m)) \<or>
      (\<exists>i < length infos. si_id (infos ! i) = k \<and> int i < mc_max_count (sm_config m) \<and>
         now - mc_max_age (sm_config m) \<le> si_last_active (infos ! i))"
  shows "LoadFull k (sm_dir (CleanupOldSessions io newest now m)) = LoadFull k (sm_dir m)"
proof -
  let ?current = "se_id (core_of (sm_session m))" and ?cut = "now - mc_max_age (sm_config m)"
  have "k \<notin> set (cleanup_list ?cut ?current (sm_config m) infos)"
  proof
    assume "k \<in> set (cleanup_list ?cut ?current (sm_config m) infos)"
    then obtain j s where j: "(j, s) \<in> set (enumerate 0 infos)" "si_id s = k" "k \<noteq> ?current" "too_old ?cut (sm_config m) j s"
      by (auto simp: cleanup_list_def)
    then have s: "j < length infos" "s = infos ! j" by (auto simp: in_set_enumerate_eq)
    from assms(3) j(3) obtain i where i: "i < length infos" "si_id (infos ! i) = k" "int i < mc_max_count (sm_config m)"
      "?cut \<le> si_last_active (infos ! i)" by blast
    have "i = j" using assms(2) i(1,2) s j(2) by (metis length_map nth_eq_iff_index_eq nth_map)
    with j(4) s i show False by (simp add: too_old_def)
  qed
  then show ?thesis
    using load_after_removals [of k] by (simp add: CleanupOldSessions_def assms(1))
qed

end
