(* ===== verification/LRUCache.thy ===== *)
theory LRUCache
  imports Prelude
begin

section \<open>The LRU cache\<close>

text \<open>
  \<^verbatim>\<open>internal/engine/cache/lru.go\<close>: a map from keys to values with an expiry, and a list of the keys in
  the order of their use, the last used one first. The code keeps both, with a pointer from the entry
  into the list; here the list holds the keys. What the client relies on is the locale
  \<open>forgetful_map\<close>: a cache may forget, but gives only what was set.
\<close>

record ('k, 'v) lru =
  lru_capacity :: nat
  lru_ttl :: duration
  lru_entries :: "'k \<Rightarrow> ('v \<times> gotime) option"
  lru_order :: "'k list"
  lru_last_cleanup :: gotime

definition NewLRUCache :: "int \<Rightarrow> duration \<Rightarrow> gotime \<Rightarrow> ('k, 'v) lru" where
  "NewLRUCache capacity ttl now =
     \<lparr>lru_capacity = (if capacity < 1 then 1 else nat capacity), lru_ttl = ttl, lru_entries = Map.empty, lru_order = [],
      lru_last_cleanup = now\<rparr>"

definition cleanupInterval :: duration where
  "cleanupInterval = 5 * 60 * 1000000000"

definition removeEntry :: "'k \<Rightarrow> ('k, 'v) lru \<Rightarrow> ('k, 'v) lru" where
  "removeEntry k c = c\<lparr>lru_order := filter (\<lambda>j. j \<noteq> k) (lru_order c), lru_entries := (lru_entries c)(k := None)\<rparr>"

definition moveToFront :: "'k \<Rightarrow> ('k, 'v) lru \<Rightarrow> ('k, 'v) lru" where
  "moveToFront k c = c\<lparr>lru_order := k # filter (\<lambda>j. j \<noteq> k) (lru_order c)\<rparr>"

definition expired_at :: "gotime \<Rightarrow> ('k, 'v) lru \<Rightarrow> 'k \<Rightarrow> bool" where
  "expired_at now c k = (case lru_entries c k of None \<Rightarrow> False | Some (v, e) \<Rightarrow> e < now)"

text \<open>Ranging over the map and deleting from it leaves the same in any order.\<close>

definition remove_where :: "('k \<Rightarrow> bool) \<Rightarrow> ('k, 'v) lru \<Rightarrow> ('k, 'v) lru" where
  "remove_where P c =
     c\<lparr>lru_order := filter (\<lambda>k. \<not> P k) (lru_order c), lru_entries := (\<lambda>k. if P k then None else lru_entries c k)\<rparr>"

definition maybeCleanup :: "gotime \<Rightarrow> ('k, 'v) lru \<Rightarrow> ('k, 'v) lru" where
  "maybeCleanup now c =
     (if time_sub now (lru_last_cleanup c) < cleanupInterval then c
      else remove_where (expired_at now c) (c\<lparr>lru_last_cleanup := now\<rparr>))"

definition LRU_Get :: "gotime \<Rightarrow> 'k \<Rightarrow> ('k, 'v) lru \<Rightarrow> 'v option \<times> ('k, 'v) lru" where
  "LRU_Get now k c =
     (case lru_entries c k of
        None \<Rightarrow> (None, c)
      | Some (v, e) \<Rightarrow> if e < now then (None, removeEntry k c) else (Some v, moveToFront k c))"

definition evictOldest :: "('k, 'v) lru \<Rightarrow> ('k, 'v) lru" where
  "evictOldest c = (if lru_order c = [] then c else removeEntry (last (lru_order c)) c)"

lemma evict_shrinks: "lru_order c \<noteq> [] \<Longrightarrow> length (lru_order (evictOldest c)) < length (lru_order c)"
  by (simp add: evictOldest_def removeEntry_def length_filter_less [of "last (lru_order c)"])

function evict_over :: "('k, 'v) lru \<Rightarrow> ('k, 'v) lru" where
  "evict_over c = (if lru_capacity c < length (lru_order c) then evict_over (evictOldest c) else c)"
  by pat_completeness auto
termination
proof (relation "measure (\<lambda>c. length (lru_order c))")
  fix c :: "('k, 'v) lru"
  assume "lru_capacity c < length (lru_order c)"
  then have "lru_order c \<noteq> []" by auto
  then show "(evictOldest c, c) \<in> measure (\<lambda>c. length (lru_order c))" using evict_shrinks by simp
qed simp

declare evict_over.simps [simp del]

definition LRU_Set :: "gotime \<Rightarrow> 'k \<Rightarrow> 'v \<Rightarrow> ('k, 'v) lru \<Rightarrow> ('k, 'v) lru" where
  "LRU_Set now k v c =
     (if lru_entries c k \<noteq> None
      then moveToFront k (c\<lparr>lru_entries := (lru_entries c)(k \<mapsto> (v, now + lru_ttl c))\<rparr>)
      else maybeCleanup now (evict_over
             (c\<lparr>lru_order := k # lru_order c, lru_entries := (lru_entries c)(k \<mapsto> (v, now + lru_ttl c))\<rparr>)))"

definition LRU_Delete :: "'k \<Rightarrow> ('k, 'v) lru \<Rightarrow> ('k, 'v) lru" where
  "LRU_Delete k c = (if lru_entries c k \<noteq> None then removeEntry k c else c)"

definition LRU_Remove :: "('k \<Rightarrow> 'v \<Rightarrow> bool) \<Rightarrow> ('k, 'v) lru \<Rightarrow> ('k, 'v) lru" where
  "LRU_Remove pred c = remove_where (\<lambda>k. case lru_entries c k of None \<Rightarrow> False | Some (v, e) \<Rightarrow> pred k v) c"

definition LRU_Clear :: "('k, 'v) lru \<Rightarrow> ('k, 'v) lru" where
  "LRU_Clear c = c\<lparr>lru_entries := Map.empty, lru_order := []\<rparr>"

definition LRU_Len :: "('k, 'v) lru \<Rightarrow> nat" where
  "LRU_Len c = length (lru_order c)"

definition LRU_Cleanup :: "gotime \<Rightarrow> ('k, 'v) lru \<Rightarrow> nat \<times> ('k, 'v) lru" where
  "LRU_Cleanup now c = (length (filter (expired_at now c) (lru_order c)), remove_where (expired_at now c) c)"

text \<open>The keys come in the order of the map, which is any; here in that of the list.\<close>

definition LRU_Keys :: "gotime \<Rightarrow> ('k, 'v) lru \<Rightarrow> 'k list" where
  "LRU_Keys now c = filter (\<lambda>k. \<not> expired_at now c k) (lru_order c)"

subsection \<open>The invariant\<close>

definition lru_ok :: "('k, 'v) lru \<Rightarrow> bool" where
  "lru_ok c \<longleftrightarrow> 0 < lru_capacity c \<and> distinct (lru_order c) \<and> set (lru_order c) = dom (lru_entries c) \<and>
     length (lru_order c) \<le> lru_capacity c"

lemma NewLRUCache_ok: "lru_ok (NewLRUCache n ttl now)"
  by (simp add: lru_ok_def NewLRUCache_def)

lemma removeEntry_ok: "lru_ok c \<Longrightarrow> lru_ok (removeEntry k c)"
  by (auto simp: lru_ok_def removeEntry_def intro: le_trans [OF length_filter_le])

lemma filter_out_length: "distinct xs \<Longrightarrow> k \<in> set xs \<Longrightarrow> Suc (length (filter (\<lambda>j. j \<noteq> k) xs)) = length xs"
  by (induction xs) (auto intro!: arg_cong [of _ _ length] simp: filter_id_conv)

lemma moveToFront_ok: "lru_ok c \<Longrightarrow> lru_entries c k \<noteq> None \<Longrightarrow> lru_ok (moveToFront k c)"
  using filter_out_length [of "lru_order c" k] by (auto simp: lru_ok_def moveToFront_def domI)

lemma remove_where_ok: "lru_ok c \<Longrightarrow> lru_ok (remove_where P c)"
  by (auto simp: lru_ok_def remove_where_def dom_def intro: le_trans [OF length_filter_le])

lemma LRU_Get_ok: "lru_ok c \<Longrightarrow> lru_ok (snd (LRU_Get now k c))"
  by (auto simp: LRU_Get_def removeEntry_ok moveToFront_ok split: option.splits)

text \<open>A cache one over its capacity evicts the last key of the order.\<close>

lemma evict_one:
  assumes "distinct (lru_order c)" and "length (lru_order c) \<le> Suc (lru_capacity c)"
  shows "evict_over c = (if lru_capacity c < length (lru_order c) then removeEntry (last (lru_order c)) c else c)"
proof (cases "lru_capacity c < length (lru_order c)")
  case True
  then have ne: "lru_order c \<noteq> []" by auto
  have e: "evictOldest c = removeEntry (last (lru_order c)) c" using ne by (simp add: evictOldest_def)
  have "length (lru_order (evictOldest c)) < length (lru_order c)" by (rule evict_shrinks [OF ne])
  moreover have "lru_capacity (evictOldest c) = lru_capacity c" by (simp add: e removeEntry_def)
  ultimately have "evict_over (evictOldest c) = evictOldest c" using assms(2) by (subst evict_over.simps) simp
  with True e show ?thesis by (subst evict_over.simps) simp
qed (subst evict_over.simps, simp)

definition inserted :: "gotime \<Rightarrow> 'k \<Rightarrow> 'v \<Rightarrow> ('k, 'v) lru \<Rightarrow> ('k, 'v) lru" where
  "inserted now k v c = c\<lparr>lru_order := k # lru_order c, lru_entries := (lru_entries c)(k \<mapsto> (v, now + lru_ttl c))\<rparr>"

lemma LRU_Set_new:
  assumes "lru_ok c" and "lru_entries c k = None"
  shows "LRU_Set now k v c =
    maybeCleanup now (if lru_capacity c = length (lru_order c) then removeEntry (last (lru_order c)) (inserted now k v c)
                      else inserted now k v c)"
proof -
  have "distinct (lru_order (inserted now k v c))" "length (lru_order (inserted now k v c)) \<le> Suc (lru_capacity c)"
    using assms by (auto simp: lru_ok_def inserted_def)
  from evict_one [OF this(1)] this(2) show ?thesis
    using assms by (auto simp: LRU_Set_def lru_ok_def inserted_def)
qed

lemma maybeCleanup_ok: "lru_ok c \<Longrightarrow> lru_ok (maybeCleanup now c)"
  using remove_where_ok [of "c\<lparr>lru_last_cleanup := now\<rparr>"] by (simp add: maybeCleanup_def lru_ok_def)

lemma LRU_Set_ok: "lru_ok c \<Longrightarrow> lru_ok (LRU_Set now k v c)"
proof (cases "lru_entries c k")
  case None
  assume ok: "lru_ok c"
  let ?c = "inserted now k v c"
  have "lru_ok (if lru_capacity c = length (lru_order c) then removeEntry (last (lru_order c)) ?c else ?c)"
  proof (cases "lru_capacity c = length (lru_order c)")
    case True
    then have "lru_order c \<noteq> []" using ok by (auto simp: lru_ok_def)
    then have l: "last (lru_order c) \<in> set (lru_order c)" by simp
    with None ok have "last (lru_order c) \<noteq> k" by (auto simp: lru_ok_def)
    with True ok None filter_out_length [OF _ l] show ?thesis
      by (auto simp: lru_ok_def inserted_def removeEntry_def)
  next
    case False
    with ok None show ?thesis by (auto simp: lru_ok_def inserted_def)
  qed
  then show ?thesis unfolding LRU_Set_new [OF ok None] by (rule maybeCleanup_ok)
next
  case (Some e)
  assume "lru_ok c"
  then have "lru_ok (c\<lparr>lru_entries := (lru_entries c)(k \<mapsto> (v, now + lru_ttl c))\<rparr>)"
    using Some by (auto simp: lru_ok_def insert_absorb domI)
  from moveToFront_ok [OF this] Some show ?thesis by (simp add: LRU_Set_def)
qed

subsection \<open>What a client relies on\<close>

text \<open>
  \<open>holds c k v\<close>: the cache has the value. Only a set makes it hold something, and what it gives it
  held. The lemma says it for a whole run of operations.
\<close>

datatype ('k, 'v) map_op = MapGet gotime 'k | MapSet gotime 'k 'v | MapDelete 'k | MapClear

locale forgetful_map =
  fixes get :: "gotime \<Rightarrow> 'k \<Rightarrow> 'c \<Rightarrow> 'v option \<times> 'c"
    and set_to :: "gotime \<Rightarrow> 'k \<Rightarrow> 'v \<Rightarrow> 'c \<Rightarrow> 'c"
    and delete :: "'k \<Rightarrow> 'c \<Rightarrow> 'c"
    and clear :: "'c \<Rightarrow> 'c"
    and holds :: "'c \<Rightarrow> 'k \<Rightarrow> 'v \<Rightarrow> bool"
  assumes get_holds: "fst (get now k c) = Some v \<Longrightarrow> holds c k v"
    and holds_get: "holds (snd (get now j c)) k v \<Longrightarrow> holds c k v"
    and holds_set: "holds (set_to now j w c) k v \<Longrightarrow> (if k = j then v = w else holds c k v)"
    and holds_delete: "holds (delete j c) k v \<Longrightarrow> k \<noteq> j \<and> holds c k v"
    and holds_clear: "\<not> holds (clear c) k v"
begin

definition apply_op :: "('k, 'v) map_op \<Rightarrow> 'c \<Rightarrow> 'c" where
  "apply_op a c =
     (case a of
        MapGet now k \<Rightarrow> snd (get now k c) | MapSet now k v \<Rightarrow> set_to now k v c | MapDelete k \<Rightarrow> delete k c | MapClear \<Rightarrow> clear c)"

lemma holds_apply: "holds (apply_op a c) k v \<Longrightarrow> holds c k v \<or> (\<exists>now. a = MapSet now k v)"
proof (cases a)
  case (MapGet now j)
  then show "holds (apply_op a c) k v \<Longrightarrow> holds c k v \<or> (\<exists>now. a = MapSet now k v)" using holds_get by (simp add: apply_op_def)
next
  case (MapSet now j w)
  then show "holds (apply_op a c) k v \<Longrightarrow> holds c k v \<or> (\<exists>now. a = MapSet now k v)"
    using holds_set [of now j w c k v] by (cases "k = j") (simp_all add: apply_op_def)
next
  case (MapDelete j)
  then show "holds (apply_op a c) k v \<Longrightarrow> holds c k v \<or> (\<exists>now. a = MapSet now k v)"
    using holds_delete by (simp add: apply_op_def)
next
  case MapClear
  then show "holds (apply_op a c) k v \<Longrightarrow> holds c k v \<or> (\<exists>now. a = MapSet now k v)" by (simp add: apply_op_def holds_clear)
qed

lemma only_what_was_set:
  "holds (foldl (\<lambda>c a. apply_op a c) c ops) k v \<Longrightarrow> holds c k v \<or> (\<exists>now. MapSet now k v \<in> set ops)"
proof (induction ops rule: rev_induct)
  case (snoc a ops)
  then have "holds (apply_op a (foldl (\<lambda>c a. apply_op a c) c ops)) k v" by simp
  from holds_apply [OF this] show ?case
  proof
    assume "holds (foldl (\<lambda>c a. apply_op a c) c ops) k v"
    from snoc.IH [OF this] show ?thesis by auto
  qed auto
qed simp

end

definition lru_holds :: "('k, 'v) lru \<Rightarrow> 'k \<Rightarrow> 'v \<Rightarrow> bool" where
  "lru_holds c k v \<longleftrightarrow> (\<exists>e. lru_entries c k = Some (v, e))"

lemma lru_holds_simps [simp]:
  "lru_holds (removeEntry j c) k v \<longleftrightarrow> k \<noteq> j \<and> lru_holds c k v"
  "lru_holds (moveToFront j c) k v \<longleftrightarrow> lru_holds c k v"
  "lru_holds (remove_where P c) k v \<longleftrightarrow> \<not> P k \<and> lru_holds c k v"
  "lru_holds (c\<lparr>lru_last_cleanup := t\<rparr>) k v \<longleftrightarrow> lru_holds c k v"
  "\<not> lru_holds (LRU_Clear c) k v"
  by (auto simp: lru_holds_def removeEntry_def moveToFront_def remove_where_def LRU_Clear_def)

lemma lru_holds_evict: "lru_holds (evict_over c) k v \<Longrightarrow> lru_holds c k v"
proof (induction c rule: evict_over.induct)
  case (1 c)
  show ?case
  proof (cases "lru_capacity c < length (lru_order c)")
    case True
    with 1(2) have "lru_holds (evict_over (evictOldest c)) k v" by (simp add: evict_over.simps [of c])
    with 1(1) True have "lru_holds (evictOldest c) k v" by blast
    then show ?thesis by (simp add: evictOldest_def split: if_splits)
  next
    case False
    with 1(2) show ?thesis by (simp add: evict_over.simps [of c])
  qed
qed

lemma lru_holds_maybe: "lru_holds (maybeCleanup now c) k v \<Longrightarrow> lru_holds c k v"
  by (simp add: maybeCleanup_def split: if_splits)

interpretation lru: forgetful_map LRU_Get LRU_Set LRU_Delete LRU_Clear lru_holds
proof
  show "lru_holds c k v" if "fst (LRU_Get now k c) = Some v" for now k v and c :: "('a, 'b) lru"
    using that by (auto simp: LRU_Get_def lru_holds_def split: option.splits if_splits)
  show "lru_holds c k v" if "lru_holds (snd (LRU_Get now j c)) k v" for now j k v and c :: "('a, 'b) lru"
    using that by (auto simp: LRU_Get_def split: option.splits if_splits)
  show "if k = j then v = w else lru_holds c k v" if "lru_holds (LRU_Set now j w c) k v" for now j w k v and c :: "('a, 'b) lru"
    using that
    by (auto simp: LRU_Set_def lru_holds_def [of "c\<lparr>lru_entries := _\<rparr>"] dest!: lru_holds_maybe lru_holds_evict split: if_splits)
      (auto simp: lru_holds_def split: if_splits)
  show "k \<noteq> j \<and> lru_holds c k v" if "lru_holds (LRU_Delete j c) k v" for j k v and c :: "('a, 'b) lru"
    using that by (cases "lru_entries c j") (auto simp: LRU_Delete_def, auto simp: lru_holds_def)
qed simp

end
