(* ===== verification/Permission.thy ===== *)
theory Permission
  imports LRUCache
begin

section \<open>Permissions\<close>

text \<open>
  \<^verbatim>\<open>internal/engine/permission\<close> (\<^verbatim>\<open>permission.go\<close>, \<^verbatim>\<open>rules.go\<close>, \<^verbatim>\<open>manager.go\<close>): before a tool runs
  the manager allows it, denies it, or asks the user, and remembers decisions for the session. A check
  is two critical sections, before and after the question to the user, so that checks interleave:
  \<open>check_start\<close> and \<open>ask_done\<close>. \<open>sha\<close> is the hexadecimal form of the first eight bytes of SHA-256.
\<close>

subsection \<open>Levels, risks and requests\<close>

datatype level = LevelAllow | LevelAsk | LevelDeny | LevelOther string

datatype risk_level = RiskLow | RiskMedium | RiskHigh

fun Risk_String :: "risk_level \<Rightarrow> string" where
  "Risk_String RiskLow = ''low''"
| "Risk_String RiskMedium = ''medium''"
| "Risk_String RiskHigh = ''high''"

datatype decision = DecisionPending | DecisionAllow | DecisionAllowSession | DecisionDeny | DecisionDenySession

record response =
  rs_allowed :: bool
  rs_decision :: decision
  rs_reason :: string

record request =
  rq_tool :: string
  rq_args :: tool_args
  rq_risk :: risk_level
  rq_reason :: string

definition low_risk_tools :: "string list" where
  "low_risk_tools =
     [''read'', ''glob'', ''grep'', ''tree'', ''diff'', ''env'', ''list_dir'', ''git_status'', ''git_log'', ''git_diff'',
      ''git_blame'', ''code_graph'', ''semantic_search'', ''history_search'', ''web_search'', ''web_fetch'', ''todo'',
      ''task_output'', ''task_stop'']"

definition GetToolRiskLevel :: "string \<Rightarrow> risk_level" where
  "GetToolRiskLevel t =
     (if t \<in> set low_risk_tools then RiskLow
      else if t \<in> set [''write'', ''edit'', ''git_add'', ''copy'', ''move'', ''mkdir'', ''atomicwrite'', ''task'', ''batch'']
      then RiskMedium
      else if t \<in> set [''bash'', ''delete'', ''git_commit'', ''ssh''] then RiskHigh
      else RiskMedium)"

definition reason_with :: "tool_args \<Rightarrow> string \<Rightarrow> string \<Rightarrow> string \<Rightarrow> string" where
  "reason_with args k pre default_reason = (case string_arg args k of Some v \<Rightarrow> pre @ v | None \<Rightarrow> default_reason)"

definition buildReason :: "string \<Rightarrow> tool_args \<Rightarrow> string" where
  "buildReason t args =
     (if t = ''write'' then reason_with args ''file_path'' ''Write to file: '' ''Write to file''
      else if t = ''edit'' then reason_with args ''file_path'' ''Edit file: '' ''Edit file''
      else if t = ''bash'' then
        (case string_arg args ''command'' of
           Some cmd \<Rightarrow> ''Execute command: '' @ (if 150 < length cmd then take 147 cmd @ ''...'' else cmd)
         | None \<Rightarrow> ''Execute shell command'')
      else if t = ''read'' then reason_with args ''file_path'' ''Read file: '' ''Read file''
      else if t = ''glob'' then reason_with args ''pattern'' ''Search files matching: '' ''Search files''
      else if t = ''grep'' then reason_with args ''pattern'' ''Search content: '' ''Search file contents''
      else ''Execute tool: '' @ t)"

definition NewRequest :: "string \<Rightarrow> tool_args \<Rightarrow> request" where
  "NewRequest t args = \<lparr>rq_tool = t, rq_args = args, rq_risk = GetToolRiskLevel t, rq_reason = buildReason t args\<rparr>"

subsection \<open>Rules\<close>

record rules =
  rl_default :: level
  rl_policies :: "(string \<times> level) list"

definition DefaultRules :: rules where
  "DefaultRules =
     \<lparr>rl_default = LevelAsk,
      rl_policies =
        map (\<lambda>t. (t, LevelAllow))
          [''read'', ''glob'', ''grep'', ''tree'', ''diff'', ''env'', ''list_dir'', ''todo'', ''git_status'', ''git_log'',
           ''git_diff'', ''git_blame'', ''code_graph'', ''semantic_search'', ''history_search'', ''web_search'', ''web_fetch'',
           ''task_output'', ''task_stop''] @
        map (\<lambda>t. (t, LevelAsk))
          [''write'', ''atomicwrite'', ''edit'', ''git_add'', ''copy'', ''move'', ''mkdir'', ''bash'', ''delete'', ''git_commit'',
           ''ssh'']\<rparr>"

definition GetPolicy :: "rules \<Rightarrow> string \<Rightarrow> level" where
  "GetPolicy r t = (case map_of (rl_policies r) t of Some l \<Rightarrow> l | None \<Rightarrow> rl_default r)"

definition SetPolicy :: "string \<Rightarrow> level \<Rightarrow> rules \<Rightarrow> rules" where
  "SetPolicy t l r = r\<lparr>rl_policies := AList.update t l (rl_policies r)\<rparr>"

definition parseLevel :: "string \<Rightarrow> level" where
  "parseLevel s = (if s = ''allow'' then LevelAllow else if s = ''deny'' then LevelDeny else LevelAsk)"

definition NewRulesFromConfig :: "string \<Rightarrow> (string \<times> string) list \<Rightarrow> rules" where
  "NewRulesFromConfig d ps = \<lparr>rl_default = parseLevel d, rl_policies = map (\<lambda>(t, p). (t, parseLevel p)) ps\<rparr>"

subsection \<open>The manager\<close>

record permission_manager =
  pm_rules :: rules
  pm_enabled :: bool
  pm_cache :: "(string, decision) lru"
  pm_auto :: "string list"
  pm_handler :: bool

definition NewPermissionManager :: "rules option \<Rightarrow> bool \<Rightarrow> gotime \<Rightarrow> permission_manager" where
  "NewPermissionManager r enabled now =
     \<lparr>pm_rules = (case r of None \<Rightarrow> DefaultRules | Some r' \<Rightarrow> r'), pm_enabled = enabled,
      pm_cache = NewLRUCache 1000 (24 * 3600 * 1000000000) now, pm_auto = [], pm_handler = False\<rparr>"

definition cacheKey :: "(string \<Rightarrow> string) \<Rightarrow> string \<Rightarrow> tool_args \<Rightarrow> string" where
  "cacheKey sha t args =
     (if t = ''bash'' then (case string_arg args ''command'' of Some cmd \<Rightarrow> t @ '':'' @ sha cmd | None \<Rightarrow> t)
      else if t = ''write'' \<or> t = ''edit'' then
        (case string_arg args ''path'' of
           Some p \<Rightarrow> t @ '':'' @ p
         | None \<Rightarrow> (case string_arg args ''file_path'' of Some p \<Rightarrow> t @ '':'' @ p | None \<Rightarrow> t))
      else t)"

datatype check = Answered response | AskUser request

definition grant :: "decision \<Rightarrow> response" where
  "grant d = \<lparr>rs_allowed = True, rs_decision = d, rs_reason = []\<rparr>"

definition refuse :: "decision \<Rightarrow> string \<Rightarrow> response" where
  "refuse d why = \<lparr>rs_allowed = False, rs_decision = d, rs_reason = why\<rparr>"

text \<open>The start of asking: without a handler everything is allowed.\<close>

definition ask_start :: "string \<Rightarrow> tool_args \<Rightarrow> permission_manager \<Rightarrow> check" where
  "ask_start t args m = (if \<not> pm_handler m then Answered (grant DecisionAllow) else AskUser (NewRequest t args))"

definition check_policy :: "string \<Rightarrow> tool_args \<Rightarrow> permission_manager \<Rightarrow> check" where
  "check_policy t args m =
     (case GetPolicy (pm_rules m) t of
        LevelAllow \<Rightarrow> Answered (grant DecisionAllow)
      | LevelDeny \<Rightarrow> Answered (refuse DecisionDeny ''Tool is not permitted by configuration'')
      | LevelAsk \<Rightarrow>
          if GetToolRiskLevel t = RiskMedium \<and> t \<in> set (pm_auto m) then Answered (grant DecisionAllowSession)
          else ask_start t args m
      | LevelOther s \<Rightarrow> ask_start t args m)"

definition check_start ::
  "(string \<Rightarrow> string) \<Rightarrow> gotime \<Rightarrow> string \<Rightarrow> tool_args \<Rightarrow> permission_manager \<Rightarrow> check \<times> permission_manager" where
  "check_start sha now t args m =
     (if \<not> pm_enabled m then (Answered (grant DecisionAllow), m)
      else let (found, c) = LRU_Get now (cacheKey sha t args) (pm_cache m); m1 = m\<lparr>pm_cache := c\<rparr>
           in if found = Some DecisionAllowSession then (Answered (grant DecisionAllowSession), m1)
              else if found = Some DecisionDenySession then (Answered (refuse DecisionDenySession ''Denied for session''), m1)
              else (check_policy t args m1, m1))"

definition rememberKey :: "gotime \<Rightarrow> string \<Rightarrow> decision \<Rightarrow> permission_manager \<Rightarrow> permission_manager" where
  "rememberKey now k d m = m\<lparr>pm_cache := LRU_Set now k d (pm_cache m)\<rparr>"

definition auto_approve :: "string \<Rightarrow> permission_manager \<Rightarrow> permission_manager" where
  "auto_approve t m = (if GetToolRiskLevel t = RiskMedium then m\<lparr>pm_auto := List.insert t (pm_auto m)\<rparr> else m)"

text \<open>What the handler answers: an error or a decision.\<close>

definition ask_done ::
  "(string \<Rightarrow> string) \<Rightarrow> gotime \<Rightarrow> string \<Rightarrow> tool_args \<Rightarrow> string + decision \<Rightarrow> permission_manager \<Rightarrow> response \<times> permission_manager" where
  "ask_done sha now t args answer m =
     (let k = cacheKey sha t args
      in case answer of
           Inl err \<Rightarrow> (refuse DecisionDeny err, m)
         | Inr d \<Rightarrow>
             (case d of
                DecisionAllow \<Rightarrow> (grant d, auto_approve t m)
              | DecisionAllowSession \<Rightarrow> (grant d, auto_approve t (rememberKey now k d m))
              | DecisionDeny \<Rightarrow> (refuse d ''Denied by user'', m)
              | DecisionDenySession \<Rightarrow> (refuse d ''Denied for session'', rememberKey now k d m)
              | DecisionPending \<Rightarrow> (refuse DecisionDeny ''Unknown decision'', m)))"

text \<open>A check on its own, whose question is answered at \<open>later\<close>.\<close>

definition PermissionManager_Check ::
  "(string \<Rightarrow> string) \<Rightarrow> gotime \<Rightarrow> gotime \<Rightarrow> (request \<Rightarrow> string + decision) \<Rightarrow> string \<Rightarrow> tool_args \<Rightarrow> permission_manager \<Rightarrow>
   response \<times> permission_manager" where
  "PermissionManager_Check sha now later handler t args m =
     (case check_start sha now t args m of
        (Answered r, m1) \<Rightarrow> (r, m1)
      | (AskUser rq, m1) \<Rightarrow> ask_done sha later t args (handler rq) m1)"

definition RememberWithArgs ::
  "(string \<Rightarrow> string) \<Rightarrow> gotime \<Rightarrow> string \<Rightarrow> tool_args \<Rightarrow> decision \<Rightarrow> permission_manager \<Rightarrow> permission_manager" where
  "RememberWithArgs sha now t args d m = rememberKey now (cacheKey sha t args) d m"

definition Forget :: "string \<Rightarrow> permission_manager \<Rightarrow> permission_manager" where
  "Forget t m = m\<lparr>pm_cache := LRU_Delete t (pm_cache m)\<rparr>"

definition ForgetWithArgs :: "(string \<Rightarrow> string) \<Rightarrow> string \<Rightarrow> tool_args \<Rightarrow> permission_manager \<Rightarrow> permission_manager" where
  "ForgetWithArgs sha t args m = m\<lparr>pm_cache := LRU_Delete (cacheKey sha t args) (pm_cache m)\<rparr>"

definition ClearSession :: "permission_manager \<Rightarrow> permission_manager" where
  "ClearSession m = m\<lparr>pm_cache := LRU_Clear (pm_cache m), pm_auto := []\<rparr>"

definition Permission_SetEnabled :: "bool \<Rightarrow> permission_manager \<Rightarrow> permission_manager" where
  "Permission_SetEnabled b m = m\<lparr>pm_enabled := b\<rparr>"

definition SetRules :: "rules \<Rightarrow> permission_manager \<Rightarrow> permission_manager" where
  "SetRules r m = m\<lparr>pm_rules := r\<rparr>"

definition SetPromptHandler :: "bool \<Rightarrow> permission_manager \<Rightarrow> permission_manager" where
  "SetPromptHandler present m = m\<lparr>pm_handler := present\<rparr>"

end
