(* ===== verification/PermissionProps.thy ===== *)
theory PermissionProps
  imports Permission
begin

section \<open>Who gave consent\<close>

text \<open>
  The checks of several agents interleave: one may wait for the user while others start, are answered or
  change the settings. A run keeps the checks that wait and the record of what was decided; what is
  remembered was decided before, so a tool runs only with consent.
\<close>

datatype consent = Decided string tool_args decision | Remembered string decision

type_synonym perm_state = "permission_manager \<times> (string \<times> tool_args) list \<times> consent list"

inductive perm_step :: "(string \<Rightarrow> string) \<Rightarrow> perm_state \<Rightarrow> perm_state \<Rightarrow> bool" for sha where
  check_answered: "check_start sha now t args m = (Answered r, m') \<Longrightarrow> perm_step sha (m, w, ev) (m', w, ev)"
| check_asks: "check_start sha now t args m = (AskUser rq, m') \<Longrightarrow> perm_step sha (m, w, ev) (m', (t, args) # w, ev)"
| user_decides: "(t, args) \<in> set w \<Longrightarrow> ask_done sha now t args (Inr d) m = (r, m') \<Longrightarrow>
    perm_step sha (m, w, ev) (m', remove1 (t, args) w, ev @ [Decided t args d])"
| asking_fails: "(t, args) \<in> set w \<Longrightarrow> ask_done sha now t args (Inl err) m = (r, m') \<Longrightarrow>
    perm_step sha (m, w, ev) (m', remove1 (t, args) w, ev)"
| remembered: "perm_step sha (m, w, ev) (RememberWithArgs sha now t args d m, w, ev @ [Remembered (cacheKey sha t args) d])"
| forget: "perm_step sha (m, w, ev) (Forget t m, w, ev)"
| forget_args: "perm_step sha (m, w, ev) (ForgetWithArgs sha t args m, w, ev)"
| clear_session: "perm_step sha (m, w, ev) (ClearSession m, w, ev)"
| set_enabled: "perm_step sha (m, w, ev) (Permission_SetEnabled b m, w, ev)"
| set_rules: "perm_step sha (m, w, ev) (SetRules rs m, w, ev)"
| set_handler: "perm_step sha (m, w, ev) (SetPromptHandler h m, w, ev)"

inductive_cases perm_stepE: "perm_step sha (m, w, ev) s'"

inductive perm_run :: "(string \<Rightarrow> string) \<Rightarrow> perm_state \<Rightarrow> perm_state \<Rightarrow> bool" for sha s0 where
  run_start: "perm_run sha s0 s0"
| run_step: "perm_run sha s0 s \<Longrightarrow> perm_step sha s s' \<Longrightarrow> perm_run sha s0 s'"

text \<open>The consent a remembered decision, or an automatic approval, rests on.\<close>

definition decided_for :: "(string \<Rightarrow> string) \<Rightarrow> consent list \<Rightarrow> string \<Rightarrow> decision \<Rightarrow> bool" where
  "decided_for sha ev k d \<longleftrightarrow>
     list_ex (\<lambda>e. case e of Decided t args d' \<Rightarrow> cacheKey sha t args = k \<and> d' = d | Remembered k' d' \<Rightarrow> k' = k \<and> d' = d) ev"

definition approved_once :: "consent list \<Rightarrow> string \<Rightarrow> bool" where
  "approved_once ev t \<longleftrightarrow>
     list_ex (\<lambda>e. case e of Decided t' args d \<Rightarrow> t' = t \<and> (d = DecisionAllow \<or> d = DecisionAllowSession) | Remembered k d \<Rightarrow> False) ev"

definition consent_ok :: "(string \<Rightarrow> string) \<Rightarrow> perm_state \<Rightarrow> bool" where
  "consent_ok sha s \<longleftrightarrow>
     (case s of (m, w, ev) \<Rightarrow>
        (\<forall>k d. lru_holds (pm_cache m) k d \<longrightarrow> decided_for sha ev k d) \<and> (\<forall>t\<in>set (pm_auto m). approved_once ev t))"

lemma decided_for_append: "decided_for sha (ev @ ev') k d \<longleftrightarrow> decided_for sha ev k d \<or> decided_for sha ev' k d"
  by (auto simp: decided_for_def)

lemma approved_once_append: "approved_once (ev @ ev') t \<longleftrightarrow> approved_once ev t \<or> approved_once ev' t"
  by (auto simp: approved_once_def)

lemma check_start_frame:
  assumes "check_start sha now t args m = (c, m')"
  shows "pm_auto m' = pm_auto m" and "lru_holds (pm_cache m') k d \<Longrightarrow> lru_holds (pm_cache m) k d"
proof -
  obtain f cc where g: "LRU_Get now (cacheKey sha t args) (pm_cache m) = (f, cc)" by fastforce
  then have "m' = m \<or> m' = m\<lparr>pm_cache := cc\<rparr>"
    using assms by (auto simp: check_start_def Let_def split: if_splits)
  then show "pm_auto m' = pm_auto m" and "lru_holds (pm_cache m') k d \<Longrightarrow> lru_holds (pm_cache m) k d"
    using lru.holds_get [of now "cacheKey sha t args" "pm_cache m" k d] g by auto
qed

lemma rememberKey_holds:
  "lru_holds (pm_cache (rememberKey now k d m)) j e \<Longrightarrow> (if j = k then e = d else lru_holds (pm_cache m) j e)"
  using lru.holds_set [of now k d "pm_cache m" j e] by (simp add: rememberKey_def)

lemma auto_approve_sel: "pm_cache (auto_approve t m) = pm_cache m" "set (pm_auto (auto_approve t m)) \<subseteq> insert t (set (pm_auto m))"
  by (auto simp: auto_approve_def)

lemma ask_done_consent:
  assumes "consent_ok sha (m, w, ev)" and "ask_done sha now t args (Inr d) m = (r, m')"
  shows "consent_ok sha (m', w', ev @ [Decided t args d])"
proof -
  have ev: "decided_for sha (ev @ [Decided t args d]) (cacheKey sha t args) d" by (simp add: decided_for_def)
  have cache: "decided_for sha (ev @ [Decided t args d]) k e" if "lru_holds (pm_cache m') k e" for k e
  proof (cases "lru_holds (pm_cache m) k e")
    case True
    with assms(1) show ?thesis by (simp add: consent_ok_def decided_for_append)
  next
    case False
    with that assms(2) have "lru_holds (pm_cache (rememberKey now (cacheKey sha t args) d m)) k e"
      by (cases d) (auto simp: ask_done_def Let_def auto_approve_sel)
    from rememberKey_holds [OF this] False ev show ?thesis by (auto split: if_splits)
  qed
  have auto: "approved_once (ev @ [Decided t args d]) u" if u: "u \<in> set (pm_auto m')" for u
  proof (cases "u \<in> set (pm_auto m)")
    case True
    with assms(1) show ?thesis by (simp add: consent_ok_def approved_once_append)
  next
    case False
    with u assms(2) auto_approve_sel(2) have "u = t" "d = DecisionAllow \<or> d = DecisionAllowSession"
      by (cases d; fastforce simp: ask_done_def Let_def rememberKey_def)+
    then show ?thesis by (simp add: approved_once_def)
  qed
  from cache auto show ?thesis by (simp add: consent_ok_def)
qed

lemma perm_step_consent:
  assumes "perm_step sha s s'" and "consent_ok sha s"
  shows "consent_ok sha s'"
  using assms(1)
proof cases
  case (check_answered now t args m r m' w ev)
  with assms(2) check_start_frame [OF check_answered(3)] show ?thesis by (auto simp: consent_ok_def)
next
  case (check_asks now t args m rq m' w ev)
  with assms(2) check_start_frame [OF check_asks(3)] show ?thesis by (auto simp: consent_ok_def)
next
  case (user_decides t args w now d m r m' ev)
  with assms(2) ask_done_consent show ?thesis by blast
next
  case (asking_fails t args w now err m r m' ev)
  with assms(2) show ?thesis by (simp add: consent_ok_def ask_done_def)
next
  case (remembered m w ev now t args d)
  with assms(2) show ?thesis
    by (auto simp: consent_ok_def decided_for_append approved_once_append RememberWithArgs_def dest!: rememberKey_holds split: if_splits)
      (auto simp: decided_for_def rememberKey_def)
next
  case (forget m w ev t)
  with assms(2) show ?thesis by (auto simp: consent_ok_def Forget_def dest: lru.holds_delete)
next
  case (forget_args m w ev t args)
  with assms(2) show ?thesis by (auto simp: consent_ok_def ForgetWithArgs_def dest: lru.holds_delete)
next
  case (clear_session m w ev)
  then show ?thesis by (simp add: consent_ok_def ClearSession_def)
qed (use assms(2) in \<open>simp_all add: consent_ok_def Permission_SetEnabled_def SetRules_def SetPromptHandler_def\<close>)

lemma new_manager_consent: "consent_ok sha (NewPermissionManager r b now, [], [])"
  by (simp add: consent_ok_def NewPermissionManager_def NewLRUCache_def lru_holds_def)

lemma perm_run_consent: "perm_run sha s0 s \<Longrightarrow> consent_ok sha s0 \<Longrightarrow> consent_ok sha s"
  by (induction rule: perm_run.induct) (auto intro: perm_step_consent)

text \<open>What makes a check pass without asking.\<close>

definition standing_consent :: "(string \<Rightarrow> string) \<Rightarrow> perm_state \<Rightarrow> string \<Rightarrow> tool_args \<Rightarrow> bool" where
  "standing_consent sha s t args \<longleftrightarrow>
     (case s of (m, w, ev) \<Rightarrow>
        GetPolicy (pm_rules m) t = LevelAllow \<or> (\<not> pm_handler m \<and> GetPolicy (pm_rules m) t \<noteq> LevelDeny) \<or>
        decided_for sha ev (cacheKey sha t args) DecisionAllowSession \<or>
        (GetPolicy (pm_rules m) t = LevelAsk \<and> GetToolRiskLevel t = RiskMedium \<and> approved_once ev t))"

lemma check_start_allowed:
  assumes "consent_ok sha (m, w, ev)" and "pm_enabled m"
    and "check_start sha now t args m = (Answered r, m')" and "rs_allowed r"
  shows "standing_consent sha (m, w, ev) t args"
proof -
  obtain f cc where g: "LRU_Get now (cacheKey sha t args) (pm_cache m) = (f, cc)" by fastforce
  let ?m = "m\<lparr>pm_cache := cc\<rparr>"
  consider (session) "f = Some DecisionAllowSession" | (policy) "check_policy t args ?m = Answered r"
    using assms(2-4) g by (auto simp: check_start_def Let_def refuse_def split: if_splits)
  then show ?thesis
  proof cases
    case session
    then have "lru_holds (pm_cache m) (cacheKey sha t args) DecisionAllowSession" using lru.get_holds g by (metis fst_conv)
    with assms(1) show ?thesis by (simp add: consent_ok_def standing_consent_def)
  next
    case policy
    with assms(1,4) show ?thesis
      by (auto simp: check_policy_def ask_start_def refuse_def consent_ok_def standing_consent_def split: level.splits if_splits)
  qed
qed


definition asking_manager :: permission_manager where
  "asking_manager = SetPromptHandler True (NewPermissionManager None True 0)"

lemma asking_manager_run: "perm_run sha (NewPermissionManager None True 0, [], []) (asking_manager, [], [])"
  unfolding asking_manager_def by (rule perm_run.run_step [OF perm_run.run_start perm_step.set_handler])


text \<open>
  An approval of one execution of a tool of medium risk approves every later one with any arguments,
  unless these were denied for the session.
\<close>

lemma allow_once_is_for_all:
  assumes "pm_enabled m" and "GetPolicy (pm_rules m) t = LevelAsk" and "GetToolRiskLevel t = RiskMedium"
    and "fst (LRU_Get later (cacheKey sha t args') (pm_cache m)) = None"
  shows "fst (check_start sha later t args' (snd (ask_done sha now t args (Inr DecisionAllow) m))) =
    Answered (grant DecisionAllowSession)"
  using assms
  by (auto simp: ask_done_def Let_def auto_approve_def check_start_def check_policy_def split: prod.splits)

text \<open>Two checks of one tool that start before the first is answered both ask.\<close>

lemma both_checks_ask:
  "fst (check_start (\<lambda>s. s) 1 ''edit'' [] asking_manager) = AskUser (NewRequest ''edit'' []) \<and>
   fst (check_start (\<lambda>s. s) 2 ''edit'' [] (snd (check_start (\<lambda>s. s) 1 ''edit'' [] asking_manager))) = AskUser (NewRequest ''edit'' [])"
  by (simp add: asking_manager_def NewPermissionManager_def SetPromptHandler_def check_start_def LRU_Get_def NewLRUCache_def
        check_policy_def ask_start_def GetPolicy_def DefaultRules_def GetToolRiskLevel_def low_risk_tools_def)

text \<open>Forgetting a tool by its name leaves the decision on a command of it in place.\<close>

lemma forget_misses_commands:
  assumes "lru_holds (pm_cache m) (cacheKey sha ''bash'' [(''command'', ArgString cmd)]) d"
  shows "lru_holds (pm_cache (Forget ''bash'' m)) (cacheKey sha ''bash'' [(''command'', ArgString cmd)]) d"
  using assms by (auto simp: Forget_def LRU_Delete_def cacheKey_def string_arg_def)

end
