(* ===== verification/FileTransaction.thy ===== *)
theory FileTransaction
  imports Prelude "HOL-Library.Char_ord" "HOL-Library.List_Lexorder"
begin

section \<open>File transactions\<close>

text \<open>
  \<^verbatim>\<open>internal/engine/fileutil/transaction.go\<close>: operations on several files are staged, then applied as
  one; when one fails, the files are put back from the copies made before. Files are a map from paths,
  written as \<open>filepath.Clean\<close> gives them, to nodes. A call of the operating system works, fails before
  its effect, or fails after it, as a failed replace or chmod may; \<open>env n\<close> decides it for the \<open>n\<close>-th
  call. The temporary directory is private: what is staged or backed up there is kept in the records.
  No directory above a path is a symbolic link.
\<close>

subsection \<open>The file system\<close>

datatype file_node = FDir | FReg string nat | FOther

type_synonym file_map = "string \<Rightarrow> file_node option"

record file_world =
  w_files :: file_map
  w_calls :: nat

datatype outcome = Works | FailsBefore | FailsAfter

type_synonym os_env = "nat \<Rightarrow> outcome"

text \<open>The directories above a path.\<close>

definition dirs_above :: "string \<Rightarrow> string list" where
  "dirs_above p = map (\<lambda>i. take i p) (filter (\<lambda>i. p ! i = CHR ''/'') [1..<length p])"

definition inside :: "string \<Rightarrow> string \<Rightarrow> bool" where
  "inside d p \<longleftrightarrow> has_prefix p (d @ ''/'')"

text \<open>The effects of the calls; \<open>None\<close> is a call that the system refuses.\<close>

definition nothing_in_the_way :: "string \<Rightarrow> file_map \<Rightarrow> bool" where
  "nothing_in_the_way p fs \<longleftrightarrow> list_all (\<lambda>q. fs q = None \<or> fs q = Some FDir) (dirs_above p)"

definition eff_stat :: "string \<Rightarrow> file_map \<Rightarrow> file_map option" where
  "eff_stat p fs = (if nothing_in_the_way p fs then Some fs else None)"

definition eff_mkdirs :: "string \<Rightarrow> file_map \<Rightarrow> file_map option" where
  "eff_mkdirs p fs =
     (if nothing_in_the_way p fs
      then Some (\<lambda>q. if q \<in> set (dirs_above p) \<and> fs q = None then Some FDir else fs q) else None)"

definition parents_there :: "string \<Rightarrow> file_map \<Rightarrow> bool" where
  "parents_there p fs \<longleftrightarrow> list_all (\<lambda>q. fs q = Some FDir) (dirs_above p)"

definition eff_put :: "string \<Rightarrow> string \<Rightarrow> nat \<Rightarrow> file_map \<Rightarrow> file_map option" where
  "eff_put p c mode fs =
     (if fs p = Some FDir \<or> \<not> parents_there p fs then None else Some (fs(p \<mapsto> FReg c mode)))"

text \<open>A directory is removed only when it is empty; removing what is not there is no error for the callers.\<close>

definition eff_remove :: "string \<Rightarrow> file_map \<Rightarrow> file_map option" where
  "eff_remove p fs =
     (if \<not> nothing_in_the_way p fs \<or> fs p = Some FDir \<and> (\<exists>q. inside p q \<and> fs q \<noteq> None) then None
      else Some (fs(p := None)))"

text \<open>Renaming a directory takes what is inside along.\<close>

definition eff_move :: "string \<Rightarrow> string \<Rightarrow> file_map \<Rightarrow> file_map option" where
  "eff_move src dst fs =
     (case fs src of
        None \<Rightarrow> None
      | Some n \<Rightarrow>
          if \<not> parents_there dst fs then None
          else if n = FDir then
            (if fs dst \<noteq> None \<or> inside src dst then None
             else Some (\<lambda>q. if q = dst then Some FDir
                            else if inside dst q then fs (src @ drop (length dst) q)
                            else if q = src \<or> inside src q then None else fs q))
          else if fs dst = Some FDir then None
          else Some (if src = dst then fs else fs(src := None, dst \<mapsto> n)))"

definition eff_chmod :: "string \<Rightarrow> nat \<Rightarrow> file_map \<Rightarrow> file_map option" where
  "eff_chmod p mode fs =
     (case fs p of None \<Rightarrow> None | Some (FReg c m) \<Rightarrow> Some (fs(p \<mapsto> FReg c mode)) | Some n \<Rightarrow> Some fs)"

text \<open>A call: the effect, or not, and whether it reports success. A probe has no effect.\<close>

definition os_call :: "os_env \<Rightarrow> (file_map \<Rightarrow> file_map option) \<Rightarrow> file_world \<Rightarrow> bool \<times> file_world" where
  "os_call env eff w =
     (let w1 = w\<lparr>w_calls := w_calls w + 1\<rparr>
      in case env (w_calls w) of
           FailsBefore \<Rightarrow> (False, w1)
         | o' \<Rightarrow> (case eff (w_files w) of None \<Rightarrow> (False, w1) | Some fs \<Rightarrow> (o' = Works, w1\<lparr>w_files := fs\<rparr>)))"

definition os_probe :: "os_env \<Rightarrow> string \<Rightarrow> file_world \<Rightarrow> bool \<times> file_world" where
  "os_probe env p w = os_call env (eff_stat p) w"

text \<open>Two calls, the second when the first works.\<close>

definition os_then ::
  "os_env \<Rightarrow> (file_map \<Rightarrow> file_map option) \<Rightarrow> (file_map \<Rightarrow> file_map option) \<Rightarrow> file_world \<Rightarrow> bool \<times> file_world" where
  "os_then env eff1 eff2 w = (case os_call env eff1 w of (False, w1) \<Rightarrow> (False, w1) | (True, w1) \<Rightarrow> os_call env eff2 w1)"

subsection \<open>The transaction\<close>

datatype op_type = OpWrite | OpDelete | OpRename | OpChmod

fun OperationType_String :: "op_type \<Rightarrow> string" where
  "OperationType_String OpWrite = ''write''"
| "OperationType_String OpDelete = ''delete''"
| "OperationType_String OpRename = ''rename''"
| "OperationType_String OpChmod = ''chmod''"

record file_operation =
  fo_type :: op_type
  fo_path :: string
  fo_content :: string
  fo_new_path :: string
  fo_mode :: nat
  fo_applied :: bool

text \<open>A snapshot is the content and the mode of a file that was there.\<close>

type_synonym snapshots = "(string \<times> (string \<times> nat) option) list"

datatype rollback_error = RollbackInspect string | RollbackDirectory string | RollbackRemove string |
  RollbackParent string | RollbackRestore string

record transaction =
  tx_id :: string
  tx_ops :: "file_operation list"
  tx_committed :: bool
  tx_rolled_back :: bool
  tx_errors :: "rollback_error list"
  tx_snapshots :: snapshots
  tx_prepared :: bool
  tx_mutated :: bool

datatype tx_error = TxFinalized | TxEmptyPath | TxStageFailed | TxSamePath | TxCommitted | TxRolledBack | TxBackupFailed string |
  TxApplyFailed | TxApplyAndRollbackFailed | TxRollbackFailed

definition NewFileTransaction :: "string \<Rightarrow> transaction" where
  "NewFileTransaction i =
     \<lparr>tx_id = i, tx_ops = [], tx_committed = False, tx_rolled_back = False, tx_errors = [], tx_snapshots = [],
      tx_prepared = False, tx_mutated = False\<rparr>"

definition new_op :: "op_type \<Rightarrow> string \<Rightarrow> file_operation" where
  "new_op ty path = \<lparr>fo_type = ty, fo_path = path, fo_content = [], fo_new_path = [], fo_mode = 0, fo_applied = False\<rparr>"

definition stage_op :: "file_operation \<Rightarrow> transaction \<Rightarrow> tx_error option \<times> transaction" where
  "stage_op o' tx = (None, tx\<lparr>tx_ops := tx_ops tx @ [o']\<rparr>)"

text \<open>\<open>staged\<close>: writing the content to the temporary directory works. \<open>mode.Perm()\<close> keeps nine bits.\<close>

definition WriteWithMode :: "bool \<Rightarrow> string \<Rightarrow> string \<Rightarrow> nat \<Rightarrow> transaction \<Rightarrow> tx_error option \<times> transaction" where
  "WriteWithMode staged path content mode tx =
     (if tx_committed tx \<or> tx_rolled_back tx then (Some TxFinalized, tx)
      else if path = [] then (Some TxEmptyPath, tx)
      else if \<not> staged then (Some TxStageFailed, tx)
      else stage_op ((new_op OpWrite path)\<lparr>fo_content := content, fo_mode := mode mod 512\<rparr>) tx)"

definition Tx_Write :: "bool \<Rightarrow> string \<Rightarrow> string \<Rightarrow> transaction \<Rightarrow> tx_error option \<times> transaction" where
  "Tx_Write staged path content tx = WriteWithMode staged path content 420 tx"

definition Tx_Delete :: "string \<Rightarrow> transaction \<Rightarrow> tx_error option \<times> transaction" where
  "Tx_Delete path tx =
     (if tx_committed tx \<or> tx_rolled_back tx then (Some TxFinalized, tx)
      else if path = [] then (Some TxEmptyPath, tx)
      else stage_op (new_op OpDelete path) tx)"

definition Tx_Rename :: "string \<Rightarrow> string \<Rightarrow> transaction \<Rightarrow> tx_error option \<times> transaction" where
  "Tx_Rename oldPath newPath tx =
     (if tx_committed tx \<or> tx_rolled_back tx then (Some TxFinalized, tx)
      else if oldPath = [] \<or> newPath = [] then (Some TxEmptyPath, tx)
      else if path_clean oldPath = path_clean newPath then (Some TxSamePath, tx)
      else stage_op ((new_op OpRename oldPath)\<lparr>fo_new_path := newPath\<rparr>) tx)"

definition Tx_Chmod :: "string \<Rightarrow> nat \<Rightarrow> transaction \<Rightarrow> tx_error option \<times> transaction" where
  "Tx_Chmod path mode tx =
     (if tx_committed tx \<or> tx_rolled_back tx then (Some TxFinalized, tx)
      else if path = [] then (Some TxEmptyPath, tx)
      else stage_op ((new_op OpChmod path)\<lparr>fo_mode := mode mod 512\<rparr>) tx)"

subsection \<open>Backup\<close>

definition op_paths :: "file_operation \<Rightarrow> string list" where
  "op_paths o' = fo_path o' # (if fo_new_path o' \<noteq> [] then [fo_new_path o'] else [])"

definition tx_paths :: "file_operation list \<Rightarrow> string list" where
  "tx_paths ops = sort (remdups (concat (map op_paths ops)))"

text \<open>One round of the loop: the snapshot of a path, or the failure.\<close>

definition backup_path :: "os_env \<Rightarrow> string \<Rightarrow> file_world \<Rightarrow> (string + (string \<times> nat) option) \<times> file_world" where
  "backup_path env p w =
     (case os_probe env p w of
        (False, w1) \<Rightarrow> (Inl p, w1)
      | (True, w1) \<Rightarrow>
          (case w_files w1 p of
             None \<Rightarrow> (Inr None, w1)
           | Some (FReg c m) \<Rightarrow>
               (case os_probe env p w1 of (False, w2) \<Rightarrow> (Inl p, w2) | (True, w2) \<Rightarrow> (Inr (Some (c, m)), w2))
           | Some n \<Rightarrow> (Inl p, w1)))"

fun backup_all :: "os_env \<Rightarrow> string list \<Rightarrow> file_world \<Rightarrow> (string + snapshots) \<times> file_world" where
  "backup_all env [] w = (Inr [], w)"
| "backup_all env (p # ps) w =
     (case backup_path env p w of
        (Inl q, w1) \<Rightarrow> (Inl q, w1)
      | (Inr s, w1) \<Rightarrow>
          (case backup_all env ps w1 of (Inl q, w2) \<Rightarrow> (Inl q, w2) | (Inr ss, w2) \<Rightarrow> (Inr ((p, s) # ss), w2)))"

definition backupPhase :: "os_env \<Rightarrow> transaction \<Rightarrow> file_world \<Rightarrow> string option \<times> transaction \<times> file_world" where
  "backupPhase env tx w =
     (case backup_all env (tx_paths (tx_ops tx)) w of
        (Inl p, w1) \<Rightarrow> (Some p, tx, w1)
      | (Inr ss, w1) \<Rightarrow> (None, tx\<lparr>tx_snapshots := ss, tx_prepared := True\<rparr>, w1))"

subsection \<open>Applying\<close>

definition apply_operation :: "os_env \<Rightarrow> file_operation \<Rightarrow> file_world \<Rightarrow> bool \<times> file_world" where
  "apply_operation env o' w =
     (case fo_type o' of
        OpWrite \<Rightarrow> os_then env (eff_mkdirs (fo_path o')) (eff_put (fo_path o') (fo_content o') (fo_mode o')) w
      | OpDelete \<Rightarrow> os_call env (eff_remove (fo_path o')) w
      | OpRename \<Rightarrow> os_then env (eff_mkdirs (fo_new_path o')) (eff_move (fo_path o') (fo_new_path o')) w
      | OpChmod \<Rightarrow> os_call env (eff_chmod (fo_path o') (fo_mode o')) w)"

fun apply_all :: "os_env \<Rightarrow> file_operation list \<Rightarrow> file_world \<Rightarrow> bool \<times> file_operation list \<times> file_world" where
  "apply_all env [] w = (True, [], w)"
| "apply_all env (o' # os) w =
     (case apply_operation env o' w of
        (False, w1) \<Rightarrow> (False, o' # os, w1)
      | (True, w1) \<Rightarrow> (case apply_all env os w1 of (ok, os', w2) \<Rightarrow> (ok, o'\<lparr>fo_applied := True\<rparr> # os', w2)))"

definition applyPhase :: "os_env \<Rightarrow> transaction \<Rightarrow> file_world \<Rightarrow> bool \<times> transaction \<times> file_world" where
  "applyPhase env tx w =
     (case apply_all env (tx_ops tx) w of
        (ok, os, w1) \<Rightarrow> (ok, tx\<lparr>tx_ops := os, tx_mutated := tx_mutated tx \<or> tx_ops tx \<noteq> []\<rparr>, w1))"

subsection \<open>Rolling back\<close>

text \<open>The two loops: take away what is at a path, then put back what was there; a failure is noted.\<close>

definition remove_path :: "os_env \<Rightarrow> string \<Rightarrow> file_world \<Rightarrow> rollback_error option \<times> file_world" where
  "remove_path env p w =
     (case os_probe env p w of
        (False, w1) \<Rightarrow> (Some (RollbackInspect p), w1)
      | (True, w1) \<Rightarrow>
          (case w_files w1 p of
             None \<Rightarrow> (None, w1)
           | Some FDir \<Rightarrow> (Some (RollbackDirectory p), w1)
           | Some n \<Rightarrow>
               (case os_call env (eff_remove p) w1 of
                  (False, w2) \<Rightarrow> (Some (RollbackRemove p), w2)
                | (True, w2) \<Rightarrow> (None, w2))))"

fun remove_all :: "os_env \<Rightarrow> string list \<Rightarrow> file_world \<Rightarrow> string list \<times> rollback_error list \<times> file_world" where
  "remove_all env [] w = ([], [], w)"
| "remove_all env (p # ps) w =
     (case remove_path env p w of
        (None, w1) \<Rightarrow> (case remove_all env ps w1 of (rs, es, w2) \<Rightarrow> (p # rs, es, w2))
      | (Some e, w1) \<Rightarrow> (case remove_all env ps w1 of (rs, es, w2) \<Rightarrow> (rs, e # es, w2)))"

definition restore_path ::
  "os_env \<Rightarrow> string list \<Rightarrow> string \<times> (string \<times> nat) option \<Rightarrow> file_world \<Rightarrow> rollback_error option \<times> file_world" where
  "restore_path env removed e w =
     (case e of
        (p, None) \<Rightarrow> (None, w)
      | (p, Some (c, m)) \<Rightarrow>
          if p \<notin> set removed then (None, w)
          else case os_call env (eff_mkdirs p) w of
                 (False, w1) \<Rightarrow> (Some (RollbackParent p), w1)
               | (True, w1) \<Rightarrow>
                   (case os_call env (eff_put p c m) w1 of
                      (False, w2) \<Rightarrow> (Some (RollbackRestore p), w2)
                    | (True, w2) \<Rightarrow> (None, w2)))"

fun restore_all :: "os_env \<Rightarrow> string list \<Rightarrow> snapshots \<Rightarrow> file_world \<Rightarrow> rollback_error list \<times> file_world" where
  "restore_all env removed [] w = ([], w)"
| "restore_all env removed (e # ss) w =
     (case restore_path env removed e w of
        (None, w1) \<Rightarrow> restore_all env removed ss w1
      | (Some err, w1) \<Rightarrow> (case restore_all env removed ss w1 of (es, w2) \<Rightarrow> (err # es, w2)))"

definition rollbackInternal :: "os_env \<Rightarrow> transaction \<Rightarrow> file_world \<Rightarrow> transaction \<times> file_world" where
  "rollbackInternal env tx w =
     (if tx_prepared tx \<and> tx_mutated tx
      then (case remove_all env (map fst (tx_snapshots tx)) w of
              (removed, es, w1) \<Rightarrow>
                (case restore_all env removed (tx_snapshots tx) w1 of
                   (es', w2) \<Rightarrow> (tx\<lparr>tx_errors := es @ es', tx_rolled_back := True\<rparr>, w2)))
      else (tx\<lparr>tx_errors := [], tx_rolled_back := True\<rparr>, w))"

definition Tx_Rollback :: "os_env \<Rightarrow> transaction \<Rightarrow> file_world \<Rightarrow> tx_error option \<times> transaction \<times> file_world" where
  "Tx_Rollback env tx w =
     (if tx_committed tx then (Some TxCommitted, tx, w)
      else if tx_rolled_back tx then (None, tx, w)
      else case rollbackInternal env tx w of
             (tx1, w1) \<Rightarrow> (if tx_errors tx1 = [] then None else Some TxRollbackFailed, tx1, w1))"

definition Tx_Commit :: "os_env \<Rightarrow> transaction \<Rightarrow> file_world \<Rightarrow> tx_error option \<times> transaction \<times> file_world" where
  "Tx_Commit env tx w =
     (if tx_committed tx then (Some TxCommitted, tx, w)
      else if tx_rolled_back tx then (Some TxRolledBack, tx, w)
      else if tx_ops tx = [] then (None, tx\<lparr>tx_committed := True\<rparr>, w)
      else case backupPhase env tx w of
             (Some p, tx1, w1) \<Rightarrow> (Some (TxBackupFailed p), tx1\<lparr>tx_rolled_back := True\<rparr>, w1)
           | (None, tx1, w1) \<Rightarrow>
               (case applyPhase env tx1 w1 of
                  (True, tx2, w2) \<Rightarrow> (None, tx2\<lparr>tx_committed := True\<rparr>, w2)
                | (False, tx2, w2) \<Rightarrow>
                    (case rollbackInternal env tx2 w2 of
                       (tx3, w3) \<Rightarrow>
                         (Some (if tx_errors tx3 = [] then TxApplyFailed else TxApplyAndRollbackFailed), tx3, w3))))"

definition IsFinalized :: "transaction \<Rightarrow> bool" where
  "IsFinalized tx \<longleftrightarrow> tx_committed tx \<or> tx_rolled_back tx"

record transaction_result =
  tr_id :: string
  tr_committed :: bool
  tr_rolled_back :: bool
  tr_count :: nat
  tr_files :: "string list"

definition Tx_Result :: "transaction \<Rightarrow> transaction_result" where
  "Tx_Result tx =
     \<lparr>tr_id = tx_id tx, tr_committed = tx_committed tx, tr_rolled_back = tx_rolled_back tx,
      tr_count = length (tx_ops tx), tr_files = concat (map op_paths (tx_ops tx))\<rparr>"

end
