(* ===== verification/TransactionProps.thy ===== *)
theory TransactionProps
  imports FileTransaction
begin

section \<open>File transactions: all or nothing\<close>

text \<open>
  The state between the calls of a commit is described by \<open>tx_within\<close>: at the paths of the transaction
  there is no directory, and elsewhere nothing has happened but the making of missing directories. Every
  call keeps it, so backup, applying and rolling back do, whatever call fails; what each of the phases
  does to the paths of the transaction is a lemma of its own.
\<close>

subsection \<open>What the calls touch\<close>

definition independent :: "string set \<Rightarrow> bool" where
  "independent P \<longleftrightarrow> (\<forall>p\<in>P. \<forall>q\<in>set (dirs_above p). q \<notin> P)"

definition tx_within :: "string set \<Rightarrow> file_map \<Rightarrow> file_map \<Rightarrow> bool" where
  "tx_within P fs0 fs \<longleftrightarrow>
     (\<forall>p\<in>P. fs p \<noteq> Some FDir) \<and> (\<forall>q. q \<notin> P \<longrightarrow> fs q = fs0 q \<or> fs0 q = None \<and> fs q = Some FDir)"

named_theorems eff_within \<open>effects that stay within the transaction\<close>

lemma stat_within [eff_within]: "tx_within P fs0 fs \<Longrightarrow> eff_stat p fs = Some fs' \<Longrightarrow> tx_within P fs0 fs'"
  by (auto simp: eff_stat_def split: if_splits)

lemma mkdirs_within [eff_within]:
  assumes "independent P" "p \<in> P" "tx_within P fs0 fs" "eff_mkdirs p fs = Some fs'"
  shows "tx_within P fs0 fs'"
proof -
  have "fs' = (\<lambda>q. if q \<in> set (dirs_above p) \<and> fs q = None then Some FDir else fs q)"
    using assms(4) by (simp add: eff_mkdirs_def split: if_splits)
  moreover have "\<forall>q\<in>set (dirs_above p). q \<notin> P"
    using assms(1,2) by (simp add: independent_def)
  ultimately show ?thesis
    using assms(3) by (auto simp: tx_within_def)
qed

lemma mkdirs_at:
  "independent P \<Longrightarrow> p \<in> P \<Longrightarrow> q \<in> P \<Longrightarrow> eff_mkdirs p fs = Some fs' \<Longrightarrow> fs' q = fs q"
  by (auto simp: eff_mkdirs_def independent_def split: if_splits)

lemma put_within [eff_within]:
  "p \<in> P \<Longrightarrow> tx_within P fs0 fs \<Longrightarrow> eff_put p c m fs = Some fs' \<Longrightarrow> tx_within P fs0 fs'"
  by (auto simp: tx_within_def eff_put_def split: if_splits)

lemma remove_within [eff_within]:
  "p \<in> P \<Longrightarrow> tx_within P fs0 fs \<Longrightarrow> eff_remove p fs = Some fs' \<Longrightarrow> tx_within P fs0 fs'"
  by (auto simp: tx_within_def eff_remove_def split: if_splits)

lemma move_within [eff_within]:
  "src \<in> P \<Longrightarrow> dst \<in> P \<Longrightarrow> tx_within P fs0 fs \<Longrightarrow> eff_move src dst fs = Some fs' \<Longrightarrow> tx_within P fs0 fs'"
  by (auto simp: tx_within_def eff_move_def split: if_splits option.splits)

lemma chmod_within [eff_within]:
  "p \<in> P \<Longrightarrow> tx_within P fs0 fs \<Longrightarrow> eff_chmod p m fs = Some fs' \<Longrightarrow> tx_within P fs0 fs'"
  by (auto simp: tx_within_def eff_chmod_def split: option.splits file_node.splits if_splits)

lemma os_call_cases:
  assumes "os_call env eff w = (ok, w')"
  obtains "\<not> ok" "w_files w' = w_files w" | "eff (w_files w) = Some (w_files w')"
  using assms by (auto simp: os_call_def Let_def split: outcome.splits option.splits)

lemma os_call_ok: "os_call env eff w = (True, w') \<Longrightarrow> eff (w_files w) = Some (w_files w')"
  by (erule os_call_cases) auto

lemma os_call_within:
  assumes "os_call env eff w = (ok, w')" "tx_within P fs0 (w_files w)"
    and "\<And>fs'. eff (w_files w) = Some fs' \<Longrightarrow> tx_within P fs0 fs'"
  shows "tx_within P fs0 (w_files w')"
  using assms(1) by (rule os_call_cases) (use assms(2,3) in auto)

lemma os_probe_files: "os_probe env p w = (ok, w') \<Longrightarrow> w_files w' = w_files w"
  unfolding os_probe_def by (erule os_call_cases) (auto simp: eff_stat_def split: if_splits)

lemma os_then_within:
  assumes "os_then env eff1 eff2 w = (ok, w')" "tx_within P fs0 (w_files w)"
    and "\<And>fs fs'. tx_within P fs0 fs \<Longrightarrow> eff1 fs = Some fs' \<Longrightarrow> tx_within P fs0 fs'"
    and "\<And>fs fs'. tx_within P fs0 fs \<Longrightarrow> eff2 fs = Some fs' \<Longrightarrow> tx_within P fs0 fs'"
  shows "tx_within P fs0 (w_files w')"
proof (cases "os_call env eff1 w")
  case (Pair b w1)
  then have w1: "tx_within P fs0 (w_files w1)" by (rule os_call_within) (use assms(2,3) in auto)
  show ?thesis
  proof (cases b)
    case True
    with assms(1) Pair have "os_call env eff2 w1 = (ok, w')" by (simp add: os_then_def)
    then show ?thesis by (rule os_call_within) (use w1 assms(4) in auto)
  qed (use assms(1) Pair w1 in \<open>auto simp: os_then_def\<close>)
qed

subsection \<open>Backup\<close>

definition snapshot_of :: "file_map \<Rightarrow> string \<Rightarrow> (string \<times> nat) option \<Rightarrow> bool" where
  "snapshot_of fs p s \<longleftrightarrow> fs p = map_option (\<lambda>(c, m). FReg c m) s"

lemma backup_path_files: "backup_path env p w = (r, w') \<Longrightarrow> w_files w' = w_files w"
  by (auto simp: backup_path_def split: prod.splits bool.splits option.splits file_node.splits dest!: os_probe_files)

lemma backup_path_snapshot: "backup_path env p w = (Inr s, w') \<Longrightarrow> snapshot_of (w_files w) p s"
  by (auto simp: backup_path_def snapshot_of_def split: prod.splits bool.splits option.splits file_node.splits
      dest!: os_probe_files)

lemma backup_all_files: "backup_all env ps w = (r, w') \<Longrightarrow> w_files w' = w_files w"
  by (induction ps arbitrary: w r w') (auto split: prod.splits sum.splits dest!: backup_path_files)

lemma backup_all_snapshots:
  "backup_all env ps w = (Inr ss, w') \<Longrightarrow>
   map fst ss = ps \<and> (\<forall>(p, s)\<in>set ss. snapshot_of (w_files w) p s)"
proof (induction ps arbitrary: w ss w')
  case Nil
  then show ?case by simp
next
  case (Cons p ps)
  from Cons.prems obtain s w1 ss1 where s: "backup_path env p w = (Inr s, w1)"
    and ss1: "backup_all env ps w1 = (Inr ss1, w')" and ss: "ss = (p, s) # ss1"
    by (auto split: prod.splits sum.splits)
  from Cons.IH [OF ss1] backup_path_snapshot [OF s] backup_path_files [OF s] show ?case
    by (simp add: ss)
qed

subsection \<open>Applying\<close>

text \<open>The effect of an operation, and of all of them in order, when every call works.\<close>

definition op_effect :: "file_operation \<Rightarrow> file_map \<Rightarrow> file_map option" where
  "op_effect o' fs =
     (case fo_type o' of
        OpWrite \<Rightarrow> Option.bind (eff_mkdirs (fo_path o') fs) (eff_put (fo_path o') (fo_content o') (fo_mode o'))
      | OpDelete \<Rightarrow> eff_remove (fo_path o') fs
      | OpRename \<Rightarrow> Option.bind (eff_mkdirs (fo_new_path o') fs) (eff_move (fo_path o') (fo_new_path o'))
      | OpChmod \<Rightarrow> eff_chmod (fo_path o') (fo_mode o') fs)"

fun ops_effect :: "file_operation list \<Rightarrow> file_map \<Rightarrow> file_map option" where
  "ops_effect [] fs = Some fs"
| "ops_effect (o' # os) fs = Option.bind (op_effect o' fs) (ops_effect os)"

lemma apply_operation_works: "apply_operation env o' w = (True, w') \<Longrightarrow> op_effect o' (w_files w) = Some (w_files w')"
  by (auto simp: apply_operation_def op_effect_def os_then_def split: op_type.splits prod.splits bool.splits dest!: os_call_ok)

lemma apply_all_works: "apply_all env os w = (True, os', w') \<Longrightarrow> ops_effect os (w_files w) = Some (w_files w')"
  by (induction os arbitrary: w os' w') (auto split: prod.splits bool.splits dest!: apply_operation_works)

lemma apply_operation_within:
  assumes "independent P" "set (op_paths o') \<subseteq> P" "fo_type o' = OpRename \<Longrightarrow> fo_new_path o' \<noteq> []"
    and "tx_within P fs0 (w_files w)" "apply_operation env o' w = (ok, w')"
  shows "tx_within P fs0 (w_files w')"
proof -
  have p: "fo_path o' \<in> P" and n: "fo_type o' = OpRename \<Longrightarrow> fo_new_path o' \<in> P"
    using assms(2,3) by (auto simp: op_paths_def)
  show ?thesis
  proof (cases "fo_type o'")
    case OpWrite
    with assms(5) show ?thesis
      by (auto simp: apply_operation_def intro: p assms(1,4) eff_within elim!: os_then_within)
  next
    case OpDelete
    with assms(5) show ?thesis
      by (auto simp: apply_operation_def intro: p assms(1,4) eff_within elim!: os_call_within)
  next
    case OpRename
    with assms(5) show ?thesis
      by (auto simp: apply_operation_def intro: p n assms(1,4) eff_within elim!: os_then_within)
  next
    case OpChmod
    with assms(5) show ?thesis
      by (auto simp: apply_operation_def intro: p assms(1,4) eff_within elim!: os_call_within)
  qed
qed

definition ops_ok :: "string set \<Rightarrow> file_operation list \<Rightarrow> bool" where
  "ops_ok P os \<longleftrightarrow>
     (\<forall>o'\<in>set os. set (op_paths o') \<subseteq> P \<and> (fo_type o' = OpRename \<longrightarrow> fo_new_path o' \<noteq> []))"

lemma apply_all_within:
  "independent P \<Longrightarrow> ops_ok P os \<Longrightarrow> tx_within P fs0 (w_files w) \<Longrightarrow> apply_all env os w = (ok, os', w') \<Longrightarrow>
   tx_within P fs0 (w_files w')"
proof (induction os arbitrary: w ok os' w')
  case Nil
  then show ?case by simp
next
  case (Cons o' os)
  obtain b w1 where a: "apply_operation env o' w = (b, w1)" by fastforce
  have w1: "tx_within P fs0 (w_files w1)"
    using Cons.prems by (intro apply_operation_within [OF _ _ _ _ a]) (auto simp: ops_ok_def)
  show ?case
  proof (cases b)
    case True
    with a Cons.prems(4) obtain os1 where "apply_all env os w1 = (ok, os1, w')"
      by (auto split: prod.splits)
    with Cons w1 show ?thesis by (auto simp: ops_ok_def)
  qed (use a w1 Cons.prems(4) in auto)
qed

subsection \<open>Rolling back\<close>

lemma remove_path_within:
  assumes "p \<in> P" "tx_within P fs0 (w_files w)" "remove_path env p w = (e, w')"
  shows "tx_within P fs0 (w_files w')"
  using assms
  by (auto simp: remove_path_def split: prod.splits bool.splits option.splits file_node.splits
      dest!: os_probe_files intro: eff_within elim!: os_call_within)

lemma remove_path_done:
  "remove_path env p w = (None, w') \<Longrightarrow> w_files w' = (w_files w)(p := None)"
  by (auto simp: remove_path_def eff_remove_def split: prod.splits bool.splits option.splits file_node.splits if_splits
      dest!: os_probe_files os_call_ok)

lemma remove_all_within:
  "set ps \<subseteq> P \<Longrightarrow> tx_within P fs0 (w_files w) \<Longrightarrow> remove_all env ps w = (rs, es, w') \<Longrightarrow>
   tx_within P fs0 (w_files w')"
  by (induction ps arbitrary: w rs es w')
    (auto split: prod.splits option.splits dest: remove_path_within)

lemma remove_all_done:
  "remove_all env ps w = (rs, [], w') \<Longrightarrow>
   rs = ps \<and> w_files w' = (\<lambda>q. if q \<in> set ps then None else w_files w q)"
  by (induction ps arbitrary: w rs w')
    (auto split: prod.splits option.splits dest!: remove_path_done)

lemma restore_path_within:
  assumes "independent P" "fst e \<in> P" "tx_within P fs0 (w_files w)" "restore_path env removed e w = (r, w')"
  shows "tx_within P fs0 (w_files w')"
proof -
  obtain p s where e: "e = (p, s)" by fastforce
  have p: "p \<in> P" using assms(2) e by simp
  show ?thesis
  proof (cases "s = None \<or> p \<notin> set removed")
    case True
    with assms(3,4) e show ?thesis by (auto simp: restore_path_def split: option.splits)
  next
    case False
    then obtain c m where s: "s = Some (c, m)" "p \<in> set removed" by auto
    obtain b w1 where m: "os_call env (eff_mkdirs p) w = (b, w1)" by fastforce
    then have w1: "tx_within P fs0 (w_files w1)"
      by (rule os_call_within) (auto intro: mkdirs_within [OF assms(1) p] assms(3))
    show ?thesis
    proof (cases b)
      case True
      with m s assms(4) e obtain r' where "os_call env (eff_put p c m) w1 = (r', w')"
        by (auto simp: restore_path_def split: prod.splits bool.splits)
      then show ?thesis by (rule os_call_within) (auto intro: put_within [OF p] w1)
    next
      case False
      with m s assms(4) e w1 show ?thesis by (simp add: restore_path_def)
    qed
  qed
qed

lemma restore_path_done:
  assumes "independent P" "p \<in> P" "restore_path env removed (p, s) w = (None, w')" "p \<in> set removed" "q \<in> P"
  shows "w_files w' q = (if q = p \<and> s \<noteq> None then map_option (\<lambda>(c, m). FReg c m) s else w_files w q)"
proof (cases s)
  case None
  with assms(3) show ?thesis by (simp add: restore_path_def)
next
  case (Some cm)
  then obtain c m where s: "s = Some (c, m)" by fastforce
  with assms(3,4) obtain w1 where m: "os_call env (eff_mkdirs p) w = (True, w1)"
    and put: "os_call env (eff_put p c m) w1 = (True, w')"
    by (auto simp: restore_path_def split: prod.splits bool.splits)
  have "w_files w' = (w_files w1)(p \<mapsto> FReg c m)"
    using os_call_ok [OF put] by (simp add: eff_put_def split: if_splits)
  then show ?thesis using mkdirs_at [OF assms(1,2,5) os_call_ok [OF m]] s by simp
qed

lemma restore_all_within:
  "independent P \<Longrightarrow> fst ` set ss \<subseteq> P \<Longrightarrow> tx_within P fs0 (w_files w) \<Longrightarrow>
   restore_all env removed ss w = (es, w') \<Longrightarrow> tx_within P fs0 (w_files w')"
  by (induction ss arbitrary: w es w')
    (auto split: prod.splits option.splits dest: restore_path_within)

lemma restore_all_done:
  assumes "independent P"
  shows "fst ` set ss \<subseteq> P \<Longrightarrow> distinct (map fst ss) \<Longrightarrow> restore_all env removed ss w = ([], w') \<Longrightarrow>
    fst ` set ss \<subseteq> set removed \<Longrightarrow> q \<in> P \<Longrightarrow>
    w_files w' q = (case map_of ss q of Some (Some (c, m)) \<Rightarrow> Some (FReg c m) | _ \<Rightarrow> w_files w q)"
proof (induction ss arbitrary: w)
  case Nil
  then show ?case by simp
next
  case (Cons e ss)
  obtain p s where e: "e = (p, s)" by fastforce
  from Cons.prems(3) obtain w1 where r: "restore_path env removed e w = (None, w1)"
    and rest: "restore_all env removed ss w1 = ([], w')"
    by (auto split: prod.splits option.splits)
  have "w_files w1 q = (if q = p \<and> s \<noteq> None then map_option (\<lambda>(c, m). FReg c m) s else w_files w q)"
    using restore_path_done [OF assms _ r [unfolded e]] Cons.prems e by simp
  moreover have "w_files w' q = (case map_of ss q of Some (Some (c, m)) \<Rightarrow> Some (FReg c m) | _ \<Rightarrow> w_files w1 q)"
    using Cons.IH [OF _ _ rest] Cons.prems by simp
  moreover have "map_of ss p = None" using Cons.prems(2) e by (simp add: map_of_eq_None_iff)
  ultimately show ?case by (auto simp: e split: option.splits)
qed

lemma map_of_snapshots:
  "\<forall>(p, s)\<in>set ss. snapshot_of fs p s \<Longrightarrow> q \<in> fst ` set ss \<Longrightarrow> \<exists>s. map_of ss q = Some s \<and> snapshot_of fs q s"
  by (induction ss) auto

lemma rollback_within:
  assumes "independent P" "fst ` set (tx_snapshots tx) \<subseteq> P" "tx_within P fs0 (w_files w)"
    "rollbackInternal env tx w = (tx', w')"
  shows "tx_within P fs0 (w_files w')"
proof -
  have ps: "set (map fst (tx_snapshots tx)) \<subseteq> P" using assms(2) by simp
  show ?thesis
  proof (cases "tx_prepared tx \<and> tx_mutated tx")
    case True
    with assms(4) obtain removed es w1 es'
      where rm: "remove_all env (map fst (tx_snapshots tx)) w = (removed, es, w1)"
        and rs: "restore_all env removed (tx_snapshots tx) w1 = (es', w')"
      by (auto simp: rollbackInternal_def split: prod.splits)
    show ?thesis
      by (rule restore_all_within [OF assms(1,2) remove_all_within [OF ps assms(3) rm] rs])
  qed (use assms(3,4) in \<open>auto simp: rollbackInternal_def\<close>)
qed

lemma rollback_restores:
  assumes "independent P" "fst ` set (tx_snapshots tx) = P" "distinct (map fst (tx_snapshots tx))"
    and "\<forall>(p, s)\<in>set (tx_snapshots tx). snapshot_of fs p s" "tx_prepared tx" "tx_mutated tx"
    and "rollbackInternal env tx w = (tx', w')" "tx_errors tx' = []" "p \<in> P"
  shows "w_files w' p = fs p"
proof -
  let ?ss = "tx_snapshots tx"
  from assms(5-8) obtain removed w1
    where rm: "remove_all env (map fst ?ss) w = (removed, [], w1)"
      and rs: "restore_all env removed ?ss w1 = ([], w')"
    by (auto simp: rollbackInternal_def split: prod.splits if_splits)
  from remove_all_done [OF rm] have r: "removed = map fst ?ss"
    and w1: "w_files w1 p = None"
    using assms(2,9) by auto
  have "w_files w' p = (case map_of ?ss p of Some (Some (c, m)) \<Rightarrow> Some (FReg c m) | _ \<Rightarrow> w_files w1 p)"
    by (rule restore_all_done [OF assms(1) _ assms(3) rs]) (use assms(2,9) r in auto)
  moreover obtain s where "map_of ?ss p = Some s" "snapshot_of fs p s"
    using map_of_snapshots [OF assms(4)] assms(2,9) by blast
  ultimately show ?thesis
    using w1 by (auto simp: snapshot_of_def split: option.splits)
qed

subsection \<open>Committing\<close>

definition tx_staged :: "transaction \<Rightarrow> bool" where
  "tx_staged tx \<longleftrightarrow> list_all (\<lambda>o'. fo_type o' = OpRename \<longrightarrow> fo_new_path o' \<noteq> []) (tx_ops tx)"

lemma staging_keeps_staged:
  assumes "tx_staged tx"
  shows "tx_staged (snd (WriteWithMode staged p c m tx))" "tx_staged (snd (Tx_Delete p tx))"
    "tx_staged (snd (Tx_Rename p q tx))" "tx_staged (snd (Tx_Chmod p m tx))"
  using assms
  by (simp_all add: tx_staged_def WriteWithMode_def Tx_Delete_def Tx_Rename_def Tx_Chmod_def stage_op_def new_op_def)

lemma set_tx_paths: "set (tx_paths os) = (\<Union>o'\<in>set os. set (op_paths o'))"
  by (simp add: tx_paths_def)

lemma staged_ops_ok: "tx_staged tx \<Longrightarrow> ops_ok (set (tx_paths (tx_ops tx))) (tx_ops tx)"
  by (auto simp: tx_staged_def ops_ok_def set_tx_paths list_all_iff)

lemma snapshots_within:
  assumes "map fst ss = ps" "\<forall>(p, s)\<in>set ss. snapshot_of fs p s"
  shows "tx_within (set ps) fs fs"
proof -
  have "fs p \<noteq> Some FDir" if "p \<in> set ps" for p
  proof -
    from that assms(1) obtain s where "(p, s) \<in> set ss" by auto
    with assms(2) have "fs p = map_option (\<lambda>(c, m). FReg c m) s" by (auto simp: snapshot_of_def)
    then show ?thesis by (cases s) auto
  qed
  then show ?thesis by (simp add: tx_within_def)
qed

lemma backupPhase_failed:
  "backupPhase env tx w = (Some p, tx', w') \<Longrightarrow> tx' = tx \<and> w_files w' = w_files w"
  by (auto simp: backupPhase_def split: prod.splits sum.splits dest: backup_all_files)

lemma backupPhase_done:
  assumes "backupPhase env tx w = (None, tx', w')"
  obtains ss where "tx' = tx\<lparr>tx_snapshots := ss, tx_prepared := True\<rparr>" "w_files w' = w_files w"
    "map fst ss = tx_paths (tx_ops tx)" "\<forall>(p, s)\<in>set ss. snapshot_of (w_files w) p s"
proof -
  from assms obtain ss where ba: "backup_all env (tx_paths (tx_ops tx)) w = (Inr ss, w')"
    and "tx' = tx\<lparr>tx_snapshots := ss, tx_prepared := True\<rparr>"
    by (auto simp: backupPhase_def split: prod.splits sum.splits)
  with backup_all_files [OF ba] backup_all_snapshots [OF ba] show thesis using that by blast
qed

definition commit_outcome :: "transaction \<Rightarrow> file_map \<Rightarrow> tx_error option \<Rightarrow> transaction \<Rightarrow> file_map \<Rightarrow> bool" where
  "commit_outcome tx fs r tx' fs' \<longleftrightarrow>
     (case r of
        None \<Rightarrow> tx_committed tx' \<and> \<not> tx_rolled_back tx' \<and> ops_effect (tx_ops tx) fs = Some fs'
      | Some e \<Rightarrow> tx_rolled_back tx' \<and> \<not> tx_committed tx' \<and>
          (e \<noteq> TxApplyAndRollbackFailed \<longrightarrow> (\<forall>p\<in>set (tx_paths (tx_ops tx)). fs' p = fs p))) \<and>
     (\<forall>q. q \<notin> set (tx_paths (tx_ops tx)) \<longrightarrow> fs' q = fs q \<or> fs q = None \<and> fs' q = Some FDir)"

text \<open>After the backup: \<open>tx\<close> holds the snapshots of \<open>fs\<close>, and nothing has been touched.\<close>

definition backed_up :: "file_map \<Rightarrow> transaction \<Rightarrow> bool" where
  "backed_up fs tx \<longleftrightarrow> map fst (tx_snapshots tx) = tx_paths (tx_ops tx) \<and> tx_prepared tx \<and>
     (\<forall>(p, s)\<in>set (tx_snapshots tx). snapshot_of fs p s)"

lemma backupPhase_backed_up:
  assumes "backupPhase env tx w = (None, tx1, w1)"
  shows "backed_up (w_files w) tx1 \<and> w_files w1 = w_files w \<and> tx_ops tx1 = tx_ops tx \<and>
    tx_committed tx1 = tx_committed tx \<and> tx_rolled_back tx1 = tx_rolled_back tx"
  using assms by (elim backupPhase_done) (simp add: backed_up_def)

lemma applied_within:
  assumes "backed_up fs tx" "tx_staged tx" "independent (set (tx_paths (tx_ops tx)))" "w_files w = fs"
    and "apply_all env (tx_ops tx) w = (ok, os, w')"
  shows "tx_within (set (tx_paths (tx_ops tx))) fs (w_files w')"
proof -
  have "tx_within (set (tx_paths (tx_ops tx))) fs (w_files w)"
    unfolding assms(4) by (rule snapshots_within [of "tx_snapshots tx"]) (use assms(1) in \<open>simp_all add: backed_up_def\<close>)
  from apply_all_within [OF assms(3) staged_ops_ok [OF assms(2)] this assms(5)] show ?thesis .
qed

lemma applied_rolled_back:
  assumes "backed_up fs tx" "independent (set (tx_paths (tx_ops tx)))"
    and "tx_within (set (tx_paths (tx_ops tx))) fs (w_files w)"
    and "rollbackInternal env (tx\<lparr>tx_ops := os, tx_mutated := True\<rparr>) w = (tx', w')"
  shows "tx_within (set (tx_paths (tx_ops tx))) fs (w_files w') \<and> tx_rolled_back tx' \<and>
    tx_committed tx' = tx_committed tx \<and>
    (tx_errors tx' = [] \<longrightarrow> (\<forall>p\<in>set (tx_paths (tx_ops tx)). w_files w' p = fs p))"
proof -
  let ?P = "set (tx_paths (tx_ops tx))" and ?tx = "tx\<lparr>tx_ops := os, tx_mutated := True\<rparr>"
  have ss: "map fst (tx_snapshots tx) = tx_paths (tx_ops tx)" using assms(1) by (simp add: backed_up_def)
  then have P: "fst ` set (tx_snapshots tx) = ?P" by (metis list.set_map)
  have d: "distinct (map fst (tx_snapshots tx))" unfolding ss by (simp add: tx_paths_def)
  have "tx_within ?P fs (w_files w')"
    by (rule rollback_within [OF assms(2) _ assms(3,4)]) (simp add: P)
  moreover have "w_files w' p = fs p" if "tx_errors tx' = []" "p \<in> ?P" for p
    by (rule rollback_restores [OF assms(2) _ _ _ _ _ assms(4) that])
      (use assms(1) d P in \<open>simp_all add: backed_up_def\<close>)
  moreover have "tx_rolled_back tx' \<and> tx_committed tx' = tx_committed tx"
    using assms(4) by (auto simp: rollbackInternal_def split: prod.splits if_splits)
  ultimately show ?thesis by blast
qed


text \<open>Two writes; the second fails after it has replaced its file, and both files are put back.\<close>

definition sample_tx :: transaction where
  "sample_tx = snd (Tx_Write True ''/b'' ''y'' (snd (Tx_Write True ''/a'' ''x'' (NewFileTransaction ''t''))))"

definition sample_world :: file_world where
  "sample_world = \<lparr>w_files = [''/'' \<mapsto> FDir, ''/a'' \<mapsto> FReg ''old'' 420], w_calls = 0\<rparr>"

definition sample_env :: os_env where
  "sample_env n = (if n = 6 then FailsAfter else Works)"

lemma sample_paths: "tx_paths (tx_ops sample_tx) = [''/a'', ''/b'']"
  by code_simp

lemma sample_tx_fields:
  "tx_committed sample_tx = False" "tx_rolled_back sample_tx = False" "tx_mutated sample_tx = False"
  "tx_ops sample_tx = [(new_op OpWrite ''/a'')\<lparr>fo_content := ''x'', fo_mode := 420\<rparr>,
                       (new_op OpWrite ''/b'')\<lparr>fo_content := ''y'', fo_mode := 420\<rparr>]"
  by code_simp+

lemma sample_dirs: "dirs_above ''/a'' = []" "dirs_above ''/b'' = []"
  by code_simp+

lemma sample_commit_fails: "fst (Tx_Commit sample_env sample_tx sample_world) = Some TxApplyFailed"
  unfolding Tx_Commit_def sample_tx_fields backupPhase_def sample_paths
  apply (simp add: backup_path_def os_probe_def os_call_def eff_stat_def nothing_in_the_way_def sample_dirs
     sample_world_def sample_env_def sample_paths[unfolded sample_tx_fields])
  apply (simp add: applyPhase_def sample_tx_fields apply_operation_def os_then_def os_call_def new_op_def sample_env_def
     eff_mkdirs_def nothing_in_the_way_def sample_dirs eff_put_def parents_there_def)
  apply (simp add: rollbackInternal_def sample_tx_fields os_call_def sample_env_def remove_path_def restore_path_def os_probe_def
     eff_mkdirs_def nothing_in_the_way_def sample_dirs eff_put_def parents_there_def eff_remove_def eff_stat_def)
  done


end
