(* ===== verification/SharedMemory.thy ===== *)
theory SharedMemory
  imports Prelude "HOL-Library.Char_ord" "HOL-Library.List_Lexorder"
begin

section \<open>Shared memory of the agents\<close>

text \<open>
  \<^verbatim>\<open>internal/engine/agent/shared_memory.go\<close>: entries that agents write for each other, with an index of
  the keys by type, an expiry, a bound on their number, and subscribers that get each new entry on a
  channel of 100 places. The entries are an association list, ranged over in the order a parameter
  \<open>order\<close> gives; a channel is the number of its creation. Sending on a closed channel and closing it
  twice panic: operations on channels return \<open>None\<close> then. Cloning a value leaves it the same.
\<close>

subsection \<open>Entries\<close>

record critical_result =
  cr_tool_name :: string
  cr_summary :: string
  cr_details :: string

text \<open>The maps of a snapshot may be nil.\<close>

record context_snapshot =
  cs_key_files :: "(string \<times> string) list option"
  cs_discoveries :: "string list"
  cs_error_patterns :: "(string \<times> string) list option"
  cs_critical_results :: "critical_result list"
  cs_requirements :: "string list"
  cs_decisions :: "string list"
  cs_created_at :: gotime
  cs_source :: string

datatype shared_value = SnapshotPointer context_snapshot | SnapshotStruct context_snapshot | NilValue | JSONValue string

record shared_entry =
  se_key :: string
  se_value :: shared_value
  se_type :: string
  se_source :: string
  se_timestamp :: gotime
  se_ttl :: duration
  se_version :: int

definition SharedEntryTypeContextSnapshot :: string where
  "SharedEntryTypeContextSnapshot = ''context_snapshot''"

definition MaxSharedEntries :: nat where
  "MaxSharedEntries = 500"

text \<open>
  \<open>UnmarshalJSON\<close>: \<open>raw\<close> is the text of the value field of an entry whose other fields are decoded, and
  the decoders are those of \<open>encoding/json\<close>.
\<close>

definition UnmarshalEntry ::
  "(string \<Rightarrow> context_snapshot option) \<Rightarrow> (string \<Rightarrow> shared_value option) \<Rightarrow> string \<Rightarrow> shared_entry \<Rightarrow> shared_entry option" where
  "UnmarshalEntry dec_snapshot dec_any raw decoded =
     (if raw = [] \<or> raw = ''null'' then Some (decoded\<lparr>se_value := NilValue\<rparr>)
      else if se_type decoded = SharedEntryTypeContextSnapshot
      then map_option (\<lambda>s. decoded\<lparr>se_value := SnapshotPointer s\<rparr>) (dec_snapshot raw)
      else map_option (\<lambda>v. decoded\<lparr>se_value := v\<rparr>) (dec_any raw))"

definition Entry_IsExpired :: "gotime \<Rightarrow> shared_entry \<Rightarrow> bool" where
  "Entry_IsExpired now e \<longleftrightarrow> se_ttl e \<noteq> 0 \<and> se_ttl e < time_sub now (se_timestamp e)"

subsection \<open>The memory and its index\<close>

record channel =
  ch_buffer :: "shared_entry list"
  ch_closed :: bool

record shared_memory =
  sm_entries :: "(string \<times> shared_entry) list"
  sm_by_type :: "string \<Rightarrow> string list option"
  sm_subscribers :: "(string \<times> nat) list"
  sm_dropped :: nat
  sm_channels :: "channel list"

definition NewSharedMemory :: shared_memory where
  "NewSharedMemory =
     \<lparr>sm_entries = [], sm_by_type = Map.empty, sm_subscribers = [], sm_dropped = 0, sm_channels = []\<rparr>"

definition keys_of_type :: "shared_memory \<Rightarrow> string \<Rightarrow> string list" where
  "keys_of_type sm ty = (case sm_by_type sm ty of None \<Rightarrow> [] | Some ks \<Rightarrow> ks)"

definition add_to_index :: "string \<Rightarrow> string \<Rightarrow> shared_memory \<Rightarrow> shared_memory" where
  "add_to_index ty k sm = sm\<lparr>sm_by_type := (sm_by_type sm)(ty \<mapsto> keys_of_type sm ty @ [k])\<rparr>"

definition removeFromTypeIndex :: "string \<Rightarrow> string \<Rightarrow> shared_memory \<Rightarrow> shared_memory" where
  "removeFromTypeIndex ty k sm =
     (if k \<in> set (keys_of_type sm ty) then sm\<lparr>sm_by_type := (sm_by_type sm)(ty \<mapsto> remove1 k (keys_of_type sm ty))\<rparr>
      else sm)"

definition put_entry :: "shared_entry \<Rightarrow> shared_memory \<Rightarrow> shared_memory" where
  "put_entry e sm = sm\<lparr>sm_entries := AList.update (se_key e) e (sm_entries sm)\<rparr>"

text \<open>Removing a key from the index and from the entries.\<close>

definition drop_entry :: "string \<Rightarrow> shared_memory \<Rightarrow> shared_memory" where
  "drop_entry k sm =
     (case map_of (sm_entries sm) k of
        None \<Rightarrow> sm
      | Some e \<Rightarrow> let sm1 = removeFromTypeIndex (se_type e) k sm in sm1\<lparr>sm_entries := AList.delete k (sm_entries sm1)\<rparr>)"

definition cleanupExpired :: "gotime \<Rightarrow> shared_memory \<Rightarrow> nat \<times> shared_memory" where
  "cleanupExpired now sm =
     (let dead = map fst (filter (\<lambda>(k, e). Entry_IsExpired now e) (sm_entries sm))
      in (length dead, foldl (\<lambda>sm k. drop_entry k sm) sm dead))"

fun first_oldest :: "(string \<times> gotime) \<Rightarrow> (string \<times> gotime) list \<Rightarrow> string \<times> gotime" where
  "first_oldest m [] = m"
| "first_oldest m (x # xs) = first_oldest (if snd x < snd m then x else m) xs"

fun remove_oldest_loop :: "nat \<Rightarrow> (string \<times> gotime) list \<Rightarrow> shared_memory \<Rightarrow> shared_memory" where
  "remove_oldest_loop 0 es sm = sm"
| "remove_oldest_loop (Suc n) [] sm = sm"
| "remove_oldest_loop (Suc n) (e # es) sm =
     (let m = first_oldest e es in remove_oldest_loop n (remove1 m (e # es)) (drop_entry (fst m) sm))"

type_synonym range_order = "(string \<times> shared_entry) list \<Rightarrow> (string \<times> shared_entry) list"

definition removeOldest :: "range_order \<Rightarrow> nat \<Rightarrow> shared_memory \<Rightarrow> shared_memory" where
  "removeOldest order n sm =
     remove_oldest_loop n (map (\<lambda>(k, e). (k, se_timestamp e)) (order (sm_entries sm))) sm"

subsection \<open>Channels\<close>

definition channel_capacity :: nat where
  "channel_capacity = 100"

text \<open>The send in a \<open>select\<close> with a default.\<close>

definition send_or_drop :: "shared_entry \<Rightarrow> nat \<Rightarrow> shared_memory \<Rightarrow> shared_memory option" where
  "send_or_drop e i sm =
     (let ch = sm_channels sm ! i
      in if ch_closed ch then None
         else if length (ch_buffer ch) < channel_capacity
         then Some (sm\<lparr>sm_channels := (sm_channels sm)[i := ch\<lparr>ch_buffer := ch_buffer ch @ [e]\<rparr>]\<rparr>)
         else Some (sm\<lparr>sm_dropped := sm_dropped sm + 1\<rparr>))"

fun notify_all :: "shared_entry \<Rightarrow> nat list \<Rightarrow> shared_memory \<Rightarrow> shared_memory option" where
  "notify_all e [] sm = Some sm"
| "notify_all e (i # is) sm = Option.bind (send_or_drop e i sm) (notify_all e is)"

definition close_channel :: "nat \<Rightarrow> shared_memory \<Rightarrow> shared_memory option" where
  "close_channel i sm =
     (let ch = sm_channels sm ! i
      in if ch_closed ch then None else Some (sm\<lparr>sm_channels := (sm_channels sm)[i := ch\<lparr>ch_closed := True\<rparr>]\<rparr>))"

text \<open>The subscriber's side: a receive on an open channel without an entry waits.\<close>

definition receive :: "nat \<Rightarrow> shared_memory \<Rightarrow> shared_entry option \<times> shared_memory" where
  "receive i sm =
     (case ch_buffer (sm_channels sm ! i) of
        [] \<Rightarrow> (None, sm)
      | e # es \<Rightarrow> (Some e, sm\<lparr>sm_channels := (sm_channels sm)[i := (sm_channels sm ! i)\<lparr>ch_buffer := es\<rparr>]\<rparr>))"

definition Memory_Subscribe :: "string \<Rightarrow> shared_memory \<Rightarrow> (nat \<times> shared_memory) option" where
  "Memory_Subscribe agentID sm =
     Option.bind (case map_of (sm_subscribers sm) agentID of None \<Rightarrow> Some sm | Some i \<Rightarrow> close_channel i sm)
       (\<lambda>sm1. Some (length (sm_channels sm1),
          sm1\<lparr>sm_subscribers := AList.update agentID (length (sm_channels sm1)) (sm_subscribers sm1),
              sm_channels := sm_channels sm1 @ [\<lparr>ch_buffer = [], ch_closed = False\<rparr>]\<rparr>))"

definition Memory_Unsubscribe :: "string \<Rightarrow> shared_memory \<Rightarrow> shared_memory option" where
  "Memory_Unsubscribe agentID sm =
     (case map_of (sm_subscribers sm) agentID of
        None \<Rightarrow> Some sm
      | Some i \<Rightarrow> close_channel i (sm\<lparr>sm_subscribers := AList.delete agentID (sm_subscribers sm)\<rparr>))"

subsection \<open>Writing and reading\<close>

definition make_room :: "range_order \<Rightarrow> gotime \<Rightarrow> shared_memory \<Rightarrow> shared_memory" where
  "make_room order now sm =
     (if length (sm_entries sm) < MaxSharedEntries then sm
      else let sm1 = snd (cleanupExpired now sm)
           in if length (sm_entries sm1) < MaxSharedEntries then sm1
              else removeOldest order (MaxSharedEntries div 4) sm1)"

definition store_entry ::
  "gotime \<Rightarrow> string \<Rightarrow> shared_value \<Rightarrow> string \<Rightarrow> string \<Rightarrow> duration \<Rightarrow> shared_memory \<Rightarrow> shared_entry \<times> shared_memory" where
  "store_entry now k v ty source ttl sm =
     (case map_of (sm_entries sm) k of
        Some old \<Rightarrow>
          let sm1 = (if se_type old \<noteq> ty then add_to_index ty k (removeFromTypeIndex (se_type old) k sm) else sm);
              e = old\<lparr>se_value := v, se_type := ty, se_source := source, se_timestamp := now, se_ttl := ttl,
                     se_version := se_version old + 1\<rparr>
          in (e, sm1\<lparr>sm_entries := AList.update k e (sm_entries sm1)\<rparr>)
      | None \<Rightarrow>
          let e = \<lparr>se_key = k, se_value = v, se_type = ty, se_source = source, se_timestamp = now, se_ttl = ttl,
                   se_version = 1\<rparr>
          in (e, add_to_index ty k (sm\<lparr>sm_entries := AList.update k e (sm_entries sm)\<rparr>)))"

definition WriteWithTTL ::
  "range_order \<Rightarrow> gotime \<Rightarrow> string \<Rightarrow> shared_value \<Rightarrow> string \<Rightarrow> string \<Rightarrow> duration \<Rightarrow> shared_memory \<Rightarrow> shared_memory option" where
  "WriteWithTTL order now k v ty source ttl sm =
     (case store_entry now k v ty source ttl (make_room order now sm) of
        (e, sm1) \<Rightarrow> notify_all e (map snd (sm_subscribers sm1)) sm1)"

definition Memory_Write ::
  "range_order \<Rightarrow> gotime \<Rightarrow> string \<Rightarrow> shared_value \<Rightarrow> string \<Rightarrow> string \<Rightarrow> shared_memory \<Rightarrow> shared_memory option" where
  "Memory_Write order now k v ty source sm = WriteWithTTL order now k v ty source 0 sm"

definition Memory_Read :: "gotime \<Rightarrow> string \<Rightarrow> shared_memory \<Rightarrow> shared_entry option" where
  "Memory_Read now k sm =
     (case map_of (sm_entries sm) k of None \<Rightarrow> None | Some e \<Rightarrow> if Entry_IsExpired now e then None else Some e)"

definition ReadByType :: "gotime \<Rightarrow> string \<Rightarrow> shared_memory \<Rightarrow> shared_entry list" where
  "ReadByType now ty sm = concat (map (\<lambda>k. case Memory_Read now k sm of None \<Rightarrow> [] | Some e \<Rightarrow> [e]) (keys_of_type sm ty))"

definition ReadAll :: "range_order \<Rightarrow> gotime \<Rightarrow> shared_memory \<Rightarrow> shared_entry list" where
  "ReadAll order now sm = filter (\<lambda>e. \<not> Entry_IsExpired now e) (map snd (order (sm_entries sm)))"

definition Memory_Delete :: "string \<Rightarrow> shared_memory \<Rightarrow> bool \<times> shared_memory" where
  "Memory_Delete k sm = (map_of (sm_entries sm) k \<noteq> None, drop_entry k sm)"

definition Memory_Clear :: "shared_memory \<Rightarrow> shared_memory" where
  "Memory_Clear sm = sm\<lparr>sm_entries := [], sm_by_type := Map.empty\<rparr>"

record memory_stats =
  ms_total :: nat
  ms_subscribers :: nat
  ms_by_type :: "string \<Rightarrow> nat option"
  ms_dropped :: nat

definition Memory_Stats :: "shared_memory \<Rightarrow> memory_stats" where
  "Memory_Stats sm =
     \<lparr>ms_total = length (sm_entries sm), ms_subscribers = length (sm_subscribers sm),
      ms_by_type = (\<lambda>ty. map_option length (sm_by_type sm ty)), ms_dropped = sm_dropped sm\<rparr>"

text \<open>One entry of a checkpoint; \<open>None\<close> for an entry that is skipped.\<close>

definition restored_entry :: "gotime \<Rightarrow> string \<Rightarrow> shared_entry option \<Rightarrow> shared_entry option" where
  "restored_entry now ck source =
     (case source of
        None \<Rightarrow> None
      | Some e0 \<Rightarrow>
          let e1 = (if se_key e0 = [] then e0\<lparr>se_key := ck\<rparr> else e0)
          in if se_key e1 = [] \<or> ck \<noteq> [] \<and> ck \<noteq> se_key e1 then None
             else let e2 = (if is_zero (se_timestamp e1) then e1\<lparr>se_timestamp := now\<rparr> else e1);
                      e3 = (if se_version e2 \<le> 0 then e2\<lparr>se_version := 1\<rparr> else e2)
                  in if Entry_IsExpired now e3 then None else Some e3)"

definition restore_entry :: "shared_entry \<Rightarrow> shared_memory \<Rightarrow> shared_memory" where
  "restore_entry e sm =
     (let sm1 = (case map_of (sm_entries sm) (se_key e) of
                   None \<Rightarrow> sm | Some old \<Rightarrow> removeFromTypeIndex (se_type old) (se_key e) sm)
      in add_to_index (se_type e) (se_key e) (put_entry e sm1))"

fun restore_loop :: "gotime \<Rightarrow> (string \<times> shared_entry option) list \<Rightarrow> shared_memory \<Rightarrow> nat \<times> shared_memory" where
  "restore_loop now [] sm = (0, sm)"
| "restore_loop now ((ck, source) # xs) sm =
     (case restored_entry now ck source of
        None \<Rightarrow> restore_loop now xs sm
      | Some e \<Rightarrow> (case restore_loop now xs (restore_entry e sm) of (n, sm') \<Rightarrow> (Suc n, sm')))"

definition restoreEntries ::
  "range_order \<Rightarrow> gotime \<Rightarrow> (string \<times> shared_entry option) list \<Rightarrow> shared_memory \<Rightarrow> nat \<times> shared_memory" where
  "restoreEntries order now snapshot sm =
     (if snapshot = [] then (0, sm)
      else case restore_loop now snapshot sm of
             (n, sm1) \<Rightarrow>
               let sm2 = snd (cleanupExpired now sm1)
               in (n, if MaxSharedEntries < length (sm_entries sm2)
                      then removeOldest order (length (sm_entries sm2) - MaxSharedEntries) sm2 else sm2))"

subsection \<open>What goes into a prompt\<close>

text \<open>\<open>fmt\<close> formats a value (\<open>%v\<close>).\<close>

fun context_lines :: "(shared_value \<Rightarrow> string) \<Rightarrow> int \<Rightarrow> shared_entry list \<Rightarrow> string" where
  "context_lines fmt room [] = []"
| "context_lines fmt room (e # es) =
     (if room \<le> 0 then ''... and '' @ itoa (int (length (e # es))) @ '' more entries'' @ [CHR 0x0A]
      else ''- **'' @ se_key e @ ''** ['' @ se_type e @ '' from '' @ se_source e @ '']: '' @ fmt (se_value e) @ [CHR 0x0A]
           @ context_lines fmt (room - 1) es)"

definition GetForContext :: "(shared_value \<Rightarrow> string) \<Rightarrow> gotime \<Rightarrow> string \<Rightarrow> int \<Rightarrow> shared_memory \<Rightarrow> string" where
  "GetForContext fmt now agentID maxEntries sm =
     (let es = filter (\<lambda>e. \<not> Entry_IsExpired now e \<and> se_source e \<noteq> agentID) (map snd (sm_entries sm));
          sorted = sort_key (\<lambda>e. - se_timestamp e) (sort_key se_key es)
      in if es = [] then []
         else [CHR 0x0A] @ ''## Shared Memory Context'' @ [CHR 0x0A]
              @ ''The following information has been shared by other agents:'' @ [CHR 0x0A, CHR 0x0A]
              @ context_lines fmt (if maxEntries \<le> 0 then int (length es) else maxEntries) sorted @ [CHR 0x0A])"

definition SaveContextSnapshot ::
  "range_order \<Rightarrow> gotime \<Rightarrow> context_snapshot option \<Rightarrow> string \<Rightarrow> shared_memory \<Rightarrow> shared_memory option" where
  "SaveContextSnapshot order now snapshot source sm =
     (case snapshot of
        None \<Rightarrow> Some sm
      | Some s \<Rightarrow> Memory_Write order now ''context_snapshot'' (SnapshotPointer (s\<lparr>cs_created_at := now, cs_source := source\<rparr>))
                    SharedEntryTypeContextSnapshot source sm)"

definition GetContextSnapshot :: "gotime \<Rightarrow> shared_memory \<Rightarrow> context_snapshot option" where
  "GetContextSnapshot now sm =
     (case Memory_Read now ''context_snapshot'' sm of
        None \<Rightarrow> None
      | Some e \<Rightarrow> (case se_value e of SnapshotPointer s \<Rightarrow> Some s | _ \<Rightarrow> None))"

definition NewContextSnapshot :: "gotime \<Rightarrow> context_snapshot" where
  "NewContextSnapshot now =
     \<lparr>cs_key_files = Some [], cs_discoveries = [], cs_error_patterns = Some [], cs_critical_results = [],
      cs_requirements = [], cs_decisions = [], cs_created_at = now, cs_source = []\<rparr>"

text \<open>Assigning to a nil map panics.\<close>

definition AddKeyFile :: "string \<Rightarrow> string \<Rightarrow> context_snapshot \<Rightarrow> context_snapshot option" where
  "AddKeyFile path summary cs =
     map_option (\<lambda>m. cs\<lparr>cs_key_files := Some (AList.update path summary m)\<rparr>) (cs_key_files cs)"

definition AddErrorPattern :: "string \<Rightarrow> string \<Rightarrow> context_snapshot \<Rightarrow> context_snapshot option" where
  "AddErrorPattern pattern solution cs =
     map_option (\<lambda>m. cs\<lparr>cs_error_patterns := Some (AList.update pattern solution m)\<rparr>) (cs_error_patterns cs)"

definition AddDiscovery :: "string \<Rightarrow> context_snapshot \<Rightarrow> context_snapshot" where
  "AddDiscovery d cs = cs\<lparr>cs_discoveries := cs_discoveries cs @ [d]\<rparr>"

definition AddRequirement :: "string \<Rightarrow> context_snapshot \<Rightarrow> context_snapshot" where
  "AddRequirement r cs = cs\<lparr>cs_requirements := cs_requirements cs @ [r]\<rparr>"

definition AddDecision :: "string \<Rightarrow> context_snapshot \<Rightarrow> context_snapshot" where
  "AddDecision d cs = cs\<lparr>cs_decisions := cs_decisions cs @ [d]\<rparr>"

definition AddCriticalResult :: "string \<Rightarrow> string \<Rightarrow> string \<Rightarrow> context_snapshot \<Rightarrow> context_snapshot" where
  "AddCriticalResult tool summary details cs =
     cs\<lparr>cs_critical_results := cs_critical_results cs @ [\<lparr>cr_tool_name = tool, cr_summary = summary, cr_details = details\<rparr>]\<rparr>"

text \<open>The block of a prompt; the rule is 71 times the sign with the UTF-8 bytes \<open>E2 95 90\<close>.\<close>

definition nl :: string where
  "nl = [CHR 0x0A]"

definition prompt_rule :: string where
  "prompt_rule = concat (replicate 71 [CHR 0xE2, CHR 0x95, CHR 0x90])"

definition prompt_section :: "string \<Rightarrow> string list \<Rightarrow> string" where
  "prompt_section title ls =
     (if ls = [] then [] else ''**'' @ title @ '':**'' @ nl @ concat ls @ nl)"

definition critical_line :: "critical_result \<Rightarrow> string" where
  "critical_line r =
     ''- **'' @ cr_tool_name r @ ''**: '' @ cr_summary r @ nl
     @ (if cr_details r \<noteq> [] \<and> length (cr_details r) < 500 then ''  Details: '' @ cr_details r @ nl else [])"

definition pair_line :: "string \<times> string \<Rightarrow> string" where
  "pair_line p = ''- `'' @ fst p @ ''`: '' @ snd p @ nl"

definition item_line :: "string \<Rightarrow> string" where
  "item_line s = ''- '' @ s @ nl"

definition go_map :: "(string \<times> string) list option \<Rightarrow> (string \<times> string) list" where
  "go_map m = (case m of None \<Rightarrow> [] | Some l \<Rightarrow> l)"

definition GetContextSnapshotForPrompt ::
  "((string \<times> string) list \<Rightarrow> (string \<times> string) list) \<Rightarrow> gotime \<Rightarrow> shared_memory \<Rightarrow> string" where
  "GetContextSnapshotForPrompt order now sm =
     (case GetContextSnapshot now sm of
        None \<Rightarrow> []
      | Some s \<Rightarrow>
          nl @ prompt_rule @ nl @ replicate 20 (CHR '' '') @ ''CONTEXT FROM PLANNING PHASE'' @ nl @ prompt_rule @ nl @ nl
          @ prompt_section ''Key Files Analyzed'' (map pair_line (order (go_map (cs_key_files s))))
          @ prompt_section ''Key Discoveries'' (map item_line (cs_discoveries s))
          @ prompt_section ''Requirements'' (map item_line (cs_requirements s))
          @ prompt_section ''Architectural Decisions'' (map item_line (cs_decisions s))
          @ prompt_section ''Critical Tool Results'' (map critical_line (cs_critical_results s))
          @ prompt_section ''Known Error Patterns'' (map pair_line (order (go_map (cs_error_patterns s))))
          @ prompt_rule @ nl)"

end
