(* ===== verification/SharedMemoryProps.thy ===== *)
theory SharedMemoryProps
  imports SharedMemory
begin

section \<open>Shared memory: the index, the bound and the channels\<close>

text \<open>
  The memory keeps a map and an index of it by type, and channels that must not be closed while a
  subscriber is registered on them. Both are invariants of every operation. What a full memory throws out
  is compared with a reference: the selection of the oldest entries is a prefix of the sorted list.
\<close>

subsection \<open>Selecting the oldest\<close>

lemma first_oldest_mem: "first_oldest m xs \<in> insert m (set xs)"
proof (induction xs arbitrary: m)
  case (Cons y xs)
  from Cons.IH [of "if snd y < snd m then y else m"] show ?case by auto
qed simp

lemma first_oldest_le: "x \<in> insert m (set xs) \<Longrightarrow> snd (first_oldest m xs) \<le> snd x"
proof (induction xs arbitrary: m x)
  case Nil
  then show ?case by simp
next
  case (Cons y xs)
  let ?m = "if snd y < snd m then y else m"
  have "snd ?m \<le> snd m" "snd ?m \<le> snd y" by auto
  with Cons.IH [of ?m ?m] Cons.IH [of x ?m] Cons.prems show ?case by fastforce
qed

text \<open>Of several oldest ones the first is taken.\<close>

lemma first_oldest_first:
  "\<exists>u v. m # xs = u @ first_oldest m xs # v \<and> (\<forall>x\<in>set u. snd (first_oldest m xs) < snd x)"
proof (induction xs arbitrary: m)
  case Nil
  have "[m] = [] @ m # []" by simp
  then show ?case by force
next
  case (Cons y xs)
  show ?case
  proof (cases "snd y < snd m")
    case True
    with Cons.IH [of y] obtain u v where uv: "y # xs = u @ first_oldest y xs # v"
        "\<forall>x\<in>set u. snd (first_oldest y xs) < snd x" by auto
    have "snd (first_oldest y xs) < snd m" using first_oldest_le [of y y xs] True by simp
    with uv have "m # y # xs = (m # u) @ first_oldest y xs # v"
      "\<forall>x\<in>set (m # u). snd (first_oldest y xs) < snd x" by auto
    with True show ?thesis by (metis first_oldest.simps(2))
  next
    case False
    from Cons.IH [of m] obtain u v where uv: "m # xs = u @ first_oldest m xs # v"
        "\<forall>x\<in>set u. snd (first_oldest m xs) < snd x" by auto
    show ?thesis
    proof (cases u)
      case Nil
      with uv(1) have "first_oldest m xs = m" by (metis append_Nil list.inject)
      with False have "m # y # xs = [] @ first_oldest m (y # xs) # y # xs" by simp
      then show ?thesis by (metis empty_iff empty_set)
    next
      case (Cons w u')
      with uv have w: "w = m" "xs = u' @ first_oldest m xs # v" by auto
      have "snd (first_oldest m xs) < snd y" using uv(2) Cons w(1) False by auto
      with uv(2) Cons w have "m # y # xs = (m # y # u') @ first_oldest m xs # v"
        "\<forall>x\<in>set (m # y # u'). snd (first_oldest m xs) < snd x" by auto
      with False show ?thesis by (metis first_oldest.simps(2))
    qed
  qed
qed

lemma sort_key_first_oldest:
  "sort_key snd (e # es) = first_oldest e es # sort_key snd (remove1 (first_oldest e es) (e # es))"
proof -
  define m where "m = first_oldest e es"
  obtain u v where uv: "e # es = u @ m # v" "\<forall>x\<in>set u. snd m < snd x"
    unfolding m_def using first_oldest_first by blast
  then have nu: "m \<notin> set u" by auto
  have rem: "remove1 m (e # es) = u @ v" using nu unfolding uv(1) by (simp add: remove1_append)
  have le: "\<forall>x\<in>set (u @ v). snd m \<le> snd x"
  proof
    fix x assume "x \<in> set (u @ v)"
    then have "x \<in> set (e # es)" unfolding uv(1) by auto
    then show "snd m \<le> snd x" unfolding m_def by (intro first_oldest_le) auto
  qed
  have "sort_key snd (e # es) = m # sort_key snd (u @ v)"
    unfolding uv(1)
  proof (rule properties_for_sort_key)
    show "mset (m # sort_key snd (u @ v)) = mset (u @ m # v)" by simp
    show "filter (\<lambda>x. snd k = snd x) (m # sort_key snd (u @ v)) = filter (\<lambda>x. snd k = snd x) (u @ m # v)"
      if "k \<in> set (m # sort_key snd (u @ v))" for k
    proof -
      have "filter (\<lambda>x. snd m = snd x) u = []" using uv(2) by (auto simp: filter_empty_conv)
      moreover have "filter (\<lambda>x. snd k = snd x) (sort_key snd (u @ v)) = filter (\<lambda>x. snd k = snd x) (u @ v)"
        using sort_key_stable [of snd "snd k" "u @ v"] by (simp add: eq_commute)
      ultimately show ?thesis by (cases "snd k = snd m") auto
    qed
    show "sorted (map snd (m # sort_key snd (u @ v)))" using le by auto
  qed
  then show ?thesis unfolding m_def [symmetric] rem .
qed

subsection \<open>The index by type\<close>

definition mem_index_ok :: "shared_memory \<Rightarrow> bool" where
  "mem_index_ok sm \<longleftrightarrow>
     distinct (map fst (sm_entries sm)) \<and> (\<forall>k e. map_of (sm_entries sm) k = Some e \<longrightarrow> se_key e = k) \<and>
     (\<forall>ty. distinct (keys_of_type sm ty) \<and>
        set (keys_of_type sm ty) = {k. \<exists>e. map_of (sm_entries sm) k = Some e \<and> se_type e = ty})"

lemma keys_of_type_add [simp]:
  "keys_of_type (add_to_index ty k sm) ty' = keys_of_type sm ty' @ (if ty' = ty then [k] else [])"
  by (simp add: keys_of_type_def add_to_index_def)

lemma keys_of_type_remove [simp]:
  "keys_of_type (removeFromTypeIndex ty k sm) ty' =
     (if ty' = ty then remove1 k (keys_of_type sm ty) else keys_of_type sm ty')"
  by (auto simp: keys_of_type_def removeFromTypeIndex_def remove1_idem)

lemma index_frame [simp]:
  "sm_entries (add_to_index ty k sm) = sm_entries sm" "sm_entries (removeFromTypeIndex ty k sm) = sm_entries sm"
  "sm_subscribers (add_to_index ty k sm) = sm_subscribers sm" "sm_subscribers (removeFromTypeIndex ty k sm) = sm_subscribers sm"
  "sm_channels (add_to_index ty k sm) = sm_channels sm" "sm_channels (removeFromTypeIndex ty k sm) = sm_channels sm"
  "keys_of_type (sm\<lparr>sm_entries := es\<rparr>) ty' = keys_of_type sm ty'"
  "keys_of_type (sm\<lparr>sm_channels := cs\<rparr>) ty' = keys_of_type sm ty'"
  "keys_of_type (sm\<lparr>sm_dropped := n\<rparr>) ty' = keys_of_type sm ty'"
  "keys_of_type (sm\<lparr>sm_subscribers := ss\<rparr>) ty' = keys_of_type sm ty'"
  by (simp_all add: add_to_index_def removeFromTypeIndex_def keys_of_type_def)

lemma mem_index_ok_key: "mem_index_ok sm \<Longrightarrow> map_of (sm_entries sm) k = Some e \<Longrightarrow> se_key e = k"
  unfolding mem_index_ok_def by blast

lemma drop_entry_entries: "sm_entries (drop_entry k sm) = AList.delete k (sm_entries sm)"
proof (cases "map_of (sm_entries sm) k")
  case None
  then have "k \<notin> fst ` set (sm_entries sm)" by (simp add: map_of_eq_None_iff)
  then have "AList.delete k (sm_entries sm) = sm_entries sm"
    by (force simp: AList.delete_eq filter_id_conv)
  with None show ?thesis by (simp add: drop_entry_def)
qed (simp add: drop_entry_def Let_def)

lemma remove_oldest_loop_entries:
  "sm_entries (remove_oldest_loop n es sm) =
     filter (\<lambda>x. fst x \<notin> set (map fst (take n (sort_key snd es)))) (sm_entries sm)"
proof (induction n es sm rule: remove_oldest_loop.induct)
  case (3 n e es sm)
  let ?m = "first_oldest e es"
  have "take (Suc n) (sort_key snd (e # es)) = ?m # take n (sort_key snd (remove1 ?m (e # es)))"
    by (subst sort_key_first_oldest) simp
  then show ?case
    using 3 by (simp del: remove1.simps sort_key_simps
        add: drop_entry_entries AList.delete_eq Let_def split_beta eq_commute [of "fst (first_oldest e es)"])
qed simp_all

lemma drop_entry_frame [simp]:
  "sm_subscribers (drop_entry k sm) = sm_subscribers sm" "sm_channels (drop_entry k sm) = sm_channels sm"
  by (simp_all add: drop_entry_def Let_def split: option.splits)

lemma drop_entry_keys:
  "keys_of_type (drop_entry k sm) ty =
     (case map_of (sm_entries sm) k of
        None \<Rightarrow> keys_of_type sm ty
      | Some e \<Rightarrow> if ty = se_type e then remove1 k (keys_of_type sm ty) else keys_of_type sm ty)"
  by (simp add: drop_entry_def Let_def split: option.splits)

lemma drop_entry_ok:
  assumes "mem_index_ok sm"
  shows "mem_index_ok (drop_entry k sm)"
proof -
  have "distinct (map fst (AList.delete k (sm_entries sm)))"
    using assms by (simp add: mem_index_ok_def AList.distinct_delete)
  moreover have "\<forall>j e. map_of (AList.delete k (sm_entries sm)) j = Some e \<longrightarrow> se_key e = j"
    using mem_index_ok_key [OF assms] by (simp add: AList.delete_conv')
  moreover have "distinct (keys_of_type (drop_entry k sm) ty) \<and> set (keys_of_type (drop_entry k sm) ty) =
      {j. \<exists>e. map_of (AList.delete k (sm_entries sm)) j = Some e \<and> se_type e = ty}" for ty
  proof -
    have d: "distinct (keys_of_type sm ty)"
      and s: "set (keys_of_type sm ty) = {j. \<exists>e. map_of (sm_entries sm) j = Some e \<and> se_type e = ty}"
      using assms unfolding mem_index_ok_def by blast+
    show ?thesis
      by (cases "map_of (sm_entries sm) k")
        (use d s in \<open>auto simp: drop_entry_keys AList.delete_conv' distinct_remove1 set_remove1_eq\<close>)
  qed
  ultimately show ?thesis unfolding mem_index_ok_def by (simp add: drop_entry_entries)
qed

lemma remove_oldest_loop_ok: "mem_index_ok sm \<Longrightarrow> mem_index_ok (remove_oldest_loop n es sm)"
  by (induction n es sm rule: remove_oldest_loop.induct) (simp_all add: Let_def drop_entry_ok)

lemma drop_all_ok: "mem_index_ok sm \<Longrightarrow> mem_index_ok (foldl (\<lambda>sm k. drop_entry k sm) sm ks)"
  by (induction ks arbitrary: sm) (simp_all add: drop_entry_ok)

lemma drop_all_entries:
  "sm_entries (foldl (\<lambda>sm k. drop_entry k sm) sm ks) = filter (\<lambda>x. fst x \<notin> set ks) (sm_entries sm)"
  by (induction ks arbitrary: sm) (auto simp: drop_entry_entries AList.delete_eq intro: filter_cong)

lemma new_memory_ok: "mem_index_ok NewSharedMemory"
  by (simp add: mem_index_ok_def NewSharedMemory_def keys_of_type_def)

lemma clear_ok: "mem_index_ok (Memory_Clear sm)"
  by (simp add: mem_index_ok_def Memory_Clear_def keys_of_type_def)

text \<open>
  Setting an entry: its key leaves the list of the type it had and is appended to that of its new type,
  or stays where it is when the type is the same.
\<close>

definition sets_entry :: "shared_entry \<Rightarrow> shared_memory \<Rightarrow> shared_memory \<Rightarrow> bool" where
  "sets_entry e sm sm' \<longleftrightarrow>
     sm_entries sm' = AList.update (se_key e) e (sm_entries sm) \<and>
     (\<forall>ty. distinct (keys_of_type sm' ty) \<and>
        set (keys_of_type sm' ty) = set (keys_of_type sm ty) - {se_key e} \<union> (if ty = se_type e then {se_key e} else {}))"

lemma sets_entry_ok:
  assumes "mem_index_ok sm" "sets_entry e sm sm'"
  shows "mem_index_ok sm'"
proof -
  have e: "sm_entries sm' = AList.update (se_key e) e (sm_entries sm)" using assms(2) by (simp add: sets_entry_def)
  have "distinct (map fst (sm_entries sm'))" unfolding e using assms(1) by (simp add: mem_index_ok_def AList.distinct_update)
  moreover have "\<forall>k x. map_of (sm_entries sm') k = Some x \<longrightarrow> se_key x = k"
    using mem_index_ok_key [OF assms(1)] by (simp add: e AList.update_conv')
  moreover have "distinct (keys_of_type sm' ty) \<and>
      set (keys_of_type sm' ty) = {k. \<exists>x. map_of (sm_entries sm') k = Some x \<and> se_type x = ty}" for ty
  proof -
    have s: "set (keys_of_type sm ty) = {j. \<exists>x. map_of (sm_entries sm) j = Some x \<and> se_type x = ty}"
      using assms(1) unfolding mem_index_ok_def by blast
    from assms(2) show ?thesis unfolding sets_entry_def e by (auto simp: AList.update_conv' s)
  qed
  ultimately show ?thesis unfolding mem_index_ok_def by blast
qed

lemma mem_index_ok_keys:
  assumes "mem_index_ok sm"
  shows "distinct (keys_of_type sm ty)" "k \<in> set (keys_of_type sm ty) \<longleftrightarrow> (\<exists>x. map_of (sm_entries sm) k = Some x \<and> se_type x = ty)"
  using assms unfolding mem_index_ok_def by blast+

lemma store_entry_sets:
  assumes "mem_index_ok sm" "store_entry now k v ty source ttl sm = (e, sm')"
  shows "sets_entry e sm sm' \<and> se_key e = k \<and> se_type e = ty \<and> se_value e = v \<and> se_source e = source \<and> se_timestamp e = now \<and>
    se_ttl e = ttl"
proof (cases "map_of (sm_entries sm) k")
  case None
  then have "k \<notin> set (keys_of_type sm ty')" for ty' by (simp add: mem_index_ok_keys(2) [OF assms(1)])
  note fresh = this
  have e: "e = \<lparr>se_key = k, se_value = v, se_type = ty, se_source = source, se_timestamp = now, se_ttl = ttl, se_version = 1\<rparr>"
    and sm': "sm' = add_to_index ty k (sm\<lparr>sm_entries := AList.update k e (sm_entries sm)\<rparr>)"
    using assms(2) unfolding store_entry_def None by (auto simp: Let_def)
  show ?thesis
    unfolding sets_entry_def sm' using fresh mem_index_ok_keys(1) [OF assms(1)] by (simp add: e)
next
  case (Some old)
  then have k: "k \<in> set (keys_of_type sm ty') \<longleftrightarrow> ty' = se_type old" for ty'
    by (auto simp: mem_index_ok_keys(2) [OF assms(1)])
  define sm1 where "sm1 = (if se_type old \<noteq> ty then add_to_index ty k (removeFromTypeIndex (se_type old) k sm) else sm)"
  have key: "se_key old = k" using mem_index_ok_key [OF assms(1) Some] .
  have e: "e = old\<lparr>se_value := v, se_type := ty, se_source := source, se_timestamp := now, se_ttl := ttl,
                se_version := se_version old + 1\<rparr>"
    and sm': "sm' = sm1\<lparr>sm_entries := AList.update k e (sm_entries sm1)\<rparr>"
    using assms(2) unfolding store_entry_def Some sm1_def by (auto simp: Let_def)
  have "distinct (keys_of_type sm1 ty') \<and>
      set (keys_of_type sm1 ty') = set (keys_of_type sm ty') - {k} \<union> (if ty' = ty then {k} else {})" for ty'
    using k [of ty'] k [of ty] mem_index_ok_keys(1) [OF assms(1), of ty'] mem_index_ok_keys(1) [OF assms(1), of ty]
    by (auto simp: sm1_def set_remove1_eq distinct_remove1)
  moreover have "sm_entries sm1 = sm_entries sm" by (simp add: sm1_def)
  ultimately show ?thesis unfolding sets_entry_def sm' by (simp add: e key)
qed

lemma restore_entry_sets:
  assumes "mem_index_ok sm"
  shows "sets_entry e sm (restore_entry e sm)"
proof (cases "map_of (sm_entries sm) (se_key e)")
  case None
  then have "se_key e \<notin> set (keys_of_type sm ty')" for ty' by (simp add: mem_index_ok_keys(2) [OF assms(1)])
  with None assms show ?thesis
    by (auto simp: restore_entry_def put_entry_def Let_def sets_entry_def mem_index_ok_keys(1) [OF assms])
next
  case (Some old)
  then have k: "se_key e \<in> set (keys_of_type sm ty') \<longleftrightarrow> ty' = se_type old" for ty'
    by (auto simp: mem_index_ok_keys(2) [OF assms(1)])
  with Some show ?thesis
    by (auto simp: restore_entry_def put_entry_def Let_def sets_entry_def mem_index_ok_keys(1) [OF assms(1)] distinct_remove1 set_remove1_eq)
qed

lemma restore_loop_ok: "mem_index_ok sm \<Longrightarrow> restore_loop now xs sm = (n, sm') \<Longrightarrow> mem_index_ok sm'"
proof (induction now xs sm arbitrary: n sm' rule: restore_loop.induct)
  case (2 now ck source xs sm)
  then show ?case
    using sets_entry_ok [OF 2(3) restore_entry_sets [OF 2(3)]] by (auto split: option.splits prod.splits)
qed simp

lemma cleanup_ok: "mem_index_ok sm \<Longrightarrow> mem_index_ok (snd (cleanupExpired now sm))"
  by (simp add: cleanupExpired_def Let_def drop_all_ok)

lemma removeOldest_ok: "mem_index_ok sm \<Longrightarrow> mem_index_ok (removeOldest order n sm)"
  by (simp add: removeOldest_def remove_oldest_loop_ok)

lemma make_room_ok: "mem_index_ok sm \<Longrightarrow> mem_index_ok (make_room order now sm)"
  by (simp add: make_room_def Let_def cleanup_ok removeOldest_ok)

lemma restoreEntries_ok:
  assumes "mem_index_ok sm" "restoreEntries order now snapshot sm = (n, sm')"
  shows "mem_index_ok sm'"
  using assms
  by (auto simp: restoreEntries_def Let_def split: if_splits prod.splits
      intro: removeOldest_ok cleanup_ok restore_loop_ok)

subsection \<open>The bound and what a full memory throws out\<close>

definition is_order :: "range_order \<Rightarrow> bool" where
  "is_order order \<longleftrightarrow> (\<forall>xs. mset (order xs) = mset xs)"

lemma map_of_filter_keys: "map_of (filter (\<lambda>x. fst x \<notin> K) xs) j = (if j \<in> K then None else map_of xs j)"
  by (induction xs) auto

lemma length_filter_keys:
  assumes "distinct (map fst xs)" "K \<subseteq> fst ` set xs"
  shows "length (filter (\<lambda>x. fst x \<notin> K) xs) = length xs - card K"
proof -
  have "fst ` set (filter (\<lambda>x. fst x \<in> K) xs) = K" using assms(2) by auto
  moreover have "distinct (map fst (filter (\<lambda>x. fst x \<in> K) xs))"
    using assms(1) by (simp add: distinct_map_filter)
  ultimately have "length (filter (\<lambda>x. fst x \<in> K) xs) = card K"
    by (metis distinct_card length_map set_map)
  then show ?thesis using sum_length_filter_compl [of "\<lambda>x. fst x \<in> K" xs] by linarith
qed

text \<open>The keys a call of \<open>removeOldest\<close> picks.\<close>

definition stamped :: "range_order \<Rightarrow> shared_memory \<Rightarrow> (string \<times> gotime) list" where
  "stamped order sm = sort_key snd (map (\<lambda>(k, e). (k, se_timestamp e)) (order (sm_entries sm)))"

definition picked :: "range_order \<Rightarrow> nat \<Rightarrow> shared_memory \<Rightarrow> string set" where
  "picked order n sm = set (map fst (take n (stamped order sm)))"

lemma removeOldest_entries:
  "sm_entries (removeOldest order n sm) = filter (\<lambda>x. fst x \<notin> picked order n sm) (sm_entries sm)"
  by (simp add: removeOldest_def remove_oldest_loop_entries picked_def stamped_def)

lemma stamped_props:
  assumes "is_order order"
  shows "mset (map fst (stamped order sm)) = mset (map fst (sm_entries sm))"
    "set (stamped order sm) = (\<lambda>(k, e). (k, se_timestamp e)) ` set (sm_entries sm)"
    "sorted (map snd (stamped order sm))"
proof -
  have o': "mset (order (sm_entries sm)) = mset (sm_entries sm)" using assms by (simp add: is_order_def)
  show "mset (map fst (stamped order sm)) = mset (map fst (sm_entries sm))"
  proof -
    have "mset (stamped order sm) = image_mset (\<lambda>(k, e). (k, se_timestamp e)) (mset (sm_entries sm))"
      by (simp add: stamped_def o')
    then have "image_mset fst (mset (stamped order sm)) = image_mset fst (mset (sm_entries sm))"
      by (simp add: multiset.map_comp comp_def split_beta)
    then show ?thesis by simp
  qed
  show "set (stamped order sm) = (\<lambda>(k, e). (k, se_timestamp e)) ` set (sm_entries sm)"
    using mset_eq_setD [OF o'] by (simp add: stamped_def)
  show "sorted (map snd (stamped order sm))" by (simp add: stamped_def)
qed

lemma removeOldest_length:
  assumes "is_order order" "mem_index_ok sm"
  shows "length (sm_entries (removeOldest order n sm)) = length (sm_entries sm) - n"
proof -
  let ?ks = "map fst (stamped order sm)"
  have d: "distinct (map fst (sm_entries sm))" using assms(2) by (simp add: mem_index_ok_def)
  have ks: "distinct ?ks" "set ?ks = fst ` set (sm_entries sm)" "length ?ks = length (sm_entries sm)"
    using stamped_props(1) [OF assms(1), of sm] d
    by (metis mset_eq_imp_distinct_iff, metis list.set_map mset_eq_setD, metis length_map mset_eq_length)
  have K: "picked order n sm = set (take n ?ks)" by (simp add: picked_def take_map)
  have "card (picked order n sm) = min n (length (sm_entries sm))"
    unfolding K using ks by (simp add: distinct_card)
  moreover have "picked order n sm \<subseteq> fst ` set (sm_entries sm)"
    unfolding K using ks(2) by (metis set_take_subset)
  ultimately show ?thesis
    by (simp add: removeOldest_entries length_filter_keys [OF d])
qed

lemma removeOldest_oldest:
  assumes "is_order order" "mem_index_ok sm" "map_of (sm_entries sm) j = Some e" "j \<in> picked order n sm"
    and "map_of (sm_entries (removeOldest order n sm)) j' = Some e'"
  shows "se_timestamp e \<le> se_timestamp e'"
proof -
  let ?st = "stamped order sm"
  have d: "distinct (map fst (sm_entries sm))" using assms(2) by (simp add: mem_index_ok_def)
  obtain t where t: "(j, t) \<in> set (take n ?st)" using assms(4) by (auto simp: picked_def)
  then have "(j, t) \<in> (\<lambda>(k, e). (k, se_timestamp e)) ` set (sm_entries sm)"
    using stamped_props(2) [OF assms(1), of sm] by (metis in_set_takeD)
  then obtain b where b: "(j, b) \<in> set (sm_entries sm)" "t = se_timestamp b" by auto
  have te: "t = se_timestamp e"
    using eq_key_imp_eq_value [OF d b(1) map_of_SomeD [OF assms(3)]] b(2) by simp
  have j': "(j', e') \<in> set (sm_entries sm)" "j' \<notin> picked order n sm"
    using map_of_SomeD [OF assms(5)] by (auto simp: removeOldest_entries)
  then have "(j', se_timestamp e') \<in> set ?st" using stamped_props(2) [OF assms(1), of sm] by force
  moreover have "(j', se_timestamp e') \<notin> set (take n ?st)" using j'(2) by (force simp: picked_def)
  ultimately have "(j', se_timestamp e') \<in> set (drop n ?st)" by (metis Un_iff append_take_drop_id set_append)
  moreover have "sorted (map snd (take n ?st @ drop n ?st))" using stamped_props(3) [OF assms(1), of sm] by simp
  ultimately show ?thesis using t te unfolding map_append sorted_append by force
qed

lemma make_room_length:
  assumes "is_order order" "mem_index_ok sm" "length (sm_entries sm) \<le> MaxSharedEntries"
  shows "length (sm_entries (make_room order now sm)) < MaxSharedEntries"
proof -
  have "length (sm_entries (snd (cleanupExpired now sm))) \<le> length (sm_entries sm)"
    by (simp add: cleanupExpired_def Let_def drop_all_entries)
  with assms(3) show ?thesis
    by (auto simp: make_room_def Let_def MaxSharedEntries_def removeOldest_length [OF assms(1) cleanup_ok [OF assms(2)]])
qed

lemma length_update_le: "length (AList.update k v xs) \<le> Suc (length xs)"
  by (induction xs) auto

lemma cleanup_lookup:
  assumes "mem_index_ok sm"
  shows "map_of (sm_entries (snd (cleanupExpired now sm))) j =
    (case map_of (sm_entries sm) j of None \<Rightarrow> None | Some e \<Rightarrow> if Entry_IsExpired now e then None else Some e)"
proof -
  have d: "distinct (map fst (sm_entries sm))" using assms by (simp add: mem_index_ok_def)
  let ?dead = "set (map fst (filter (\<lambda>(k, e). Entry_IsExpired now e) (sm_entries sm)))"
  have dead: "j \<in> ?dead \<longleftrightarrow> (\<exists>e. map_of (sm_entries sm) j = Some e \<and> Entry_IsExpired now e)"
    using d by auto force
  have "map_of (filter (\<lambda>x. fst x \<notin> ?dead) (sm_entries sm)) j = (if j \<in> ?dead then None else map_of (sm_entries sm) j)"
    by (rule map_of_filter_keys)
  with dead show ?thesis
    by (auto simp: cleanupExpired_def Let_def drop_all_entries split: option.splits)
qed

subsection \<open>Channels\<close>

definition chans_ok :: "shared_memory \<Rightarrow> bool" where
  "chans_ok sm \<longleftrightarrow>
     distinct (map fst (sm_subscribers sm)) \<and> distinct (map snd (sm_subscribers sm)) \<and>
     (\<forall>i\<in>set (map snd (sm_subscribers sm)). i < length (sm_channels sm) \<and> \<not> ch_closed (sm_channels sm ! i)) \<and>
     (\<forall>c\<in>set (sm_channels sm). length (ch_buffer c) \<le> channel_capacity)"

definition same_data :: "shared_memory \<Rightarrow> shared_memory \<Rightarrow> bool" where
  "same_data sm sm' \<longleftrightarrow> sm_entries sm' = sm_entries sm \<and> sm_by_type sm' = sm_by_type sm"

lemma same_data_trans [trans]: "same_data a b \<Longrightarrow> same_data b c \<Longrightarrow> same_data a c"
  by (simp add: same_data_def)

lemma same_data_ok: "same_data sm sm' \<Longrightarrow> mem_index_ok sm \<Longrightarrow> mem_index_ok sm'"
  by (simp add: same_data_def mem_index_ok_def keys_of_type_def)

lemma chans_frame:
  "chans_ok sm \<Longrightarrow> sm_subscribers sm' = sm_subscribers sm \<Longrightarrow> sm_channels sm' = sm_channels sm \<Longrightarrow> chans_ok sm'"
  by (simp add: chans_ok_def)

lemma send_ok:
  assumes "chans_ok sm" "i \<in> set (map snd (sm_subscribers sm))"
  obtains sm' where "send_or_drop e i sm = Some sm'" "chans_ok sm'" "same_data sm sm'"
    "sm_subscribers sm' = sm_subscribers sm"
proof -
  let ?c = "sm_channels sm ! i"
  have i: "i < length (sm_channels sm)" "\<not> ch_closed ?c" using assms by (auto simp: chans_ok_def)
  show thesis
  proof (cases "length (ch_buffer ?c) < channel_capacity")
    case True
    let ?sm = "sm\<lparr>sm_channels := (sm_channels sm)[i := ?c\<lparr>ch_buffer := ch_buffer ?c @ [e]\<rparr>]\<rparr>"
    have "chans_ok ?sm"
      using assms(1) i True
      by (auto simp: chans_ok_def nth_list_update dest!: set_update_subset_insert [THEN subsetD])
    with i True show thesis by (intro that [of ?sm]) (simp_all add: send_or_drop_def same_data_def Let_def)
  next
    case False
    let ?sm = "sm\<lparr>sm_dropped := sm_dropped sm + 1\<rparr>"
    have "chans_ok ?sm" by (rule chans_frame [OF assms(1)]) simp_all
    with i False show thesis by (intro that [of ?sm]) (simp_all add: send_or_drop_def same_data_def Let_def)
  qed
qed

lemma notify_ok:
  assumes "chans_ok sm" "set is \<subseteq> set (map snd (sm_subscribers sm))"
  shows "\<exists>sm'. notify_all e is sm = Some sm' \<and> chans_ok sm' \<and> same_data sm sm' \<and> sm_subscribers sm' = sm_subscribers sm"
  using assms
proof (induction "is" arbitrary: sm)
  case Nil
  then show ?case by (simp add: same_data_def)
next
  case (Cons i "is")
  from Cons.prems obtain sm1 where s: "send_or_drop e i sm = Some sm1" "chans_ok sm1" "same_data sm sm1"
      "sm_subscribers sm1 = sm_subscribers sm"
    by (metis list.set_intros(1) send_ok subset_iff)
  with Cons.IH [of sm1] Cons.prems(2) obtain sm2 where
      "notify_all e is sm1 = Some sm2" "chans_ok sm2" "same_data sm1 sm2" "sm_subscribers sm2 = sm_subscribers sm1"
    by auto
  with s show ?case by (auto intro: same_data_trans)
qed

lemma close_ok:
  assumes "chans_ok sm" "map_of (sm_subscribers sm) a = Some i"
  shows "\<exists>sm'. close_channel i sm = Some sm' \<and> same_data sm sm' \<and> sm_subscribers sm' = sm_subscribers sm \<and>
    length (sm_channels sm') = length (sm_channels sm) \<and>
    chans_ok (sm'\<lparr>sm_subscribers := AList.delete a (sm_subscribers sm)\<rparr>)"
proof -
  let ?c = "sm_channels sm ! i"
  have m: "(a, i) \<in> set (sm_subscribers sm)" using map_of_SomeD [OF assms(2)] .
  then have i: "i < length (sm_channels sm)" "\<not> ch_closed ?c" using assms(1) by (auto simp: chans_ok_def)
  let ?sm = "sm\<lparr>sm_channels := (sm_channels sm)[i := ?c\<lparr>ch_closed := True\<rparr>]\<rparr>"
  let ?ss = "AList.delete a (sm_subscribers sm)"
  have d: "distinct (map fst (sm_subscribers sm))" "distinct (map snd (sm_subscribers sm))"
    using assms(1) by (auto simp: chans_ok_def)
  have ni: "i \<notin> set (map snd ?ss)"
  proof
    assume "i \<in> set (map snd ?ss)"
    then obtain b where "(b, i) \<in> set (sm_subscribers sm)" "b \<noteq> a" by (auto simp: AList.delete_eq)
    with m d(2) show False by (metis distinct_map inj_onD prod.inject snd_conv)
  qed
  have "distinct (map snd ?ss)" using d(2) by (simp add: AList.delete_eq distinct_map_filter)
  moreover have "distinct (map fst ?ss)" using d(1) by (simp add: AList.distinct_delete)
  moreover have "\<forall>j\<in>set (map snd ?ss). j < length (sm_channels ?sm) \<and> \<not> ch_closed (sm_channels ?sm ! j)"
  proof
    fix j assume j: "j \<in> set (map snd ?ss)"
    then have "j \<noteq> i" "j \<in> set (map snd (sm_subscribers sm))" using ni by (auto simp: AList.delete_eq)
    with assms(1) show "j < length (sm_channels ?sm) \<and> \<not> ch_closed (sm_channels ?sm ! j)" by (auto simp: chans_ok_def)
  qed
  moreover have "\<forall>c\<in>set (sm_channels ?sm). length (ch_buffer c) \<le> channel_capacity"
    using assms(1) i by (auto simp: chans_ok_def dest!: set_update_subset_insert [THEN subsetD])
  ultimately have "chans_ok (?sm\<lparr>sm_subscribers := ?ss\<rparr>)" by (simp add: chans_ok_def)
  with i show ?thesis by (simp add: close_channel_def same_data_def Let_def)
qed

lemma chans_buffers: "chans_ok sm \<Longrightarrow> c \<in> set (sm_channels sm) \<Longrightarrow> length (ch_buffer c) \<le> channel_capacity"
  by (simp add: chans_ok_def)

lemma update_values:
  "distinct (map fst xs) \<Longrightarrow> set (AList.update k v xs) = insert (k, v) (set (AList.delete k xs))"
  "distinct (map fst xs) \<Longrightarrow> distinct (map snd (AList.delete k xs)) \<Longrightarrow> v \<notin> snd ` set (AList.delete k xs) \<Longrightarrow>
   distinct (map snd (AList.update k v xs))"
proof -
  have gone: "k \<notin> fst ` set xs \<Longrightarrow> AList.delete k xs = xs" for xs :: "('a \<times> 'b) list"
    by (force simp: AList.delete_eq filter_id_conv)
  show s: "distinct (map fst xs) \<Longrightarrow> set (AList.update k v xs) = insert (k, v) (set (AList.delete k xs))" for xs
    by (induction xs) (auto simp: gone)
  show "distinct (map fst xs) \<Longrightarrow> distinct (map snd (AList.delete k xs)) \<Longrightarrow> v \<notin> snd ` set (AList.delete k xs) \<Longrightarrow>
   distinct (map snd (AList.update k v xs))"
    by (induction xs) (force simp: gone s)+
qed

lemma subscribe_ok:
  assumes "chans_ok sm"
  shows "\<exists>i sm'. Memory_Subscribe a sm = Some (i, sm') \<and> chans_ok sm' \<and> same_data sm sm'"
proof -
  have new: "chans_ok (s\<lparr>sm_subscribers := AList.update a (length (sm_channels s)) (sm_subscribers s),
                     sm_channels := sm_channels s @ [\<lparr>ch_buffer = [], ch_closed = False\<rparr>]\<rparr>)"
    if "chans_ok (s\<lparr>sm_subscribers := AList.delete a (sm_subscribers s)\<rparr>)"
       "distinct (map fst (sm_subscribers s))" for s
  proof -
    let ?n = "length (sm_channels s)" and ?d = "AList.delete a (sm_subscribers s)"
    have old: "\<forall>i\<in>set (map snd ?d). i < ?n \<and> \<not> ch_closed (sm_channels s ! i)" "distinct (map snd ?d)"
      using that(1) by (auto simp: chans_ok_def)
    then have "?n \<notin> snd ` set ?d" by auto
    then have "distinct (map snd (AList.update a ?n (sm_subscribers s)))"
      by (rule update_values(2) [OF that(2) old(2)])
    moreover have "\<forall>i\<in>set (map snd (AList.update a ?n (sm_subscribers s))).
        i < Suc ?n \<and> \<not> ch_closed ((sm_channels s @ [\<lparr>ch_buffer = [], ch_closed = False\<rparr>]) ! i)"
      using old(1) by (auto simp: update_values(1) [OF that(2)] nth_append)
    ultimately show ?thesis
      using that by (simp add: chans_ok_def AList.distinct_update)
  qed
  show ?thesis
  proof (cases "map_of (sm_subscribers sm) a")
    case None
    then have "AList.delete a (sm_subscribers sm) = sm_subscribers sm"
      by (force simp: AList.delete_eq filter_id_conv map_of_eq_None_iff)
    then show ?thesis using new [of sm] assms by (simp add: Memory_Subscribe_def None same_data_def chans_ok_def)
  next
    case (Some i)
    from close_ok [OF assms Some] obtain s where c: "close_channel i sm = Some s" "same_data sm s"
        "sm_subscribers s = sm_subscribers sm" "chans_ok (s\<lparr>sm_subscribers := AList.delete a (sm_subscribers s)\<rparr>)"
      by auto
    moreover have "distinct (map fst (sm_subscribers s))" using assms c(3) by (simp add: chans_ok_def)
    ultimately show ?thesis using new [of s] by (simp add: Memory_Subscribe_def Some same_data_def)
  qed
qed

lemma unsubscribe_ok:
  assumes "chans_ok sm"
  shows "\<exists>sm'. Memory_Unsubscribe a sm = Some sm' \<and> chans_ok sm' \<and> same_data sm sm'"
proof (cases "map_of (sm_subscribers sm) a")
  case None
  with assms show ?thesis by (simp add: Memory_Unsubscribe_def same_data_def)
next
  case (Some i)
  from close_ok [OF assms Some] obtain sm' where c: "close_channel i sm = Some sm'" "same_data sm sm'"
      "chans_ok (sm'\<lparr>sm_subscribers := AList.delete a (sm_subscribers sm)\<rparr>)" by blast
  then have "close_channel i (sm\<lparr>sm_subscribers := AList.delete a (sm_subscribers sm)\<rparr>) =
      Some (sm'\<lparr>sm_subscribers := AList.delete a (sm_subscribers sm)\<rparr>)"
    by (auto simp: close_channel_def Let_def split: if_splits)
  with c show ?thesis by (simp add: Memory_Unsubscribe_def Some same_data_def)
qed

lemma receive_ok:
  assumes "chans_ok sm" "i < length (sm_channels sm)"
  shows "chans_ok (snd (receive i sm)) \<and> same_data sm (snd (receive i sm))"
proof (cases "ch_buffer (sm_channels sm ! i)")
  case Nil
  with assms show ?thesis by (simp add: receive_def same_data_def)
next
  case (Cons e es)
  let ?c = "(sm_channels sm ! i)\<lparr>ch_buffer := es\<rparr>"
  have "length (ch_buffer (sm_channels sm ! i)) \<le> channel_capacity" using assms by (simp add: chans_ok_def)
  then have "\<forall>c\<in>set ((sm_channels sm)[i := ?c]). length (ch_buffer c) \<le> channel_capacity"
    using assms(1) Cons by (auto simp: chans_ok_def dest!: set_update_subset_insert [THEN subsetD])
  then have "chans_ok (sm\<lparr>sm_channels := (sm_channels sm)[i := ?c]\<rparr>)"
    using assms by (auto simp: chans_ok_def nth_list_update)
  with Cons show ?thesis by (simp add: receive_def same_data_def)
qed

subsection \<open>Frames: the data operations leave the channels alone\<close>

definition same_chans :: "shared_memory \<Rightarrow> shared_memory \<Rightarrow> bool" where
  "same_chans sm sm' \<longleftrightarrow> sm_subscribers sm' = sm_subscribers sm \<and> sm_channels sm' = sm_channels sm"

lemma same_chans_ok: "same_chans sm sm' \<Longrightarrow> chans_ok sm \<Longrightarrow> chans_ok sm'"
  by (simp add: same_chans_def chans_ok_def)

lemma same_chans_trans [trans]: "same_chans a b \<Longrightarrow> same_chans b c \<Longrightarrow> same_chans a c"
  by (simp add: same_chans_def)

lemma drop_all_chans: "same_chans sm (foldl (\<lambda>sm k. drop_entry k sm) sm ks)"
  by (induction ks arbitrary: sm) (simp_all add: same_chans_def)

lemma cleanup_chans: "same_chans sm (snd (cleanupExpired now sm))"
  by (simp add: cleanupExpired_def Let_def drop_all_chans)

lemma remove_oldest_loop_chans: "same_chans sm (remove_oldest_loop n es sm)"
  by (induction n es sm rule: remove_oldest_loop.induct) (simp_all add: Let_def same_chans_def)

lemma removeOldest_chans: "same_chans sm (removeOldest order n sm)"
  by (simp add: removeOldest_def remove_oldest_loop_chans)

lemma make_room_chans: "same_chans sm (make_room order now sm)"
  using cleanup_chans [of sm now] removeOldest_chans [of "snd (cleanupExpired now sm)"]
  by (simp add: make_room_def Let_def same_chans_def)

lemma store_entry_chans: "same_chans sm (snd (store_entry now k v ty source ttl sm))"
  by (auto simp: store_entry_def Let_def same_chans_def split: option.splits)

lemma restore_entry_chans: "same_chans sm (restore_entry e sm)"
  by (auto simp: restore_entry_def put_entry_def Let_def same_chans_def split: option.splits)

lemma restore_loop_chans: "restore_loop now xs sm = (n, sm') \<Longrightarrow> same_chans sm sm'"
proof (induction now xs sm arbitrary: n sm' rule: restore_loop.induct)
  case (1 now sm)
  then show ?case by (simp add: same_chans_def)
next
  case (2 now ck source xs sm)
  then show ?case
    by (auto split: option.splits prod.splits intro: same_chans_trans [OF restore_entry_chans])
qed

lemma restoreEntries_chans: "restoreEntries order now snapshot sm = (n, sm') \<Longrightarrow> same_chans sm sm'"
  using restore_loop_chans [of now snapshot sm] cleanup_chans removeOldest_chans
  by (auto simp: restoreEntries_def Let_def same_chans_def split: if_splits prod.splits)

subsection \<open>Writing\<close>

lemma make_room_forgets:
  assumes "mem_index_ok sm" "length (sm_entries sm) \<le> MaxSharedEntries" "is_order order"
    and "map_of (sm_entries (make_room order now sm)) j \<noteq> map_of (sm_entries sm) j"
  shows "length (sm_entries sm) = 500 \<and> map_of (sm_entries (make_room order now sm)) j = None \<and>
    (\<exists>e. map_of (sm_entries sm) j = Some e \<and> (Entry_IsExpired now e \<or>
       (\<forall>i e'. map_of (sm_entries (make_room order now sm)) i = Some e' \<longrightarrow> se_timestamp e \<le> se_timestamp e')))"
proof -
  let ?c = "snd (cleanupExpired now sm)" and ?r = "make_room order now sm"
  have "\<not> length (sm_entries sm) < MaxSharedEntries" using assms(4) unfolding make_room_def by (simp split: if_splits)
  with assms(2) have full: "length (sm_entries sm) = 500" by (simp add: MaxSharedEntries_def)
  have cl: "map_of (sm_entries ?c) j =
      (case map_of (sm_entries sm) j of None \<Rightarrow> None | Some e \<Rightarrow> if Entry_IsExpired now e then None else Some e)"
    by (rule cleanup_lookup [OF assms(1)])
  have r: "?r = (if length (sm_entries ?c) < MaxSharedEntries then ?c else removeOldest order (MaxSharedEntries div 4) ?c)"
    using full by (simp add: make_room_def Let_def MaxSharedEntries_def)
  have lr: "map_of (sm_entries ?r) j = None \<or> map_of (sm_entries ?r) j = map_of (sm_entries ?c) j"
    by (simp add: r removeOldest_entries map_of_filter_keys)
  with cl assms(4) obtain e where e: "map_of (sm_entries sm) j = Some e"
    by (cases "map_of (sm_entries sm) j") auto
  show ?thesis
  proof (cases "Entry_IsExpired now e")
    case True
    with lr cl e full show ?thesis by auto
  next
    case False
    with cl e lr assms(4) have c: "map_of (sm_entries ?c) j = Some e" "map_of (sm_entries ?r) j = None" by auto
    then have big: "?r = removeOldest order (MaxSharedEntries div 4) ?c" unfolding r by (simp split: if_splits)
    have "j \<in> picked order (MaxSharedEntries div 4) ?c"
      using c by (simp add: big removeOldest_entries map_of_filter_keys split: if_splits)
    then have "\<forall>i e'. map_of (sm_entries ?r) i = Some e' \<longrightarrow> se_timestamp e \<le> se_timestamp e'"
      using removeOldest_oldest [OF assms(3) cleanup_ok [OF assms(1)] c(1)] unfolding big by blast
    with full c e show ?thesis by blast
  qed
qed

lemma write_phases:
  assumes "mem_index_ok sm" "chans_ok sm"
  obtains e sm1 sm2 where "store_entry now k v ty source ttl (make_room order now sm) = (e, sm1)"
    "WriteWithTTL order now k v ty source ttl sm = Some sm2" "sets_entry e (make_room order now sm) sm1"
    "mem_index_ok sm2" "chans_ok sm2" "same_data sm1 sm2" "se_key e = k"
proof -
  let ?r = "make_room order now sm"
  obtain e sm1 where s: "store_entry now k v ty source ttl ?r = (e, sm1)" by fastforce
  have r: "mem_index_ok ?r" by (rule make_room_ok [OF assms(1)])
  from store_entry_sets [OF r s] have st: "sets_entry e ?r sm1" "se_key e = k" by auto
  have "chans_ok sm1"
    using same_chans_ok [OF same_chans_trans [OF make_room_chans store_entry_chans] assms(2)] s by (metis snd_conv)
  from notify_ok [OF this order.refl] obtain sm2
    where n: "notify_all e (map snd (sm_subscribers sm1)) sm1 = Some sm2" "chans_ok sm2" "same_data sm1 sm2" by auto
  show thesis
    by (rule that [OF s _ st(1) same_data_ok [OF n(3) sets_entry_ok [OF r st(1)]] n(2,3) st(2)])
      (simp add: WriteWithTTL_def s n(1))
qed

definition mem_ok :: "shared_memory \<Rightarrow> bool" where
  "mem_ok sm \<longleftrightarrow> mem_index_ok sm \<and> length (sm_entries sm) \<le> MaxSharedEntries \<and> chans_ok sm"

lemma write_ok:
  assumes "is_order order" "mem_ok sm"
  shows "\<exists>sm'. WriteWithTTL order now k v ty source ttl sm = Some sm' \<and> mem_ok sm'"
proof -
  have ok: "mem_index_ok sm" "length (sm_entries sm) \<le> MaxSharedEntries" "chans_ok sm" using assms(2) by (auto simp: mem_ok_def)
  obtain e sm1 sm2 where w: "WriteWithTTL order now k v ty source ttl sm = Some sm2"
      "sets_entry e (make_room order now sm) sm1" "mem_index_ok sm2" "chans_ok sm2" "same_data sm1 sm2"
    using write_phases [OF ok(1,3)] by metis
  have "length (sm_entries sm2) \<le> Suc (length (sm_entries (make_room order now sm)))"
    using w(2,5) by (simp add: sets_entry_def same_data_def length_update_le)
  with make_room_length [OF assms(1) ok(1,2), of now] have "length (sm_entries sm2) \<le> MaxSharedEntries" by linarith
  with w show ?thesis by (auto simp: mem_ok_def)
qed

subsection \<open>Runs\<close>

datatype mem_op =
    OpWriteEntry range_order gotime string shared_value string string duration
  | OpSaveSnapshot range_order gotime "context_snapshot option" string
  | OpDeleteEntry string
  | OpCleanup gotime
  | OpClearAll
  | OpRestore range_order gotime "(string \<times> shared_entry option) list"
  | OpSubscribe string
  | OpUnsubscribe string
  | OpReceive nat

fun mem_exec :: "mem_op \<Rightarrow> shared_memory \<Rightarrow> shared_memory option" where
  "mem_exec (OpWriteEntry order now k v ty src ttl) sm = WriteWithTTL order now k v ty src ttl sm"
| "mem_exec (OpSaveSnapshot order now s src) sm = SaveContextSnapshot order now s src sm"
| "mem_exec (OpDeleteEntry k) sm = Some (snd (Memory_Delete k sm))"
| "mem_exec (OpCleanup now) sm = Some (snd (cleanupExpired now sm))"
| "mem_exec OpClearAll sm = Some (Memory_Clear sm)"
| "mem_exec (OpRestore order now snapshot) sm = Some (snd (restoreEntries order now snapshot sm))"
| "mem_exec (OpSubscribe a) sm = map_option snd (Memory_Subscribe a sm)"
| "mem_exec (OpUnsubscribe a) sm = Memory_Unsubscribe a sm"
| "mem_exec (OpReceive i) sm = Some (if i < length (sm_channels sm) then snd (receive i sm) else sm)"

fun mem_run :: "mem_op list \<Rightarrow> shared_memory \<Rightarrow> shared_memory option" where
  "mem_run [] sm = Some sm"
| "mem_run (a # as) sm = Option.bind (mem_exec a sm) (mem_run as)"

fun orders_ok :: "mem_op \<Rightarrow> bool" where
  "orders_ok (OpWriteEntry order now k v ty src ttl) = is_order order"
| "orders_ok (OpSaveSnapshot order now s src) = is_order order"
| "orders_ok (OpRestore order now snapshot) = is_order order"
| "orders_ok a = True"

lemma restore_bounded:
  assumes "is_order order" "mem_ok sm" "restoreEntries order now snapshot sm = (n, sm')"
  shows "length (sm_entries sm') \<le> MaxSharedEntries"
proof (cases "snapshot = []")
  case True
  with assms(2,3) show ?thesis by (simp add: restoreEntries_def mem_ok_def)
next
  case False
  obtain m sm1 where l: "restore_loop now snapshot sm = (m, sm1)" by fastforce
  have "mem_index_ok sm" using assms(2) by (simp add: mem_ok_def)
  then have "mem_index_ok (snd (cleanupExpired now sm1))" using cleanup_ok restore_loop_ok l by blast
  from removeOldest_length [OF assms(1) this] assms(3) l False show ?thesis
    by (auto simp: restoreEntries_def Let_def split: if_splits)
qed

lemma drop_entry_length: "length (sm_entries (drop_entry k sm)) \<le> length (sm_entries sm)"
  by (simp add: drop_entry_entries AList.delete_eq)

lemma mem_exec_ok:
  assumes "orders_ok a" "mem_ok sm"
  shows "\<exists>sm'. mem_exec a sm = Some sm' \<and> mem_ok sm'"
proof -
  have ok: "mem_index_ok sm" "length (sm_entries sm) \<le> MaxSharedEntries" "chans_ok sm" using assms(2) by (auto simp: mem_ok_def)
  have same: "mem_ok sm'" if "chans_ok sm'" "same_data sm sm'" for sm'
    using that ok same_data_ok [OF that(2)] by (simp add: mem_ok_def same_data_def)
  show ?thesis
  proof (cases a)
    case (OpWriteEntry order now k v ty src ttl)
    with assms write_ok show ?thesis by simp
  next
    case (OpSaveSnapshot order now s src)
    with assms write_ok show ?thesis by (cases s) (simp_all add: SaveContextSnapshot_def Memory_Write_def)
  next
    case (OpDeleteEntry k)
    then show ?thesis
      using drop_entry_ok [OF ok(1), of k] drop_entry_length [of k sm] ok chans_frame [OF ok(3), of "drop_entry k sm"]
      by (simp add: Memory_Delete_def mem_ok_def)
  next
    case (OpCleanup now)
    have "length (sm_entries (snd (cleanupExpired now sm))) \<le> length (sm_entries sm)"
      by (simp add: cleanupExpired_def Let_def drop_all_entries)
    with OpCleanup show ?thesis
      using cleanup_ok [OF ok(1)] ok(2) same_chans_ok [OF cleanup_chans ok(3)] by (simp add: mem_ok_def)
  next
    case OpClearAll
    then show ?thesis
      using clear_ok [of sm] chans_frame [OF ok(3), of "Memory_Clear sm"] by (simp add: mem_ok_def Memory_Clear_def)
  next
    case (OpRestore order now snapshot)
    obtain n sm' where r: "restoreEntries order now snapshot sm = (n, sm')" by fastforce
    with OpRestore assms show ?thesis
      using restoreEntries_ok [OF ok(1) r] restore_bounded [OF _ assms(2) r] same_chans_ok [OF restoreEntries_chans [OF r] ok(3)]
      by (simp add: mem_ok_def)
  next
    case (OpSubscribe x)
    with subscribe_ok [OF ok(3), of x] same show ?thesis by auto
  next
    case (OpUnsubscribe x)
    with unsubscribe_ok [OF ok(3), of x] same show ?thesis by auto
  next
    case (OpReceive i)
    with receive_ok [OF ok(3), of i] same assms(2) show ?thesis by simp
  qed
qed

lemma mem_run_ok: "\<forall>a\<in>set ops. orders_ok a \<Longrightarrow> mem_ok sm \<Longrightarrow> \<exists>sm'. mem_run ops sm = Some sm' \<and> mem_ok sm'"
proof (induction ops arbitrary: sm)
  case (Cons a ops)
  then obtain sm1 where "mem_exec a sm = Some sm1" "mem_ok sm1" using mem_exec_ok [of a sm] by auto
  with Cons show ?case by auto
qed simp

lemma new_mem_ok: "mem_ok NewSharedMemory"
  using new_memory_ok by (simp add: mem_ok_def) (simp add: chans_ok_def NewSharedMemory_def)

text \<open>
  C23: The shared memory is well formed in every run. Whatever agents write, delete, restore and subscribe
  to, no operation panics: no entry is sent on a closed channel and no channel is closed twice. The index
  by type lists each key exactly under the type of its entry, an entry carries its key, there are at most
  500 entries, and no channel holds more than 100.
\<close>
theorem shared_memory_well_formed:
  assumes "\<forall>a\<in>set ops. orders_ok a"
  shows "\<exists>sm. mem_run ops NewSharedMemory = Some sm \<and> mem_index_ok sm \<and> length (sm_entries sm) \<le> 500 \<and>
    (\<forall>c\<in>set (sm_channels sm). length (ch_buffer c) \<le> 100)"
proof -
  from mem_run_ok [OF assms new_mem_ok] obtain sm where "mem_run ops NewSharedMemory = Some sm" "mem_ok sm" by blast
  then show ?thesis by (auto simp: mem_ok_def MaxSharedEntries_def chans_ok_def channel_capacity_def)
qed

definition sample_mem_ops :: "mem_op list" where
  "sample_mem_ops =
     [OpSubscribe ''a'', OpWriteEntry id 1 ''k'' (JSONValue ''1'') ''fact'' ''b'' 0, OpSubscribe ''a'',
      OpWriteEntry id 2 ''k'' (JSONValue ''2'') ''decision'' ''b'' 0, OpUnsubscribe ''a'', OpUnsubscribe ''a'']"

lemma shared_memory_well_formed_witness:
  "\<exists>sm. mem_run sample_mem_ops NewSharedMemory = Some sm \<and> mem_index_ok sm \<and> keys_of_type sm ''fact'' = [] \<and>
     keys_of_type sm ''decision'' = [''k''] \<and> map ch_closed (sm_channels sm) = [True, True]"
proof -
  have "\<forall>a\<in>set sample_mem_ops. orders_ok a" by (simp add: sample_mem_ops_def is_order_def)
  from shared_memory_well_formed [OF this] obtain sm where sm: "mem_run sample_mem_ops NewSharedMemory = Some sm" "mem_index_ok sm"
    by auto
  moreover have "map_option (\<lambda>sm. (keys_of_type sm ''fact'', keys_of_type sm ''decision'', map ch_closed (sm_channels sm)))
      (mem_run sample_mem_ops NewSharedMemory) = Some ([], [''k''], [True, True])"
    by code_simp
  ultimately show ?thesis by auto
qed

text \<open>
   Writing. What is written is read back under its key until it expires. Another key keeps its entry
  unless the memory was full, holding 500 entries: then an entry that is gone had expired, or none of the
  entries that stay, the written one aside, is older. A memory that is not full forgets nothing.
\<close>
theorem write_forgets_only_oldest:
  assumes "mem_ok sm" "is_order order" "WriteWithTTL order now k v ty source ttl sm = Some sm'" "0 \<le> ttl"
  shows "(\<exists>e. Memory_Read now k sm' = Some e \<and> se_value e = v \<and> se_type e = ty \<and> se_source e = source) \<and>
    (j \<noteq> k \<and> map_of (sm_entries sm') j \<noteq> map_of (sm_entries sm) j \<longrightarrow>
       length (sm_entries sm) = 500 \<and> map_of (sm_entries sm') j = None \<and>
       (\<exists>e. map_of (sm_entries sm) j = Some e \<and>
          (Entry_IsExpired now e \<or>
           (\<forall>i e'. i \<noteq> k \<and> map_of (sm_entries sm') i = Some e' \<longrightarrow> se_timestamp e \<le> se_timestamp e'))))"
proof -
  have ok: "mem_index_ok sm" "length (sm_entries sm) \<le> MaxSharedEntries" "chans_ok sm" using assms(1) by (auto simp: mem_ok_def)
  let ?r = "make_room order now sm"
  obtain e sm1 where s: "store_entry now k v ty source ttl ?r = (e, sm1)" and sd: "same_data sm1 sm'"
    and st: "sets_entry e ?r sm1"
    using write_phases [OF ok(1,3), where order = order and now = now and k = k and v = v and ty = ty and source = source and ttl = ttl]
      assms(3) by (metis option.inject)
  from store_entry_sets [OF make_room_ok [OF ok(1)] s]
  have e: "se_key e = k" "se_type e = ty" "se_value e = v" "se_source e = source" "se_timestamp e = now" "se_ttl e = ttl" by auto
  have look: "map_of (sm_entries sm') i = (if i = k then Some e else map_of (sm_entries ?r) i)" for i
    using st sd by (simp add: sets_entry_def same_data_def e(1) AList.update_conv')
  have "\<not> Entry_IsExpired now e" using assms(4) by (simp add: Entry_IsExpired_def e)
  then have "Memory_Read now k sm' = Some e" by (simp add: Memory_Read_def look)
  moreover have "length (sm_entries sm) = 500 \<and> map_of (sm_entries ?r) j = None \<and>
       (\<exists>e. map_of (sm_entries sm) j = Some e \<and> (Entry_IsExpired now e \<or>
           (\<forall>i e'. map_of (sm_entries ?r) i = Some e' \<longrightarrow> se_timestamp e \<le> se_timestamp e')))"
    if "map_of (sm_entries ?r) j \<noteq> map_of (sm_entries sm) j"
    using make_room_forgets [OF ok(1,2) assms(2) that] .
  ultimately show ?thesis using e by (auto simp: look)
qed



lemma write_forgets_only_oldest_witness:
  "\<exists>sm'. WriteWithTTL id 1 ''k'' (JSONValue ''1'') ''fact'' ''b'' 0 NewSharedMemory = Some sm' \<and>
     (\<exists>e. Memory_Read 1 ''k'' sm' = Some e \<and> se_value e = JSONValue ''1'' \<and> se_type e = ''fact'')"
proof -
  have o: "is_order id" by (simp add: is_order_def)
  from write_ok [OF o new_mem_ok] obtain sm'
    where w: "WriteWithTTL id 1 ''k'' (JSONValue ''1'') ''fact'' ''b'' 0 NewSharedMemory = Some sm'" by blast
  from write_forgets_only_oldest [OF new_mem_ok o w, where j = "''j''"] w show ?thesis by auto
qed

text \<open>
  Room is made before the key is looked up: an update of an entry that is already there makes a full memory
  drop 125 entries, possibly the updated one, whose version starts again.
\<close>

lemma update_of_full_memory:
  assumes "mem_ok sm" "is_order order" "length (sm_entries sm) = 500" "\<forall>(k, e)\<in>set (sm_entries sm). \<not> Entry_IsExpired now e"
    and "WriteWithTTL order now k v ty source ttl sm = Some sm'"
  shows "length (sm_entries sm') \<le> 376"
proof -
  have ok: "mem_index_ok sm" "chans_ok sm" using assms(1) by (auto simp: mem_ok_def)
  obtain e sm1 where sd: "same_data sm1 sm'" and st: "sets_entry e (make_room order now sm) sm1"
    using write_phases [OF ok, where order = order and now = now and k = k and v = v and ty = ty and source = source and ttl = ttl]
      assms(5) by (metis option.inject)
  have "filter (\<lambda>(k, e). Entry_IsExpired now e) (sm_entries sm) = []" using assms(4) by (auto simp: filter_empty_conv)
  then have "snd (cleanupExpired now sm) = sm" by (simp add: cleanupExpired_def)
  then have "length (sm_entries (make_room order now sm)) = 375"
    using assms(3) by (simp add: make_room_def MaxSharedEntries_def removeOldest_length [OF assms(2) ok(1)])
  then show ?thesis using st sd length_update_le [of "se_key e" e "sm_entries (make_room order now sm)"]
    by (simp add: sets_entry_def same_data_def)
qed

end
