(* ===== verification/Utf8.thy ===== *)
theory Utf8
  imports Prelude
begin

section \<open>Text in UTF-8\<close>

text \<open>
  Strings are sequences of bytes, as Go's are. Here are the functions of \<^verbatim>\<open>unicode/utf8\<close> that the studio
  uses, the conversion to runes, \<open>truncateUTF8\<close> (\<^verbatim>\<open>internal/studio/drafts.go\<close>) and the check of texts that
  come from the bridge (\<^verbatim>\<open>internal/studio/rpc_limits.go\<close>).
\<close>

subsection \<open>Runes\<close>

definition byte :: "char \<Rightarrow> nat" where
  "byte c = of_char c"

definition between :: "nat \<Rightarrow> char \<Rightarrow> nat \<Rightarrow> bool" where
  "between lo c hi \<longleftrightarrow> lo \<le> byte c \<and> byte c \<le> hi"

text \<open>\<open>utf8.RuneStart\<close>.\<close>

definition rune_start :: "char \<Rightarrow> bool" where
  "rune_start c \<longleftrightarrow> \<not> (128 \<le> byte c \<and> byte c < 192)"

text \<open>
  The length of a rune is in its first byte, 0 when no rune starts with it; the second byte excludes
  overlong forms, surrogates and what lies beyond U+10FFFF.
\<close>

definition rune_need :: "char \<Rightarrow> nat" where
  "rune_need a =
     (if byte a < 128 then 1 else if between 194 a 223 then 2 else if between 224 a 239 then 3
      else if between 240 a 244 then 4 else 0)"

definition second_ok :: "char \<Rightarrow> char \<Rightarrow> bool" where
  "second_ok a b \<longleftrightarrow>
     between (if byte a = 224 then 160 else if byte a = 240 then 144 else 128) b
       (if byte a = 237 then 159 else if byte a = 244 then 143 else 191)"

lemma second_cont: "second_ok a b \<Longrightarrow> between 128 b 191"
  by (auto simp: second_ok_def between_def split: if_splits)

text \<open>\<open>utf8.DecodeRuneInString\<close>: the length of the rune at the start, when there is a valid one.\<close>

definition rune_len :: "string \<Rightarrow> nat option" where
  "rune_len s =
     (if s = [] then None
      else let n = rune_need (s ! 0)
           in if 0 < n \<and> n \<le> length s \<and> (2 \<le> n \<longrightarrow> second_ok (s ! 0) (s ! 1)) \<and> (3 \<le> n \<longrightarrow> between 128 (s ! 2) 191) \<and>
                 (4 \<le> n \<longrightarrow> between 128 (s ! 3) 191)
              then Some n else None)"

lemma rune_need_le: "rune_need a \<le> 4"
  by (simp add: rune_need_def)

lemma rune_len_bounds: "rune_len s = Some n \<Longrightarrow> 0 < n \<and> n \<le> 4 \<and> n \<le> length s"
  using rune_need_le [of "s ! 0"] by (auto simp: rune_len_def Let_def split: if_splits)

definition step_len :: "string \<Rightarrow> nat" where
  "step_len s = (case rune_len s of None \<Rightarrow> 1 | Some n \<Rightarrow> n)"

text \<open>\<open>[]rune(s)\<close>, each rune as its bytes; \<open>string(r)\<close> writes an invalid byte as U+FFFD.\<close>

function runes :: "string \<Rightarrow> string list" where
  "runes s = (if s = [] then [] else take (step_len s) s # runes (drop (step_len s) s))"
  by pat_completeness auto
termination
  by (relation "measure length") (auto simp: step_len_def dest: rune_len_bounds split: option.split)

declare runes.simps [simp del]

definition rune_error :: string where
  "rune_error = [CHR 0xEF, CHR 0xBF, CHR 0xBD]"

definition rune_text :: "string \<Rightarrow> string" where
  "rune_text r = (if rune_len r = None then rune_error else r)"

text \<open>\<open>utf8.ValidString\<close>.\<close>

function valid_utf8 :: "string \<Rightarrow> bool" where
  "valid_utf8 s \<longleftrightarrow> s = [] \<or> (case rune_len s of None \<Rightarrow> False | Some n \<Rightarrow> valid_utf8 (drop n s))"
  by pat_completeness auto
termination
  by (relation "measure length") (auto dest: rune_len_bounds)

declare valid_utf8.simps [simp del]

lemma valid_Nil [simp]: "valid_utf8 []"
  by (simp add: valid_utf8.simps)

subsection \<open>Cutting\<close>

fun cut_back :: "string \<Rightarrow> nat \<Rightarrow> nat" where
  "cut_back s 0 = 0"
| "cut_back s (Suc n) = (if rune_start (s ! Suc n) then Suc n else cut_back s n)"

definition truncateUTF8 :: "string \<Rightarrow> nat \<Rightarrow> string" where
  "truncateUTF8 s maxBytes = (if length s \<le> maxBytes then s else take (cut_back s maxBytes) s)"

lemma cut_back_le: "cut_back s m \<le> m"
  by (induction m) auto

lemma truncateUTF8_length: "length (truncateUTF8 s n) \<le> n"
  using cut_back_le [of s n] by (simp add: truncateUTF8_def min.coboundedI2)

text \<open>In valid text the first byte of a rune starts one and the others do not.\<close>

lemma rune_len_first: "rune_len s = Some n \<Longrightarrow> rune_start (s ! 0)"
  by (auto simp: rune_len_def Let_def rune_need_def rune_start_def between_def split: if_splits)

lemma rune_len_conts:
  assumes "rune_len s = Some n"
  shows "2 \<le> n \<Longrightarrow> between 128 (s ! 1) 191" "3 \<le> n \<Longrightarrow> between 128 (s ! 2) 191" "4 \<le> n \<Longrightarrow> between 128 (s ! 3) 191"
  using assms second_cont by (auto simp: rune_len_def Let_def split: if_splits)

lemma rune_len_rest:
  assumes "rune_len s = Some n" "0 < i" "i < n"
  shows "\<not> rune_start (s ! i)"
proof -
  have "i = 1 \<or> i = 2 \<or> i = 3" using rune_len_bounds [OF assms(1)] assms(2,3) by linarith
  then show ?thesis using rune_len_conts [OF assms(1)] assms(3) by (auto simp: rune_start_def between_def)
qed

lemma rune_len_take: "rune_len s = Some n \<Longrightarrow> n \<le> k \<Longrightarrow> rune_len (take k s) = Some n"
  by (auto simp: rune_len_def Let_def split: if_splits)

lemma valid_first:
  assumes "valid_utf8 s" "s \<noteq> []"
  obtains n where "rune_len s = Some n" "0 < n" "n \<le> length s" "valid_utf8 (drop n s)"
  using assms rune_len_bounds by (subst (asm) valid_utf8.simps) (auto split: option.splits)

lemma valid_split:
  "valid_utf8 s \<Longrightarrow> k < length s \<Longrightarrow> rune_start (s ! k) \<Longrightarrow> valid_utf8 (take k s) \<and> valid_utf8 (drop k s)"
proof (induction "length s" arbitrary: s k rule: less_induct)
  case less
  then have "s \<noteq> []" by auto
  from valid_first [OF less.prems(1) this] obtain n where
    n: "rune_len s = Some n" "0 < n" "n \<le> length s" "valid_utf8 (drop n s)" .
  show ?case
  proof (cases "k = 0")
    case False
    have kn: "n \<le> k" using rune_len_rest [OF n(1), of k] less.prems(3) False by (meson not_gr_zero not_less)
    have "k - n < length (drop n s)" "rune_start (drop n s ! (k - n))" "length (drop n s) < length s"
      using kn n(2,3) less.prems(2,3) by auto
    from less.hyps [OF this(3) n(4) this(1,2)]
    have v: "valid_utf8 (take (k - n) (drop n s))" "valid_utf8 (drop (k - n) (drop n s))" by auto
    have "drop n (take k s) = take (k - n) (drop n s)" by (simp add: drop_take)
    with v(1) rune_len_take [OF n(1) kn] have "valid_utf8 (take k s)" by (subst valid_utf8.simps) simp
    with v(2) kn show ?thesis by simp
  qed (use less.prems(1) in simp)
qed

lemma cut_back_start: "rune_start (s ! 0) \<Longrightarrow> rune_start (s ! cut_back s m)"
  by (induction m) auto

lemma valid_start: "valid_utf8 s \<Longrightarrow> s \<noteq> [] \<Longrightarrow> rune_start (s ! 0)"
  by (erule valid_first) (simp_all add: rune_len_first)

text \<open>Cutting valid text gives valid text.\<close>

lemma truncateUTF8_valid: "valid_utf8 s \<Longrightarrow> valid_utf8 (truncateUTF8 s n)"
proof -
  assume v: "valid_utf8 s"
  show ?thesis
  proof (cases "length s \<le> n")
    case False
    then have "s \<noteq> []" "cut_back s n < length s" using cut_back_le [of s n] by auto
    with valid_split [OF v this(2) cut_back_start [OF valid_start [OF v this(1)]]] False show ?thesis
      by (simp add: truncateUTF8_def)
  qed (use v in \<open>simp add: truncateUTF8_def\<close>)
qed

text \<open>No four bytes in a row are without the start of a rune.\<close>

lemma starts_are_near:
  "valid_utf8 s \<Longrightarrow> k < length s \<Longrightarrow> \<exists>j\<le>k. k < j + 4 \<and> rune_start (s ! j)"
proof (induction "length s" arbitrary: s k rule: less_induct)
  case less
  then have "s \<noteq> []" by auto
  from valid_first [OF less.prems(1) this] obtain n where
    n: "rune_len s = Some n" "0 < n" "n \<le> length s" "valid_utf8 (drop n s)" .
  show ?case
  proof (cases "k < n")
    case True
    with rune_len_bounds [OF n(1)] rune_len_first [OF n(1)] show ?thesis by (intro exI [of _ 0]) auto
  next
    case False
    then have "k - n < length (drop n s)" "length (drop n s) < length s" using n(2,3) less.prems(2) by auto
    from less.hyps [OF this(2) n(4) this(1)] obtain j where "j \<le> k - n" "k - n < j + 4" "rune_start (drop n s ! j)" by blast
    with False n(3) show ?thesis by (intro exI [of _ "n + j"]) auto
  qed
qed

subsection \<open>Texts from the bridge\<close>

definition validateRPCText :: "string \<Rightarrow> nat \<Rightarrow> bool \<Rightarrow> bool" where
  "validateRPCText value maxBytes requireNonBlank \<longleftrightarrow>
     valid_utf8 value \<and> CHR 0x00 \<notin> set value \<and> \<not> (requireNonBlank \<and> trim_space value = []) \<and> length value \<le> maxBytes"

end
