(* ===== verification/DelegationGuard.thy ===== *)
theory DelegationGuard
  imports Utf8
begin

section \<open>The guard on delegation between projects\<close>

text \<open>
  \<^verbatim>\<open>internal/studio/delegation_guard.go\<close>: an agent that works for one project may hand work to another,
  whose agent may do the same. Each turn carries a stamp with the depth and the projects of its chain; the
  guard judges a hop before any approval. A human turn has no stamp.
\<close>

subsection \<open>Stamps\<close>

definition maxDelegationDepth :: int where
  "maxDelegationDepth = 2"

record delegation_stamp =
  st_chain_id :: string
  st_depth :: int
  st_chain :: "string list"

definition stamp_depth :: "delegation_stamp option \<Rightarrow> int" where
  "stamp_depth d = (case d of None \<Rightarrow> 0 | Some s \<Rightarrow> st_depth s)"

definition stamp_chainID :: "delegation_stamp option \<Rightarrow> string" where
  "stamp_chainID d = (case d of None \<Rightarrow> [] | Some s \<Rightarrow> st_chain_id s)"

definition stamp_chain :: "delegation_stamp option \<Rightarrow> string list" where
  "stamp_chain d = (case d of None \<Rightarrow> [] | Some s \<Rightarrow> st_chain s)"

text \<open>The stamp on its way through the context of a tool call, where no stamp is the zero value.\<close>

definition toolContext :: "delegation_stamp option \<Rightarrow> delegation_stamp" where
  "toolContext d = (case d of None \<Rightarrow> \<lparr>st_chain_id = [], st_depth = 0, st_chain = []\<rparr> | Some s \<Rightarrow> s)"

definition stampFromToolContext :: "delegation_stamp \<Rightarrow> delegation_stamp option" where
  "stampFromToolContext v = (if st_chain_id v = [] \<and> st_depth v = 0 \<and> st_chain v = [] then None else Some v)"

definition nextDelegationStamp :: "delegation_stamp option \<Rightarrow> string \<Rightarrow> string \<Rightarrow> string \<Rightarrow> delegation_stamp" where
  "nextDelegationStamp parent chainID origin target =
     (let next0 = (case parent of
                     Some s \<Rightarrow> \<lparr>st_chain_id = st_chain_id s, st_depth = st_depth s + 1, st_chain = st_chain s\<rparr>
                   | None \<Rightarrow> \<lparr>st_chain_id = chainID, st_depth = 1, st_chain = (if origin \<noteq> [] then [origin] else [])\<rparr>);
          next1 = (if st_chain_id next0 = [] then next0\<lparr>st_chain_id := chainID\<rparr> else next0);
          next2 = (if target \<noteq> [] \<and> (st_chain next1 = [] \<or> last (st_chain next1) \<noteq> target)
                   then next1\<lparr>st_chain := st_chain next1 @ [target]\<rparr> else next1)
      in next2\<lparr>st_chain := last_n (nat (maxDelegationDepth + 1)) (st_chain next2)\<rparr>)"

subsection \<open>Hops\<close>

record delegation_hop =
  hop_applies :: bool
  hop_target :: string
  hop_cross :: bool

definition no_hop :: delegation_hop where
  "no_hop = \<lparr>hop_applies = False, hop_target = [], hop_cross = False\<rparr>"

datatype hop_refusal = DepthLimit | Cycle

definition delegationHopAllowed :: "delegation_stamp option \<Rightarrow> string \<Rightarrow> delegation_hop \<Rightarrow> hop_refusal option" where
  "delegationHopAllowed parent origin hop =
     (if \<not> hop_applies hop then None
      else if maxDelegationDepth \<le> stamp_depth parent then Some DepthLimit
      else if \<not> hop_cross hop then None
      else if origin \<noteq> [] \<and> origin = hop_target hop then Some Cycle
      else if hop_target hop \<in> set (stamp_chain parent) then Some Cycle
      else None)"

definition arg_text :: "tool_args \<Rightarrow> string \<Rightarrow> string" where
  "arg_text args k = (case string_arg args k of None \<Rightarrow> [] | Some v \<Rightarrow> v)"

definition delegationHopFor :: "string \<Rightarrow> tool_args \<Rightarrow> string \<Rightarrow> delegation_hop" where
  "delegationHopFor tool args origin =
     (let action = to_lower (trim_space (arg_text args ''action'')); target = trim_space (arg_text args ''project_id'')
      in if tool = ''session_agent'' then
           if action \<noteq> ''send'' then no_hop
           else if target = [] \<or> target = origin then \<lparr>hop_applies = True, hop_target = origin, hop_cross = False\<rparr>
           else \<lparr>hop_applies = True, hop_target = target, hop_cross = True\<rparr>
         else if tool = ''delegate'' then
           if action \<in> {''ask'', ''run'', ''batch''}
           then \<lparr>hop_applies = True, hop_target = target, hop_cross = (target \<noteq> [] \<and> target \<noteq> origin)\<rparr>
           else no_hop
         else no_hop)"

definition delegationHopGuard :: "string \<Rightarrow> tool_args \<Rightarrow> delegation_stamp option \<Rightarrow> string \<Rightarrow> hop_refusal option" where
  "delegationHopGuard tool args parent origin = delegationHopAllowed parent origin (delegationHopFor tool args origin)"

text \<open>What a turn remembers of blocked calls, and which tools change the workspace.\<close>

definition maxRecordedDeniedTools :: nat where
  "maxRecordedDeniedTools = 10"

definition recordDeniedTool :: "string \<Rightarrow> string list \<Rightarrow> string list" where
  "recordDeniedTool name denied =
     (if name = [] \<or> name \<in> set denied \<or> maxRecordedDeniedTools \<le> length denied then denied
      else denied @ [truncateUTF8 name 100])"

definition toolMutatesWorkspace :: "string \<Rightarrow> bool" where
  "toolMutatesWorkspace name \<longleftrightarrow>
     name \<in> {''write'', ''edit'', ''atomicwrite'', ''delete'', ''move'', ''copy'', ''mkdir'', ''refactor'', ''document_create'',
             ''batch'', ''bash'', ''git_add'', ''git_commit'', ''git_branch'', ''git_pr'', ''run_tests''}"

lemma stamp_context_roundtrip:
  "stampFromToolContext (toolContext d) = (if d = Some (toolContext None) then None else d)"
  by (auto simp: stampFromToolContext_def toolContext_def split: option.splits)

subsection \<open>Chains of hops\<close>

text \<open>
  A turn is a project with a stamp. The agent of a turn calls a tool; when the call is a hop that the guard
  lets through, a turn starts in the target, with the next stamp.
\<close>

type_synonym turn = "string \<times> delegation_stamp option"

inductive hop_step :: "turn \<Rightarrow> delegation_hop \<Rightarrow> turn \<Rightarrow> bool" where
  hop: "hop = delegationHopFor tool args p \<Longrightarrow> hop_applies hop \<Longrightarrow> delegationHopGuard tool args st p = None \<Longrightarrow>
    q = (if hop_cross hop then hop_target hop else p) \<Longrightarrow>
    hop_step (p, st) hop (q, Some (nextDelegationStamp st chainID p q))"

inductive_cases hop_stepE: "hop_step (p, st) hop t"

inductive hop_run :: "turn \<Rightarrow> delegation_hop list \<Rightarrow> turn \<Rightarrow> bool" where
  hop_start: "hop_run t [] t"
| hop_next: "hop_run t hops u \<Longrightarrow> hop_step u hop v \<Longrightarrow> hop_run t (hops @ [hop]) v"

lemma hop_step_depth:
  assumes "hop_step (p, st) hop (q, st')"
  shows "stamp_depth st < maxDelegationDepth \<and> stamp_depth st' = stamp_depth st + 1"
  using assms
  by (elim hop_stepE)
    (auto simp: delegationHopGuard_def delegationHopAllowed_def nextDelegationStamp_def Let_def stamp_depth_def
       split: if_splits option.splits)

text \<open>The projects that a chain of hops visits, with the one it starts in.\<close>

definition visited :: "string \<Rightarrow> delegation_hop list \<Rightarrow> string list" where
  "visited p hops = p # map hop_target (filter hop_cross hops)"

definition chain_ok :: "string \<Rightarrow> delegation_hop list \<Rightarrow> turn \<Rightarrow> bool" where
  "chain_ok p hops t \<longleftrightarrow>
     distinct (visited p hops) \<and> last (visited p hops) = fst t \<and> [] \<notin> set (visited p hops) \<and>
     stamp_depth (snd t) = int (length hops) \<and> length hops \<le> 2 \<and>
     (case snd t of None \<Rightarrow> hops = [] | Some s \<Rightarrow> st_chain s = visited p hops)"

lemma cross_hop_target:
  "hop_cross (delegationHopFor tool args p) \<Longrightarrow>
   hop_target (delegationHopFor tool args p) \<noteq> [] \<and> hop_target (delegationHopFor tool args p) \<noteq> p"
  by (auto simp: delegationHopFor_def Let_def no_hop_def split: if_splits)

lemma visited_snoc: "visited p (hops @ [hop]) = visited p hops @ (if hop_cross hop then [hop_target hop] else [])"
  by (simp add: visited_def)

lemma visited_length: "length (visited p hops) \<le> Suc (length hops)"
  by (simp add: visited_def)

lemma chain_ok_step:
  assumes "chain_ok p hops (r, st)" "hop_step (r, st) hop t"
  shows "chain_ok p (hops @ [hop]) t"
proof -
  from assms(2) obtain tool args q chainID where h: "hop = delegationHopFor tool args r" "hop_applies hop"
      "delegationHopAllowed st r hop = None" and q: "q = (if hop_cross hop then hop_target hop else r)"
    and t: "t = (q, Some (nextDelegationStamp st chainID r q))"
    by (elim hop_stepE) (auto simp: delegationHopGuard_def)
  let ?V = "visited p hops" and ?V' = "visited p (hops @ [hop])"
  have ok: "distinct ?V" "last ?V = r" "[] \<notin> set ?V" "stamp_depth st = int (length hops)"
      "case st of None \<Rightarrow> hops = [] | Some s \<Rightarrow> st_chain s = ?V"
    using assms(1) by (auto simp: chain_ok_def)
  have n: "length hops < 2" using h(2,3) ok(4) by (auto simp: delegationHopAllowed_def maxDelegationDepth_def split: if_splits)
  have fresh: "hop_cross hop \<Longrightarrow> hop_target hop \<notin> set ?V \<and> hop_target hop \<noteq> []"
    using h ok(5) cross_hop_target [of tool args r] ok(2)
    by (cases st) (auto simp: delegationHopAllowed_def stamp_chain_def visited_def split: if_splits)
  have "?V \<noteq> []" by (simp add: visited_def)
  have V': "distinct ?V'" "last ?V' = q" "[] \<notin> set ?V'"
    using fresh ok(1-3) by (auto simp: visited_snoc q)
  have V: "?V' = (if last ?V \<noteq> q then ?V @ [q] else ?V)"
    using fresh ok(2) \<open>?V \<noteq> []\<close> last_in_set [of ?V] by (auto simp: visited_snoc q)
  have "length ?V' \<le> 3" using visited_length [of p "hops @ [hop]"] n by simp
  then have l: "last_n 3 ?V' = ?V'" by (rule last_n_all)
  have "q \<noteq> []" using V'(2,3) by (metis last_in_set visited_def list.distinct(1))
  have "st_chain (nextDelegationStamp st chainID r q) = last_n 3 (if last ?V \<noteq> q then ?V @ [q] else ?V)"
  proof (cases st)
    case None
    with ok(2,3,5) have "?V = [r]" "r \<noteq> []" by (auto simp: visited_def)
    with None \<open>q \<noteq> []\<close> show ?thesis
      by (simp add: nextDelegationStamp_def Let_def maxDelegationDepth_def)
  next
    case (Some s)
    with ok(5) \<open>?V \<noteq> []\<close> \<open>q \<noteq> []\<close> show ?thesis
      by (simp add: nextDelegationStamp_def Let_def maxDelegationDepth_def)
  qed
  then have "st_chain (nextDelegationStamp st chainID r q) = ?V'" unfolding V [symmetric] l .
  moreover have "stamp_depth (snd t) = int (length (hops @ [hop]))"
    using hop_step_depth [OF assms(2) [unfolded t]] ok(4) t by simp
  ultimately show ?thesis using V' n t by (simp add: chain_ok_def)
qed

lemma chain_ok_run: "hop_run t hops u \<Longrightarrow> t = (p, None) \<Longrightarrow> p \<noteq> [] \<Longrightarrow> chain_ok p hops u"
proof (induction rule: hop_run.induct)
  case (hop_start t)
  then show ?case by (simp add: chain_ok_def visited_def stamp_depth_def)
next
  case (hop_next t hops u hop v)
  then show ?case using chain_ok_step by (metis prod.collapse)
qed


definition ask_args :: "string \<Rightarrow> tool_args" where
  "ask_args q = [(''action'', ArgString ''Ask''), (''project_id'', ArgString q)]"


text \<open>A third hop is refused, and so is a second one that returns.\<close>

lemma third_hop_refused:
  "delegationHopGuard ''delegate'' (ask_args ''c'') (Some \<lparr>st_chain_id = ''x'', st_depth = 2, st_chain = [''a'', ''b'']\<rparr>) ''b'' =
     Some DepthLimit"
  "delegationHopGuard ''delegate'' (ask_args ''a'') (Some \<lparr>st_chain_id = ''x'', st_depth = 1, st_chain = [''a'', ''b'']\<rparr>) ''b'' =
     Some Cycle"
  by code_simp+

end
