(* ===== verification/DelegationRuns.thy ===== *)
theory DelegationRuns
  imports DelegationGuard
begin

section \<open>The durable record of delegations\<close>

text \<open>
  \<^verbatim>\<open>internal/studio/delegation_runs.go\<close>: one row per delegation in a file that is read and written as a
  whole. A row is running or in a final state; old final rows are evicted when the file has too many rows or
  bytes. Each operation is one critical section; \<open>ld\<close> and \<open>sv\<close> say whether reading and writing the file
  work, \<open>json_size\<close> is the length of the rows as JSON.
\<close>

subsection \<open>Rows\<close>

definition maxDelegationRuns :: nat where
  "maxDelegationRuns = 200"

definition maxDelegationRunFile :: nat where
  "maxDelegationRunFile = 4 * 2 ^ 20"

definition maxDelegationAnswerBytes :: nat where
  "maxDelegationAnswerBytes = 16 * 2 ^ 10"

definition maxDelegationTailLines :: nat where
  "maxDelegationTailLines = 20"

definition maxDelegationTailLine :: nat where
  "maxDelegationTailLine = 300"

text \<open>What a run has used; the cost is only copied, and stays as it is printed.\<close>

record run_usage =
  ru_provider :: string
  ru_model :: string
  ru_input_tokens :: int
  ru_output_tokens :: int
  ru_cost :: string

record delegation_run =
  dr_id :: string
  dr_batch_id :: string
  dr_chain_id :: string
  dr_kind :: string
  dr_depth :: int
  dr_chain :: "string list"
  dr_from_project :: string
  dr_from_session :: string
  dr_to_project :: string
  dr_to_session :: string
  dr_group_id :: string
  dr_goal :: string
  dr_task :: string
  dr_status :: string
  dr_answer :: string
  dr_answer_bytes :: nat
  dr_truncated :: bool
  dr_tail :: "string list"
  dr_denied :: "string list"
  dr_mutated :: bool
  dr_error_type :: string
  dr_error :: string
  dr_usage :: run_usage
  dr_legacy :: bool
  dr_started_at :: int
  dr_completed_at :: int

definition delegationRunTerminal :: "string \<Rightarrow> bool" where
  "delegationRunTerminal status \<longleftrightarrow> status \<in> {''completed'', ''stopped'', ''error''}"

definition final :: "delegation_run \<Rightarrow> bool" where
  "final r \<longleftrightarrow> delegationRunTerminal (dr_status r)"

subsection \<open>Retention\<close>

definition dropOldestTerminal :: "delegation_run list \<Rightarrow> (delegation_run \<times> delegation_run list) option" where
  "dropOldestTerminal kept =
     (case dropWhile (\<lambda>r. \<not> final r) (rev kept) of
        [] \<Rightarrow> None
      | r # older \<Rightarrow> Some (r, rev older @ rev (takeWhile (\<lambda>r. \<not> final r) (rev kept))))"

lemma dropOldestTerminal_split:
  assumes "dropOldestTerminal kept = Some (r, kept')"
  shows "\<exists>u v. kept = u @ r # v \<and> kept' = u @ v \<and> final r \<and> (\<forall>x\<in>set v. \<not> final x)"
proof -
  let ?w = "takeWhile (\<lambda>r. \<not> final r) (rev kept)"
  from assms obtain older where d: "dropWhile (\<lambda>r. \<not> final r) (rev kept) = r # older" and k: "kept' = rev older @ rev ?w"
    by (auto simp: dropOldestTerminal_def split: list.splits)
  have "rev kept = ?w @ r # older" using takeWhile_dropWhile_id [of "\<lambda>r. \<not> final r" "rev kept"] d by simp
  then have "kept = rev older @ r # rev ?w" by (metis append.assoc append_Cons append_Nil rev.simps(2) rev_append rev_rev_ident)
  moreover have "final r" using d by (metis dropWhile_eq_Cons_conv)
  moreover have "\<forall>x\<in>set (rev ?w). \<not> final x" using set_takeWhileD [of _ "\<lambda>r. \<not> final r" "rev kept"] by auto
  ultimately show ?thesis using k by blast
qed

lemma dropOldestTerminal_None: "dropOldestTerminal kept = None \<longleftrightarrow> (\<forall>x\<in>set kept. \<not> final x)"
proof (cases "dropWhile (\<lambda>r. \<not> final r) (rev kept)")
  case Nil
  then have "\<forall>x\<in>set kept. \<not> final x" by (simp add: dropWhile_eq_Nil_conv)
  then show ?thesis by (simp add: dropOldestTerminal_def Nil)
next
  case (Cons r older)
  then have "r \<in> set (rev kept)" "final r" by (metis list.set_intros(1) set_dropWhileD, metis dropWhile_eq_Cons_conv)
  then show ?thesis by (auto simp: dropOldestTerminal_def Cons)
qed

function fit_while ::
  "(delegation_run list \<Rightarrow> bool) \<Rightarrow> delegation_run list \<Rightarrow> delegation_run list \<Rightarrow> (delegation_run list \<times> delegation_run list) option" where
  "fit_while over kept evicted =
     (if \<not> over kept then Some (kept, evicted)
      else case dropOldestTerminal kept of None \<Rightarrow> None | Some (r, kept') \<Rightarrow> fit_while over kept' (evicted @ [r]))"
  by pat_completeness auto
termination
  by (relation "measure (\<lambda>(_, kept, _). length kept)") (auto dest!: dropOldestTerminal_split)

declare fit_while.simps [simp del]

definition newest_first :: "delegation_run list \<Rightarrow> delegation_run list" where
  "newest_first rs = sort_key (\<lambda>r. - dr_started_at r) rs"

definition fitDelegationRuns ::
  "(delegation_run list \<Rightarrow> nat) \<Rightarrow> delegation_run list \<Rightarrow> (delegation_run list \<times> delegation_run list) option" where
  "fitDelegationRuns json_size runs =
     (case fit_while (\<lambda>k. maxDelegationRuns < length k) (newest_first runs) [] of
        None \<Rightarrow> None
      | Some (kept, evicted) \<Rightarrow> fit_while (\<lambda>k. maxDelegationRunFile < json_size k + 1) kept evicted)"

subsection \<open>Operations\<close>

datatype store_error = LoadFailed | SaveFailed | LiveRowsExceedLimit | DuplicateRun | TargetHasLiveRun string | InvalidStatus |
  RunNotFound

record store_env =
  env_size :: "delegation_run list \<Rightarrow> nat"
  env_load :: bool
  env_save :: bool

text \<open>Saving gives the evicted rows and the file.\<close>

definition saveDelegationRunsRaw ::
  "store_env \<Rightarrow> delegation_run list \<Rightarrow> store_error + (delegation_run list \<times> delegation_run list)" where
  "saveDelegationRunsRaw env runs =
     (case fitDelegationRuns (env_size env) runs of
        None \<Rightarrow> Inl LiveRowsExceedLimit
      | Some (kept, evicted) \<Rightarrow> if env_save env then Inr (evicted, kept) else Inl SaveFailed)"

definition run_conflict :: "delegation_run \<Rightarrow> delegation_run \<Rightarrow> store_error option" where
  "run_conflict run existing =
     (if dr_id existing = dr_id run then Some DuplicateRun
      else if \<not> final existing \<and> dr_to_project existing \<noteq> [] \<and> dr_to_project existing = dr_to_project run
      then Some (TargetHasLiveRun (dr_id existing)) else None)"

fun first_conflict :: "delegation_run \<Rightarrow> delegation_run list \<Rightarrow> store_error option" where
  "first_conflict run [] = None"
| "first_conflict run (x # xs) = (case run_conflict run x of None \<Rightarrow> first_conflict run xs | Some e \<Rightarrow> Some e)"

definition appendDelegationRun ::
  "store_env \<Rightarrow> delegation_run \<Rightarrow> delegation_run list \<Rightarrow> (store_error + delegation_run list) \<times> delegation_run list" where
  "appendDelegationRun env run runs =
     (if \<not> env_load env then (Inl LoadFailed, runs)
      else case first_conflict run runs of
             Some e \<Rightarrow> (Inl e, runs)
           | None \<Rightarrow>
               (case saveDelegationRunsRaw env (newest_first (runs @ [run])) of
                  Inl e \<Rightarrow> (Inl e, runs)
                | Inr (evicted, kept) \<Rightarrow> (Inr evicted, kept)))"

text \<open>
  The result of finishing: the row as it is, or was meant to be, whether it changed, and the evicted rows or
  the error.
\<close>

record finish_result =
  fin_run :: "delegation_run option"
  fin_changed :: bool
  fin_evicted :: "delegation_run list"
  fin_error :: "store_error option"

definition fin_fail :: "store_error \<Rightarrow> finish_result" where
  "fin_fail e = \<lparr>fin_run = None, fin_changed = False, fin_evicted = [], fin_error = Some e\<rparr>"

definition finished_row ::
  "int \<Rightarrow> string \<Rightarrow> string \<Rightarrow> string option \<Rightarrow> (delegation_run \<Rightarrow> delegation_run) option \<Rightarrow> delegation_run \<Rightarrow> delegation_run" where
  "finished_row now status errorType runErr patch r =
     (let r1 = r\<lparr>dr_status := status, dr_completed_at := now\<rparr>;
          r2 = (if errorType \<noteq> [] then r1\<lparr>dr_error_type := errorType\<rparr> else r1);
          r3 = (case runErr of None \<Rightarrow> r2 | Some e \<Rightarrow> r2\<lparr>dr_error := truncateUTF8 e 2000\<rparr>)
      in case patch of None \<Rightarrow> r3 | Some f \<Rightarrow> f r3)"

definition finishDelegationRun ::
  "store_env \<Rightarrow> int \<Rightarrow> string \<Rightarrow> string \<Rightarrow> string \<Rightarrow> string option \<Rightarrow> (delegation_run \<Rightarrow> delegation_run) option \<Rightarrow>
   delegation_run list \<Rightarrow> finish_result \<times> delegation_run list" where
  "finishDelegationRun env now i status errorType runErr patch runs =
     (if \<not> delegationRunTerminal status then (fin_fail InvalidStatus, runs)
      else if \<not> env_load env then (fin_fail LoadFailed, runs)
      else case find (\<lambda>r. dr_id r = i) runs of
             None \<Rightarrow> (fin_fail RunNotFound, runs)
           | Some r \<Rightarrow>
               if final r then (\<lparr>fin_run = Some r, fin_changed = False, fin_evicted = [], fin_error = None\<rparr>, runs)
               else let r' = finished_row now status errorType runErr patch r
                    in case saveDelegationRunsRaw env (upd_first (\<lambda>x. dr_id x = i) (\<lambda>_. r') runs) of
                         Inl e \<Rightarrow> (\<lparr>fin_run = Some r', fin_changed = False, fin_evicted = [], fin_error = Some e\<rparr>, runs)
                       | Inr (evicted, kept) \<Rightarrow>
                           (\<lparr>fin_run = Some r', fin_changed = True, fin_evicted = evicted, fin_error = None\<rparr>, kept))"

definition updateDelegationRunProgress ::
  "store_env \<Rightarrow> string \<Rightarrow> (delegation_run \<Rightarrow> delegation_run) option \<Rightarrow> delegation_run list \<Rightarrow>
   (store_error + (bool \<times> delegation_run list)) \<times> delegation_run list" where
  "updateDelegationRunProgress env i patch runs =
     (case patch of
        None \<Rightarrow> (Inr (False, []), runs)
      | Some f \<Rightarrow>
          if \<not> env_load env then (Inl LoadFailed, runs)
          else if \<not> list_ex (\<lambda>r. dr_id r = i \<and> \<not> final r) runs then (Inr (False, []), runs)
          else case saveDelegationRunsRaw env (upd_first (\<lambda>r. dr_id r = i \<and> \<not> final r) f runs) of
                 Inl e \<Rightarrow> (Inl e, runs)
               | Inr (evicted, kept) \<Rightarrow> (Inr (True, evicted), kept))"

definition loadDelegationRun ::
  "store_env \<Rightarrow> string \<Rightarrow> delegation_run list \<Rightarrow> store_error + delegation_run option" where
  "loadDelegationRun env i runs = (if env_load env then Inr (find (\<lambda>r. dr_id r = i) runs) else Inl LoadFailed)"

definition interrupted :: "int \<Rightarrow> delegation_run \<Rightarrow> delegation_run" where
  "interrupted now r =
     (if final r then r
      else r\<lparr>dr_status := ''stopped'', dr_error_type := ''cancelled'',
             dr_error := ''Gokin Studio closed before this delegation finished'', dr_completed_at := now\<rparr>)"

definition reconcileInterruptedDelegationRuns ::
  "store_env \<Rightarrow> int \<Rightarrow> delegation_run list \<Rightarrow> (store_error + (nat \<times> delegation_run list)) \<times> delegation_run list" where
  "reconcileInterruptedDelegationRuns env now runs =
     (if \<not> env_load env then (Inl LoadFailed, runs)
      else let changed = length (filter (\<lambda>r. \<not> final r) runs)
           in if changed = 0 then (Inr (0, []), runs)
              else case saveDelegationRunsRaw env (map (interrupted now) runs) of
                     Inl e \<Rightarrow> (Inl e, runs)
                   | Inr (evicted, kept) \<Rightarrow> (Inr (changed, evicted), kept))"

definition listDelegationRunsOlderThan :: "store_env \<Rightarrow> int \<Rightarrow> delegation_run list \<Rightarrow> store_error + delegation_run list" where
  "listDelegationRunsOlderThan env cutoff runs =
     (if env_load env
      then Inr (filter (\<lambda>r. final r \<and> 0 < dr_completed_at r \<and> dr_completed_at r < cutoff) runs) else Inl LoadFailed)"

definition splitDelegationRunsByID :: "delegation_run list \<Rightarrow> string list \<Rightarrow> delegation_run list \<times> delegation_run list" where
  "splitDelegationRunsByID runs ids =
     (filter (\<lambda>r. dr_id r \<notin> set ids) runs, filter (\<lambda>r. dr_id r \<in> set ids) runs)"

definition estimateDelegationRunRemoval :: "store_env \<Rightarrow> string list \<Rightarrow> delegation_run list \<Rightarrow> store_error + (nat \<times> int)" where
  "estimateDelegationRunRemoval env ids runs =
     (if ids = [] then Inr (0, 0)
      else if \<not> env_load env then Inl LoadFailed
      else case splitDelegationRunsByID runs ids of
             (kept, removed) \<Rightarrow>
               if removed = [] then Inr (0, 0)
               else case fitDelegationRuns (env_size env) kept of
                      None \<Rightarrow> Inl LiveRowsExceedLimit
                    | Some (kept', evicted) \<Rightarrow>
                        Inr (length removed, max 0 (int (env_size env runs) - int (env_size env kept'))))"

definition removeDelegationRunsByID ::
  "store_env \<Rightarrow> string list \<Rightarrow> delegation_run list \<Rightarrow>
   (store_error + (delegation_run list \<times> delegation_run list \<times> int)) \<times> delegation_run list" where
  "removeDelegationRunsByID env ids runs =
     (if ids = [] then (Inr ([], [], 0), runs)
      else if \<not> env_load env then (Inl LoadFailed, runs)
      else case splitDelegationRunsByID runs ids of
             (kept, removed) \<Rightarrow>
               if removed = [] then (Inr ([], [], 0), runs)
               else case fitDelegationRuns (env_size env) kept of
                      None \<Rightarrow> (Inl LiveRowsExceedLimit, runs)
                    | Some (kept', _) \<Rightarrow>
                        (case saveDelegationRunsRaw env kept of
                           Inl e \<Rightarrow> (Inl e, runs)
                         | Inr (evicted, stored) \<Rightarrow>
                             (Inr (removed, evicted, max 0 (int (env_size env runs) - int (env_size env kept'))), stored)))"

text \<open>\<open>redact\<close> is the replacement of secrets (\<^verbatim>\<open>log_redaction.go\<close>).\<close>

definition boundDelegationTail :: "(string \<Rightarrow> string) \<Rightarrow> string list \<Rightarrow> string list" where
  "boundDelegationTail redact ls =
     filter (\<lambda>l. l \<noteq> []) (map (\<lambda>l. redact (truncateUTF8 l maxDelegationTailLine)) (last_n maxDelegationTailLines ls))"

end
