(* ===== verification/Delegation.thy ===== *)
theory Delegation
  imports DelegationRuns
begin

section \<open>Delegation between projects\<close>

text \<open>
  \<^verbatim>\<open>internal/studio/delegation.go\<close>: a delegation is a child chat in the target project. The studio keeps a
  registry of the children that run on someone's behalf, a durable row for each, and a monitor that makes
  the row final when the child is done; a cancellation may come at any moment. Here are the critical
  sections; what runs between them may interleave. A child is known by its session; \<open>sd_running\<close> lists the
  children that are at work, \<open>sd_events\<close> the final events that were sent.
\<close>

subsection \<open>Requests and who may delegate\<close>

definition maxConcurrentDelegations :: nat where
  "maxConcurrentDelegations = 4"

definition maxDelegationsPerTargetProject :: nat where
  "maxDelegationsPerTargetProject = 1"

definition delegationAskDeadline :: duration where
  "delegationAskDeadline = 5 * 60 * 1000000000"

datatype delegation_error = Typed string | StorageError bool | StoreFailure store_error | PlainError

definition DelegationErrorType :: "delegation_error \<Rightarrow> string" where
  "DelegationErrorType e = (case e of StorageError m \<Rightarrow> ''storage_error'' | Typed t \<Rightarrow> t | _ \<Rightarrow> [])"

definition delegationErrorMutatedBeforeStop :: "delegation_error \<Rightarrow> bool" where
  "delegationErrorMutatedBeforeStop e = (case e of StorageError m \<Rightarrow> m | _ \<Rightarrow> False)"

definition normalizeDelegationKind :: "string \<Rightarrow> string" where
  "normalizeDelegationKind kind = (if to_lower (trim_space kind) = ''ask'' then ''ask'' else ''run'')"

definition normalizeDelegationPolicy :: "string \<Rightarrow> string" where
  "normalizeDelegationPolicy policy =
     (let p = to_lower (trim_space policy) in if p = ''group'' then ''group'' else if p = ''off'' then ''off'' else ''any'')"

record project_group =
  pg_id :: string
  pg_name :: string
  pg_shared_context :: string
  pg_members :: "string list"

definition no_group :: project_group where
  "no_group = \<lparr>pg_id = [], pg_name = [], pg_shared_context = [], pg_members = []\<rparr>"

definition sharedGroup :: "project_group list \<Rightarrow> string \<Rightarrow> string \<Rightarrow> project_group option" where
  "sharedGroup groups from to = find (\<lambda>g. from \<in> set (pg_members g) \<and> to \<in> set (pg_members g)) groups"

definition delegationPolicyAllows ::
  "project_group list \<Rightarrow> string \<Rightarrow> string \<Rightarrow> string \<Rightarrow> delegation_error + project_group" where
  "delegationPolicyAllows groups from to policy =
     (let shared = sharedGroup groups from to; p = normalizeDelegationPolicy policy
      in if p = ''off'' then Inl (Typed ''policy'')
         else if p = ''group'' \<and> shared = None then Inl (Typed ''policy'')
         else Inr (case shared of None \<Rightarrow> no_group | Some g \<Rightarrow> g))"

text \<open>A session that serves someone else's request may not start work of its own.\<close>

record session_flags =
  sf_execution_provider :: string
  sf_plugin_child :: bool
  sf_delegate_child :: bool
  sf_archived_at :: int

definition sessionAgentMayCoordinate :: "session_flags \<Rightarrow> bool" where
  "sessionAgentMayCoordinate s \<longleftrightarrow> sf_execution_provider s = [] \<and> \<not> sf_plugin_child s \<and> \<not> sf_delegate_child s"

definition sessionAgentMayReceive :: "session_flags \<Rightarrow> bool" where
  "sessionAgentMayReceive s \<longleftrightarrow> sessionAgentMayCoordinate s \<and> sf_archived_at s \<le> 0"

text \<open>The flags of a child: a question gets no tools, which holds only with a provider of its own.\<close>

definition delegation_child_flags :: "string \<Rightarrow> string \<Rightarrow> session_flags" where
  "delegation_child_flags kind provider =
     \<lparr>sf_execution_provider = (if kind = ''ask'' then provider else []), sf_plugin_child = False, sf_delegate_child = True,
      sf_archived_at = 0\<rparr>"

lemma child_may_not_delegate: "\<not> sessionAgentMayCoordinate (delegation_child_flags kind provider)"
  by (simp add: sessionAgentMayCoordinate_def delegation_child_flags_def)

record delegation_request =
  rq_from_project :: string
  rq_from_session :: string
  rq_to_project :: string
  rq_kind :: string
  rq_goal :: string
  rq_task :: string
  rq_batch_id :: string
  rq_reserved_run_id :: string
  rq_parent :: "delegation_stamp option"
  rq_legacy :: bool

text \<open>
  What the studio finds when it looks: the text checks, the projects and the budget of the target, the
  source chat and its flags, the groups and the policy of the target.
\<close>

record studio_view =
  vw_text_ok :: bool
  vw_projects :: "string list"
  vw_budget_ok :: bool
  vw_source_session :: "session_flags option"
  vw_groups :: "project_group list"
  vw_target_policy :: string

definition or_default :: "string \<Rightarrow> string" where
  "or_default s = (if s = [] then ''default'' else s)"

text \<open>The checks of \<open>startDelegation\<close> before anything exists, in their order.\<close>

definition delegation_refused :: "studio_view \<Rightarrow> delegation_request \<Rightarrow> delegation_error + project_group" where
  "delegation_refused vw rq =
     (if \<not> vw_text_ok vw then Inl PlainError
      else if rq_from_project rq = rq_to_project rq then Inl (Typed ''cycle'')
      else if rq_to_project rq \<notin> set (vw_projects vw) then Inl (Typed ''unknown_target'')
      else if \<not> vw_budget_ok vw then Inl (Typed ''budget'')
      else if rq_from_project rq \<notin> set (vw_projects vw) then Inl (Typed ''unknown_target'')
      else case vw_source_session vw of
             None \<Rightarrow> Inl (Typed ''unknown_target'')
           | Some flags \<Rightarrow>
               if \<not> sessionAgentMayCoordinate flags then Inl (Typed ''policy'')
               else case delegationHopAllowed (rq_parent rq) (rq_from_project rq)
                           \<lparr>hop_applies = True, hop_target = rq_to_project rq, hop_cross = True\<rparr> of
                      Some DepthLimit \<Rightarrow> Inl (Typed ''depth_limit'')
                    | Some Cycle \<Rightarrow> Inl (Typed ''cycle'')
                    | None \<Rightarrow> delegationPolicyAllows (vw_groups vw) (rq_from_project rq) (rq_to_project rq) (vw_target_policy vw))"

definition no_usage :: run_usage where
  "no_usage = \<lparr>ru_provider = [], ru_model = [], ru_input_tokens = 0, ru_output_tokens = 0, ru_cost = []\<rparr>"

definition new_run :: "delegation_request \<Rightarrow> project_group \<Rightarrow> string \<Rightarrow> string \<Rightarrow> string \<Rightarrow> int \<Rightarrow> delegation_run" where
  "new_run rq g chainID runID session now =
     (let st = nextDelegationStamp (rq_parent rq) chainID (rq_from_project rq) (rq_to_project rq)
      in \<lparr>dr_id = (if rq_reserved_run_id rq = [] then runID else rq_reserved_run_id rq), dr_batch_id = rq_batch_id rq,
          dr_chain_id = st_chain_id st, dr_kind = normalizeDelegationKind (rq_kind rq), dr_depth = st_depth st,
          dr_chain = st_chain st, dr_from_project = rq_from_project rq, dr_from_session = or_default (rq_from_session rq),
          dr_to_project = rq_to_project rq, dr_to_session = session, dr_group_id = pg_id g,
          dr_goal = truncateUTF8 (trim_space (rq_goal rq)) 4096, dr_task = truncateUTF8 (trim_space (rq_task rq)) (256 * 1024),
          dr_status = ''running'', dr_answer = [], dr_answer_bytes = 0, dr_truncated = False, dr_tail = [], dr_denied = [],
          dr_mutated = False, dr_error_type = [], dr_error = [], dr_usage = no_usage, dr_legacy = rq_legacy rq,
          dr_started_at = now, dr_completed_at = 0\<rparr>)"

subsection \<open>The registry\<close>

record delegation_handle =
  dh_from_project :: string
  dh_from_session :: string
  dh_to_project :: string
  dh_to_session :: string
  dh_batch_id :: string
  dh_run :: "delegation_run option"
  dh_reserved :: bool

record studio =
  sd_registry :: "(string \<times> delegation_handle) list"
  sd_runs :: "delegation_run list"
  sd_running :: "string list"
  sd_events :: "delegation_run list"

definition handle_of_run :: "delegation_run \<Rightarrow> delegation_handle" where
  "handle_of_run r =
     \<lparr>dh_from_project = dr_from_project r, dh_from_session = dr_from_session r, dh_to_project = dr_to_project r,
      dh_to_session = dr_to_session r, dh_batch_id = dr_batch_id r, dh_run = Some r, dh_reserved = False\<rparr>"

definition owner_of :: "studio \<Rightarrow> string \<Rightarrow> delegation_handle option" where
  "owner_of s i = map_of (sd_registry s) i"

definition set_owner :: "string \<Rightarrow> delegation_handle \<Rightarrow> studio \<Rightarrow> studio" where
  "set_owner i h s = s\<lparr>sd_registry := AList.update i h (sd_registry s)\<rparr>"

definition drop_owner :: "string \<Rightarrow> studio \<Rightarrow> studio" where
  "drop_owner i s = s\<lparr>sd_registry := AList.delete i (sd_registry s)\<rparr>"

definition stop_child :: "string \<Rightarrow> studio \<Rightarrow> studio" where
  "stop_child session s = s\<lparr>sd_running := filter (\<lambda>x. x \<noteq> session) (sd_running s)\<rparr>"

definition emitDelegationTerminal :: "delegation_run \<Rightarrow> studio \<Rightarrow> studio" where
  "emitDelegationTerminal r s = s\<lparr>sd_events := sd_events s @ [r]\<rparr>"

definition normalizedDelegationSessionID :: "string \<Rightarrow> string" where
  "normalizedDelegationSessionID sid = or_default (trim_space sid)"

definition delegationHandleSourceSession :: "delegation_handle \<Rightarrow> string" where
  "delegationHandleSourceSession h =
     (if trim_space (dh_from_session h) \<noteq> [] then trim_space (dh_from_session h)
      else case dh_run h of
             Some r \<Rightarrow> normalizedDelegationSessionID (dr_from_session r)
           | None \<Rightarrow> normalizedDelegationSessionID [])"

definition sameDelegationOwner :: "delegation_handle \<Rightarrow> delegation_run \<Rightarrow> bool" where
  "sameDelegationOwner h r \<longleftrightarrow>
     \<not> dh_reserved h \<and> (case dh_run h of None \<Rightarrow> dr_id r = [] | Some r' \<Rightarrow> dr_id r' = dr_id r) \<and>
     dh_from_project h = dr_from_project r \<and> dh_to_project h = dr_to_project r \<and>
     delegationHandleSourceSession h = normalizedDelegationSessionID (dr_from_session r) \<and>
     dh_to_session h = dr_to_session r \<and> dh_batch_id h = dr_batch_id r"

definition validateDelegationClaim :: "string \<Rightarrow> delegation_handle \<Rightarrow> studio \<Rightarrow> delegation_error option \<times> studio" where
  "validateDelegationClaim i h s =
     (if owner_of s i \<noteq> None then (Some (Typed ''busy''), s)
      else if maxConcurrentDelegations \<le> length (sd_registry s) then (Some (Typed ''busy''), s)
      else if maxDelegationsPerTargetProject
              \<le> length (filter (\<lambda>(j, x). dh_to_project x = dh_to_project h) (sd_registry s))
      then (Some (Typed ''busy''), s)
      else (None, set_owner i h s))"

text \<open>Who may publish: the owner of a fitting reservation, or whoever the registry has room for.\<close>

definition claim_owner :: "delegation_run \<Rightarrow> bool \<Rightarrow> studio \<Rightarrow> delegation_error option \<times> studio" where
  "claim_owner run reserved s =
     (let h = handle_of_run run
      in if reserved
         then (case owner_of s (dr_id run) of
                 None \<Rightarrow> (Some (Typed ''busy''), s)
               | Some o' \<Rightarrow>
                   (if \<not> dh_reserved o' \<or> dh_from_project o' \<noteq> dh_from_project h \<or>
                       delegationHandleSourceSession o' \<noteq> delegationHandleSourceSession h \<or>
                       dh_to_project o' \<noteq> dh_to_project h \<or> dh_batch_id o' \<noteq> dh_batch_id h
                    then (Some (Typed ''busy''), s) else (None, s)))
         else validateDelegationClaim (dr_id run) h s)"

text \<open>\<open>start\<close>: the queue of the child accepts the message. The result has the evicted rows, whether the row
  was published, and the error.\<close>

definition publishAndStartDelegation ::
  "store_env \<Rightarrow> delegation_run \<Rightarrow> bool \<Rightarrow> bool \<Rightarrow> studio \<Rightarrow> (delegation_run list \<times> bool \<times> delegation_error option) \<times> studio" where
  "publishAndStartDelegation env run reserved start s =
     (case claim_owner run reserved s of
        (Some e, s1) \<Rightarrow> (([], False, Some e), s1)
      | (None, s1) \<Rightarrow>
          (case appendDelegationRun env run (sd_runs s1) of
             (Inl e, rs) \<Rightarrow>
               (([], False, Some (StoreFailure e)), if reserved then s1 else drop_owner (dr_id run) s1)
           | (Inr evicted, rs) \<Rightarrow>
               let s2 = set_owner (dr_id run) (handle_of_run run) (s1\<lparr>sd_runs := rs\<rparr>)
               in if start then ((evicted, True, None), s2\<lparr>sd_running := dr_to_session run # sd_running s2\<rparr>)
                  else ((evicted, True, Some PlainError), s2)))"

text \<open>\<open>ids\<close>: the identifiers drawn for the slots, none of them taken.\<close>

definition reserved_handle :: "string \<Rightarrow> string \<Rightarrow> string \<Rightarrow> string \<Rightarrow> delegation_handle" where
  "reserved_handle from session batch target =
     \<lparr>dh_from_project = from, dh_from_session = session, dh_to_project = target, dh_to_session = [], dh_batch_id = batch,
      dh_run = None, dh_reserved = True\<rparr>"

fun batch_targets_ok :: "string list \<Rightarrow> string list \<Rightarrow> string list \<Rightarrow> delegation_error option" where
  "batch_targets_ok occupied seen [] = None"
| "batch_targets_ok occupied seen (t # ts) =
     (if t = [] \<or> t \<in> set seen then Some PlainError
      else if t \<in> set occupied then Some (Typed ''busy'')
      else batch_targets_ok occupied (t # seen) ts)"

definition reserveDelegationBatch ::
  "string list \<Rightarrow> string \<Rightarrow> string \<Rightarrow> string \<Rightarrow> string list \<Rightarrow> studio \<Rightarrow>
   (delegation_error + (string \<times> string) list) \<times> studio" where
  "reserveDelegationBatch ids from session batch targets s =
     (let sid = (if trim_space session = [] then ''default'' else session)
      in if maxConcurrentDelegations < length (sd_registry s) + length targets then (Inl (Typed ''busy''), s)
         else case batch_targets_ok (map (\<lambda>(i, h). dh_to_project h) (sd_registry s)) [] targets of
                Some e \<Rightarrow> (Inl e, s)
              | None \<Rightarrow>
                  (Inr (zip targets ids),
                   foldl (\<lambda>s (t, i). set_owner i (reserved_handle from sid batch t) s) s (zip targets ids)))"

definition releaseDelegationReservation :: "string \<Rightarrow> studio \<Rightarrow> studio" where
  "releaseDelegationReservation i s =
     (case owner_of s i of None \<Rightarrow> s | Some h \<Rightarrow> if dh_reserved h then drop_owner i s else s)"

definition delegationOwnerAlive :: "delegation_run \<Rightarrow> studio \<Rightarrow> bool" where
  "delegationOwnerAlive r s = (case owner_of s (dr_id r) of None \<Rightarrow> False | Some h \<Rightarrow> sameDelegationOwner h r)"

definition releaseDelegationOwner :: "delegation_run \<Rightarrow> studio \<Rightarrow> studio" where
  "releaseDelegationOwner r s = (if delegationOwnerAlive r s then drop_owner (dr_id r) s else s)"

definition takeDelegationOwner :: "delegation_run \<Rightarrow> studio \<Rightarrow> delegation_handle option \<times> studio" where
  "takeDelegationOwner r s =
     (if delegationOwnerAlive r s then (owner_of s (dr_id r), drop_owner (dr_id r) s) else (None, s))"

subsection \<open>Failure of the store\<close>

definition storageFailureDelegationRun ::
  "(string \<Rightarrow> string) \<Rightarrow> int \<Rightarrow> string \<Rightarrow> bool \<Rightarrow> string list \<Rightarrow> delegation_run \<Rightarrow> delegation_run" where
  "storageFailureDelegationRun redact now err mutated tail r =
     r\<lparr>dr_status := ''error'', dr_error_type := ''storage_error'', dr_error := truncateUTF8 err 2000, dr_completed_at := now,
       dr_mutated := mutated, dr_tail := boundDelegationTail redact tail\<rparr>"

definition preferDelegationRun :: "delegation_run option \<Rightarrow> delegation_run \<Rightarrow> delegation_run" where
  "preferDelegationRun primary fallback =
     (case primary of Some r \<Rightarrow> if dr_id r \<noteq> [] then r else fallback | None \<Rightarrow> fallback)"

text \<open>Taking the owner elects one path; it stops the child. The flag says whether this path was elected.\<close>

definition stopDelegationForStorage ::
  "(string \<Rightarrow> string) \<Rightarrow> int \<Rightarrow> string \<Rightarrow> bool \<Rightarrow> string list \<Rightarrow> delegation_run \<Rightarrow> studio \<Rightarrow> delegation_run option \<times> studio" where
  "stopDelegationForStorage redact now err mutated tail r s =
     (case takeDelegationOwner r s of
        (None, s1) \<Rightarrow> (None, s1)
      | (Some h, s1) \<Rightarrow> (Some (storageFailureDelegationRun redact now err mutated tail r), stop_child (dh_to_session h) s1))"

definition failDelegationForStorage ::
  "(string \<Rightarrow> string) \<Rightarrow> int \<Rightarrow> string \<Rightarrow> bool \<Rightarrow> string list \<Rightarrow> delegation_run \<Rightarrow> studio \<Rightarrow> bool \<times> studio" where
  "failDelegationForStorage redact now err mutated tail r s =
     (case stopDelegationForStorage redact now err mutated tail r s of
        (None, s1) \<Rightarrow> (False, s1) | (Some failed, s1) \<Rightarrow> (True, emitDelegationTerminal failed s1))"

subsection \<open>Cancelling\<close>

text \<open>
  Three critical sections: look up the owner, or withdraw a reservation; make the row final; stop the child
  and report.
\<close>

definition cancel_look :: "string \<Rightarrow> studio \<Rightarrow> delegation_handle option option \<times> studio" where
  "cancel_look i s =
     (case owner_of s i of
        None \<Rightarrow> (Some None, s)
      | Some h \<Rightarrow> if dh_reserved h then (None, drop_owner i s) else (Some (Some h), s))"

definition cancel_row :: "store_env \<Rightarrow> int \<Rightarrow> string \<Rightarrow> bool \<Rightarrow> studio \<Rightarrow> finish_result \<times> studio" where
  "cancel_row env now i mutated s =
     (case finishDelegationRun env now i ''stopped'' ''cancelled'' (Some ''cancelled'')
             (Some (\<lambda>r. r\<lparr>dr_mutated := mutated\<rparr>)) (sd_runs s) of
        (res, rs) \<Rightarrow> (res, s\<lparr>sd_runs := rs\<rparr>))"

definition cancel_effects ::
  "(string \<Rightarrow> string) \<Rightarrow> int \<Rightarrow> string \<Rightarrow> bool \<Rightarrow> bool \<Rightarrow> delegation_handle option \<Rightarrow> finish_result \<Rightarrow> studio \<Rightarrow>
   delegation_error option \<times> studio" where
  "cancel_effects redact now i notify mutated owner res s =
     (case fin_error res of
        Some e \<Rightarrow>
          (case owner of
             None \<Rightarrow> (Some (StoreFailure e), s)
           | Some h \<Rightarrow>
               let base = (case dh_run h of Some r0 \<Rightarrow> preferDelegationRun (fin_run res) r0 | None \<Rightarrow> the (fin_run res));
                   (stopped, s1) =
                     (if notify then failDelegationForStorage redact now ''persist delegation cancellation'' mutated [] base s
                      else case stopDelegationForStorage redact now ''persist delegation cancellation'' mutated [] base s of
                             (f, s') \<Rightarrow> (f \<noteq> None, s'))
               in (Some (StorageError mutated), if stopped then s1 else stop_child (dh_to_session h) s1))
      | None \<Rightarrow>
          let s1 = (case owner of None \<Rightarrow> s | Some h \<Rightarrow> drop_owner i (stop_child (dh_to_session h) s))
          in if \<not> fin_changed res then (Some PlainError, s1)
             else (None, if notify then emitDelegationTerminal (the (fin_run res)) s1 else s1))"

definition cancelDelegationRun ::
  "(string \<Rightarrow> string) \<Rightarrow> store_env \<Rightarrow> int \<Rightarrow> string \<Rightarrow> bool \<Rightarrow> bool \<Rightarrow> studio \<Rightarrow> delegation_error option \<times> studio" where
  "cancelDelegationRun redact env now i notify mutated s =
     (case cancel_look i s of
        (None, s1) \<Rightarrow> (None, s1)
      | (Some owner, s1) \<Rightarrow>
          (case cancel_row env now i mutated s1 of (res, s2) \<Rightarrow> cancel_effects redact now i notify mutated owner res s2))"

definition CancelDelegationRun :: "(string \<Rightarrow> string) \<Rightarrow> store_env \<Rightarrow> int \<Rightarrow> string \<Rightarrow> bool \<Rightarrow> studio \<Rightarrow> delegation_error option \<times> studio" where
  "CancelDelegationRun redact env now i mutated s =
     (case cancelDelegationRun redact env now i True mutated s of
        (Some e, s1) \<Rightarrow> (if DelegationErrorType e = ''storage_error'' then None else Some e, s1) | (None, s1) \<Rightarrow> (None, s1))"

definition session_matches :: "string \<Rightarrow> string \<Rightarrow> delegation_handle \<Rightarrow> bool" where
  "session_matches project session h \<longleftrightarrow>
     dh_to_project h = project \<and> (session = [] \<or> dh_to_session h = session) \<or>
     dh_from_project h = project \<and> (session = [] \<or> delegationHandleSourceSession h = session)"

definition cancelDelegationsForSession ::
  "(string \<Rightarrow> string) \<Rightarrow> store_env \<Rightarrow> int \<Rightarrow> (string \<Rightarrow> bool) \<Rightarrow> string \<Rightarrow> string \<Rightarrow> bool \<Rightarrow> studio \<Rightarrow> studio" where
  "cancelDelegationsForSession redact env now mutated project session notify s =
     foldl (\<lambda>s i. snd (cancelDelegationRun redact env now i notify (mutated i) s)) s
       (map fst (filter (\<lambda>(i, h). session_matches project session h) (sd_registry s)))"

subsection \<open>Finishing\<close>

definition answer_patch ::
  "string \<Rightarrow> nat \<Rightarrow> string list \<Rightarrow> string list \<Rightarrow> bool \<Rightarrow> run_usage \<Rightarrow> delegation_run \<Rightarrow> delegation_run" where
  "answer_patch bounded full tail denied mutated usage r =
     r\<lparr>dr_answer := bounded, dr_answer_bytes := full, dr_truncated := length bounded < full, dr_tail := tail,
       dr_denied := denied, dr_mutated := mutated, dr_usage := usage\<rparr>"

definition finalize_commit ::
  "store_env \<Rightarrow> int \<Rightarrow> delegation_run \<Rightarrow> string \<Rightarrow> string list \<Rightarrow> string list \<Rightarrow> bool \<Rightarrow> run_usage \<Rightarrow> string \<Rightarrow> string \<Rightarrow> string option \<Rightarrow>
   studio \<Rightarrow> finish_result \<times> studio" where
  "finalize_commit env now started answer denied tail mutated usage status errType err s =
     (let answer1 = trim_space answer;
          bounded = truncateUTF8 answer1 maxDelegationAnswerBytes;
          blank = (status = ''completed'' \<and> bounded = []);
          status1 = (if blank then ''error'' else status);
          errType1 = (if blank then ''provider_error'' else errType);
          err1 = (if blank \<and> err = None then Some ''the target finished without producing an answer'' else err)
      in case finishDelegationRun env now (dr_id started) status1 errType1 err1
                (Some (answer_patch bounded (length answer1) tail denied (mutated \<and> status1 \<noteq> ''completed'') usage)) (sd_runs s) of
           (res, rs) \<Rightarrow> (res, s\<lparr>sd_runs := rs\<rparr>))"

definition finalize_effects ::
  "(string \<Rightarrow> string) \<Rightarrow> int \<Rightarrow> bool \<Rightarrow> string list \<Rightarrow> delegation_run \<Rightarrow> finish_result \<Rightarrow> studio \<Rightarrow> studio" where
  "finalize_effects redact now mutated tail started res s =
     (case fin_error res of
        Some e \<Rightarrow> snd (failDelegationForStorage redact now ''persist delegation completion'' mutated tail
                         (preferDelegationRun (fin_run res) started) s)
      | None \<Rightarrow> if fin_changed res then emitDelegationTerminal (the (fin_run res)) s else s)"

text \<open>
  A start that was published and cannot go on, because the queue refuses the message or the studio shuts
  down: the row becomes final, the owner is released.
\<close>

definition abort_effects ::
  "(string \<Rightarrow> string) \<Rightarrow> int \<Rightarrow> delegation_run \<Rightarrow> finish_result \<Rightarrow> studio \<Rightarrow> studio" where
  "abort_effects redact now run res s =
     (case fin_error res of
        Some e \<Rightarrow> snd (failDelegationForStorage redact now ''persist failed delegation start'' False []
                         (preferDelegationRun (fin_run res) run) s)
      | None \<Rightarrow>
          let s1 = releaseDelegationOwner run s
          in if fin_changed res then emitDelegationTerminal (the (fin_run res)) s1 else s1)"

subsection \<open>Starting\<close>

text \<open>
  The whole of \<open>startDelegation\<close>, when nothing runs between its critical sections: \<open>session\<close> is the child
  chat, when it could be created, \<open>start\<close> whether its queue takes the message, \<open>background\<close> whether the
  monitor could be started. The second environment is that of a row that has to be made final.
\<close>

definition abort_start ::
  "(string \<Rightarrow> string) \<Rightarrow> store_env \<Rightarrow> int \<Rightarrow> string \<Rightarrow> string \<Rightarrow> delegation_run \<Rightarrow> studio \<Rightarrow> studio" where
  "abort_start redact env now status errType run s =
     (case finishDelegationRun env now (dr_id run) status errType (Some ''not started'') None (sd_runs s) of
        (res, rs) \<Rightarrow> abort_effects redact now run res (s\<lparr>sd_runs := rs\<rparr>))"

definition startDelegation ::
  "(string \<Rightarrow> string) \<Rightarrow> store_env \<Rightarrow> store_env \<Rightarrow> studio_view \<Rightarrow> delegation_request \<Rightarrow> string \<Rightarrow> string \<Rightarrow> string option \<Rightarrow>
   bool \<Rightarrow> bool \<Rightarrow> int \<Rightarrow> studio \<Rightarrow> (delegation_error + delegation_run) \<times> studio" where
  "startDelegation redact env env2 vw rq chainID runID session start background now s =
     (case delegation_refused vw rq of
        Inl e \<Rightarrow> (Inl e, s)
      | Inr g \<Rightarrow>
          (case session of
             None \<Rightarrow> (Inl PlainError, s)
           | Some sid \<Rightarrow>
               let run = new_run rq g chainID runID sid now
               in case publishAndStartDelegation env run (rq_reserved_run_id rq \<noteq> []) start s of
                    ((evicted, False, err), s1) \<Rightarrow>
                      (Inl (the err), if rq_reserved_run_id rq \<noteq> [] then releaseDelegationReservation (dr_id run) s1 else s1)
                  | ((evicted, True, Some e), s1) \<Rightarrow> (Inl e, abort_start redact env2 now ''error'' ''busy'' run s1)
                  | ((evicted, True, None), s1) \<Rightarrow>
                      if background then (Inr run, s1)
                      else (Inl PlainError, abort_start redact env2 now ''stopped'' ''cancelled'' run (stop_child sid s1))))"

text \<open>
  A fan-out: all targets are reserved before the first child exists, and one failing start cancels what has
  started and releases the rest. Each target comes with its request and what its start meets.
\<close>

record batch_item =
  bi_request :: delegation_request
  bi_view :: studio_view
  bi_chain_id :: string
  bi_session :: "string option"
  bi_start :: bool
  bi_background :: bool

fun start_batch ::
  "(string \<Rightarrow> string) \<Rightarrow> store_env \<Rightarrow> int \<Rightarrow> (string \<times> batch_item) list \<Rightarrow> delegation_run list \<Rightarrow> studio \<Rightarrow>
   (delegation_error + delegation_run list) \<times> studio" where
  "start_batch redact env now [] runs s = (Inr runs, s)"
| "start_batch redact env now ((i, b) # bs) runs s =
     (case startDelegation redact env env (bi_view b) ((bi_request b)\<lparr>rq_reserved_run_id := i\<rparr>) (bi_chain_id b) i (bi_session b)
             (bi_start b) (bi_background b) now s of
        (Inl e, s1) \<Rightarrow> (Inl e, foldl (\<lambda>s r. snd (CancelDelegationRun redact env now (dr_id r) False s)) s1 runs)
      | (Inr r, s1) \<Rightarrow> start_batch redact env now bs (runs @ [r]) s1)"

definition startDelegationBatch ::
  "(string \<Rightarrow> string) \<Rightarrow> store_env \<Rightarrow> int \<Rightarrow> string list \<Rightarrow> string \<Rightarrow> string \<Rightarrow> string \<Rightarrow> batch_item list \<Rightarrow> studio \<Rightarrow>
   (delegation_error + delegation_run list) \<times> studio" where
  "startDelegationBatch redact env now ids from session batch items s =
     (case reserveDelegationBatch ids from session batch (map (rq_to_project \<circ> bi_request) items) s of
        (Inl e, s1) \<Rightarrow> (Inl e, s1)
      | (Inr reserved, s1) \<Rightarrow>
          (case start_batch redact env now (zip ids items) [] s1 of
             (res, s2) \<Rightarrow> (res, foldl (\<lambda>s (t, i). releaseDelegationReservation i s) s2 reserved)))"

subsection \<open>The monitor\<close>

text \<open>
  One round: what the monitor sees of the child, and of the row when it can be read; \<open>stored2\<close> is the row
  read again after a progress update that changed nothing.
\<close>

record child_view =
  cv_running :: bool
  cv_answer :: string
  cv_denied :: "string list"
  cv_mutated :: bool
  cv_late :: bool
  cv_tail_due :: bool

datatype monitor_action =
    KeepWatching | LeaveMonitor | StorageTrouble string | PublishProgress | FinalizeRun bool string string string "string option"

definition monitor_look ::
  "store_env \<Rightarrow> child_view \<Rightarrow> delegation_run \<Rightarrow> studio \<Rightarrow> monitor_action" where
  "monitor_look env cv run s =
     (if \<not> delegationOwnerAlive run s then LeaveMonitor
      else case loadDelegationRun env (dr_id run) (sd_runs s) of
             Inl e \<Rightarrow> StorageTrouble ''read delegation run store''
           | Inr None \<Rightarrow> StorageTrouble ''durable delegation row disappeared''
           | Inr (Some stored) \<Rightarrow>
               if final stored then LeaveMonitor
               else if \<not> cv_running cv then FinalizeRun False (cv_answer cv) ''completed'' [] None
               else if dr_kind run = ''ask'' \<and> cv_late cv then
                 (if trim_space (cv_answer cv) \<noteq> [] then FinalizeRun True (cv_answer cv) ''completed'' [] None
                  else FinalizeRun True [] ''error'' ''timeout'' (Some ''question exceeded the limit''))
               else if cv_tail_due cv then PublishProgress else KeepWatching)"

definition monitor_progress ::
  "store_env \<Rightarrow> store_env \<Rightarrow> string list \<Rightarrow> delegation_run \<Rightarrow> studio \<Rightarrow> monitor_action \<times> studio" where
  "monitor_progress env env2 tail run s =
     (case updateDelegationRunProgress env (dr_id run) (Some (\<lambda>r. r\<lparr>dr_tail := tail\<rparr>)) (sd_runs s) of
        (Inl e, rs) \<Rightarrow> (StorageTrouble ''persist delegation progress'', s\<lparr>sd_runs := rs\<rparr>)
      | (Inr (True, evicted), rs) \<Rightarrow> (KeepWatching, s\<lparr>sd_runs := rs\<rparr>)
      | (Inr (False, evicted), rs) \<Rightarrow>
          let s1 = s\<lparr>sd_runs := rs\<rparr>
          in case loadDelegationRun env2 (dr_id run) (sd_runs s1) of
               Inl e \<Rightarrow> (StorageTrouble ''re-read delegation after skipped progress'', s1)
             | Inr (Some latest) \<Rightarrow>
                 (if final latest then LeaveMonitor else StorageTrouble ''delegation progress lost its durable owner'', s1)
             | Inr None \<Rightarrow> (StorageTrouble ''delegation progress lost its durable owner'', s1))"

subsection \<open>Reading answers\<close>

record answer_page =
  ap_offset :: nat
  ap_text :: string
  ap_full_size :: nat
  ap_truncated :: bool

definition DelegateFetchMaxBytes :: int where
  "DelegateFetchMaxBytes = 8192"

definition DelegateFetchMinBytes :: int where
  "DelegateFetchMinBytes = 4"

fun cut_start :: "string \<Rightarrow> nat \<Rightarrow> nat" where
  "cut_start full 0 = 0"
| "cut_start full (Suc n) = (if rune_start (full ! Suc n) then Suc n else cut_start full n)"

text \<open>The end of a page moves back to a rune boundary, at most to its start.\<close>

function cut_end :: "string \<Rightarrow> nat \<Rightarrow> nat \<Rightarrow> nat" where
  "cut_end full offset e =
     (if offset < e \<and> e < length full \<and> \<not> rune_start (full ! e) then cut_end full offset (e - 1) else e)"
  by pat_completeness auto
termination by (relation "measure (\<lambda>(f, i, e). e)") auto

declare cut_end.simps [simp del]

definition answer_page :: "string \<Rightarrow> int \<Rightarrow> int \<Rightarrow> answer_page" where
  "answer_page full offset maxBytes =
     (let m = nat (if maxBytes \<le> 0 \<or> DelegateFetchMaxBytes < maxBytes then DelegateFetchMaxBytes
                   else if maxBytes < DelegateFetchMinBytes then DelegateFetchMinBytes else maxBytes);
          i = nat offset
      in if length full \<le> i
         then \<lparr>ap_offset = length full, ap_text = [], ap_full_size = length full, ap_truncated = False\<rparr>
         else let i1 = cut_start full i; e = cut_end full i1 (min (i1 + m) (length full));
                  text' = take (e - i1) (drop i1 full)
              in \<lparr>ap_offset = i1, ap_text = text', ap_full_size = length full,
                  ap_truncated = (i1 + length text' < length full)\<rparr>)"

definition FetchDelegationAnswer ::
  "store_env \<Rightarrow> string \<Rightarrow> int \<Rightarrow> int \<Rightarrow> studio \<Rightarrow> store_error + answer_page" where
  "FetchDelegationAnswer env i offset maxBytes s =
     (case loadDelegationRun env i (sd_runs s) of
        Inl e \<Rightarrow> Inl e | Inr None \<Rightarrow> Inl RunNotFound | Inr (Some r) \<Rightarrow> Inr (answer_page (dr_answer r) offset maxBytes))"

definition ListDelegationRuns :: "store_env \<Rightarrow> string \<Rightarrow> string \<Rightarrow> studio \<Rightarrow> store_error + delegation_run list" where
  "ListDelegationRuns env project session s =
     (if env_load env
      then Inr (filter (\<lambda>r. (project = [] \<or> dr_from_project r = project \<or> dr_to_project r = project) \<and>
                            (session = [] \<or> dr_from_session r = session)) (sd_runs s))
      else Inl LoadFailed)"

definition GetDelegationRun :: "store_env \<Rightarrow> string \<Rightarrow> studio \<Rightarrow> store_error + delegation_run" where
  "GetDelegationRun env i s =
     (case loadDelegationRun env i (sd_runs s) of Inl e \<Rightarrow> Inl e | Inr None \<Rightarrow> Inl RunNotFound | Inr (Some r) \<Rightarrow> Inr r)"

end
