(* ===== verification/DelegationRunsProps.thy ===== *)
theory DelegationRunsProps
  imports DelegationRuns
begin

section \<open>The record of delegations: what is kept\<close>

subsection \<open>Retention\<close>

definition row_live :: "delegation_run \<Rightarrow> bool" where
  "row_live r \<longleftrightarrow> \<not> final r"

definition by_age :: "delegation_run list \<Rightarrow> bool" where
  "by_age rs \<longleftrightarrow> sorted (map (\<lambda>r. - dr_started_at r) rs)"

text \<open>What a round of eviction has done to the rows: some final ones are gone, the oldest first.\<close>

definition evicts ::
  "delegation_run list \<Rightarrow> delegation_run list \<Rightarrow> delegation_run list \<Rightarrow> delegation_run list \<Rightarrow> bool" where
  "evicts kept ev kept' ev' \<longleftrightarrow>
     mset kept' + mset ev' = mset kept + mset ev \<and> filter row_live kept' = filter row_live kept \<and> by_age kept' \<and>
     (\<forall>e\<in>set ev'. final e \<and> (\<forall>r\<in>set kept'. final r \<longrightarrow> dr_started_at e \<le> dr_started_at r))"

lemma drop_evicts:
  assumes "dropOldestTerminal kept = Some (r, kept')" "evicts rows [] kept ev"
  shows "evicts rows [] kept' (ev @ [r])"
proof -
  from dropOldestTerminal_split [OF assms(1)] obtain u v
    where uv: "kept = u @ r # v" "kept' = u @ v" "final r" "\<forall>x\<in>set v. \<not> final x" by blast
  have "by_age (u @ r # v)" using assms(2) uv(1) by (simp add: evicts_def)
  then have "by_age (u @ v)" "\<forall>x\<in>set u. dr_started_at r \<le> dr_started_at x"
    by (auto simp: by_age_def sorted_append)
  with assms(2) uv show ?thesis by (auto simp: evicts_def row_live_def)
qed

lemma fit_while_evicts:
  assumes "evicts rows [] kept ev"
  shows "case fit_while over kept ev of
     Some (kept', ev') \<Rightarrow> evicts rows [] kept' ev' \<and> \<not> over kept'
   | None \<Rightarrow> over (filter row_live rows)"
  using assms
proof (induction over kept ev rule: fit_while.induct)
  case (1 over kept ev)
  show ?case
  proof (cases "over kept")
    case False
    with 1(2) show ?thesis by (simp add: fit_while.simps [of over kept])
  next
    case True
    show ?thesis
    proof (cases "dropOldestTerminal kept")
      case None
      then have "filter row_live kept = kept" by (simp add: dropOldestTerminal_None row_live_def filter_id_conv)
      then have "kept = filter row_live rows" using 1(2) by (simp add: evicts_def)
      moreover have "fit_while over kept ev = None" by (simp add: fit_while.simps [of over kept] True None)
      ultimately show ?thesis using True by simp
    next
      case (Some p)
      obtain r kept' where p: "p = (r, kept')" by fastforce
      from 1(1) [OF _ Some p [symmetric] drop_evicts [OF Some [unfolded p] 1(2)]] True
      have "case fit_while over kept' (ev @ [r]) of
          Some (kept', ev') \<Rightarrow> evicts rows [] kept' ev' \<and> \<not> over kept' | None \<Rightarrow> over (filter row_live rows)" by simp
      then show ?thesis by (simp add: fit_while.simps [of over kept] True Some p)
    qed
  qed
qed

lemma fit_while_length:
  "fit_while over kept ev = Some (kept', ev') \<Longrightarrow> length kept' \<le> length kept"
proof (induction over kept ev rule: fit_while.induct)
  case (1 over kept ev)
  then show ?case
    by (auto simp: fit_while.simps [of over kept] split: if_splits option.splits dest!: dropOldestTerminal_split) fastforce
qed

lemma newest_first_props: "by_age (newest_first rs)" "mset (newest_first rs) = mset rs"
  by (simp_all add: by_age_def newest_first_def)

lemma newest_first_evicts: "evicts (newest_first rs) [] (newest_first rs) []"
  by (simp add: evicts_def newest_first_props)

lemma fit_fits:
  "case fitDelegationRuns size_of runs of
     Some (kept, evicted) \<Rightarrow> evicts (newest_first runs) [] kept evicted \<and> length kept \<le> maxDelegationRuns \<and>
       size_of kept + 1 \<le> maxDelegationRunFile
   | None \<Rightarrow> maxDelegationRuns < length (filter row_live (newest_first runs)) \<or>
       maxDelegationRunFile < size_of (filter row_live (newest_first runs)) + 1"
proof (cases "fit_while (\<lambda>k. maxDelegationRuns < length k) (newest_first runs) []")
  case None
  with fit_while_evicts [OF newest_first_evicts [of runs], of "\<lambda>k. maxDelegationRuns < length k"]
  show ?thesis by (simp add: fitDelegationRuns_def)
next
  case (Some p)
  obtain k1 e1 where p: "p = (k1, e1)" by fastforce
  with fit_while_evicts [OF newest_first_evicts [of runs], of "\<lambda>k. maxDelegationRuns < length k"] Some
  have e1: "evicts (newest_first runs) [] k1 e1" and l: "length k1 \<le> maxDelegationRuns" by auto
  have f: "fitDelegationRuns size_of runs = fit_while (\<lambda>k. maxDelegationRunFile < size_of k + 1) k1 e1"
    by (simp add: fitDelegationRuns_def Some p)
  show ?thesis
  proof (cases "fit_while (\<lambda>k. maxDelegationRunFile < size_of k + 1) k1 e1")
    case None
    with fit_while_evicts [OF e1, of "\<lambda>k. maxDelegationRunFile < size_of k + 1"] f show ?thesis by simp
  next
    case (Some q)
    obtain k2 e2 where q: "q = (k2, e2)" by fastforce
    with fit_while_evicts [OF e1, of "\<lambda>k. maxDelegationRunFile < size_of k + 1"] Some fit_while_length [of "\<lambda>k. maxDelegationRunFile < size_of k + 1" k1 e1 k2 e2] l f
    show ?thesis by auto
  qed
qed

text \<open>
   Retention. Fitting the rows into the file loses none: the kept and the evicted ones together are all of
  them. What is kept is at most 200 rows, newest first, and fits the file with its newline. Only final rows
  are evicted, and none is evicted while an older final row is kept. It fails only when the running rows
  alone are too many or too large.
\<close>
theorem retention_keeps_live:
  "case fitDelegationRuns size_of runs of
     Some (kept, evicted) \<Rightarrow>
       mset kept + mset evicted = mset runs \<and> length kept \<le> 200 \<and> size_of kept + 1 \<le> 4194304 \<and>
       sorted (map (\<lambda>r. - dr_started_at r) kept) \<and>
       (\<forall>e\<in>set evicted. final e \<and> (\<forall>r\<in>set kept. final r \<longrightarrow> dr_started_at e \<le> dr_started_at r))
   | None \<Rightarrow> \<exists>rs. mset rs = mset (filter row_live runs) \<and> (200 < length rs \<or> 4194304 < size_of rs + 1)"
proof (cases "fitDelegationRuns size_of runs")
  case None
  have "mset (filter row_live (newest_first runs)) = mset (filter row_live runs)" by (simp add: newest_first_props)
  moreover have "200 < length (filter row_live (newest_first runs)) \<or> 4194304 < size_of (filter row_live (newest_first runs)) + 1"
    using None fit_fits [where size_of = size_of and runs = runs] by (simp add: maxDelegationRuns_def maxDelegationRunFile_def)
  ultimately show ?thesis unfolding None option.case by blast
next
  case (Some p)
  with fit_fits [where size_of = size_of and runs = runs] show ?thesis
    by (cases p) (auto simp: evicts_def by_age_def newest_first_props maxDelegationRuns_def maxDelegationRunFile_def)
qed

definition sample_run :: "string \<Rightarrow> string \<Rightarrow> string \<Rightarrow> int \<Rightarrow> delegation_run" where
  "sample_run i status to started =
     \<lparr>dr_id = i, dr_batch_id = [], dr_chain_id = ''c'', dr_kind = ''run'', dr_depth = 1, dr_chain = [''a'', to],
      dr_from_project = ''a'', dr_from_session = ''default'', dr_to_project = to, dr_to_session = ''s'' @ i, dr_group_id = [],
      dr_goal = [], dr_task = ''t'', dr_status = status, dr_answer = [], dr_answer_bytes = 0, dr_truncated = False,
      dr_tail = [], dr_denied = [], dr_mutated = False, dr_error_type = [], dr_error = [],
      dr_usage = \<lparr>ru_provider = [], ru_model = [], ru_input_tokens = 0, ru_output_tokens = 0, ru_cost = []\<rparr>,
      dr_legacy = False, dr_started_at = started, dr_completed_at = 0\<rparr>"

lemma sample_run_fields [simp]:
  "dr_started_at (sample_run i st to n) = n" "dr_status (sample_run i st to n) = st" "dr_id (sample_run i st to n) = i"
  "dr_to_project (sample_run i st to n) = to"
  by (simp_all add: sample_run_def)

lemma retention_keeps_live_witness:
  "fitDelegationRuns (\<lambda>rs. if length rs < 2 then 10 else 5000000) [sample_run ''1'' ''error'' ''b'' 1, sample_run ''2'' ''running'' ''b'' 2] =
     Some ([sample_run ''2'' ''running'' ''b'' 2], [sample_run ''1'' ''error'' ''b'' 1]) \<and>
   final (sample_run ''1'' ''error'' ''b'' 1)"
proof -
  have f: "fitDelegationRuns (\<lambda>rs. if length rs < 2 then 10 else 5000000) [sample_run ''1'' ''error'' ''b'' 1, sample_run ''2'' ''running'' ''b'' 2] =
     Some ([sample_run ''2'' ''running'' ''b'' 2], [sample_run ''1'' ''error'' ''b'' 1])"
    by (simp add: fitDelegationRuns_def newest_first_def fit_while.simps maxDelegationRuns_def maxDelegationRunFile_def
        dropOldestTerminal_def final_def delegationRunTerminal_def)
  from retention_keeps_live [where size_of = "\<lambda>rs. if length rs < 2 then 10 else 5000000"
      and runs = "[sample_run ''1'' ''error'' ''b'' 1, sample_run ''2'' ''running'' ''b'' 2]"] f show ?thesis by (simp add: final_def delegationRunTerminal_def)
qed

subsection \<open>Runs of the store\<close>

text \<open>
  The operations that write the file, with the rows that each reports gone: evicted, or removed by the
  clean-up. A patch leaves the identity, the state and the target of a row alone, as those in the code do.
\<close>

datatype store_op =
    StAppend store_env delegation_run
  | StFinish store_env int string string string "string option" "(delegation_run \<Rightarrow> delegation_run) option"
  | StProgress store_env string "delegation_run \<Rightarrow> delegation_run"
  | StReconcile store_env int
  | StRemove store_env "string list"

definition patch_ok :: "(delegation_run \<Rightarrow> delegation_run) \<Rightarrow> bool" where
  "patch_ok f \<longleftrightarrow> (\<forall>r. dr_id (f r) = dr_id r \<and> dr_status (f r) = dr_status r \<and> dr_to_project (f r) = dr_to_project r)"

fun store_op_ok :: "store_op \<Rightarrow> bool" where
  "store_op_ok (StFinish env now i status et err patch) = (case patch of None \<Rightarrow> True | Some f \<Rightarrow> patch_ok f)"
| "store_op_ok (StProgress env i f) = patch_ok f"
| "store_op_ok a = True"

fun store_exec :: "store_op \<Rightarrow> delegation_run list \<Rightarrow> delegation_run list \<times> delegation_run list" where
  "store_exec (StAppend env r) runs =
     (case appendDelegationRun env r runs of (Inl e, runs') \<Rightarrow> ([], runs') | (Inr ev, runs') \<Rightarrow> (ev, runs'))"
| "store_exec (StFinish env now i status et err patch) runs =
     (case finishDelegationRun env now i status et err patch runs of (res, runs') \<Rightarrow> (fin_evicted res, runs'))"
| "store_exec (StProgress env i f) runs =
     (case updateDelegationRunProgress env i (Some f) runs of (Inl e, runs') \<Rightarrow> ([], runs') | (Inr (b, ev), runs') \<Rightarrow> (ev, runs'))"
| "store_exec (StReconcile env now) runs =
     (case reconcileInterruptedDelegationRuns env now runs of (Inl e, runs') \<Rightarrow> ([], runs') | (Inr (n, ev), runs') \<Rightarrow> (ev, runs'))"
| "store_exec (StRemove env ids) runs =
     (case removeDelegationRunsByID env ids runs of (Inl e, runs') \<Rightarrow> ([], runs') | (Inr (rm, ev, n), runs') \<Rightarrow> (rm @ ev, runs'))"

text \<open>
  Every operation that changes the file first changes rows in memory, and then saves what fits. The rows in
  memory are described by a step of their own.
\<close>

inductive rows_step :: "delegation_run list \<Rightarrow> delegation_run list \<Rightarrow> delegation_run list \<Rightarrow> bool" where
  rows_add: "first_conflict r runs = None \<Longrightarrow> rows_step runs [] (newest_first (runs @ [r]))"
| rows_finish: "find (\<lambda>x. dr_id x = i) runs = Some r \<Longrightarrow> row_live r \<Longrightarrow> delegationRunTerminal status \<Longrightarrow>
    (case patch of None \<Rightarrow> True | Some f \<Rightarrow> patch_ok f) \<Longrightarrow>
    rows_step runs [] (upd_first (\<lambda>x. dr_id x = i) (\<lambda>_. finished_row now status et err patch r) runs)"
| rows_progress: "patch_ok f \<Longrightarrow> rows_step runs [] (upd_first (\<lambda>r. dr_id r = i \<and> row_live r) f runs)"
| rows_interrupt: "rows_step runs [] (map (interrupted now) runs)"
| rows_remove: "rows_step runs (snd (splitDelegationRunsByID runs ids)) (fst (splitDelegationRunsByID runs ids))"

lemma save_cases:
  assumes "saveDelegationRunsRaw env rows = Inr (evicted, kept)"
  shows "evicts (newest_first rows) [] kept evicted" "length kept \<le> maxDelegationRuns"
    "env_size env kept + 1 \<le> maxDelegationRunFile"
  using assms fit_fits [where size_of = "env_size env" and runs = rows]
  by (auto simp: saveDelegationRunsRaw_def split: option.splits if_splits prod.splits)

lemma store_exec_cases:
  assumes "store_op_ok a" "store_exec a runs = (gone, runs')"
  obtains "gone = []" "runs' = runs"
  | env rows gone1 evicted where "rows_step runs gone1 rows" "saveDelegationRunsRaw env rows = Inr (evicted, runs')"
      "gone = gone1 @ evicted" "gone1 = [] \<or> (\<exists>env ids. a = StRemove env ids)"
proof (cases a)
  case (StAppend env r)
  show thesis
  proof (cases "env_load env \<and> first_conflict r runs = None")
    case True
    with assms(2) StAppend that rows_add [of r runs] show thesis
      by (auto simp: appendDelegationRun_def split: sum.splits prod.splits)
  qed (use assms(2) StAppend that(1) in \<open>auto simp: appendDelegationRun_def split: option.splits if_splits\<close>)
next
  case (StFinish env now i status et err patch)
  show thesis
  proof (cases "delegationRunTerminal status \<and> env_load env \<and> (\<exists>r. find (\<lambda>r. dr_id r = i) runs = Some r \<and> row_live r)")
    case True
    then obtain r where r: "delegationRunTerminal status" "env_load env" "find (\<lambda>r. dr_id r = i) runs = Some r" "row_live r" by auto
    let ?rows = "upd_first (\<lambda>x. dr_id x = i) (\<lambda>_. finished_row now status et err patch r) runs"
    have "rows_step runs [] ?rows" using r assms(1) StFinish by (intro rows_finish) auto
    with assms(2) StFinish that r show thesis
      by (auto simp: finishDelegationRun_def row_live_def Let_def split: sum.splits prod.splits)
  qed (use assms(2) StFinish that(1) in \<open>auto simp: finishDelegationRun_def fin_fail_def row_live_def split: option.splits if_splits\<close>)
next
  case (StProgress env i f)
  show thesis
  proof (cases "env_load env \<and> list_ex (\<lambda>r. dr_id r = i \<and> \<not> final r) runs")
    case True
    have "rows_step runs [] (upd_first (\<lambda>r. dr_id r = i \<and> \<not> final r) f runs)"
      using rows_progress [of f runs i] assms(1) StProgress by (simp add: row_live_def)
    with assms(2) StProgress that True show thesis
      by (auto simp: updateDelegationRunProgress_def split: sum.splits prod.splits)
  qed (use assms(2) StProgress that(1) in \<open>auto simp: updateDelegationRunProgress_def split: if_splits\<close>)
next
  case (StReconcile env now)
  show thesis
  proof (cases "env_load env \<and> filter (\<lambda>r. \<not> final r) runs \<noteq> []")
    case True
    with assms(2) StReconcile that rows_interrupt [of runs now] show thesis
      by (auto simp: reconcileInterruptedDelegationRuns_def Let_def split: sum.splits prod.splits)
  qed (use assms(2) StReconcile that(1) in \<open>auto simp: reconcileInterruptedDelegationRuns_def Let_def split: if_splits\<close>)
next
  case (StRemove env ids)
  show thesis
  proof (cases "ids \<noteq> [] \<and> env_load env \<and> snd (splitDelegationRunsByID runs ids) \<noteq> []")
    case True
    with assms(2) StRemove that rows_remove [of runs ids] show thesis
      by (auto simp: removeDelegationRunsByID_def split: sum.splits prod.splits option.splits)
  qed (use assms(2) StRemove that(1) in \<open>auto simp: removeDelegationRunsByID_def split: if_splits prod.splits\<close>)
qed

subsection \<open>One identity, one live run for a target\<close>

definition busy :: "delegation_run \<Rightarrow> bool" where
  "busy r \<longleftrightarrow> row_live r \<and> dr_to_project r \<noteq> []"

definition store_ok :: "delegation_run list \<Rightarrow> bool" where
  "store_ok rs \<longleftrightarrow> distinct (map dr_id rs) \<and> distinct (map dr_to_project (filter busy rs))"

lemma distinct_iff_count: "distinct xs \<longleftrightarrow> (\<forall>a. count (mset xs) a \<le> 1)"
proof (induction xs)
  case (Cons x xs)
  have "(\<forall>a. count (mset (x # xs)) a \<le> 1) \<longleftrightarrow> count (mset xs) x = 0 \<and> (\<forall>a. count (mset xs) a \<le> 1)"
    by (auto simp: le_Suc_eq)
  with Cons show ?case by simp
qed simp

lemma distinct_map_submset:
  assumes "mset ys \<subseteq># mset xs" "distinct (map f xs)"
  shows "distinct (map f ys)"
proof -
  have "mset (map f ys) \<subseteq># mset (map f xs)" using image_mset_subseteq_mono [OF assms(1)] by simp
  then have "count (mset (map f ys)) a \<le> count (mset (map f xs)) a" for a by (rule mset_subset_eq_count)
  with assms(2) show ?thesis unfolding distinct_iff_count by (meson le_trans)
qed

lemma store_ok_submset:
  assumes "mset (map dr_id ys) = mset (map dr_id xs)" "mset (filter busy ys) \<subseteq># mset (filter busy xs)" "store_ok xs"
  shows "store_ok ys"
  unfolding store_ok_def
proof
  show "distinct (map dr_id ys)"
    using mset_eq_imp_distinct_iff [OF assms(1)] assms(3) by (simp add: store_ok_def)
  show "distinct (map dr_to_project (filter busy ys))"
    by (rule distinct_map_submset [OF assms(2)]) (use assms(3) in \<open>simp add: store_ok_def\<close>)
qed

lemma store_ok_sub: "mset ys \<subseteq># mset xs \<Longrightarrow> store_ok xs \<Longrightarrow> store_ok ys"
  using distinct_map_submset [of ys xs dr_id] distinct_map_submset [of "filter busy ys" "filter busy xs" dr_to_project]
  by (simp add: store_ok_def multiset_filter_mono)

lemma upd_first_filter_out:
  "(\<And>x. find P xs = Some x \<Longrightarrow> \<not> Q (f x)) \<Longrightarrow> mset (filter Q (upd_first P f xs)) \<subseteq># mset (filter Q xs)"
proof (induction xs)
  case (Cons x xs)
  have "A \<subseteq># add_mset x A" for A by simp
  with Cons show ?case by (cases "P x") (auto dest: subset_mset.order_trans)
qed simp

lemma finished_row_keeps:
  assumes "case patch of None \<Rightarrow> True | Some f \<Rightarrow> patch_ok f"
  shows "dr_id (finished_row now status et err patch r) = dr_id r" "dr_status (finished_row now status et err patch r) = status"
    "dr_to_project (finished_row now status et err patch r) = dr_to_project r"
  using assms by (auto simp: finished_row_def Let_def patch_ok_def split: option.splits)

lemma first_conflict_None:
  "first_conflict r runs = None \<Longrightarrow>
   dr_id r \<notin> dr_id ` set runs \<and> (\<forall>x\<in>set runs. busy x \<longrightarrow> dr_to_project x \<noteq> dr_to_project r)"
  by (induction runs) (auto simp: run_conflict_def busy_def row_live_def split: if_splits option.splits)

lemma map_filter_upd_first:
  assumes "\<And>x. g (f x) = g x"
  shows "map g (upd_first P f xs) = map g xs" "(\<And>x. Q (f x) = Q x) \<Longrightarrow> map g (filter Q (upd_first P f xs)) = map g (filter Q xs)"
  by (induction xs) (auto simp: assms)

lemma rows_step_ok: "rows_step runs gone rows \<Longrightarrow> store_ok runs \<Longrightarrow> store_ok rows"
proof (induction rule: rows_step.induct)
  case (rows_add r runs)
  have "store_ok (r # runs)"
    using rows_add(2) first_conflict_None [OF rows_add(1)] by (auto simp: store_ok_def)
  then show ?case by (rule store_ok_sub [rotated]) (simp add: newest_first_props)
next
  case (rows_finish i runs r status patch now et err)
  let ?f = "\<lambda>_::delegation_run. finished_row now status et err patch r"
  have f: "dr_id (?f r) = dr_id r" "\<not> busy (?f r)"
    using finished_row_keeps [OF rows_finish(4), of now status et err r] rows_finish(3)
    by (auto simp: busy_def row_live_def final_def)
  have m: "map dr_id (upd_first (\<lambda>x. dr_id x = i) ?f runs) = map dr_id runs"
    using rows_finish(1) f(1) by (intro map_upd_first_found) auto
  have "mset (filter busy (upd_first (\<lambda>x. dr_id x = i) ?f runs)) \<subseteq># mset (filter busy runs)"
    using f(2) by (intro upd_first_filter_out)
  from store_ok_submset [OF _ this rows_finish(5)] show ?case by (simp only: m)
next
  case (rows_progress f runs i)
  then have "\<And>x. dr_id (f x) = dr_id x" "\<And>x. dr_to_project (f x) = dr_to_project x" "\<And>x. busy (f x) = busy x"
    by (simp_all add: patch_ok_def busy_def row_live_def final_def)
  then show ?case
    using rows_progress(2) map_filter_upd_first(1) [of dr_id f] map_filter_upd_first(2) [of dr_to_project f busy]
    by (simp add: store_ok_def)
next
  case (rows_interrupt runs now)
  have "filter busy (map (interrupted now) runs) = []"
    by (auto simp: filter_empty_conv busy_def row_live_def interrupted_def final_def delegationRunTerminal_def)
  moreover have "dr_id \<circ> interrupted now = dr_id" by (auto simp: interrupted_def)
  ultimately show ?case using rows_interrupt by (simp add: store_ok_def)
next
  case (rows_remove runs ids)
  show ?case
    by (rule store_ok_sub [OF _ rows_remove]) (simp add: splitDelegationRunsByID_def)
qed

lemma store_exec_ok:
  assumes "store_op_ok a" "store_exec a runs = (gone, runs')" "store_ok runs" "length runs \<le> maxDelegationRuns"
  shows "store_ok runs' \<and> length runs' \<le> maxDelegationRuns"
  using assms(1,2)
proof (cases rule: store_exec_cases)
  case (2 env rows gone1 evicted)
  have "mset runs' + mset evicted = mset rows"
    using save_cases(1) [OF 2(2)] by (simp add: evicts_def newest_first_props)
  then have "mset runs' \<subseteq># mset rows" by (metis mset_subset_eq_add_left)
  with rows_step_ok [OF 2(1) assms(3)] save_cases(2) [OF 2(2)] show ?thesis using store_ok_sub by blast
qed (use assms in auto)

text \<open>
  C28: The store of delegations. Whatever operations append, finish, update, reconcile and remove rows, and
  whichever reads and writes of the file fail, the identifiers of the rows are distinct, no project is the
  target of two running delegations, and there are at most 200 rows.
\<close>
theorem delegation_store_invariant:
  assumes "\<forall>a\<in>set ops. store_op_ok a" "foldl (\<lambda>rs a. snd (store_exec a rs)) [] ops = runs"
  shows "distinct (map dr_id runs) \<and> length runs \<le> 200 \<and>
    (\<forall>p. p \<noteq> [] \<longrightarrow> length (filter (\<lambda>r. row_live r \<and> dr_to_project r = p) runs) \<le> 1)"
proof -
  have "store_ok runs \<and> length runs \<le> maxDelegationRuns"
    using assms
  proof (induction ops arbitrary: runs rule: rev_induct)
    case Nil
    then show ?case by (simp add: store_ok_def)
  next
    case (snoc a ops)
    let ?r = "foldl (\<lambda>rs a. snd (store_exec a rs)) [] ops"
    from snoc have "store_ok ?r \<and> length ?r \<le> maxDelegationRuns" by simp
    moreover have "store_exec a ?r = (fst (store_exec a ?r), runs)" using snoc.prems(2) by auto
    ultimately show ?case using store_exec_ok [of a ?r] snoc.prems(1) by auto
  qed
  moreover have "length (filter (\<lambda>r. row_live r \<and> dr_to_project r = p) runs) \<le> 1" if "store_ok runs" "p \<noteq> []" for p
  proof -
    have "filter (\<lambda>r. row_live r \<and> dr_to_project r = p) runs = filter (\<lambda>r. dr_to_project r = p) (filter busy runs)"
      using that(2) by (auto simp: busy_def intro: filter_cong)
    moreover have "distinct (map dr_to_project (filter busy runs))" using that(1) by (simp add: store_ok_def)
    then have "count (mset (map dr_to_project (filter busy runs))) p \<le> 1" unfolding distinct_iff_count by blast
    then have "length (filter (\<lambda>x. p = x) (map dr_to_project (filter busy runs))) \<le> 1" unfolding count_mset count_list_eq_length_filter .
    ultimately show ?thesis by (simp add: filter_map comp_def eq_commute [of p])
  qed
  ultimately show ?thesis by (auto simp: store_ok_def maxDelegationRuns_def)
qed

definition perfect_env :: store_env where
  "perfect_env = \<lparr>env_size = length, env_load = True, env_save = True\<rparr>"

definition sample_store_ops :: "store_op list" where
  "sample_store_ops =
     [StAppend perfect_env (sample_run ''1'' ''running'' ''b'' 1), StAppend perfect_env (sample_run ''2'' ''running'' ''b'' 2),
      StFinish perfect_env 5 ''1'' ''stopped'' ''cancelled'' None None,
      StAppend perfect_env (sample_run ''3'' ''running'' ''b'' 3)]"

lemma delegation_store_invariant_witness:
  "\<exists>runs. foldl (\<lambda>rs a. snd (store_exec a rs)) [] sample_store_ops = runs \<and> length runs \<le> 200 \<and>
     length (filter (\<lambda>r. row_live r \<and> dr_to_project r = ''b'') runs) \<le> 1"
proof -
  have "\<forall>a\<in>set sample_store_ops. store_op_ok a" by (simp add: sample_store_ops_def)
  from delegation_store_invariant [OF this refl] show ?thesis by auto
qed

subsection \<open>Final rows stay, running rows are not lost\<close>

lemma upd_first_other: "find P xs = Some x \<Longrightarrow> y \<in> set xs \<Longrightarrow> y \<noteq> x \<Longrightarrow> y \<in> set (upd_first P f xs)"
  by (induction xs) (auto split: if_splits)

lemma upd_first_image: "y \<in> set xs \<Longrightarrow> y \<in> set (upd_first P f xs) \<or> find P xs = Some y \<and> f y \<in> set (upd_first P f xs)"
  by (induction xs) auto

definition same_run :: "delegation_run \<Rightarrow> delegation_run \<Rightarrow> bool" where
  "same_run r r' \<longleftrightarrow> dr_id r' = dr_id r \<and> dr_to_project r' = dr_to_project r"

lemma rows_step_keeps:
  "rows_step runs gone rows \<Longrightarrow> r \<in> set runs \<Longrightarrow>
   r \<in> set rows \<or> r \<in> set gone \<or> row_live r \<and> (\<exists>r'\<in>set rows. same_run r r')"
proof (induction rule: rows_step.induct)
  case (rows_add r' runs)
  then show ?case using mset_eq_setD [OF newest_first_props(2) [of "runs @ [r']"]] by auto
next
  case (rows_finish i runs r0 status patch now et err)
  from upd_first_image [OF rows_finish(5), of "\<lambda>x. dr_id x = i" "\<lambda>_. finished_row now status et err patch r0"] rows_finish(1,2)
    finished_row_keeps [OF rows_finish(4), of now status et err r0]
  show ?case by (auto simp: same_run_def)
next
  case (rows_progress f runs i)
  from upd_first_image [OF rows_progress(2), of "\<lambda>r. dr_id r = i \<and> row_live r" f] rows_progress(1)
  show ?case by (auto simp: same_run_def patch_ok_def dest: find_mem)
next
  case (rows_interrupt runs now)
  have "same_run r (interrupted now r)" "final r \<Longrightarrow> interrupted now r = r" by (auto simp: same_run_def interrupted_def)
  with rows_interrupt show ?case by (cases "final r") (force simp: row_live_def)+
next
  case (rows_remove runs ids)
  then show ?case by (auto simp: splitDelegationRunsByID_def)
qed

text \<open>
  C29: A row in a final state is never changed again, so a completion that races with a cancellation does not
  overwrite it; and no row is lost silently. Whatever operation runs and whatever read or write fails, a final
  row is still there as it was or is reported gone; a running row is still there, changed at most, or the
  operation reports it gone, which happens only to one it has just made final or was told to remove.
\<close>
theorem final_rows_stay:
  assumes "store_op_ok a" "store_exec a runs = (gone, runs')" "r \<in> set runs"
  shows "if final r then r \<in> set runs' \<or> r \<in> set gone
    else (\<exists>r'. same_run r r' \<and> (r' \<in> set runs' \<or> r' \<in> set gone \<and> (final r' \<or> (\<exists>env ids. a = StRemove env ids))))"
  using assms(1,2)
proof (cases rule: store_exec_cases)
  case 1
  with assms(3) show ?thesis by (auto simp: same_run_def)
next
  case (2 env rows gone1 evicted)
  have m: "mset runs' + mset evicted = mset rows"
    using save_cases(1) [OF 2(2)] by (simp add: evicts_def newest_first_props)
  then have rows: "set rows = set runs' \<union> set evicted" by (metis set_mset_mset set_mset_union)
  have ev: "\<forall>e\<in>set evicted. final e" using save_cases(1) [OF 2(2)] by (simp add: evicts_def)
  from rows_step_keeps [OF 2(1) assms(3)] show ?thesis
    using rows ev 2(3,4) by (auto simp: row_live_def same_run_def)
qed

lemma final_rows_stay_witness:
  "\<exists>gone runs'. store_exec (StFinish perfect_env 9 ''1'' ''completed'' [] None None) [sample_run ''1'' ''stopped'' ''b'' 1] = (gone, runs') \<and>
     (sample_run ''1'' ''stopped'' ''b'' 1 \<in> set runs' \<or> sample_run ''1'' ''stopped'' ''b'' 1 \<in> set gone) \<and> gone = []"
proof -
  let ?r = "sample_run ''1'' ''stopped'' ''b'' 1"
  have f: "final ?r" by (simp add: final_def delegationRunTerminal_def)
  have e: "store_exec (StFinish perfect_env 9 ''1'' ''completed'' [] None None) [?r] = ([], [?r])"
    by (simp add: finishDelegationRun_def perfect_env_def delegationRunTerminal_def final_def)
  from final_rows_stay [OF _ e, of ?r] f e show ?thesis by simp
qed

end
