(* ===== verification/DelegationSteps.thy ===== *)
theory DelegationSteps
  imports Delegation DelegationRunsProps
begin

section \<open>Delegations interleaved\<close>

text \<open>
  The studio with its threads: monitors, starts that go wrong, and cancellations. A thread does one critical
  section in a step, and between two steps of a thread any other may run; children end at any time, reads
  and writes of the file fail at any time, and cancellations of any run start at any time. Identifiers of
  runs and sessions are drawn fresh. The flag of a step says that its access to the store works and evicts
  nothing. The end of the studio itself, at which monitors leave and all sessions are stopped, is not a step.
\<close>

subsection \<open>Threads\<close>

datatype thread =
    Monitoring delegation_run
  | Finalizing delegation_run string string string "string option"
  | Finalized delegation_run finish_result
  | Failing delegation_run
  | Exiting delegation_run
  | Aborting delegation_run string string
  | Aborted delegation_run finish_result
  | Cancelling string "delegation_handle option" bool
  | Cancelled string "delegation_handle option" bool finish_result

type_synonym world = "studio \<times> thread multiset"

text \<open>The run a thread works for; a cancellation only has its identifier.\<close>

fun run_of :: "thread \<Rightarrow> delegation_run option" where
  "run_of (Monitoring r) = Some r"
| "run_of (Finalizing r ans st et e) = Some r"
| "run_of (Finalized r res) = Some r"
| "run_of (Failing r) = Some r"
| "run_of (Exiting r) = Some r"
| "run_of (Aborting r st et) = Some r"
| "run_of (Aborted r res) = Some r"
| "run_of (Cancelling i h n) = None"
| "run_of (Cancelled i h n res) = None"

fun id_of :: "thread \<Rightarrow> string" where
  "id_of (Cancelling i h n) = i"
| "id_of (Cancelled i h n res) = i"
| "id_of t = dr_id (the (run_of t))"

definition fresh_run :: "string \<Rightarrow> world \<Rightarrow> bool" where
  "fresh_run i w \<longleftrightarrow> owner_of (fst w) i = None \<and> i \<notin> id_of ` set_mset (snd w) \<and> i \<notin> dr_id ` set (sd_runs (fst w)) \<and>
     i \<notin> dr_id ` set (sd_events (fst w))"

definition fresh_session :: "string \<Rightarrow> world \<Rightarrow> bool" where
  "fresh_session x w \<longleftrightarrow> x \<notin> set (sd_running (fst w)) \<and>
     (\<forall>t r. t \<in># snd w \<longrightarrow> run_of t = Some r \<longrightarrow> dr_to_session r \<noteq> x) \<and>
     (\<forall>i h. owner_of (fst w) i = Some h \<longrightarrow> dh_reserved h \<or> dh_to_session h \<noteq> x)"

definition env_works :: "store_env \<Rightarrow> bool" where
  "env_works env \<longleftrightarrow> env_load env \<and> env_save env"

definition no_loss :: "studio \<Rightarrow> studio \<Rightarrow> bool" where
  "no_loss s s' \<longleftrightarrow> dr_id ` set (sd_runs s) \<subseteq> dr_id ` set (sd_runs s')"

definition finish_works :: "finish_result \<Rightarrow> studio \<Rightarrow> studio \<Rightarrow> bool" where
  "finish_works res s s' \<longleftrightarrow> fin_error res = None \<and> no_loss s s'"

definition thread_after :: "delegation_run \<Rightarrow> monitor_action \<Rightarrow> thread" where
  "thread_after run a =
     (case a of
        KeepWatching \<Rightarrow> Monitoring run
      | PublishProgress \<Rightarrow> Monitoring run
      | LeaveMonitor \<Rightarrow> Exiting run
      | StorageTrouble why \<Rightarrow> Failing run
      | FinalizeRun stop answer st et e \<Rightarrow> Finalizing run answer st et e)"

definition studio_after :: "delegation_run \<Rightarrow> monitor_action \<Rightarrow> studio \<Rightarrow> studio" where
  "studio_after run a s =
     (case a of FinalizeRun True answer st et e \<Rightarrow> stop_child (dr_to_session run) s | _ \<Rightarrow> s)"

definition a_is_trouble :: "monitor_action \<Rightarrow> bool" where
  "a_is_trouble a \<longleftrightarrow> (\<exists>why. a = StorageTrouble why)"

inductive dstep :: "bool \<Rightarrow> world \<Rightarrow> world \<Rightarrow> bool" where
  d_publish: "publishAndStartDelegation env run reserved start s = ((evicted, True, err), s') \<Longrightarrow>
    (if reserved then owner_of s (dr_id run) \<noteq> None \<and> dr_id run \<notin> dr_id ` set (sd_events s) \<and> dr_id run \<notin> id_of ` set_mset T
     else fresh_run (dr_id run) (s, T)) \<Longrightarrow>
    fresh_session (dr_to_session run) (s, T) \<Longrightarrow> row_live run \<Longrightarrow>
    dstep (no_loss s s') (s, T) (s', add_mset (if err = None then Monitoring run else Aborting run ''error'' ''busy'') T)"
| d_refuse: "publishAndStartDelegation env run reserved start s = ((evicted, False, err), s') \<Longrightarrow> dstep True (s, T) (s', T)"
| d_reserve: "reserveDelegationBatch ids from session batch targets s = (r, s') \<Longrightarrow> length ids = length targets \<Longrightarrow> distinct ids \<Longrightarrow>
    \<forall>i\<in>set ids. fresh_run i (s, T) \<Longrightarrow> dstep True (s, T) (s', T)"
| d_withdraw: "dstep True (s, T) (releaseDelegationReservation i s, T)"
| d_child_ends: "dstep True (s, T) (stop_child x s, T)"
| d_no_monitor: "dstep True (s, add_mset (Monitoring run) T)
    (stop_child (dr_to_session run) s, add_mset (Aborting run ''stopped'' ''cancelled'') T)"
| d_look: "cv_running cv \<longleftrightarrow> dr_to_session run \<in> set (sd_running s) \<Longrightarrow> monitor_look env cv run s = a \<Longrightarrow>
    dstep (\<not> a_is_trouble a) (s, add_mset (Monitoring run) T) (studio_after run a s, add_mset (thread_after run a) T)"
| d_progress: "monitor_progress env env2 tail run s = (a, s') \<Longrightarrow>
    dstep (\<not> a_is_trouble a \<and> no_loss s s') (s, add_mset (Monitoring run) T) (s', add_mset (thread_after run a) T)"
| d_finalize: "finalize_commit env now run answer denied tail mutated usage st et e s = (res, s') \<Longrightarrow>
    dstep (finish_works res s s') (s, add_mset (Finalizing run answer st et e) T) (s', add_mset (Finalized run res) T)"
| d_finalized: "dstep True (s, add_mset (Finalized run res) T)
    (finalize_effects redact now mutated tail run res s, add_mset (Exiting run) T)"
| d_failing: "dstep True (s, add_mset (Failing run) T)
    (snd (failDelegationForStorage redact now why mutated tail run s), add_mset (Exiting run) T)"
| d_exit: "dstep True (s, add_mset (Exiting run) T) (releaseDelegationOwner run s, T)"
| d_abort: "finishDelegationRun env now (dr_id run) st et e None (sd_runs s) = (res, rs) \<Longrightarrow>
    dstep (finish_works res s (s\<lparr>sd_runs := rs\<rparr>)) (s, add_mset (Aborting run st et) T)
      (s\<lparr>sd_runs := rs\<rparr>, add_mset (Aborted run res) T)"
| d_aborted: "dstep True (s, add_mset (Aborted run res) T) (abort_effects redact now run res s, T)"
| d_cancel: "cancel_look i s = (Some h, s') \<Longrightarrow> dstep True (s, T) (s', add_mset (Cancelling i h notify) T)"
| d_cancel_reserved: "cancel_look i s = (None, s') \<Longrightarrow> dstep True (s, T) (s', T)"
| d_cancel_commit: "cancel_row env now i mutated s = (res, s') \<Longrightarrow>
    dstep (finish_works res s s') (s, add_mset (Cancelling i h notify) T) (s', add_mset (Cancelled i h notify res) T)"
| d_cancelled: "cancel_effects redact now i notify mutated h res s = (err, s') \<Longrightarrow>
    dstep True (s, add_mset (Cancelled i h notify res) T) (s', T)"

inductive drun :: "bool \<Rightarrow> world \<Rightarrow> world \<Rightarrow> bool" where
  drun_start: "drun True w w"
| drun_step: "drun b w w' \<Longrightarrow> dstep c w' w'' \<Longrightarrow> drun (b \<and> c) w w''"

definition empty_studio :: studio where
  "empty_studio = \<lparr>sd_registry = [], sd_runs = [], sd_running = [], sd_events = []\<rparr>"

subsection \<open>What the operations change\<close>

lemma owner_simps [simp]:
  "owner_of (set_owner i h s) j = (if j = i then Some h else owner_of s j)"
  "owner_of (drop_owner i s) j = (if j = i then None else owner_of s j)"
  "owner_of (stop_child x s) j = owner_of s j"
  "owner_of (emitDelegationTerminal r s) j = owner_of s j"
  "owner_of (s\<lparr>sd_runs := rs\<rparr>) j = owner_of s j"
  "owner_of (s\<lparr>sd_running := xs\<rparr>) j = owner_of s j"
  by (auto simp: owner_of_def set_owner_def drop_owner_def stop_child_def emitDelegationTerminal_def AList.update_conv' AList.delete_conv')

lemma running_simps [simp]:
  "sd_running (set_owner i h s) = sd_running s" "sd_running (drop_owner i s) = sd_running s"
  "sd_running (emitDelegationTerminal r s) = sd_running s" "set (sd_running (stop_child x s)) = set (sd_running s) - {x}"
  by (auto simp: set_owner_def drop_owner_def stop_child_def emitDelegationTerminal_def)

lemma runs_simps [simp]:
  "sd_runs (set_owner i h s) = sd_runs s" "sd_runs (drop_owner i s) = sd_runs s"
  "sd_runs (emitDelegationTerminal r s) = sd_runs s" "sd_runs (stop_child x s) = sd_runs s"
  by (simp_all add: set_owner_def drop_owner_def stop_child_def emitDelegationTerminal_def)

lemma events_simps [simp]:
  "sd_events (set_owner i h s) = sd_events s" "sd_events (drop_owner i s) = sd_events s"
  "sd_events (emitDelegationTerminal r s) = sd_events s @ [r]" "sd_events (stop_child x s) = sd_events s"
  by (simp_all add: set_owner_def drop_owner_def stop_child_def emitDelegationTerminal_def)

subsection \<open>Rows becoming final\<close>

definition is_final :: "studio \<Rightarrow> string \<Rightarrow> bool" where
  "is_final s i \<longleftrightarrow> (\<exists>r\<in>set (sd_runs s). dr_id r = i \<and> final r)"

lemma is_final_simps [simp]:
  "is_final (set_owner i h s) = is_final s" "is_final (drop_owner i s) = is_final s"
  "is_final (emitDelegationTerminal r s) = is_final s" "is_final (stop_child x s) = is_final s"
  by (auto simp: is_final_def fun_eq_iff)

text \<open>What an access to the store may do to the rows: of the identifiers in \<open>I\<close> some may become final.\<close>

definition rows_change :: "string set \<Rightarrow> delegation_run list \<Rightarrow> delegation_run list \<Rightarrow> bool" where
  "rows_change I rs rs' \<longleftrightarrow>
     (\<forall>r'\<in>set rs'. (\<exists>r\<in>set rs. dr_id r = dr_id r' \<and> (final r' \<longrightarrow> final r \<or> dr_id r' \<in> I)))"

lemma rows_change_refl [simp]: "rows_change I rs rs"
  by (auto simp: rows_change_def)

lemma rows_change_final:
  "rows_change I (sd_runs s) rs' \<Longrightarrow> is_final (s\<lparr>sd_runs := rs'\<rparr>) i \<Longrightarrow> is_final s i \<or> i \<in> I"
  by (auto simp: rows_change_def is_final_def)

lemma save_subset: "saveDelegationRunsRaw env rows = Inr (evicted, kept) \<Longrightarrow> set kept \<subseteq> set rows"
proof -
  assume a: "saveDelegationRunsRaw env rows = Inr (evicted, kept)"
  have "mset kept + mset evicted = mset rows"
    using save_cases(1) [OF a] by (simp add: evicts_def newest_first_props)
  then show ?thesis by (metis Un_upper1 set_mset_mset set_mset_union)
qed

lemma upd_first_rows_change:
  assumes "\<And>x. find P rs = Some x \<Longrightarrow> dr_id (f x) = dr_id x \<and> (final (f x) \<longrightarrow> final x \<or> dr_id x \<in> I)"
  shows "rows_change I rs (upd_first P f rs)"
  using assms
proof (induction rs)
  case (Cons r rs)
  then show ?case by (cases "P r") (auto simp: rows_change_def)
qed (simp add: rows_change_def)

lemma rows_change_sub: "rows_change I rs rows \<Longrightarrow> set kept \<subseteq> set rows \<Longrightarrow> rows_change I rs kept"
  by (auto simp: rows_change_def)

definition patch_fine :: "(delegation_run \<Rightarrow> delegation_run) option \<Rightarrow> bool" where
  "patch_fine patch \<longleftrightarrow> (case patch of None \<Rightarrow> True | Some f \<Rightarrow> patch_ok f)"

lemma finish_cases:
  assumes "finishDelegationRun env now i st et e patch runs = (res, rs)" "patch_fine patch"
  obtains "rs = runs" "\<not> fin_changed res"
      "fin_error res = None \<longrightarrow> (\<exists>r\<in>set runs. dr_id r = i \<and> final r \<and> fin_run res = Some r)"
      "fin_run res = None \<or> dr_id (the (fin_run res)) = i"
  | r r' where "r \<in> set runs" "dr_id r = i" "row_live r" "fin_changed res" "fin_error res = None" "fin_run res = Some r'"
      "same_run r r'" "final r'" "rows_change {i} runs rs" "set rs \<subseteq> set (upd_first (\<lambda>x. dr_id x = i) (\<lambda>_. r') runs)"
      "find (\<lambda>r. dr_id r = i) runs = Some r"
proof (cases "delegationRunTerminal st \<and> env_load env")
  case False
  with assms(1) that(1) show thesis by (auto simp: finishDelegationRun_def fin_fail_def split: if_splits)
next
  case ok: True
  show thesis
  proof (cases "find (\<lambda>r. dr_id r = i) runs")
    case None
    with assms(1) ok that(1) show thesis by (auto simp: finishDelegationRun_def fin_fail_def)
  next
    case (Some r)
    then have r: "r \<in> set runs" "dr_id r = i" using find_mem by fastforce+
    show thesis
    proof (cases "final r")
      case True
      with assms(1) ok Some r that(1) show thesis by (auto simp: finishDelegationRun_def)
    next
      case False
      let ?r = "finished_row now st et e patch r"
      have f: "dr_id ?r = i" "dr_status ?r = st" "dr_to_project ?r = dr_to_project r"
        using finished_row_keeps [of patch now st et e r] assms(2) r(2) by (auto simp: patch_fine_def)
      show thesis
      proof (cases "saveDelegationRunsRaw env (upd_first (\<lambda>x. dr_id x = i) (\<lambda>_. ?r) runs)")
        case (Inl er)
        with assms(1) ok Some False f that(1) show thesis by (auto simp: finishDelegationRun_def Let_def)
      next
        case (Inr p)
        obtain ev kept where p: "p = (ev, kept)" by fastforce
        have "rows_change {i} runs (upd_first (\<lambda>x. dr_id x = i) (\<lambda>_. ?r) runs)"
          by (rule upd_first_rows_change) (use Some f r in auto)
        then have "rows_change {i} runs kept" using rows_change_sub save_subset Inr p by blast
        moreover have "final ?r" using f ok by (simp add: final_def)
        ultimately show thesis
          using assms(1) ok Some False Inr p f r save_subset [OF Inr [unfolded p]] that(2) [of r ?r]
          by (auto simp: finishDelegationRun_def Let_def row_live_def same_run_def)
      qed
    qed
  qed
qed

lemma finish_rows_change:
  "finishDelegationRun env now i st et e patch runs = (res, rs) \<Longrightarrow> patch_fine patch \<Longrightarrow> rows_change {i} runs rs"
  by (erule finish_cases) auto

lemma progress_rows_change:
  assumes "updateDelegationRunProgress env i (Some f) runs = (x, rs)" "patch_ok f"
  shows "rows_change {} runs rs"
proof (cases "saveDelegationRunsRaw env (upd_first (\<lambda>r. dr_id r = i \<and> \<not> final r) f runs)")
  case (Inl e)
  with assms(1) show ?thesis by (auto simp: updateDelegationRunProgress_def split: if_splits)
next
  case (Inr p)
  obtain ev kept where p: "p = (ev, kept)" by fastforce
  have "rows_change {} runs (upd_first (\<lambda>r. dr_id r = i \<and> \<not> final r) f runs)"
    by (rule upd_first_rows_change) (use assms(2) in \<open>auto simp: patch_ok_def final_def\<close>)
  then have "rows_change {} runs kept" using rows_change_sub save_subset Inr p by blast
  with assms(1) Inr p show ?thesis by (auto simp: updateDelegationRunProgress_def split: if_splits)
qed

lemma append_rows:
  assumes "appendDelegationRun env run runs = (Inr evicted, rs)"
  shows "set rs \<subseteq> insert run (set runs)" "dr_id run \<notin> dr_id ` set runs"
proof -
  from assms have c: "first_conflict run runs = None"
    and s: "saveDelegationRunsRaw env (newest_first (runs @ [run])) = Inr (evicted, rs)"
    by (auto simp: appendDelegationRun_def split: if_splits option.splits sum.splits)
  show "dr_id run \<notin> dr_id ` set runs" using first_conflict_None [OF c] by simp
  show "set rs \<subseteq> insert run (set runs)"
    using save_subset [OF s] mset_eq_setD [OF newest_first_props(2) [of "runs @ [run]"]] by auto
qed

lemma append_fails: "appendDelegationRun env run runs = (Inl e, rs) \<Longrightarrow> rs = runs"
  by (auto simp: appendDelegationRun_def split: if_splits option.splits sum.splits)

subsection \<open>No child without an owner\<close>

text \<open>A cancellation that has found a handle will stop its child.\<close>

definition stopping :: "thread multiset \<Rightarrow> string \<Rightarrow> delegation_handle \<Rightarrow> bool" where
  "stopping T i h \<longleftrightarrow> (\<exists>n. Cancelling i (Some h) n \<in># T) \<or> (\<exists>n res. Cancelled i (Some h) n res \<in># T)"

definition is_child :: "string \<Rightarrow> delegation_handle \<Rightarrow> bool" where
  "is_child i h \<longleftrightarrow> (\<exists>r. h = handle_of_run r \<and> dr_id r = i)"

text \<open>
  What holds of a thread: the owner under the identifier of its run is that of its run; a thread that makes
  a row final has an idle child; one that is about to release its owner has an idle child or leaves it to a
  cancellation; and a cancellation holds the owner that is registered, or there is none.
\<close>

fun cancel_ok :: "studio \<Rightarrow> string \<Rightarrow> delegation_handle option \<Rightarrow> bool" where
  "cancel_ok s i None \<longleftrightarrow> owner_of s i = None"
| "cancel_ok s i (Some g) \<longleftrightarrow> is_child i g \<and> (\<forall>h. owner_of s i = Some h \<longrightarrow> h = g)"

definition reports :: "string \<Rightarrow> finish_result \<Rightarrow> bool" where
  "reports i res \<longleftrightarrow> (\<forall>r. fin_run res = Some r \<longrightarrow> dr_id r = i)"

definition idle :: "studio \<Rightarrow> delegation_run \<Rightarrow> bool" where
  "idle s r \<longleftrightarrow> dr_to_session r \<notin> set (sd_running s)"

definition left_child :: "studio \<Rightarrow> thread multiset \<Rightarrow> delegation_run \<Rightarrow> bool" where
  "left_child s T r \<longleftrightarrow> (\<forall>h. owner_of s (dr_id r) = Some h \<longrightarrow> \<not> idle s r \<longrightarrow> stopping T (dr_id r) h)"

fun phase_ok :: "studio \<Rightarrow> thread multiset \<Rightarrow> thread \<Rightarrow> bool" where
  "phase_ok s T (Monitoring r) \<longleftrightarrow> True"
| "phase_ok s T (Failing r) \<longleftrightarrow> True"
| "phase_ok s T (Finalizing r ans st et e) \<longleftrightarrow> idle s r"
| "phase_ok s T (Finalized r res) \<longleftrightarrow> idle s r \<and> reports (dr_id r) res"
| "phase_ok s T (Aborting r st et) \<longleftrightarrow> idle s r"
| "phase_ok s T (Aborted r res) \<longleftrightarrow> idle s r \<and> reports (dr_id r) res"
| "phase_ok s T (Exiting r) \<longleftrightarrow> left_child s T r"
| "phase_ok s T (Cancelling i h n) \<longleftrightarrow> cancel_ok s i h"
| "phase_ok s T (Cancelled i h n res) \<longleftrightarrow> cancel_ok s i h \<and> reports i res"

definition owner_ok :: "studio \<Rightarrow> thread \<Rightarrow> bool" where
  "owner_ok s t \<longleftrightarrow> (\<forall>r h. run_of t = Some r \<longrightarrow> owner_of s (dr_id r) = Some h \<longrightarrow> h = handle_of_run r)"

definition thread_ok :: "studio \<Rightarrow> thread multiset \<Rightarrow> thread \<Rightarrow> bool" where
  "thread_ok s T t \<longleftrightarrow> owner_ok s t \<and> phase_ok s T t"

definition owned :: "studio \<Rightarrow> string \<Rightarrow> bool" where
  "owned s x \<longleftrightarrow> (\<exists>i h. owner_of s i = Some h \<and> \<not> dh_reserved h \<and> dh_to_session h = x)"

definition children_ok :: "world \<Rightarrow> bool" where
  "children_ok w \<longleftrightarrow> (case w of (s, T) \<Rightarrow>
     (\<forall>i h. owner_of s i = Some h \<longrightarrow> dh_reserved h \<or> is_child i h) \<and>
     (\<forall>t. t \<in># T \<longrightarrow> thread_ok s T t) \<and>
     (\<forall>x\<in>set (sd_running s). owned s x \<or> (\<exists>i h. stopping T i h \<and> dh_to_session h = x)) \<and>
     (\<forall>i h. is_final s i \<longrightarrow> owner_of s i = Some h \<longrightarrow> dh_to_session h \<in> set (sd_running s) \<longrightarrow> \<not> dh_reserved h \<longrightarrow> stopping T i h))"

lemma phase_frame:
  assumes own: "\<And>i h. owner_of s' i = Some h \<Longrightarrow> owner_of s i = Some h"
    and run: "set (sd_running s') \<subseteq> set (sd_running s)"
    and stop: "\<And>i h. stopping T i h \<Longrightarrow> dh_to_session h \<in> set (sd_running s') \<Longrightarrow> stopping T' i h"
    and old: "phase_ok s T t" and o: "owner_ok s t"
  shows "phase_ok s' T' t"
proof -
  have none: "owner_of s i = None \<Longrightarrow> owner_of s' i = None" for i using own by (cases "owner_of s' i") force+
  have idle: "idle s r \<Longrightarrow> idle s' r" for r using run unfolding idle_def by blast
  have canc: "cancel_ok s i h \<Longrightarrow> cancel_ok s' i h" for i h using none own by (cases h) auto
  have "left_child s' T' r" if l: "left_child s T r" and t: "t = Exiting r" for r
    unfolding left_child_def
  proof (intro allI impI)
    fix h assume h: "owner_of s' (dr_id r) = Some h" and r: "\<not> idle s' r"
    have "h = handle_of_run r" using o own [OF h] t by (simp add: owner_ok_def)
    then have "dh_to_session h \<in> set (sd_running s')" using r by (simp add: handle_of_run_def idle_def)
    moreover have "stopping T (dr_id r) h" using l own [OF h] idle r unfolding left_child_def by blast
    ultimately show "stopping T' (dr_id r) h" using stop by blast
  qed
  with old show ?thesis by (cases t) (simp_all add: idle canc)
qed

lemma children_frame:
  assumes inv: "children_ok (s, T)"
    and own: "\<And>i h. owner_of s' i = Some h \<Longrightarrow> owner_of s i = Some h"
    and run: "set (sd_running s') \<subseteq> set (sd_running s)"
    and fin: "\<And>i h. is_final s' i \<Longrightarrow> owner_of s' i = Some h \<Longrightarrow> dh_to_session h \<in> set (sd_running s') \<Longrightarrow> \<not> dh_reserved h \<Longrightarrow>
      is_final s i \<or> stopping T' i h"
    and drop: "\<And>i h. owner_of s i = Some h \<Longrightarrow> \<not> dh_reserved h \<Longrightarrow> owner_of s' i = None \<Longrightarrow>
      dh_to_session h \<in> set (sd_running s') \<Longrightarrow> stopping T' i h"
    and stop: "\<And>i h. stopping T i h \<Longrightarrow> dh_to_session h \<in> set (sd_running s') \<Longrightarrow> stopping T' i h"
    and thr: "\<And>t. t \<in># T' \<Longrightarrow> t \<in># T \<or> thread_ok s' T' t"
  shows "children_ok (s', T')"
proof -
  have reg: "\<forall>i h. owner_of s i = Some h \<longrightarrow> dh_reserved h \<or> is_child i h"
    and th: "\<forall>t. t \<in># T \<longrightarrow> thread_ok s T t"
    and ch: "\<forall>x\<in>set (sd_running s). owned s x \<or> (\<exists>i h. stopping T i h \<and> dh_to_session h = x)"
    and fi: "\<forall>i h. is_final s i \<longrightarrow> owner_of s i = Some h \<longrightarrow> dh_to_session h \<in> set (sd_running s) \<longrightarrow> \<not> dh_reserved h \<longrightarrow> stopping T i h"
    using inv by (auto simp: children_ok_def)
  have "thread_ok s' T' t" if "t \<in># T'" for t
  proof (cases "t \<in># T")
    case False
    with thr that show ?thesis by blast
  next
    case True
    then have "owner_ok s t" and old: "phase_ok s T t" using th by (auto simp: thread_ok_def)
    then have "owner_ok s' t" using own unfolding owner_ok_def by blast
    moreover have "phase_ok s' T' t"
      using old phase_frame [OF own run stop] \<open>owner_ok s t\<close> by blast
    ultimately show ?thesis by (simp add: thread_ok_def)
  qed
  moreover have "owned s' x \<or> (\<exists>i h. stopping T' i h \<and> dh_to_session h = x)" if x: "x \<in> set (sd_running s')" for x
  proof (cases "owned s x")
    case True
    then obtain i h where h: "owner_of s i = Some h" "\<not> dh_reserved h" "dh_to_session h = x" by (auto simp: owned_def)
    show ?thesis
    proof (cases "owner_of s' i")
      case None
      with drop h x show ?thesis by blast
    next
      case (Some g)
      with own h show ?thesis by (auto simp: owned_def)
    qed
  next
    case False
    with ch x run obtain i h where "stopping T i h" "dh_to_session h = x" by blast
    with stop x show ?thesis by blast
  qed
  moreover have "stopping T' i h"
    if "is_final s' i" "owner_of s' i = Some h" "dh_to_session h \<in> set (sd_running s')" "\<not> dh_reserved h" for i h
    using fin [OF that] fi own that run stop by blast
  ultimately show ?thesis using reg own unfolding children_ok_def by blast
qed

subsection \<open>Every step keeps the children owned\<close>

lemma alive_iff [simp]: "delegationOwnerAlive r s \<longleftrightarrow> (\<exists>h. owner_of s (dr_id r) = Some h \<and> sameDelegationOwner h r)"
  by (simp add: delegationOwnerAlive_def split: option.splits)

lemma same_self [simp]: "sameDelegationOwner (handle_of_run r) r"
  by (simp add: sameDelegationOwner_def handle_of_run_def delegationHandleSourceSession_def normalizedDelegationSessionID_def or_default_def)

lemma handle_simps [simp]:
  "dh_to_session (handle_of_run r) = dr_to_session r" "dh_reserved (handle_of_run r) \<longleftrightarrow> False"
  "dh_to_project (handle_of_run r) = dr_to_project r" "dh_run (handle_of_run r) = Some r"
  by (simp_all add: handle_of_run_def)

lemma is_child_handle [simp]: "is_child (dr_id r) (handle_of_run r)"
  by (auto simp: is_child_def)

lemma alive_owner:
  assumes "owner_ok s t" "run_of t = Some r"
  shows "delegationOwnerAlive r s \<longleftrightarrow> owner_of s (dr_id r) = Some (handle_of_run r)"
    and "owner_of s (dr_id r) = Some h \<Longrightarrow> h = handle_of_run r"
  using assms unfolding owner_ok_def by auto

text \<open>Effects outside the store: owners go, and with each of them its child.\<close>

definition frees :: "studio \<Rightarrow> studio \<Rightarrow> bool" where
  "frees s s' \<longleftrightarrow> set (sd_running s') \<subseteq> set (sd_running s) \<and> sd_runs s' = sd_runs s \<and>
     (\<forall>i h. owner_of s' i = Some h \<longrightarrow> owner_of s i = Some h) \<and>
     (\<forall>i h. owner_of s i = Some h \<longrightarrow> \<not> dh_reserved h \<longrightarrow> owner_of s' i = None \<longrightarrow> dh_to_session h \<notin> set (sd_running s'))"

lemma frees_refl [simp]: "frees s s"
  by (simp add: frees_def)

lemma frees_event [simp]: "frees s (emitDelegationTerminal r s') \<longleftrightarrow> frees s s'"
  by (simp add: frees_def)

lemma frees_stop: "frees s s' \<Longrightarrow> frees s (stop_child x s')"
  by (auto simp: frees_def)

lemma frees_drop_stop:
  assumes "\<And>h. owner_of s i = Some h \<Longrightarrow> x = dh_to_session h"
  shows "frees s (drop_owner i (stop_child x s))" "frees s (stop_child x (drop_owner i s))"
  using assms by (auto simp: frees_def)

lemma frees_drop_idle:
  assumes "\<And>h. owner_of s i = Some h \<Longrightarrow> \<not> dh_reserved h \<Longrightarrow> dh_to_session h \<notin> set (sd_running s)"
  shows "frees s (drop_owner i s)"
  using assms by (auto simp: frees_def)

lemma fail_frees: "frees s (snd (failDelegationForStorage redact now why mutated tail r s))"
  by (auto simp: failDelegationForStorage_def stopDelegationForStorage_def takeDelegationOwner_def simp del: alive_iff
      dest: alive_iff [THEN iffD1] intro!: frees_drop_stop split: option.splits prod.splits)

lemma stopping_add [simp]:
  "stopping (add_mset t T) i h \<longleftrightarrow> stopping T i h \<or> (\<exists>n. t = Cancelling i (Some h) n) \<or> (\<exists>n res. t = Cancelled i (Some h) n res)"
  by (auto simp: stopping_def)

lemma stopping_empty [simp]: "\<not> stopping {#} i h"
  by (simp add: stopping_def)

lemma stopping_split: "stopping (add_mset t T) i h \<longleftrightarrow> stopping {#t#} i h \<or> stopping T i h"
  by simp blast

lemma children_frees:
  assumes inv: "children_ok (s, T)" and fr: "frees s s'"
    and stop: "\<And>i h. stopping T i h \<Longrightarrow> dh_to_session h \<in> set (sd_running s') \<Longrightarrow> stopping T' i h"
    and thr: "\<And>t. t \<in># T' \<Longrightarrow> t \<in># T \<or> thread_ok s' T' t"
  shows "children_ok (s', T')"
proof (rule children_frame [OF inv _ _ _ _ stop thr])
  fix i h assume "owner_of s' i = Some h" then show "owner_of s i = Some h" using fr by (simp add: frees_def)
next
  show "set (sd_running s') \<subseteq> set (sd_running s)" using fr by (simp add: frees_def)
next
  fix i h assume "is_final s' i" then show "is_final s i \<or> stopping T' i h" using fr by (simp add: frees_def is_final_def)
next
  fix i h assume "owner_of s i = Some h" "\<not> dh_reserved h" "owner_of s' i = None" "dh_to_session h \<in> set (sd_running s')"
  then show "stopping T' i h" using fr unfolding frees_def by blast
qed

lemma frees_owner_ok: "frees s s' \<Longrightarrow> owner_ok s t \<Longrightarrow> owner_ok s' t"
  unfolding frees_def owner_ok_def by blast

lemma frees_idle: "frees s s' \<Longrightarrow> idle s r \<Longrightarrow> idle s' r"
  unfolding frees_def idle_def by blast

lemma children_thread:
  assumes "children_ok (s, T)" "t \<in># T"
  shows "owner_ok s t" "phase_ok s T t"
  using assms by (auto simp: children_ok_def thread_ok_def)

lemma owner_ok_run: "run_of t' = run_of t \<Longrightarrow> owner_ok s t' \<longleftrightarrow> owner_ok s t"
  by (simp add: owner_ok_def)

lemma owner_ok_rows: "owner_ok (s\<lparr>sd_runs := rs\<rparr>) t \<longleftrightarrow> owner_ok s t"
  by (simp add: owner_ok_def)

text \<open>A thread goes on to its next phase, outside the store.\<close>

lemma children_phase:
  assumes inv: "children_ok (s, add_mset t T)" and fr: "frees s s'"
    and ids: "run_of t' = run_of t" and now: "phase_ok s' (add_mset t' T) t'"
    and keep: "\<And>i h. stopping {#t#} i h \<Longrightarrow> dh_to_session h \<in> set (sd_running s') \<Longrightarrow> stopping {#t'#} i h"
  shows "children_ok (s', add_mset t' T)"
proof (rule children_frees [OF inv fr])
  fix i h assume "stopping (add_mset t T) i h" "dh_to_session h \<in> set (sd_running s')"
  then show "stopping (add_mset t' T) i h" using keep [of i h] unfolding stopping_split [of _ T] by blast
next
  fix x assume x: "x \<in># add_mset t' T"
  have "owner_ok s' t'"
    unfolding owner_ok_run [OF ids] by (rule frees_owner_ok [OF fr children_thread(1) [OF inv]]) simp
  then show "x \<in># add_mset t T \<or> thread_ok s' (add_mset t' T) x" using x now unfolding thread_ok_def by auto
qed

lemma children_ends:
  assumes inv: "children_ok (s, add_mset t T)" and fr: "frees s s'"
    and keep: "\<And>i h. stopping {#t#} i h \<Longrightarrow> dh_to_session h \<notin> set (sd_running s')"
  shows "children_ok (s', T)"
proof (rule children_frees [OF inv fr])
  fix i h assume "stopping (add_mset t T) i h" "dh_to_session h \<in> set (sd_running s')"
  then show "stopping T i h" using keep [of i h] unfolding stopping_split [of _ T] by blast
qed simp

text \<open>A thread makes rows final.\<close>

lemma children_commit:
  assumes inv: "children_ok (s, add_mset t T)" and rows: "rows_change I (sd_runs s) rs"
    and safe: "\<And>i h. i \<in> I \<Longrightarrow> owner_of s i = Some h \<Longrightarrow> dh_to_session h \<in> set (sd_running s) \<Longrightarrow> \<not> dh_reserved h \<Longrightarrow>
      stopping (add_mset t' T) i h"
    and ids: "run_of t' = run_of t" and now: "phase_ok (s\<lparr>sd_runs := rs\<rparr>) (add_mset t' T) t'"
    and keep: "\<And>i h. stopping {#t#} i h \<Longrightarrow> stopping {#t'#} i h"
  shows "children_ok (s\<lparr>sd_runs := rs\<rparr>, add_mset t' T)"
proof (rule children_frame [OF inv])
  fix i h assume "is_final (s\<lparr>sd_runs := rs\<rparr>) i" "owner_of (s\<lparr>sd_runs := rs\<rparr>) i = Some h"
    "dh_to_session h \<in> set (sd_running (s\<lparr>sd_runs := rs\<rparr>))" "\<not> dh_reserved h"
  then show "is_final s i \<or> stopping (add_mset t' T) i h" using rows_change_final [OF rows, of i] safe by auto
next
  fix i h assume "stopping (add_mset t T) i h" then show "stopping (add_mset t' T) i h" using keep [of i h] unfolding stopping_split [of _ T] by blast
next
  fix x assume x: "x \<in># add_mset t' T"
  have "owner_ok (s\<lparr>sd_runs := rs\<rparr>) t'"
    unfolding owner_ok_run [OF ids] owner_ok_rows by (rule children_thread(1) [OF inv]) simp
  then show "x \<in># add_mset t T \<or> thread_ok (s\<lparr>sd_runs := rs\<rparr>) (add_mset t' T) x" using x now unfolding thread_ok_def by auto
qed simp_all

text \<open>Owners are registered under new identifiers.\<close>

lemma children_register:
  assumes inv: "children_ok (s, T)"
    and new: "\<And>i. i \<in> I \<Longrightarrow> i \<notin> id_of ` set_mset T" "\<And>i h. i \<in> I \<Longrightarrow> owner_of s i = Some h \<Longrightarrow> dh_reserved h"
    and other: "\<And>i. i \<notin> I \<Longrightarrow> owner_of s' i = owner_of s i"
    and here: "\<And>i h. i \<in> I \<Longrightarrow> owner_of s' i = Some h \<Longrightarrow> dh_reserved h \<or> is_child i h \<and> \<not> is_final s' i"
    and fin: "\<And>i. is_final s' i \<Longrightarrow> is_final s i"
    and run: "\<And>x. x \<in> set (sd_running s') \<Longrightarrow> x \<in> set (sd_running s) \<or> owned s' x \<and> fresh_session x (s, T)"
    and mono: "set (sd_running s) \<subseteq> set (sd_running s')"
  shows "children_ok (s', T)"
proof -
  have reg: "\<forall>i h. owner_of s i = Some h \<longrightarrow> dh_reserved h \<or> is_child i h"
    and ch: "\<forall>x\<in>set (sd_running s). owned s x \<or> (\<exists>i h. stopping T i h \<and> dh_to_session h = x)"
    and fi: "\<forall>i h. is_final s i \<longrightarrow> owner_of s i = Some h \<longrightarrow> dh_to_session h \<in> set (sd_running s) \<longrightarrow> \<not> dh_reserved h \<longrightarrow> stopping T i h"
    using inv by (auto simp: children_ok_def)
  have "thread_ok s' T t" if t: "t \<in># T" for t
  proof -
    have i: "id_of t \<notin> I" using new t by blast
    have idl: "idle s r \<Longrightarrow> idle s' r" if "run_of t = Some r" for r
      using run [of "dr_to_session r"] t that by (auto simp: idle_def fresh_session_def)
    have rid: "run_of t = Some r \<Longrightarrow> dr_id r = id_of t" for r by (cases t) auto
    have o: "owner_ok s' t" using children_thread(1) [OF inv t] other i rid by (simp add: owner_ok_def)
    have canc: "cancel_ok s' (id_of t) h = cancel_ok s (id_of t) h" for h using other [OF i] by (cases h) auto
    have lef: "left_child s T r \<Longrightarrow> left_child s' T r" if "run_of t = Some r" for r
      using idl [OF that] other [OF i] rid [OF that] by (auto simp: left_child_def)
    show ?thesis using children_thread(2) [OF inv t] o idl canc lef
      unfolding thread_ok_def by (cases t) simp_all
  qed
  moreover have "dh_reserved h \<or> is_child i h" if "owner_of s' i = Some h" for i h
    using that here other reg by (cases "i \<in> I") auto
  moreover have "owned s' x \<or> (\<exists>i h. stopping T i h \<and> dh_to_session h = x)" if x: "x \<in> set (sd_running s')" for x
  proof (cases "owned s x")
    case True
    then obtain i h where h: "owner_of s i = Some h" "\<not> dh_reserved h" "dh_to_session h = x" by (auto simp: owned_def)
    with new(2) have "i \<notin> I" by blast
    with h other [of i] have "owner_of s' i = Some h" by simp
    with h show ?thesis unfolding owned_def by blast
  next
    case False
    with ch run [OF x] show ?thesis by blast
  qed
  moreover have "stopping T i h"
    if a: "is_final s' i" "owner_of s' i = Some h" "dh_to_session h \<in> set (sd_running s')" "\<not> dh_reserved h" for i h
  proof -
    have "i \<notin> I" using here a by blast
    then have o: "owner_of s i = Some h" using other a(2) by simp
    then have "dh_to_session h \<in> set (sd_running s)" using run [OF a(3)] a(4) by (auto simp: fresh_session_def)
    with fi fin a o show ?thesis by blast
  qed
  ultimately show ?thesis unfolding children_ok_def by blast
qed

subsection \<open>The steps one by one\<close>

lemma finish_reports:
  assumes "finishDelegationRun env now i st et e patch runs = (res, rs)" "patch_fine patch"
  shows "reports i res"
  using assms
proof (rule finish_cases)
  assume "fin_run res = None \<or> dr_id (the (fin_run res)) = i"
  then show ?thesis by (auto simp: reports_def)
next
  fix r r' assume "fin_run res = Some r'" "same_run r r'" "dr_id r = i"
  then show ?thesis by (simp add: reports_def same_run_def)
qed

lemma patch_fines [simp]:
  "patch_fine None" "patch_fine (Some (\<lambda>r. r\<lparr>dr_mutated := m\<rparr>))" "patch_fine (Some (answer_patch b f t d m u))"
  by (simp_all add: patch_fine_def patch_ok_def answer_patch_def)

lemma prefer_id: "reports i res \<Longrightarrow> dr_id r = i \<Longrightarrow> dr_id (preferDelegationRun (fin_run res) r) = i"
  by (auto simp: preferDelegationRun_def reports_def split: option.splits)

lemma finish_commit:
  assumes "(case finishDelegationRun env now i st et e patch (sd_runs s) of (res, rs) \<Rightarrow> (res, s\<lparr>sd_runs := rs\<rparr>)) = (res, s')"
    "patch_fine patch"
  shows "\<exists>rs. s' = s\<lparr>sd_runs := rs\<rparr> \<and> rows_change {i} (sd_runs s) rs \<and> reports i res"
proof (cases "finishDelegationRun env now i st et e patch (sd_runs s)")
  case (Pair x rs)
  with assms have "x = res" "s' = s\<lparr>sd_runs := rs\<rparr>" by auto
  with Pair finish_rows_change [OF Pair assms(2)] finish_reports [OF Pair assms(2)] show ?thesis by blast
qed

lemma finalize_commit_is:
  assumes "finalize_commit env now run answer denied tail mutated usage st et e s = (res, s')"
  shows "\<exists>rs. s' = s\<lparr>sd_runs := rs\<rparr> \<and> rows_change {dr_id run} (sd_runs s) rs \<and> reports (dr_id run) res"
  by (rule finish_commit [OF assms [unfolded finalize_commit_def Let_def]]) simp

lemma cancel_commit_is:
  assumes "cancel_row env now i mutated s = (res, s')"
  shows "\<exists>rs. s' = s\<lparr>sd_runs := rs\<rparr> \<and> rows_change {i} (sd_runs s) rs \<and> reports i res"
  by (rule finish_commit [OF assms [unfolded cancel_row_def]]) simp

lemma final_loaded:
  assumes "loadDelegationRun env i (sd_runs s) = Inr (Some r)" "final r"
  shows "is_final s i"
proof -
  from assms(1) have "find (\<lambda>r. dr_id r = i) (sd_runs s) = Some r" by (auto simp: loadDelegationRun_def split: if_splits)
  then have "r \<in> set (sd_runs s) \<and> dr_id r = i" using find_mem by fastforce
  with assms(2) show ?thesis by (auto simp: is_final_def)
qed

lemma left_final:
  assumes inv: "children_ok (s, add_mset (Monitoring run) T)" and f: "is_final s (dr_id run)"
  shows "left_child s (add_mset (Exiting run) T) run"
  unfolding left_child_def
proof (intro allI impI)
  fix h assume h: "owner_of s (dr_id run) = Some h" and r: "\<not> idle s run"
  have "h = handle_of_run run" using alive_owner(2) [OF children_thread(1) [OF inv, of "Monitoring run"] _ h] by simp
  then have "dh_to_session h \<in> set (sd_running s)" "\<not> dh_reserved h" using r by (simp_all add: idle_def)
  then have "stopping (add_mset (Monitoring run) T) (dr_id run) h" using inv f h by (simp add: children_ok_def)
  then show "stopping (add_mset (Exiting run) T) (dr_id run) h" by simp
qed

lemma look_ok:
  assumes inv: "children_ok (s, add_mset (Monitoring run) T)"
    and cv: "cv_running cv \<longleftrightarrow> dr_to_session run \<in> set (sd_running s)" and a: "monitor_look env cv run s = a"
  shows "children_ok (studio_after run a s, add_mset (thread_after run a) T)"
proof -
  have fr: "frees s (studio_after run a s)" by (auto simp: studio_after_def frees_stop split: monitor_action.splits bool.splits)
  have "phase_ok (studio_after run a s) (add_mset (thread_after run a) T) (thread_after run a)"
  proof (cases a)
    case (FinalizeRun b ans st et e)
    then show ?thesis
      using a cv by (auto simp: monitor_look_def thread_after_def studio_after_def idle_def split: if_splits sum.splits option.splits)
  next
    case LeaveMonitor
    have "left_child s (add_mset (Exiting run) T) run"
    proof (cases "delegationOwnerAlive run s")
      case True
      with a LeaveMonitor have "is_final s (dr_id run)"
        by (auto simp: monitor_look_def final_loaded simp del: alive_iff split: if_splits sum.splits option.splits)
      with left_final [OF inv] show ?thesis .
    next
      case False
      then have "owner_of s (dr_id run) \<noteq> Some (handle_of_run run)" by auto
      with alive_owner(2) [OF children_thread(1) [OF inv, of "Monitoring run"], of run] show ?thesis
        unfolding left_child_def by fastforce
    qed
    with LeaveMonitor show ?thesis by (simp add: thread_after_def studio_after_def)
  qed (simp_all add: thread_after_def)
  then show ?thesis
    using fr by (intro children_phase [OF inv]) (auto simp: thread_after_def split: monitor_action.splits)
qed

lemma progress_ok:
  assumes inv: "children_ok (s, add_mset (Monitoring run) T)" and a: "monitor_progress env env2 tail run s = (a, s')"
  shows "children_ok (s', add_mset (thread_after run a) T)"
proof -
  obtain x rs where u: "updateDelegationRunProgress env (dr_id run) (Some (\<lambda>r. r\<lparr>dr_tail := tail\<rparr>)) (sd_runs s) = (x, rs)"
    by fastforce
  have s': "s' = s\<lparr>sd_runs := rs\<rparr>"
    using a unfolding monitor_progress_def u by (auto simp: Let_def split: sum.splits bool.splits option.splits prod.splits)
  have rc: "rows_change {} (sd_runs s) rs" by (rule progress_rows_change [OF u]) (simp add: patch_ok_def)
  have keeps: "is_final s' i \<Longrightarrow> is_final s i" for i using rows_change_final [OF rc, of i] s' by simp
  have "left_child s' (add_mset (Exiting run) T) run" if "a = LeaveMonitor"
  proof -
    have "is_final s' (dr_id run)"
      using a that unfolding monitor_progress_def u
      by (auto simp: Let_def final_loaded split: sum.splits bool.splits option.splits prod.splits if_splits)
    then have "left_child s (add_mset (Exiting run) T) run" using left_final [OF inv] keeps by blast
    then show ?thesis by (simp add: left_child_def idle_def s')
  qed
  moreover have "\<nexists>b ans st et e. a = FinalizeRun b ans st et e"
    using a unfolding monitor_progress_def u by (auto simp: Let_def split: sum.splits bool.splits option.splits prod.splits if_splits)
  ultimately have "phase_ok s' (add_mset (thread_after run a) T) (thread_after run a)"
    by (cases a) (auto simp: thread_after_def)
  then show ?thesis
    unfolding s' by (intro children_commit [OF inv rc]) (auto simp: thread_after_def split: monitor_action.splits)
qed

lemma finalized_row_ok:
  assumes inv: "children_ok (s, add_mset (Finalizing run answer st et e) T)"
    and f: "finalize_commit env now run answer denied tail mutated usage st et e s = (res, s')"
  shows "children_ok (s', add_mset (Finalized run res) T)"
proof -
  obtain rs where rs: "s' = s\<lparr>sd_runs := rs\<rparr>" "rows_change {dr_id run} (sd_runs s) rs" "reports (dr_id run) res"
    using finalize_commit_is [OF f] by blast
  have t: "idle s run" "owner_ok s (Finalizing run answer st et e)"
    using children_thread [OF inv, of "Finalizing run answer st et e"] by simp_all
  have "dh_to_session h \<notin> set (sd_running s)" if "owner_of s (dr_id run) = Some h" for h
    using alive_owner(2) [OF t(2) _ that] t(1) by (simp add: idle_def)
  then show ?thesis
    unfolding rs(1) by (intro children_commit [OF inv rs(2)]) (use rs(3) t(1) in \<open>auto simp: idle_def\<close>)
qed

lemma abort_ok:
  assumes inv: "children_ok (s, add_mset (Aborting run st et) T)"
    and f: "finishDelegationRun env now (dr_id run) st et e None (sd_runs s) = (res, rs)"
  shows "children_ok (s\<lparr>sd_runs := rs\<rparr>, add_mset (Aborted run res) T)"
proof -
  have rs: "rows_change {dr_id run} (sd_runs s) rs" "reports (dr_id run) res"
    using finish_rows_change [OF f] finish_reports [OF f] by simp_all
  have t: "idle s run" "owner_ok s (Aborting run st et)"
    using children_thread [OF inv, of "Aborting run st et"] by simp_all
  have "dh_to_session h \<notin> set (sd_running s)" if "owner_of s (dr_id run) = Some h" for h
    using alive_owner(2) [OF t(2) _ that] t(1) by (simp add: idle_def)
  then show ?thesis
    by (intro children_commit [OF inv rs(1)]) (use rs(2) t(1) in \<open>auto simp: idle_def\<close>)
qed

lemma finalize_effects_frees: "frees s (finalize_effects redact now mutated tail run res s)"
  by (simp add: finalize_effects_def fail_frees split: option.split)

lemma finalized_ok:
  assumes inv: "children_ok (s, add_mset (Finalized run res) T)"
  shows "children_ok (finalize_effects redact now mutated tail run res s, add_mset (Exiting run) T)"
proof -
  have "idle s run" using children_thread(2) [OF inv, of "Finalized run res"] by simp
  then have "idle (finalize_effects redact now mutated tail run res s) run" using frees_idle finalize_effects_frees by blast
  then show ?thesis
    by (intro children_phase [OF inv finalize_effects_frees]) (simp_all add: left_child_def)
qed

lemma failing_ok:
  assumes inv: "children_ok (s, add_mset (Failing run) T)"
  shows "children_ok (snd (failDelegationForStorage redact now why mutated tail run s), add_mset (Exiting run) T)"
proof -
  let ?s = "snd (failDelegationForStorage redact now why mutated tail run s)"
  have "owner_of ?s (dr_id run) = None"
  proof (cases "owner_of s (dr_id run)")
    case None
    then show ?thesis
      using fail_frees [of s redact now why mutated tail run] unfolding frees_def by (metis not_None_eq)
  next
    case (Some h)
    with alive_owner(2) [OF children_thread(1) [OF inv, of "Failing run"] _ Some] have "h = handle_of_run run" by simp
    with Some show ?thesis
      by (simp add: failDelegationForStorage_def stopDelegationForStorage_def takeDelegationOwner_def)
  qed
  then show ?thesis by (intro children_phase [OF inv fail_frees]) (simp_all add: left_child_def)
qed

lemma exit_ok:
  assumes inv: "children_ok (s, add_mset (Exiting run) T)"
  shows "children_ok (releaseDelegationOwner run s, T)"
proof (rule children_frame [OF inv])
  fix i h
  assume h: "owner_of s i = Some h" "owner_of (releaseDelegationOwner run s) i = None"
    and r: "dh_to_session h \<in> set (sd_running (releaseDelegationOwner run s))"
  then have i: "i = dr_id run" by (auto simp: releaseDelegationOwner_def split: if_splits)
  have t: "owner_ok s (Exiting run)" "left_child s (add_mset (Exiting run) T) run"
    using children_thread [OF inv, of "Exiting run"] by simp_all
  have "h = handle_of_run run" using alive_owner(2) [OF t(1), of run h] h(1) i by simp
  then have "\<not> idle s run" using r by (auto simp: idle_def releaseDelegationOwner_def split: if_splits)
  with t(2) h(1) i show "stopping T i h" by (simp add: left_child_def)
qed (auto simp: releaseDelegationOwner_def split: if_splits)

lemma abort_effects_frees:
  assumes "idle s run" "owner_ok s (Aborted run res)"
  shows "frees s (abort_effects redact now run res s)"
proof -
  have "frees s (releaseDelegationOwner run s)"
    using assms by (auto simp: releaseDelegationOwner_def idle_def owner_ok_def intro!: frees_drop_idle)
  then show ?thesis by (auto simp: abort_effects_def fail_frees Let_def split: option.split)
qed

lemma aborted_ok:
  assumes inv: "children_ok (s, add_mset (Aborted run res) T)"
  shows "children_ok (abort_effects redact now run res s, T)"
  using children_thread [OF inv, of "Aborted run res"]
  by (intro children_ends [OF inv abort_effects_frees]) simp_all

lemma cancel_ok_step:
  assumes inv: "children_ok (s, T)" and c: "cancel_look i s = (Some h, s')"
  shows "children_ok (s', add_mset (Cancelling i h n) T)"
proof -
  have s': "s' = s" and h: "h = owner_of s i" "\<And>g. h = Some g \<Longrightarrow> \<not> dh_reserved g"
    using c by (auto simp: cancel_look_def split: option.splits if_splits)
  have "cancel_ok s i (owner_of s i)"
  proof (cases "owner_of s i")
    case (Some g)
    with inv have "dh_reserved g \<or> is_child i g" unfolding children_ok_def by blast
    with h Some show ?thesis by simp
  qed simp
  with h have "cancel_ok s i h" by simp
  then show ?thesis unfolding s'
    by (intro children_frees [OF inv frees_refl]) (auto simp: thread_ok_def owner_ok_def)
qed

lemma cancel_reserved_ok:
  assumes inv: "children_ok (s, T)" and c: "cancel_look i s = (None, s')"
  shows "children_ok (s', T)"
  using c by (intro children_frees [OF inv]) (auto simp: cancel_look_def intro!: frees_drop_idle split: option.splits if_splits)

lemma cancel_row_ok:
  assumes inv: "children_ok (s, add_mset (Cancelling i h n) T)" and c: "cancel_row env now i mutated s = (res, s')"
  shows "children_ok (s', add_mset (Cancelled i h n res) T)"
proof -
  obtain rs where rs: "s' = s\<lparr>sd_runs := rs\<rparr>" "rows_change {i} (sd_runs s) rs" "reports i res"
    using cancel_commit_is [OF c] by blast
  have t: "cancel_ok s i h" using children_thread(2) [OF inv, of "Cancelling i h n"] by simp
  have "stopping (add_mset (Cancelled i h n res) T) i g" if "owner_of s i = Some g" for g
    using t that by (cases h) auto
  moreover have "cancel_ok (s\<lparr>sd_runs := rs\<rparr>) i h" using t by (cases h) simp_all
  ultimately show ?thesis unfolding rs(1) by (intro children_commit [OF inv rs(2)]) (use rs(3) in auto)
qed

lemma frees_trans_stop:
  assumes "frees s s'" "\<And>h. owner_of s i = Some h \<Longrightarrow> dh_to_session h = x"
  shows "frees s (drop_owner i (stop_child x s'))" "frees s (stop_child x (drop_owner i s'))"
  using assms unfolding frees_def by auto

lemma fail_stops:
  assumes "fst (failDelegationForStorage redact now why mutated tail r s)"
    "\<And>h. owner_of s (dr_id r) = Some h \<Longrightarrow> dh_to_session h = x"
  shows "x \<notin> set (sd_running (snd (failDelegationForStorage redact now why mutated tail r s)))"
  using assms
  by (auto simp: failDelegationForStorage_def stopDelegationForStorage_def takeDelegationOwner_def split: if_splits option.splits)

lemma stop_stops:
  assumes "fst (stopDelegationForStorage redact now why mutated tail r s) \<noteq> None"
    "\<And>h. owner_of s (dr_id r) = Some h \<Longrightarrow> dh_to_session h = x"
  shows "x \<notin> set (sd_running (snd (stopDelegationForStorage redact now why mutated tail r s)))"
  using assms by (auto simp: stopDelegationForStorage_def takeDelegationOwner_def split: if_splits option.splits)

lemma stop_frees: "frees s (snd (stopDelegationForStorage redact now why mutated tail r s))"
  using fail_frees [of s redact now why mutated tail r]
  by (auto simp: failDelegationForStorage_def split: prod.splits option.splits)

lemma cancel_effects_frees:
  assumes c: "cancel_ok s i h" and r: "reports i res"
    and e: "cancel_effects redact now i notify mutated h res s = (err, s')"
  shows "frees s s'" and "h = Some g \<Longrightarrow> dh_to_session g \<notin> set (sd_running s')"
proof -
  have "frees s s' \<and> (h = Some g \<longrightarrow> dh_to_session g \<notin> set (sd_running s'))"
  proof (cases "fin_error res")
    case None
    have "frees s (case h of None \<Rightarrow> s | Some h \<Rightarrow> drop_owner i (stop_child (dh_to_session h) s))"
      using c by (cases h) (auto intro!: frees_drop_stop)
    with None e c show ?thesis by (auto simp: cancel_effects_def Let_def split: option.splits if_splits)
  next
    case (Some er)
    show ?thesis
    proof (cases h)
      case None
      with Some e show ?thesis by (simp add: cancel_effects_def)
    next
      case h: (Some g')
      with c obtain r0 where r0: "dh_run g' = Some r0" "dr_id r0 = i" by (auto simp: is_child_def)
      let ?b = "preferDelegationRun (fin_run res) r0"
      let ?f = "failDelegationForStorage redact now ''persist delegation cancellation'' mutated [] ?b s"
      let ?p = "stopDelegationForStorage redact now ''persist delegation cancellation'' mutated [] ?b s"
      have b: "dr_id ?b = i" using prefer_id [OF r r0(2)] .
      have o: "dh_to_session h = dh_to_session g'" if "owner_of s (dr_id ?b) = Some h" for h
        using that c h by (simp add: b)
      have "s' = (if (if notify then fst ?f else fst ?p \<noteq> None) then (if notify then snd ?f else snd ?p)
          else stop_child (dh_to_session g') (if notify then snd ?f else snd ?p))"
        using e unfolding cancel_effects_def by (auto simp: Some h r0 Let_def split: prod.splits)
      moreover have "frees s (if notify then snd ?f else snd ?p)" by (simp add: fail_frees stop_frees)
      moreover have "dh_to_session g' \<notin> set (sd_running (snd ?f))" if "fst ?f"
        by (rule fail_stops [OF that o])
      moreover have "dh_to_session g' \<notin> set (sd_running (snd ?p))" if "fst ?p \<noteq> None"
        by (rule stop_stops [OF that o])
      ultimately have "frees s s'" "dh_to_session g' \<notin> set (sd_running s')"
        using frees_stop [of s _ "dh_to_session g'"] by (simp_all split: if_split)
      then show ?thesis using h by auto
    qed
  qed
  then show "frees s s'" "h = Some g \<Longrightarrow> dh_to_session g \<notin> set (sd_running s')" by auto
qed

lemma cancelled_ok:
  assumes inv: "children_ok (s, add_mset (Cancelled i h notify res) T)"
    and e: "cancel_effects redact now i notify mutated h res s = (err, s')"
  shows "children_ok (s', T)"
proof -
  have t: "cancel_ok s i h" "reports i res" using children_thread(2) [OF inv, of "Cancelled i h notify res"] by simp_all
  show ?thesis
    by (rule children_ends [OF inv cancel_effects_frees(1) [OF t e]]) (use cancel_effects_frees(2) [OF t e] in auto)
qed

lemma publish_is:
  assumes "publishAndStartDelegation env run reserved start s = ((evicted, p, err), s')"
  shows "p \<Longrightarrow> (\<forall>i. owner_of s' i = (if i = dr_id run then Some (handle_of_run run) else owner_of s i)) \<and>
      set (sd_runs s') \<subseteq> insert run (set (sd_runs s)) \<and> dr_id run \<notin> dr_id ` set (sd_runs s) \<and> sd_events s' = sd_events s \<and>
      sd_running s' = (if err = None then dr_to_session run # sd_running s else sd_running s) \<and> (reserved \<or> owner_of s (dr_id run) = None)"
    and "\<not> p \<Longrightarrow> (\<forall>i. owner_of s' i = owner_of s i) \<and> sd_runs s' = sd_runs s \<and> sd_events s' = sd_events s \<and> sd_running s' = sd_running s"
proof -
  obtain err1 s1 where cl: "claim_owner run reserved s = (err1, s1)" by fastforce
  obtain ar rs where ap: "appendDelegationRun env run (sd_runs s1) = (ar, rs)" by fastforce
  have "(p \<longrightarrow> (\<forall>i. owner_of s' i = (if i = dr_id run then Some (handle_of_run run) else owner_of s i)) \<and>
      set (sd_runs s') \<subseteq> insert run (set (sd_runs s)) \<and> dr_id run \<notin> dr_id ` set (sd_runs s) \<and> sd_events s' = sd_events s \<and>
      sd_running s' = (if err = None then dr_to_session run # sd_running s else sd_running s) \<and> (reserved \<or> owner_of s (dr_id run) = None)) \<and>
    (\<not> p \<longrightarrow> (\<forall>i. owner_of s' i = owner_of s i) \<and> sd_runs s' = sd_runs s \<and> sd_events s' = sd_events s \<and> sd_running s' = sd_running s)"
  proof (cases err1)
    case (Some e)
    with cl have "s1 = s" by (auto simp: claim_owner_def validateDelegationClaim_def Let_def split: if_splits option.splits)
    with assms cl Some show ?thesis by (simp add: publishAndStartDelegation_def)
  next
    case None
    with cl have g: "s1 = (if reserved then s else set_owner (dr_id run) (handle_of_run run) s)"
      "reserved \<or> owner_of s (dr_id run) = None"
      by (auto simp: claim_owner_def validateDelegationClaim_def Let_def split: if_splits option.splits)
    then have s1: "sd_runs s1 = sd_runs s" "sd_events s1 = sd_events s" "sd_running s1 = sd_running s"
      "owner_of (drop_owner (dr_id run) s1) i = owner_of s i \<or> reserved"
      "owner_of s1 i = (if i = dr_id run \<and> \<not> reserved then Some (handle_of_run run) else owner_of s i)" for i
      by auto
    show ?thesis
    proof (cases ar)
      case (Inl e)
      with assms cl ap None have "\<not> p" "s' = (if reserved then s1 else drop_owner (dr_id run) s1)"
        by (auto simp: publishAndStartDelegation_def)
      with s1 g show ?thesis by (cases reserved) simp_all
    next
      case (Inr ev)
      have rows: "set rs \<subseteq> insert run (set (sd_runs s))" "dr_id run \<notin> dr_id ` set (sd_runs s)"
        using append_rows [OF ap [unfolded Inr]] s1(1) by simp_all
      let ?s = "set_owner (dr_id run) (handle_of_run run) (s1\<lparr>sd_runs := rs\<rparr>)"
      have "p" "s' = (if err = None then ?s\<lparr>sd_running := dr_to_session run # sd_running ?s\<rparr> else ?s)"
        using assms cl ap None Inr by (auto simp: publishAndStartDelegation_def Let_def split: if_splits)
      moreover have "\<forall>i. owner_of ?s i = (if i = dr_id run then Some (handle_of_run run) else owner_of s i)"
        by (simp add: s1(5))
      ultimately show ?thesis using rows g(2) s1(1,2,3) by (cases "err = None") simp_all
    qed
  qed
  then show "p \<Longrightarrow> (\<forall>i. owner_of s' i = (if i = dr_id run then Some (handle_of_run run) else owner_of s i)) \<and>
      set (sd_runs s') \<subseteq> insert run (set (sd_runs s)) \<and> dr_id run \<notin> dr_id ` set (sd_runs s) \<and> sd_events s' = sd_events s \<and>
      sd_running s' = (if err = None then dr_to_session run # sd_running s else sd_running s) \<and> (reserved \<or> owner_of s (dr_id run) = None)"
    "\<not> p \<Longrightarrow> (\<forall>i. owner_of s' i = owner_of s i) \<and> sd_runs s' = sd_runs s \<and> sd_events s' = sd_events s \<and> sd_running s' = sd_running s"
    by auto
qed

lemma publish_reserved:
  assumes "publishAndStartDelegation env run reserved start s = ((evicted, True, err), s')" "owner_of s (dr_id run) = Some h"
  shows "dh_reserved h"
  using assms
  by (auto simp: publishAndStartDelegation_def claim_owner_def validateDelegationClaim_def Let_def split: if_splits option.splits prod.splits)

lemma published_ok:
  assumes inv: "children_ok (s, T)"
    and p: "publishAndStartDelegation env run reserved start s = ((evicted, True, err), s')"
    and new: "if reserved then owner_of s (dr_id run) \<noteq> None \<and> dr_id run \<notin> dr_id ` set (sd_events s) \<and> dr_id run \<notin> id_of ` set_mset T
      else fresh_run (dr_id run) (s, T)"
    and ses: "fresh_session (dr_to_session run) (s, T)" and lv: "row_live run"
  shows "children_ok (s', add_mset (if err = None then Monitoring run else Aborting run ''error'' ''busy'') T)"
proof -
  have own: "\<And>i. owner_of s' i = (if i = dr_id run then Some (handle_of_run run) else owner_of s i)"
    and rows: "set (sd_runs s') \<subseteq> insert run (set (sd_runs s))" "dr_id run \<notin> dr_id ` set (sd_runs s)"
    and run: "sd_running s' = (if err = None then dr_to_session run # sd_running s else sd_running s)"
    using publish_is(1) [OF p] by simp_all
  have fin: "is_final s i" if "is_final s' i" for i
    using that rows(1) lv by (auto simp: is_final_def row_live_def final_def)
  have nofin: "\<not> is_final s (dr_id run)" using rows(2) unfolding is_final_def image_iff by metis
  have "owned s' (dr_to_session run)" using own by (auto simp: owned_def intro!: exI [of _ "dr_id run"])
  then have base: "children_ok (s', T)"
    using new own rows fin nofin run ses
    by (intro children_register [OF inv, of "{dr_id run}"])
       (auto simp: fresh_run_def split: if_splits dest: publish_reserved [OF p])
  have "owner_ok s' (if err = None then Monitoring run else Aborting run ''error'' ''busy'')"
    using own by (simp add: owner_ok_def)
  moreover have "idle s' run" if "err \<noteq> None" using ses run that by (simp add: idle_def fresh_session_def)
  ultimately show ?thesis
    by (intro children_frees [OF base frees_refl]) (auto simp: thread_ok_def)
qed

lemma refuse_ok:
  assumes inv: "children_ok (s, T)" and p: "publishAndStartDelegation env run reserved start s = ((evicted, False, err), s')"
  shows "children_ok (s', T)"
  using publish_is(2) [OF p] by (intro children_frees [OF inv]) (simp_all add: frees_def)

lemma foldl_owners:
  assumes "distinct (map snd xs)"
  shows "owner_of (foldl (\<lambda>s (t, i). set_owner i (f t) s) s xs) j =
      (case map_of (map (\<lambda>(t, i). (i, f t)) xs) j of Some h \<Rightarrow> Some h | None \<Rightarrow> owner_of s j)"
  using assms
proof (induction xs arbitrary: s)
  case (Cons x xs)
  obtain t i where x: "x = (t, i)" by fastforce
  have "map_of (map (\<lambda>(t, i). (i, f t)) xs) i = None"
    using Cons.prems x by (force simp: map_of_eq_None_iff)
  then show ?case using Cons.IH [of "set_owner i (f t) s"] Cons.prems x by (auto split: option.split)
qed simp

lemma foldl_parts:
  "sd_runs (foldl (\<lambda>s (t, i). set_owner i (f t) s) s xs) = sd_runs s \<and>
   sd_events (foldl (\<lambda>s (t, i). set_owner i (f t) s) s xs) = sd_events s \<and>
   sd_running (foldl (\<lambda>s (t, i). set_owner i (f t) s) s xs) = sd_running s"
  by (induction xs arbitrary: s) auto

lemma reserve_is:
  assumes r: "reserveDelegationBatch ids from session batch targets s = (r, s')"
    and ids: "length ids = length targets" "distinct ids"
  shows "sd_runs s' = sd_runs s" "sd_events s' = sd_events s" "sd_running s' = sd_running s"
    "i \<notin> set ids \<Longrightarrow> owner_of s' i = owner_of s i"
    "i \<in> set ids \<Longrightarrow> owner_of s i = None \<Longrightarrow> owner_of s' i = Some h \<Longrightarrow> dh_reserved h"
proof -
  define sid where "sid = (if trim_space session = [] then ''default'' else session)"
  let ?f = "\<lambda>t. reserved_handle from sid batch t"
  have c: "s' = s \<or> s' = foldl (\<lambda>s (t, i). set_owner i (?f t) s) s (zip targets ids)"
    using r by (auto simp: reserveDelegationBatch_def Let_def sid_def split: if_splits option.splits)
  have d: "distinct (map snd (zip targets ids))" using ids by simp
  note fo = foldl_owners [OF d, where s = s and f = "?f"] and fp = foldl_parts [of "?f" s "zip targets ids"]
  show "sd_runs s' = sd_runs s" "sd_events s' = sd_events s" "sd_running s' = sd_running s"
    using c fp by auto
  have dom: "map_of (map (\<lambda>(t, i). (i, ?f t)) (zip targets ids)) i = Some h \<Longrightarrow> i \<in> set ids \<and> dh_reserved h" for h
    by (auto dest!: map_of_SomeD simp: reserved_handle_def dest: set_zip_rightD)
  show "owner_of s' i = owner_of s i" if "i \<notin> set ids"
    using c fo [of i] dom that by (auto split: option.splits)
  show "dh_reserved h" if "i \<in> set ids" "owner_of s i = None" "owner_of s' i = Some h"
    using c fo [of i] dom that by (auto split: option.splits)
qed

lemma reserve_ok:
  assumes inv: "children_ok (s, T)" and r: "reserveDelegationBatch ids from session batch targets s = (r, s')"
    and ids: "length ids = length targets" "distinct ids" "\<forall>i\<in>set ids. fresh_run i (s, T)"
  shows "children_ok (s', T)"
proof -
  note b = reserve_is [OF r ids(1,2)]
  show ?thesis
    using ids(3) b
    by (intro children_register [OF inv, of "set ids"]) (auto simp: fresh_run_def is_final_def)
qed

lemma withdraw_ok:
  assumes inv: "children_ok (s, T)"
  shows "children_ok (releaseDelegationReservation i s, T)"
  by (intro children_frees [OF inv]) (auto simp: releaseDelegationReservation_def intro!: frees_drop_idle split: option.split)

lemma no_monitor_ok:
  assumes inv: "children_ok (s, add_mset (Monitoring run) T)"
  shows "children_ok (stop_child (dr_to_session run) s, add_mset (Aborting run st et) T)"
  by (intro children_phase [OF inv frees_stop]) (simp_all add: idle_def)

lemma children_ok_step: "dstep b w w' \<Longrightarrow> children_ok w \<Longrightarrow> children_ok w'"
proof (induction rule: dstep.induct)
  case d_publish
  show ?case by (rule published_ok [OF d_publish.prems d_publish.hyps])
next
  case d_refuse
  show ?case by (rule refuse_ok [OF d_refuse.prems d_refuse.hyps])
next
  case d_reserve
  show ?case by (rule reserve_ok [OF d_reserve.prems d_reserve.hyps])
next
  case d_withdraw
  show ?case by (rule withdraw_ok [OF d_withdraw.prems])
next
  case d_child_ends
  show ?case by (rule children_frees [OF d_child_ends.prems]) (simp_all add: frees_stop)
next
  case d_no_monitor
  show ?case by (rule no_monitor_ok [OF d_no_monitor.prems])
next
  case d_look
  show ?case by (rule look_ok [OF d_look.prems d_look.hyps])
next
  case d_progress
  show ?case by (rule progress_ok [OF d_progress.prems d_progress.hyps])
next
  case d_finalize
  show ?case by (rule finalized_row_ok [OF d_finalize.prems d_finalize.hyps])
next
  case d_finalized
  show ?case by (rule finalized_ok [OF d_finalized.prems])
next
  case d_failing
  show ?case by (rule failing_ok [OF d_failing.prems])
next
  case d_exit
  show ?case by (rule exit_ok [OF d_exit.prems])
next
  case d_abort
  show ?case by (rule abort_ok [OF d_abort.prems d_abort.hyps])
next
  case d_aborted
  show ?case by (rule aborted_ok [OF d_aborted.prems])
next
  case d_cancel
  show ?case by (rule cancel_ok_step [OF d_cancel.prems d_cancel.hyps])
next
  case d_cancel_reserved
  show ?case by (rule cancel_reserved_ok [OF d_cancel_reserved.prems d_cancel_reserved.hyps])
next
  case d_cancel_commit
  show ?case by (rule cancel_row_ok [OF d_cancel_commit.prems d_cancel_commit.hyps])
next
  case d_cancelled
  show ?case by (rule cancelled_ok [OF d_cancelled.prems d_cancelled.hyps])
qed

lemma children_ok_run: "drun b w w' \<Longrightarrow> children_ok w \<Longrightarrow> children_ok w'"
  by (induction rule: drun.induct) (auto intro: children_ok_step)

lemma children_ok_empty: "children_ok (empty_studio, {#})"
  by (simp add: children_ok_def empty_studio_def owner_of_def is_final_def)

end
