(* ===== verification/DelegationProps.thy ===== *)
theory DelegationProps
  imports DelegationSteps
begin

section \<open>What holds of the delegations of a studio\<close>

text \<open>
  The properties of all interleavings: no child without an owner, the bounds of the registry, and one report
  at most of the end of a delegation as long as the store works.
\<close>

subsection \<open>No child without an owner\<close>

definition will_stop :: "thread multiset \<Rightarrow> string \<Rightarrow> bool" where
  "will_stop T x \<longleftrightarrow> (\<exists>i h. stopping T i h \<and> dh_to_session h = x)"


subsection \<open>The registry is bounded\<close>

definition registry_ok :: "(string \<times> delegation_handle) list \<Rightarrow> bool" where
  "registry_ok reg \<longleftrightarrow> length reg \<le> maxConcurrentDelegations \<and> distinct (map fst reg) \<and> distinct (map (dh_to_project \<circ> snd) reg)"

lemma registry_ok_filter: "registry_ok reg \<Longrightarrow> registry_ok (filter P reg)"
  using le_trans [OF length_filter_le [of P reg]] unfolding registry_ok_def by (simp add: distinct_map_filter)

lemma registry_ok_delete: "registry_ok reg \<Longrightarrow> registry_ok (AList.delete i reg)"
  by (simp add: AList.delete_eq registry_ok_filter)

lemma update_new: "map_of reg i = None \<Longrightarrow> AList.update i h reg = reg @ [(i, h)]"
  by (induction reg) auto

lemma update_known:
  "map_of reg i = Some h' \<Longrightarrow> dh_to_project h = dh_to_project h' \<Longrightarrow>
   map fst (AList.update i h reg) = map fst reg \<and> map (dh_to_project \<circ> snd) (AList.update i h reg) = map (dh_to_project \<circ> snd) reg"
  by (induction reg) (auto split: if_splits)

lemma registry_ok_known:
  assumes "registry_ok reg" "map_of reg i = Some h'" "dh_to_project h = dh_to_project h'"
  shows "registry_ok (AList.update i h reg)"
proof -
  from update_known [OF assms(2,3)] have u: "map fst (AList.update i h reg) = map fst reg"
    "map (dh_to_project \<circ> snd) (AList.update i h reg) = map (dh_to_project \<circ> snd) reg" by simp_all
  from u(1) have "length (AList.update i h reg) = length reg" by (metis length_map)
  with u assms(1) show ?thesis by (simp add: registry_ok_def)
qed

lemma registry_ok_new:
  assumes "registry_ok reg" "map_of reg i = None" "dh_to_project h \<notin> (dh_to_project \<circ> snd) ` set reg"
    "length reg < maxConcurrentDelegations"
  shows "registry_ok (AList.update i h reg)"
  using assms by (auto simp: registry_ok_def update_new map_of_eq_None_iff)

text \<open>Steps that only take owners away.\<close>

definition shrinks :: "studio \<Rightarrow> studio \<Rightarrow> bool" where
  "shrinks s s' \<longleftrightarrow> (\<exists>P. sd_registry s' = filter P (sd_registry s))"

lemma shrinks_ok: "registry_ok (sd_registry s) \<Longrightarrow> shrinks s s' \<Longrightarrow> registry_ok (sd_registry s')"
  by (auto simp: shrinks_def registry_ok_filter)

lemma shrinks_refl [simp]: "shrinks s s"
  by (auto simp: shrinks_def intro!: exI [of _ "\<lambda>_. True"])

lemma shrinks_drop: "shrinks s s' \<Longrightarrow> shrinks s (drop_owner i s')"
  by (auto simp: shrinks_def drop_owner_def AList.delete_eq filter_filter)

lemma shrinks_other [simp]:
  "shrinks s (stop_child x s') \<longleftrightarrow> shrinks s s'" "shrinks s (emitDelegationTerminal r s') \<longleftrightarrow> shrinks s s'"
  "shrinks s (s'\<lparr>sd_runs := rs\<rparr>) \<longleftrightarrow> shrinks s s'" "shrinks s (s'\<lparr>sd_running := xs\<rparr>) \<longleftrightarrow> shrinks s s'"
  by (simp_all add: shrinks_def stop_child_def emitDelegationTerminal_def)

lemma shrinks_take: "takeDelegationOwner r s = (h, s') \<Longrightarrow> shrinks s s'"
  by (auto simp: takeDelegationOwner_def intro: shrinks_drop split: if_splits)

lemma shrinks_stop: "stopDelegationForStorage redact now why mutated tail r s = (f, s') \<Longrightarrow> shrinks s s'"
  by (auto simp: stopDelegationForStorage_def dest: shrinks_take split: prod.splits option.splits)

lemma shrinks_fail: "failDelegationForStorage redact now why mutated tail r s = (f, s') \<Longrightarrow> shrinks s s'"
  by (auto simp: failDelegationForStorage_def dest: shrinks_stop split: prod.splits option.splits)

lemma shrinks_fail_snd: "shrinks s (snd (failDelegationForStorage redact now why mutated tail r s))"
  by (rule shrinks_fail) (rule prod.collapse [symmetric])

lemma shrinks_release: "shrinks s (releaseDelegationOwner r s)"
  by (simp add: releaseDelegationOwner_def shrinks_drop)

lemma shrinks_cancel_effects: "cancel_effects redact now i notify mutated h res s = (err, s') \<Longrightarrow> shrinks s s'"
  by (auto simp: cancel_effects_def Let_def shrinks_drop dest: shrinks_stop shrinks_fail
      split: option.splits prod.splits if_splits)

lemma batch_targets_None:
  "batch_targets_ok occ seen ts = None \<Longrightarrow> distinct ts \<and> set ts \<inter> set seen = {} \<and> set ts \<inter> set occ = {}"
  by (induction occ seen ts rule: batch_targets_ok.induct) (auto split: if_splits)

lemma foldl_registry:
  "distinct (map snd xs) \<Longrightarrow> \<forall>i\<in>set (map snd xs). map_of (sd_registry s) i = None \<Longrightarrow>
   sd_registry (foldl (\<lambda>s (t, i). set_owner i (f t) s) s xs) = sd_registry s @ map (\<lambda>(t, i). (i, f t)) xs"
proof (induction xs arbitrary: s)
  case (Cons x xs)
  obtain t i where x: "x = (t, i)" by fastforce
  have u: "sd_registry (set_owner i (f t) s) = sd_registry s @ [(i, f t)]"
    using Cons.prems(2) x by (simp add: set_owner_def update_new)
  have "\<forall>j\<in>set (map snd xs). map_of (sd_registry (set_owner i (f t) s)) j = None"
    using Cons.prems x unfolding u by (fastforce simp: map_of_append map_add_def split: option.splits)
  from Cons.IH [OF _ this] Cons.prems(1) x u show ?case by simp
qed simp

lemma reserve_registry:
  assumes r: "reserveDelegationBatch ids from session batch targets s = (r, s')"
    and ids: "length ids = length targets" "distinct ids" "\<forall>i\<in>set ids. owner_of s i = None"
    and ok: "registry_ok (sd_registry s)"
  shows "registry_ok (sd_registry s')"
proof (cases "s' = s")
  case True
  with ok show ?thesis by simp
next
  case False
  define sid where "sid = (if trim_space session = [] then ''default'' else session)"
  let ?f = "\<lambda>t. reserved_handle from sid batch t"
  have c: "s' = foldl (\<lambda>s (t, i). set_owner i (?f t) s) s (zip targets ids)"
      "length (sd_registry s) + length targets \<le> maxConcurrentDelegations"
      "batch_targets_ok (map (\<lambda>(i, h). dh_to_project h) (sd_registry s)) [] targets = None"
    using r False by (auto simp: reserveDelegationBatch_def Let_def sid_def split: if_splits option.splits)
  have "sd_registry s' = sd_registry s @ map (\<lambda>(t, i). (i, ?f t)) (zip targets ids)"
    unfolding c(1) by (rule foldl_registry) (use ids in \<open>auto simp: owner_of_def\<close>)
  moreover have "map fst (map (\<lambda>(t, i). (i, ?f t)) (zip targets ids)) = ids"
    "map (dh_to_project \<circ> snd) (map (\<lambda>(t, i). (i, ?f t)) (zip targets ids)) = targets"
    using ids(1) by (simp_all add: comp_def case_prod_beta reserved_handle_def)
  moreover have "set ids \<inter> fst ` set (sd_registry s) = {}"
    using ids(3) by (auto simp: owner_of_def map_of_eq_None_iff)
  moreover have "distinct targets" "set targets \<inter> (dh_to_project \<circ> snd) ` set (sd_registry s) = {}"
    using batch_targets_None [OF c(3)] by (auto simp: case_prod_beta)
  ultimately show ?thesis
    using ok c(2) ids(1,2) unfolding registry_ok_def by (simp del: map_map) blast
qed

lemma publish_registry:
  assumes p: "publishAndStartDelegation env run reserved start s = (r, s')" and ok: "registry_ok (sd_registry s)"
  shows "registry_ok (sd_registry s')"
proof -
  obtain err1 s1 where cl: "claim_owner run reserved s = (err1, s1)" by fastforce
  let ?h = "handle_of_run run" and ?i = "dr_id run"
  have s1: "registry_ok (sd_registry s1)"
    and known: "err1 = None \<Longrightarrow> \<exists>h'. map_of (sd_registry s1) ?i = Some h' \<and> dh_to_project ?h = dh_to_project h'"
  proof -
    have "registry_ok (sd_registry s1) \<and> (err1 = None \<longrightarrow>
        (\<exists>h'. map_of (sd_registry s1) ?i = Some h' \<and> dh_to_project ?h = dh_to_project h'))"
    proof (cases reserved)
      case True
      with cl ok show ?thesis by (auto simp: claim_owner_def Let_def owner_of_def split: if_splits option.splits)
    next
      case False
      show ?thesis
      proof (cases err1)
        case (Some e)
        with cl False ok show ?thesis by (auto simp: claim_owner_def validateDelegationClaim_def Let_def split: if_splits)
      next
        case None
        with cl False have c: "s1 = set_owner ?i ?h s" "owner_of s ?i = None"
          "\<not> maxConcurrentDelegations \<le> length (sd_registry s)"
          "\<not> maxDelegationsPerTargetProject \<le> length (filter (\<lambda>(j, x). dh_to_project x = dh_to_project ?h) (sd_registry s))"
          by (auto simp: claim_owner_def validateDelegationClaim_def Let_def split: if_splits)
        from c(4) have "filter (\<lambda>(j, x). dh_to_project x = dh_to_project ?h) (sd_registry s) = []"
          by (simp add: maxDelegationsPerTargetProject_def not_less_eq_eq)
        then have "dh_to_project ?h \<notin> (dh_to_project \<circ> snd) ` set (sd_registry s)"
          by (auto simp: filter_empty_conv)
        then have "registry_ok (AList.update ?i ?h (sd_registry s))"
          using registry_ok_new [OF ok] c(2,3) by (simp add: owner_of_def)
        with c(1) show ?thesis by (simp add: set_owner_def update_Some_unfold AList.update_conv')
      qed
    qed
    then show "registry_ok (sd_registry s1)"
      "err1 = None \<Longrightarrow> \<exists>h'. map_of (sd_registry s1) ?i = Some h' \<and> dh_to_project ?h = dh_to_project h'" by auto
  qed
  show ?thesis
  proof (cases err1)
    case (Some e)
    with p cl s1 show ?thesis by (auto simp: publishAndStartDelegation_def)
  next
    case None
    obtain h' where h': "map_of (sd_registry s1) ?i = Some h'" "dh_to_project ?h = dh_to_project h'" using known [OF None] by blast
    have u: "registry_ok (AList.update ?i ?h (sd_registry s1))" by (rule registry_ok_known [OF s1 h'])
    have d: "registry_ok (sd_registry (drop_owner ?i s1))" using s1 by (simp add: drop_owner_def registry_ok_delete)
    show ?thesis
    proof (cases "appendDelegationRun env run (sd_runs s1)")
      case (Pair ar rs)
      with p cl None s1 u d show ?thesis
        by (cases ar) (auto simp: publishAndStartDelegation_def Let_def set_owner_def split: if_splits)
    qed
  qed
qed

lemma registry_step: "dstep b w w' \<Longrightarrow> registry_ok (sd_registry (fst w)) \<Longrightarrow> registry_ok (sd_registry (fst w'))"
proof (induction rule: dstep.induct)
  case d_publish
  then show ?case using publish_registry by simp
next
  case d_refuse
  then show ?case using publish_registry by simp
next
  case d_reserve
  then show ?case using reserve_registry by (simp add: fresh_run_def)
next
  case (d_withdraw s T i)
  then show ?case
    by (auto elim!: shrinks_ok simp: releaseDelegationReservation_def shrinks_drop split: option.split)
next
  case (d_look cv run s env a T)
  then show ?case by (auto elim!: shrinks_ok simp: studio_after_def split: monitor_action.split bool.split)
next
  case (d_progress env env2 tail run s a s' T)
  then have "shrinks s s'"
    by (auto simp: monitor_progress_def Let_def split: prod.splits sum.splits bool.splits option.splits)
  with d_progress show ?case using shrinks_ok by simp
next
  case (d_finalize env now run answer denied tail mutated usage st et e s res s' T)
  with finalize_commit_is show ?case by fastforce
next
  case (d_finalized s run res T redact now mutated tail)
  then show ?case
    by (auto elim!: shrinks_ok simp: finalize_effects_def shrinks_fail_snd split: option.split)
next
  case (d_aborted s run res T redact now)
  then show ?case
    by (auto elim!: shrinks_ok simp: abort_effects_def shrinks_fail_snd shrinks_release Let_def split: option.split)
next
  case (d_cancel_commit env now i mutated s res s' h notify T)
  with cancel_commit_is show ?case by fastforce
next
  case (d_cancelled redact now i notify mutated h res s err s' T)
  then show ?case using shrinks_ok shrinks_cancel_effects by simp
next
  case (d_cancel i s h s' T notify)
  then show ?case by (auto simp: cancel_look_def split: option.splits if_splits)
next
  case (d_cancel_reserved i s s' T)
  then show ?case by (auto elim!: shrinks_ok simp: cancel_look_def shrinks_drop split: option.splits if_splits)
qed (auto elim!: shrinks_ok simp: shrinks_fail_snd shrinks_release)

text \<open>
  C27: However starts, batches, monitors and cancellations interleave, and whatever fails, a studio never has
  more than four delegations at a time, no two of them for the same target project, and no identifier twice.
\<close>
theorem delegation_registry_bounded:
  assumes "drun b (empty_studio, {#}) (s, T)"
  shows "length (sd_registry s) \<le> 4 \<and> distinct (map fst (sd_registry s)) \<and> distinct (map (dh_to_project \<circ> snd) (sd_registry s))"
proof -
  have "drun b w w' \<Longrightarrow> registry_ok (sd_registry (fst w)) \<Longrightarrow> registry_ok (sd_registry (fst w'))" for w w'
    by (induction rule: drun.induct) (auto intro: registry_step)
  from this [OF assms] show ?thesis by (simp add: registry_ok_def empty_studio_def maxConcurrentDelegations_def)
qed

subsection \<open>One report of the end\<close>

text \<open>The report a thread is about to make.\<close>

definition due :: "finish_result \<Rightarrow> nat" where
  "due res = (if fin_changed res then 1 else 0)"

fun owes :: "string \<Rightarrow> thread \<Rightarrow> nat" where
  "owes i (Finalized r res) = (if dr_id r = i then due res else 0)"
| "owes i (Aborted r res) = (if dr_id r = i then due res else 0)"
| "owes i (Cancelled j h n res) = (if j = i then due res else 0)"
| "owes i t = 0"

definition sound :: "string \<Rightarrow> finish_result \<Rightarrow> bool" where
  "sound i res \<longleftrightarrow> fin_error res = None \<and> (\<exists>r. fin_run res = Some r \<and> dr_id r = i)"

fun calm :: "thread \<Rightarrow> bool" where
  "calm (Finalized r res) \<longleftrightarrow> sound (dr_id r) res"
| "calm (Aborted r res) \<longleftrightarrow> sound (dr_id r) res"
| "calm (Cancelled j h n res) \<longleftrightarrow> sound j res"
| "calm (Failing r) \<longleftrightarrow> False"
| "calm t \<longleftrightarrow> True"

definition reports_of :: "string \<Rightarrow> studio \<Rightarrow> nat" where
  "reports_of i s = length (filter (\<lambda>r. dr_id r = i) (sd_events s))"

definition dues :: "string \<Rightarrow> thread multiset \<Rightarrow> nat" where
  "dues i T = (\<Sum>t\<in>#T. owes i t)"

lemma dues_simps [simp]: "dues i {#} = 0" "dues i (add_mset t T) = owes i t + dues i T"
  by (simp_all add: dues_def)

lemma reports_simps [simp]:
  "reports_of i (stop_child x s) = reports_of i s" "reports_of i (drop_owner j s) = reports_of i s"
  "reports_of i (set_owner j h s) = reports_of i s" "reports_of i (s\<lparr>sd_runs := rs\<rparr>) = reports_of i s"
  "reports_of i (emitDelegationTerminal r s) = reports_of i s + (if dr_id r = i then 1 else 0)"
  by (simp_all add: reports_of_def)

lemma owes_fresh: "i \<notin> id_of ` set_mset T \<Longrightarrow> dues i T = 0"
proof (induction T)
  case (add t T)
  then have "owes i t = 0" by (cases t) auto
  with add show ?case by simp
qed simp

definition rows_ok :: "delegation_run list \<Rightarrow> bool" where
  "rows_ok rs \<longleftrightarrow> store_ok rs \<and> length rs \<le> maxDelegationRuns"

lemma rows_okD: "rows_ok rs \<Longrightarrow> distinct (map dr_id rs)"
  by (simp add: rows_ok_def store_ok_def)

lemma rows_ok_exec:
  assumes "store_op_ok a" "store_exec a runs = (gone, rs)" "rows_ok runs"
  shows "rows_ok rs"
  using store_exec_ok [OF assms(1,2)] assms(3) by (simp add: rows_ok_def)

definition reported_once :: "world \<Rightarrow> bool" where
  "reported_once w \<longleftrightarrow> (case w of (s, T) \<Rightarrow>
     (\<forall>t\<in>#T. calm t) \<and> rows_ok (sd_runs s) \<and>
     (\<forall>i. reports_of i s + dues i T \<le> (if is_final s i then 1 else 0)))"

lemma once_okD:
  assumes "reported_once (s, T)"
  shows "t \<in># T \<Longrightarrow> calm t" "rows_ok (sd_runs s)" "reports_of i s + dues i T \<le> (if is_final s i then 1 else 0)"
  using assms by (simp_all add: reported_once_def)

lemma once_okI:
  "(\<And>t. t \<in># T \<Longrightarrow> calm t) \<Longrightarrow> rows_ok (sd_runs s) \<Longrightarrow>
   (\<And>i. reports_of i s + dues i T \<le> (if is_final s i then 1 else 0)) \<Longrightarrow> reported_once (s, T)"
  by (simp add: reported_once_def)

text \<open>Steps that leave the store alone, and may pay what a thread owes.\<close>

lemma once_quiet:
  assumes "reported_once (s, T)" "sd_runs s' = sd_runs s" "\<And>t. t \<in># T' \<Longrightarrow> t \<in># T \<or> calm t"
    "\<And>i. reports_of i s' + dues i T' \<le> reports_of i s + dues i T"
  shows "reported_once (s', T')"
proof (rule once_okI)
  fix i
  have "is_final s' i = is_final s i" using assms(2) by (simp add: is_final_def)
  with le_trans [OF assms(4) once_okD(3) [OF assms(1)]] show "reports_of i s' + dues i T' \<le> (if is_final s' i then 1 else 0)"
    by simp
next
  fix t assume "t \<in># T'" then show "calm t" using assms(3) once_okD(1) [OF assms(1)] by blast
next
  show "rows_ok (sd_runs s')" using assms(2) once_okD(2) [OF assms(1)] by simp
qed

text \<open>Rows become final; one of them is reported by the thread.\<close>

lemma once_commit:
  assumes ok: "reported_once (s, add_mset t T)" and calm: "calm t'" and t: "\<And>i. owes i t = 0"
    and rows: "rows_ok rs" "\<And>i. is_final s i \<Longrightarrow> is_final (s\<lparr>sd_runs := rs\<rparr>) i"
    and due: "\<And>i. owes i t' > 0 \<Longrightarrow> owes i t' = 1 \<and> \<not> is_final s i \<and> is_final (s\<lparr>sd_runs := rs\<rparr>) i"
  shows "reported_once (s\<lparr>sd_runs := rs\<rparr>, add_mset t' T)"
proof -
  have old: "reports_of i s + dues i T \<le> (if is_final s i then 1 else 0)" for i
    using once_okD(3) [OF ok, of i] t [of i] by simp
  show ?thesis
  proof (rule once_okI)
    fix i
    show "reports_of i (s\<lparr>sd_runs := rs\<rparr>) + dues i (add_mset t' T) \<le> (if is_final (s\<lparr>sd_runs := rs\<rparr>) i then 1 else 0)"
      using old [of i] due [of i] rows(2) [of i] by (cases "owes i t' > 0") (auto split: if_splits)
  next
    fix x assume "x \<in># add_mset t' T"
    then show "calm x" using calm once_okD(1) [OF ok, of x] by auto
  qed (use rows in simp)
qed

lemma kept_final:
  assumes d: "distinct (map dr_id runs)" and keeps: "dr_id ` set runs \<subseteq> dr_id ` set rs"
    and sub: "set rs \<subseteq> set (upd_first P f runs)"
    and f: "\<And>x. find P runs = Some x \<Longrightarrow> dr_id (f x) = dr_id x \<and> (final x \<longrightarrow> final (f x))"
    and r: "r \<in> set runs" "final r"
  shows "\<exists>r'\<in>set rs. dr_id r' = dr_id r \<and> final r'"
proof -
  from keeps r(1) obtain r' where r': "r' \<in> set rs" "dr_id r' = dr_id r" by (metis image_iff image_subset_iff)
  have "r' \<in> set (upd_first P f runs)" using sub r'(1) by blast
  then have "r' \<in> set runs \<or> (\<exists>x. find P runs = Some x \<and> r' = f x)"
    by (induction runs) (auto split: if_splits)
  then have "final r'"
  proof
    assume "r' \<in> set runs"
    with d r r'(2) have "r' = r" by (meson distinct_map inj_onD)
    with r(2) show ?thesis by simp
  next
    assume "\<exists>x. find P runs = Some x \<and> r' = f x"
    then obtain x where x: "find P runs = Some x" "r' = f x" by blast
    then have "x \<in> set runs" using find_mem by fast
    with d r r'(2) x f have "x = r" by (metis distinct_map inj_onD)
    with f x r(2) show ?thesis by blast
  qed
  with r' show ?thesis by blast
qed

lemma updated_row:
  "x \<in> set (upd_first (\<lambda>x. dr_id x = i) (\<lambda>_. r') runs) \<Longrightarrow> dr_id x = i \<Longrightarrow> distinct (map dr_id runs) \<Longrightarrow>
   find (\<lambda>r. dr_id r = i) runs = Some r \<Longrightarrow> x = r'"
  by (induction runs) (auto split: if_splits)

lemma final_iff: "is_final (s\<lparr>sd_runs := rs\<rparr>) i \<longleftrightarrow> (\<exists>r\<in>set rs. dr_id r = i \<and> final r)"
  by (simp add: is_final_def)

lemma once_finish:
  assumes ok: "rows_ok (sd_runs s)" and f: "finishDelegationRun env now i st et e patch (sd_runs s) = (res, rs)"
    and p: "patch_fine patch" and works: "finish_works res s (s\<lparr>sd_runs := rs\<rparr>)"
  shows "sound i res" "rows_ok rs" "is_final s j \<Longrightarrow> is_final (s\<lparr>sd_runs := rs\<rparr>) j"
    "fin_changed res \<Longrightarrow> \<not> is_final s i \<and> is_final (s\<lparr>sd_runs := rs\<rparr>) i"
proof -
  have d: "distinct (map dr_id (sd_runs s))" using rows_okD [OF ok] .
  have w: "fin_error res = None" "dr_id ` set (sd_runs s) \<subseteq> dr_id ` set rs"
    using works by (auto simp: finish_works_def no_loss_def)
  have "store_op_ok (StFinish env now i st et e patch)" using p by (simp add: patch_fine_def)
  from rows_ok_exec [OF this _ ok] f show "rows_ok rs" by simp
  have "sound i res \<and> (\<forall>j. is_final s j \<longrightarrow> is_final (s\<lparr>sd_runs := rs\<rparr>) j) \<and>
      (fin_changed res \<longrightarrow> \<not> is_final s i \<and> is_final (s\<lparr>sd_runs := rs\<rparr>) i)"
    using f p
  proof (rule finish_cases)
    assume a: "rs = sd_runs s" "\<not> fin_changed res"
      "fin_error res = None \<longrightarrow> (\<exists>r\<in>set (sd_runs s). dr_id r = i \<and> final r \<and> fin_run res = Some r)"
    then show ?thesis using w(1) by (auto simp: sound_def)
  next
    fix r r'
    assume r: "r \<in> set (sd_runs s)" "dr_id r = i" "row_live r" "fin_run res = Some r'" "same_run r r'" "final r'"
      and sub: "set rs \<subseteq> set (upd_first (\<lambda>x. dr_id x = i) (\<lambda>_. r') (sd_runs s))"
      and find: "find (\<lambda>r. dr_id r = i) (sd_runs s) = Some r"
    have fin: "is_final (s\<lparr>sd_runs := rs\<rparr>) j" if j: "is_final s j" for j
    proof -
      obtain x where x: "x \<in> set (sd_runs s)" "dr_id x = j" "final x" using j by (auto simp: is_final_def)
      show ?thesis
        unfolding final_iff x(2) [symmetric]
        by (rule kept_final [OF d w(2) sub _ x(1,3)]) (use find r in \<open>auto simp: same_run_def\<close>)
    qed
    moreover have "\<not> is_final s i"
    proof
      assume "is_final s i"
      then obtain x where x: "x \<in> set (sd_runs s)" "dr_id x = i" "final x" by (auto simp: is_final_def)
      with d r(1,2) have "x = r" by (metis distinct_map inj_onD)
      with x r(3) show False by (simp add: row_live_def)
    qed
    moreover have "is_final (s\<lparr>sd_runs := rs\<rparr>) i"
    proof -
      from w(2) r(1,2) obtain x where x: "x \<in> set rs" "dr_id x = i" by (metis image_iff image_subset_iff)
      then have "x \<in> set (upd_first (\<lambda>x. dr_id x = i) (\<lambda>_. r') (sd_runs s))" using sub by blast
      then have "x = r'" using x(2) d find by (rule updated_row)
      with x r(6) show ?thesis by (auto simp: final_iff)
    qed
    moreover have "sound i res" using w(1) r(2,4,5) by (simp add: sound_def same_run_def)
    ultimately show ?thesis by blast
  qed
  then show "sound i res" "is_final s j \<Longrightarrow> is_final (s\<lparr>sd_runs := rs\<rparr>) j"
    "fin_changed res \<Longrightarrow> \<not> is_final s i \<and> is_final (s\<lparr>sd_runs := rs\<rparr>) i" by blast+
qed

lemma once_finish_step:
  assumes ok: "reported_once (s, add_mset t T)" and f: "finishDelegationRun env now i st et e patch (sd_runs s) = (res, rs)"
    and p: "patch_fine patch" and works: "finish_works res s (s\<lparr>sd_runs := rs\<rparr>)"
    and t: "\<And>j. owes j t = 0" and t': "\<And>j. owes j t' = (if j = i then due res else 0)" "calm t' \<longleftrightarrow> sound i res"
  shows "reported_once (s\<lparr>sd_runs := rs\<rparr>, add_mset t' T)"
proof -
  note fin = once_finish [OF once_okD(2) [OF ok] f p works]
  show ?thesis
    by (rule once_commit [OF ok _ t fin(2,3)]) (use fin(1,4) t' in \<open>auto simp: due_def split: if_splits\<close>)
qed

lemma publish_rows_ok:
  assumes p: "publishAndStartDelegation env run reserved start s = (r, s')" and ok: "rows_ok (sd_runs s)"
  shows "rows_ok (sd_runs s')"
proof -
  obtain err1 s1 where cl: "claim_owner run reserved s = (err1, s1)" by fastforce
  then have s1: "sd_runs s1 = sd_runs s"
    by (auto simp: claim_owner_def validateDelegationClaim_def Let_def split: if_splits option.splits)
  obtain ar rs where ap: "appendDelegationRun env run (sd_runs s) = (ar, rs)" by fastforce
  have "store_exec (StAppend env run) (sd_runs s) = (case ar of Inl e \<Rightarrow> [] | Inr ev \<Rightarrow> ev, rs)" using ap by (cases ar) simp_all
  from rows_ok_exec [OF _ this ok] have "rows_ok rs" by simp
  with p cl s1 ap ok show ?thesis
    by (cases ar; cases err1) (auto simp: publishAndStartDelegation_def Let_def split: if_splits)
qed

lemma once_publish:
  assumes ok: "reported_once (s, T)" and p: "publishAndStartDelegation env run reserved start s = ((evicted, True, err), s')"
    and new: "dr_id run \<notin> id_of ` set_mset T" and nl: "no_loss s s'"
    and t: "\<And>j. owes j t = 0" "calm t"
  shows "reported_once (s', add_mset t T)"
proof -
  note pub = publish_is(1) [OF p, simplified]
  have d: "distinct (map dr_id (sd_runs s))" using rows_okD [OF once_okD(2) [OF ok]] .
  have fin: "is_final s' i" if i: "is_final s i" for i
  proof -
    obtain x where x: "x \<in> set (sd_runs s)" "dr_id x = i" "final x" using i by (auto simp: is_final_def)
    with nl obtain y where y: "y \<in> set (sd_runs s')" "dr_id y = i" unfolding no_loss_def by (metis image_iff image_subset_iff)
    with pub x have "y \<in> set (sd_runs s)" by (metis image_eqI insertE subsetD)
    with d x y have "y = x" by (metis distinct_map inj_onD)
    with x y show ?thesis by (auto simp: is_final_def)
  qed
  have "sd_events s' = sd_events s" using pub by simp
  then have ev: "reports_of i s' = reports_of i s" for i by (simp add: reports_of_def)
  show ?thesis
  proof (rule once_okI)
    fix i
    show "reports_of i s' + dues i (add_mset t T) \<le> (if is_final s' i then 1 else 0)"
      using once_okD(3) [OF ok, of i] fin [of i] t(1) ev by (auto split: if_splits)
  next
    fix x assume "x \<in># add_mset t T" then show "calm x" using t(2) once_okD(1) [OF ok] by auto
  next
    show "rows_ok (sd_runs s')" using publish_rows_ok [OF p once_okD(2) [OF ok]] .
  qed
qed

lemma once_progress:
  assumes ok: "reported_once (s, add_mset (Monitoring run) T)" and a: "monitor_progress env env2 tail run s = (a, s')"
    and good: "\<not> a_is_trouble a" "no_loss s s'"
  shows "reported_once (s', add_mset (thread_after run a) T)"
proof -
  let ?f = "\<lambda>r. r\<lparr>dr_tail := tail\<rparr>" and ?P = "\<lambda>r. dr_id r = dr_id run \<and> \<not> final r"
  obtain x rs where u: "updateDelegationRunProgress env (dr_id run) (Some ?f) (sd_runs s) = (x, rs)" by fastforce
  have s': "s' = s\<lparr>sd_runs := rs\<rparr>" and act: "\<nexists>b ans st et e. a = FinalizeRun b ans st et e"
    using a unfolding monitor_progress_def u
    by (auto simp: Let_def split: sum.splits bool.splits option.splits prod.splits if_splits)
  have "rows_ok rs"
    using rows_ok_exec [of "StProgress env (dr_id run) ?f" "sd_runs s" _ rs] once_okD(2) [OF ok] u
    by (cases x) (auto simp: patch_ok_def split: prod.splits)
  moreover have "is_final (s\<lparr>sd_runs := rs\<rparr>) i" if i: "is_final s i" for i
  proof -
    obtain y where y: "y \<in> set (sd_runs s)" "dr_id y = i" "final y" using i by (auto simp: is_final_def)
    have keeps: "dr_id ` set (sd_runs s) \<subseteq> dr_id ` set rs" using good(2) s' by (simp add: no_loss_def)
    have sub: "rs = sd_runs s \<or> set rs \<subseteq> set (upd_first ?P ?f (sd_runs s))"
      using u by (auto simp: updateDelegationRunProgress_def dest: save_subset split: if_splits sum.splits)
    then show ?thesis
    proof
      assume "set rs \<subseteq> set (upd_first ?P ?f (sd_runs s))"
      from kept_final [OF rows_okD [OF once_okD(2) [OF ok]] keeps this _ y(1,3)] y(2) show ?thesis
        by (auto simp: final_iff final_def)
    qed (use y in \<open>auto simp: is_final_def\<close>)
  qed
  moreover have "calm (thread_after run a)" "\<And>j. owes j (thread_after run a) = 0"
    using good(1) act by (auto simp: thread_after_def a_is_trouble_def split: monitor_action.split)
  ultimately show ?thesis unfolding s' by (intro once_commit [OF ok]) simp_all
qed

lemma finalize_commit_finish:
  assumes "finalize_commit env now run answer denied tail mutated usage st et e s = (res, s')"
  shows "\<exists>st' et' e' patch rs. finishDelegationRun env now (dr_id run) st' et' e' (Some patch) (sd_runs s) = (res, rs) \<and>
    s' = s\<lparr>sd_runs := rs\<rparr> \<and> patch_fine (Some patch)"
  using assms unfolding finalize_commit_def Let_def
  by (auto split: prod.splits intro!: exI simp del: split_paired_Ex)

lemma sound_pays:
  "sound i res \<Longrightarrow> fin_error res = None \<and> (fin_changed res \<longrightarrow> dr_id (the (fin_run res)) = i)"
  by (auto simp: sound_def)

lemma once_step: "dstep b w w' \<Longrightarrow> b \<Longrightarrow> reported_once w \<Longrightarrow> reported_once w'"
proof (induction rule: dstep.induct)
  case (d_publish env run reserved start s evicted err s' T)
  have "dr_id run \<notin> id_of ` set_mset T" using d_publish.hyps(2) by (auto simp: fresh_run_def split: if_splits)
  with once_publish [OF d_publish.prems(2) d_publish.hyps(1)] d_publish.prems(1) show ?case by simp
next
  case (d_refuse env run reserved start s evicted err s' T)
  with publish_is(2) [OF d_refuse.hyps] show ?case by (intro once_quiet [OF d_refuse.prems(2)]) (auto simp: reports_of_def)
next
  case (d_reserve ids fr session batch targets s r s' T)
  with reserve_is [OF d_reserve.hyps(1-3)] show ?case by (intro once_quiet [OF d_reserve.prems(2)]) (auto simp: reports_of_def)
next
  case (d_withdraw s T i)
  show ?case by (rule once_quiet [OF d_withdraw.prems(2)]) (auto simp: releaseDelegationReservation_def split: option.split)
next
  case (d_child_ends s T x)
  show ?case by (rule once_quiet [OF d_child_ends.prems(2)]) auto
next
  case (d_no_monitor s run T)
  show ?case by (rule once_quiet [OF d_no_monitor.prems(2)]) auto
next
  case (d_look cv run s env a T)
  have "sd_runs (studio_after run a s) = sd_runs s" "\<And>i. reports_of i (studio_after run a s) = reports_of i s"
    by (auto simp: studio_after_def split: monitor_action.split bool.split)
  moreover have "calm (thread_after run a)" "\<And>j. owes j (thread_after run a) = 0"
    using d_look.prems(1) by (auto simp: thread_after_def a_is_trouble_def split: monitor_action.split)
  ultimately show ?case by (intro once_quiet [OF d_look.prems(2)]) auto
next
  case (d_progress env env2 tail run s a s' T)
  then show ?case by (intro once_progress) auto
next
  case (d_finalize env now run answer denied tail mutated usage st et e s res s' T)
  obtain st' et' e' patch rs where f: "finishDelegationRun env now (dr_id run) st' et' e' (Some patch) (sd_runs s) = (res, rs)"
    "s' = s\<lparr>sd_runs := rs\<rparr>" "patch_fine (Some patch)"
    using finalize_commit_finish [OF d_finalize.hyps] by blast
  show ?case
    unfolding f(2) by (rule once_finish_step [OF d_finalize.prems(2) f(1,3)]) (use d_finalize.prems(1) f(2) in auto)
next
  case (d_finalized s run res T redact now mutated tail)
  have "sound (dr_id run) res" using once_okD(1) [OF d_finalized.prems(2), of "Finalized run res"] by simp
  then show ?case
    by (intro once_quiet [OF d_finalized.prems(2)]) (auto simp: finalize_effects_def due_def dest!: sound_pays)
next
  case (d_failing s run T redact now why mutated tail)
  have "calm (Failing run)" by (rule once_okD(1) [OF d_failing.prems(2)]) simp
  then show ?case by simp
next
  case (d_exit s run T)
  show ?case by (rule once_quiet [OF d_exit.prems(2)]) (auto simp: releaseDelegationOwner_def)
next
  case (d_abort env now run st et e s res rs T)
  show ?case by (rule once_finish_step [OF d_abort.prems(2) d_abort.hyps]) (use d_abort.prems(1) in auto)
next
  case (d_aborted s run res T redact now)
  have "sound (dr_id run) res" using once_okD(1) [OF d_aborted.prems(2), of "Aborted run res"] by simp
  then show ?case
    by (intro once_quiet [OF d_aborted.prems(2)])
       (auto simp: abort_effects_def due_def releaseDelegationOwner_def Let_def dest!: sound_pays)
next
  case (d_cancel i s h s' T notify)
  then show ?case by (intro once_quiet [OF d_cancel.prems(2)]) (auto simp: cancel_look_def split: option.splits if_splits)
next
  case (d_cancel_reserved i s s' T)
  then show ?case by (intro once_quiet [OF d_cancel_reserved.prems(2)]) (auto simp: cancel_look_def split: option.splits if_splits)
next
  case (d_cancel_commit env now i mutated s res s' h notify T)
  obtain rs where f: "finishDelegationRun env now i ''stopped'' ''cancelled'' (Some ''cancelled'')
      (Some (\<lambda>r. r\<lparr>dr_mutated := mutated\<rparr>)) (sd_runs s) = (res, rs)" "s' = s\<lparr>sd_runs := rs\<rparr>"
    using d_cancel_commit.hyps by (auto simp: cancel_row_def split: prod.splits)
  show ?case
    unfolding f(2) by (rule once_finish_step [OF d_cancel_commit.prems(2) f(1)]) (use d_cancel_commit.prems(1) f(2) in auto)
next
  case (d_cancelled redact now i notify mutated h res s err s' T)
  have "sound i res" using once_okD(1) [OF d_cancelled.prems(2), of "Cancelled i h notify res"] by simp
  with d_cancelled.hyps show ?case
    by (intro once_quiet [OF d_cancelled.prems(2)])
       (auto simp: cancel_effects_def due_def Let_def dest!: sound_pays split: if_splits option.splits)
qed

lemma once_run: "drun b w w' \<Longrightarrow> b \<Longrightarrow> reported_once w \<Longrightarrow> reported_once w'"
  by (induction rule: drun.induct) (auto intro: once_step)


subsection \<open>Two reports after a failure of the store\<close>

lemma save_one: "saveDelegationRunsRaw perfect_env [r] = Inr ([], [r])"
  by (simp add: saveDelegationRunsRaw_def perfect_env_def fitDelegationRuns_def newest_first_def fit_while.simps
      maxDelegationRuns_def maxDelegationRunFile_def)

definition one_run :: delegation_run where
  "one_run = (sample_run ''1'' ''running'' ''b'' 1)\<lparr>dr_to_session := ''c''\<rparr>"

definition started :: studio where
  "started = \<lparr>sd_registry = [(''1'', handle_of_run one_run)], sd_runs = [one_run], sd_running = [''c''], sd_events = []\<rparr>"

lemma publish_one: "publishAndStartDelegation perfect_env one_run False True empty_studio = (([], True, None), started)"
  by (simp add: publishAndStartDelegation_def claim_owner_def validateDelegationClaim_def empty_studio_def owner_of_def one_run_def
      started_def set_owner_def appendDelegationRun_def perfect_env_def maxConcurrentDelegations_def
      maxDelegationsPerTargetProject_def newest_first_def save_one [unfolded perfect_env_def])

lemma run_started: "drun True (empty_studio, {#}) (started, {#Monitoring one_run#})"
proof -
  have "dstep (no_loss empty_studio started) (empty_studio, {#}) (started, {#Monitoring one_run#})"
    using d_publish [OF publish_one, of "{#}"]
    by (simp add: fresh_run_def fresh_session_def empty_studio_def owner_of_def one_run_def row_live_def final_def delegationRunTerminal_def)
  moreover have "no_loss empty_studio started" by (simp add: no_loss_def empty_studio_def)
  ultimately show ?thesis using drun_step [OF drun_start] by fastforce
qed

definition done_run :: delegation_run where
  "done_run = finished_row 9 ''completed'' [] None (Some (answer_patch ''ok'' 2 [] [] False no_usage)) one_run"

definition blind_env :: store_env where
  "blind_env = \<lparr>env_size = length, env_load = False, env_save = False\<rparr>"

definition done_result :: finish_result where
  "done_result = \<lparr>fin_run = Some done_run, fin_changed = True, fin_evicted = [], fin_error = None\<rparr>"

definition child_ended :: studio where
  "child_ended = stop_child ''c'' started"

definition row_final :: studio where
  "row_final = child_ended\<lparr>sd_runs := [done_run]\<rparr>"

definition reported :: studio where
  "reported = emitDelegationTerminal done_run row_final"

lemma one_run_fields [simp]:
  "dr_id one_run = ''1''" "dr_to_session one_run = ''c''" "dr_status one_run = ''running''" "dr_kind one_run = ''run''"
  by (simp_all add: one_run_def sample_run_def)

lemma done_run_fields [simp]: "dr_id done_run = ''1''" "dr_status done_run = ''completed''" "dr_error_type done_run = []"
  by (simp_all add: done_run_def finished_row_def answer_patch_def) (simp add: one_run_def sample_run_def)

lemma started_owner [simp]:
  "owner_of started ''1'' = Some (handle_of_run one_run)" "owner_of child_ended ''1'' = Some (handle_of_run one_run)"
  "owner_of row_final ''1'' = Some (handle_of_run one_run)" "owner_of reported ''1'' = Some (handle_of_run one_run)"
  by (simp_all add: reported_def row_final_def child_ended_def) (simp_all add: owner_of_def started_def)

lemma started_rows [simp]: "sd_runs started = [one_run]" "sd_runs child_ended = [one_run]"
  by (simp_all add: started_def child_ended_def)

lemma step_ended: "dstep True (started, T) (child_ended, T)"
  unfolding child_ended_def by (rule d_child_ends)

lemma step_looked: "dstep True (child_ended, add_mset (Monitoring one_run) T)
  (child_ended, add_mset (Finalizing one_run ''ok'' ''completed'' [] None) T)"
proof -
  let ?cv = "\<lparr>cv_running = False, cv_answer = ''ok'', cv_denied = [], cv_mutated = False, cv_late = False, cv_tail_due = False\<rparr>"
  have "monitor_look perfect_env ?cv one_run child_ended = FinalizeRun False ''ok'' ''completed'' [] None"
    by (simp add: monitor_look_def loadDelegationRun_def perfect_env_def final_def delegationRunTerminal_def)
  from d_look [OF _ this, of T] show ?thesis
    by (simp add: studio_after_def thread_after_def a_is_trouble_def child_ended_def)
qed

lemma step_committed: "dstep True (child_ended, add_mset (Finalizing one_run ''ok'' ''completed'' [] None) T)
  (row_final, add_mset (Finalized one_run done_result) T)"
proof -
  have ok: "trim_space ''ok'' = ''ok''" "truncateUTF8 ''ok'' maxDelegationAnswerBytes = ''ok''"
    by (simp_all add: trim_space_def is_space_def truncateUTF8_def maxDelegationAnswerBytes_def)
  have "finishDelegationRun perfect_env 9 ''1'' ''completed'' [] None (Some (answer_patch ''ok'' 2 [] [] False no_usage)) [one_run] =
      (done_result, [done_run])"
    using save_one [of done_run]
    by (simp add: finishDelegationRun_def delegationRunTerminal_def perfect_env_def final_def done_run_def done_result_def Let_def)
  then have "finalize_commit perfect_env 9 one_run ''ok'' [] [] False no_usage ''completed'' [] None child_ended = (done_result, row_final)"
    by (simp add: finalize_commit_def Let_def ok row_final_def numeral_2_eq_2)
  from d_finalize [OF this, of T] show ?thesis
    by (simp add: finish_works_def no_loss_def done_result_def row_final_def)
qed

lemma step_reported: "dstep True (row_final, add_mset (Finalized one_run done_result) T) (reported, add_mset (Exiting one_run) T)"
  using d_finalized [of row_final one_run done_result T id 9 False "[]"] by (simp add: finalize_effects_def done_result_def reported_def)

text \<open>
  A cancellation finds the owner; meanwhile the child ends and its monitor makes the row final and reports
  it; the cancellation then cannot read the store, takes the owner, which the monitor has not released yet,
  and reports a failure of the store for the same delegation.
\<close>

lemma end_reported_twice:
  "\<exists>b s T. drun b (empty_studio, {#}) (s, T) \<and>
     map (\<lambda>r. (dr_id r, dr_status r, dr_error_type r)) (sd_events s) =
       [(''1'', ''completed'', []), (''1'', ''error'', ''storage_error'')]"
proof -
  let ?h = "handle_of_run one_run"
  let ?f = "storageFailureDelegationRun id 9 ''persist delegation cancellation'' False [] one_run"
  let ?s4 = "emitDelegationTerminal ?f (stop_child ''c'' (drop_owner ''1'' reported))"
  let ?M = "Monitoring one_run" and ?C = "Cancelling ''1'' (Some ?h) True"
  let ?D = "Cancelled ''1'' (Some ?h) True (fin_fail LoadFailed)" and ?E = "Exiting one_run"
  have "cancel_look ''1'' child_ended = (Some (Some ?h), child_ended)" by (simp add: cancel_look_def)
  from d_cancel [OF this, where T = "{#?M#}" and notify = True] have looked: "dstep True (child_ended, {#?M#}) (child_ended, {#?M, ?C#})"
    by (simp add: add_mset_commute)
  have "cancel_row blind_env 9 ''1'' False reported = (fin_fail LoadFailed, reported)"
    by (simp add: cancel_row_def finishDelegationRun_def delegationRunTerminal_def blind_env_def reported_def row_final_def child_ended_def)
  from d_cancel_commit [OF this, where T = "{#?E#}" and notify = True and h = "Some ?h"] obtain b where failed: "dstep b (reported, {#?E, ?C#}) (reported, {#?E, ?D#})"
    by (auto simp: add_mset_commute)
  have "cancel_effects id 9 ''1'' True False (Some ?h) (fin_fail LoadFailed) reported = (Some (StorageError False), ?s4)"
    by (simp add: cancel_effects_def fin_fail_def preferDelegationRun_def failDelegationForStorage_def stopDelegationForStorage_def
        takeDelegationOwner_def)
  from d_cancelled [OF this, where T = "{#?E#}"] have again: "dstep True (reported, {#?E, ?D#}) (?s4, {#?E#})"
    by (simp add: add_mset_commute)
  note run = drun_step [OF drun_step [OF drun_step [OF drun_step [OF drun_step [OF drun_step [OF drun_step
      [OF run_started step_ended] looked] step_looked] step_committed] step_reported] failed] again]
  have "sd_events ?s4 = [done_run, ?f]" by (simp add: reported_def row_final_def child_ended_def) (simp add: started_def)
  then have "map (\<lambda>r. (dr_id r, dr_status r, dr_error_type r)) (sd_events ?s4) =
       [(''1'', ''completed'', []), (''1'', ''error'', ''storage_error'')]"
    by (simp add: storageFailureDelegationRun_def)
  with run show ?thesis by (intro exI conjI)
qed


lemma delegation_registry_bounded_witness: "length (sd_registry started) \<le> 4 \<and> sd_registry started \<noteq> []"
  using delegation_registry_bounded [OF run_started] by (simp add: started_def)


end
