(* ===== verification/AnswerPages.thy ===== *)
theory AnswerPages
  imports Delegation
begin

section \<open>Reading an answer in pages\<close>

text \<open>
  \<^verbatim>\<open>FetchDelegationAnswer\<close> of \<^verbatim>\<open>internal/studio/delegation.go\<close>: the pages of a valid text are valid texts, meet
  without gap or overlap, and rebuild it.
\<close>

lemma cut_start_le: "cut_start full i \<le> i"
  by (induction i) auto

lemma cut_start_start: "rune_start (full ! 0) \<Longrightarrow> rune_start (full ! cut_start full i)"
  by (induction i) auto

lemma cut_start_id: "rune_start (full ! i) \<Longrightarrow> cut_start full i = i"
  by (cases i) auto

lemma cut_start_first: "j \<le> i \<Longrightarrow> rune_start (full ! j) \<Longrightarrow> j \<le> cut_start full i"
  by (induction i) (auto simp: le_Suc_eq)

lemma cut_end_le: "cut_end full i e \<le> e"
  by (induction full i e rule: cut_end.induct) (subst cut_end.simps, auto)

lemma cut_end_ge: "i \<le> e \<Longrightarrow> i \<le> cut_end full i e"
  by (induction full i e rule: cut_end.induct) (subst cut_end.simps, auto)

lemma cut_end_start:
  "i < cut_end full i e \<Longrightarrow> cut_end full i e < length full \<Longrightarrow> rune_start (full ! cut_end full i e)"
proof (induction full i e rule: cut_end.induct)
  case (1 full i e)
  show ?case
  proof (cases "i < e \<and> e < length full \<and> \<not> rune_start (full ! e)")
    case True
    then have "cut_end full i e = cut_end full i (e - 1)" by (subst cut_end.simps) simp
    with 1 True show ?thesis by simp
  next
    case False
    then have "cut_end full i e = e" by (subst cut_end.simps) auto
    with False 1(2,3) show ?thesis by auto
  qed
qed

lemma cut_end_last: "i < j \<Longrightarrow> j \<le> e \<Longrightarrow> rune_start (full ! j) \<Longrightarrow> j \<le> cut_end full i e"
proof (induction full i e rule: cut_end.induct)
  case (1 full i e)
  show ?case
  proof (cases "i < e \<and> e < length full \<and> \<not> rune_start (full ! e)")
    case True
    then have "cut_end full i e = cut_end full i (e - 1)" by (subst cut_end.simps) simp
    moreover have "j \<noteq> e" using True 1(4) by auto
    ultimately show ?thesis using 1(1) [OF True] 1(2,3,4) by simp
  next
    case False
    then have "cut_end full i e = e" by (subst cut_end.simps) auto
    with 1(3) show ?thesis by simp
  qed
qed

lemma cut_end_all: "cut_end full i (length full) = length full"
  by (subst cut_end.simps) simp

text \<open>The window of a page, in bytes.\<close>

definition page_size :: "int \<Rightarrow> nat" where
  "page_size maxBytes =
     nat (if maxBytes \<le> 0 \<or> DelegateFetchMaxBytes < maxBytes then DelegateFetchMaxBytes
          else if maxBytes < DelegateFetchMinBytes then DelegateFetchMinBytes else maxBytes)"

lemma page_size_bounds: "4 \<le> page_size m" "page_size m \<le> 8192"
  by (auto simp: page_size_def DelegateFetchMaxBytes_def DelegateFetchMinBytes_def)

lemma answer_page_eq:
  assumes "nat offset < length full"
  shows "answer_page full offset m =
    (let i1 = cut_start full (nat offset); e = cut_end full i1 (min (i1 + page_size m) (length full));
         text' = take (e - i1) (drop i1 full)
     in \<lparr>ap_offset = i1, ap_text = text', ap_full_size = length full, ap_truncated = (i1 + length text' < length full)\<rparr>)"
  using assms unfolding answer_page_def Let_def page_size_def by (simp only: not_le [symmetric] if_False)

lemma answer_page_inside:
  assumes v: "valid_utf8 full" and i: "nat offset < length full"
  obtains i1 e where "answer_page full offset m =
      \<lparr>ap_offset = i1, ap_text = take (e - i1) (drop i1 full), ap_full_size = length full, ap_truncated = (e < length full)\<rparr>"
    "i1 \<le> nat offset" "nat offset < i1 + 4" "rune_start (full ! i1)" "rune_start (full ! nat offset) \<Longrightarrow> i1 = nat offset"
    "nat offset < e" "e \<le> length full" "e \<le> i1 + page_size m" "e < length full \<Longrightarrow> rune_start (full ! e)"
proof -
  have "full \<noteq> []" using i by auto
  then have s0: "rune_start (full ! 0)" by (rule valid_start [OF v])
  let ?i = "cut_start full (nat offset)"
  let ?top = "min (?i + page_size m) (length full)"
  let ?e = "cut_end full ?i ?top"
  obtain j where j: "j \<le> nat offset" "nat offset < j + 4" "rune_start (full ! j)" using starts_are_near [OF v i] by blast
  have i1: "?i \<le> nat offset" "nat offset < ?i + 4" "rune_start (full ! ?i)"
    using cut_start_le [of full "nat offset"] cut_start_first [OF j(1,3)] j(2) cut_start_start [OF s0] by auto
  have le: "?e \<le> length full" "?e \<le> ?i + page_size m" using cut_end_le [of full ?i ?top] by auto
  have gt: "nat offset < ?e"
  proof (cases "?top = length full")
    case True
    then show ?thesis using cut_end_all i by metis
  next
    case False
    then have e0: "?top = ?i + page_size m" "?top < length full" by auto
    obtain k where k: "k \<le> ?top" "?top < k + 4" "rune_start (full ! k)" using starts_are_near [OF v e0(2)] by blast
    have "?i < k" using k(2) e0(1) page_size_bounds(1) [of m] by linarith
    moreover have "nat offset < k" using cut_start_first [of k "nat offset" full] k(3) \<open>?i < k\<close> by (meson not_less order.strict_trans2)
    ultimately show ?thesis using cut_end_last [OF _ k(1,3), of ?i] by linarith
  qed
  have "i1 + length (take (e - i1) (drop i1 full)) < length full \<longleftrightarrow> e < length full" if "i1 < e" "e \<le> length full" for i1 e
    using that by auto
  moreover have "?i < ?e" using i1(1) gt by linarith
  ultimately have "answer_page full offset m =
      \<lparr>ap_offset = ?i, ap_text = take (?e - ?i) (drop ?i full), ap_full_size = length full, ap_truncated = (?e < length full)\<rparr>"
    using answer_page_eq [OF i, of m] le(1) by (simp only: Let_def)
  moreover have "?e < length full \<Longrightarrow> rune_start (full ! ?e)" using cut_end_start [of ?i full ?top] i1(1) gt by linarith
  ultimately show ?thesis using that i1 gt le cut_start_id by blast
qed

text \<open>A reader that asks for the next page until none is left; \<open>n\<close> bounds the number of its calls.\<close>

fun fetch_all :: "string \<Rightarrow> int \<Rightarrow> nat \<Rightarrow> nat \<Rightarrow> string list" where
  "fetch_all full m 0 i = []"
| "fetch_all full m (Suc n) i =
     (let p = answer_page full (int i) m
      in ap_text p # (if ap_truncated p then fetch_all full m n (ap_offset p + length (ap_text p)) else []))"

text \<open>
  C30: An answer can be read in pages. Whatever page size is asked for, a reader that starts at 0 and goes on
  where the last page ended gets, after at most as many calls as the answer has bytes, texts that together
  are the answer; each of them is valid UTF-8 and has at most 8192 bytes.
\<close>
theorem pages_rebuild_answer:
  assumes "valid_utf8 full" "length full \<le> n"
  shows "concat (fetch_all full m n 0) = full \<and> (\<forall>t\<in>set (fetch_all full m n 0). valid_utf8 t \<and> length t \<le> 8192)"
proof -
  have "concat (fetch_all full m n i) = drop i full \<and> (\<forall>t\<in>set (fetch_all full m n i). valid_utf8 t \<and> length t \<le> 8192)"
    if "i \<le> length full" "i < length full \<longrightarrow> rune_start (full ! i)" "length full - i \<le> n" for i
    using that
  proof (induction n arbitrary: i)
    case (Suc n)
    show ?case
    proof (cases "i < length full")
      case False
      then have "answer_page full (int i) m = \<lparr>ap_offset = length full, ap_text = [], ap_full_size = length full, ap_truncated = False\<rparr>"
        by (simp add: answer_page_def Let_def)
      with False show ?thesis by simp
    next
      case True
      obtain i1 e where p: "answer_page full (int i) m =
          \<lparr>ap_offset = i1, ap_text = take (e - i1) (drop i1 full), ap_full_size = length full, ap_truncated = (e < length full)\<rparr>"
        "rune_start (full ! nat (int i)) \<Longrightarrow> i1 = nat (int i)" "nat (int i) < e" "e \<le> length full" "e \<le> i1 + page_size m"
        "e < length full \<Longrightarrow> rune_start (full ! e)"
        using answer_page_inside [OF assms(1), of "int i" m] True by (metis nat_int)
      have i1: "i1 = i" "i < e" using p(2,3) Suc.prems(2) True by auto
      let ?t = "take (e - i) (drop i full)"
      have len: "length ?t = e - i" using p(4) by simp
      have "valid_utf8 (drop i full)" using valid_split [OF assms(1) True] Suc.prems(2) True by blast
      moreover have "e < length full \<Longrightarrow> valid_utf8 (take (e - i) (drop i full))"
        using valid_split [OF calculation, of "e - i"] p(6) i1(2) by simp
      moreover have "e = length full \<Longrightarrow> ?t = drop i full" by simp
      ultimately have "valid_utf8 ?t" using p(4) by (cases "e = length full") auto
      moreover have "length ?t \<le> 8192" using len p(5) i1(1) page_size_bounds(2) [of m] by linarith
      moreover have "i + length ?t = e" using len i1(2) by simp
      moreover have "fetch_all full m (Suc n) i = ?t # (if e < length full then fetch_all full m n (i + length ?t) else [])"
        using p(1) i1(1) by (simp add: Let_def)
      ultimately have page: "fetch_all full m (Suc n) i = ?t # (if e < length full then fetch_all full m n e else [])"
        "valid_utf8 ?t \<and> length ?t \<le> 8192" by simp_all
      have whole: "?t @ drop e full = drop i full"
        using i1(2) append_take_drop_id [of "e - i" "drop i full"] by simp
      show ?thesis
      proof (cases "e < length full")
        case True
        with Suc.IH [of e] p(6) Suc.prems(3) i1(2)
        have "concat (fetch_all full m n e) = drop e full \<and> (\<forall>t\<in>set (fetch_all full m n e). valid_utf8 t \<and> length t \<le> 8192)" by simp
        with page whole True show ?thesis by simp
      next
        case False
        with whole have "?t = drop i full" by simp
        with page False show ?thesis by simp
      qed
    qed
  qed simp
  note pages = this
  have "0 < length full \<longrightarrow> rune_start (full ! 0)" using valid_start [OF assms(1)] by blast
  with pages [of 0] assms(2) show ?thesis by (metis diff_zero drop0 zero_le)
qed

lemma pages_rebuild_answer_witness: "concat (fetch_all ''abcdef'' 4 6 0) = ''abcdef'' \<and> length (fetch_all ''abcdef'' 4 6 0) = 2"
proof -
  have "valid_utf8 ''abcdef''" by code_simp
  then have "concat (fetch_all ''abcdef'' 4 6 0) = ''abcdef''" using pages_rebuild_answer [of "''abcdef''" 6 4] by simp
  moreover have "length (fetch_all ''abcdef'' 4 6 0) = 2" by code_simp
  ultimately show ?thesis ..
qed

end
