(* ===== verification/Schedule.thy ===== *)
theory Schedule
  imports Utf8 "HOL-Library.Product_Lexorder" "HOL-Library.List_Lexorder" "HOL-Library.Char_ord"
begin

section \<open>Scheduled tasks\<close>

text \<open>
  The first half of \<^verbatim>\<open>internal/studio/scheduled_tasks.go\<close>: tasks, the check of a task and the computation of
  its next run. Times are Unix milliseconds. A zone is given by three functions: the day and the time of day
  of an instant, days counted from 1 January 1970, and the instant of a day and a time of day, as
  \<open>time.Date\<close> gives it. A computation that may not end has the value \<open>None\<close> when it does not.
\<close>

subsection \<open>Limits and data\<close>

definition maxScheduledTasks :: nat where
  "maxScheduledTasks = 64"

definition maxScheduledTaskName :: nat where
  "maxScheduledTaskName = 120"

definition maxScheduledTaskError :: nat where
  "maxScheduledTaskError = 2000"

definition maxScheduledTaskRuns :: nat where
  "maxScheduledTaskRuns = 512"

definition maxRunsPerScheduledTask :: nat where
  "maxRunsPerScheduledTask = 50"

definition minScheduleIntervalMins :: int where
  "minScheduleIntervalMins = 15"

definition maxScheduleIntervalMins :: int where
  "maxScheduleIntervalMins = 7 * 24 * 60"

definition ChatMessageMaxBytes :: nat where
  "ChatMessageMaxBytes = 1048576"

record scheduled_task =
  sk_id :: string
  sk_project_id :: string
  sk_session_id :: string
  sk_name :: string
  sk_prompt :: string
  sk_schedule :: string
  sk_interval_minutes :: int
  sk_time_of_day :: string
  sk_weekday :: int
  sk_enabled :: bool
  sk_created_at :: int
  sk_next_run_at :: int
  sk_last_run_at :: int
  sk_last_run_id :: string
  sk_last_status :: string
  sk_last_error :: string
  sk_provider :: string
  sk_model :: string
  sk_approval_mode :: string

record scheduled_run =
  sr_id :: string
  sr_task_id :: string
  sr_project_id :: string
  sr_session_id :: string
  sr_started_at :: int
  sr_completed_at :: int
  sr_status :: string
  sr_error :: string
  sr_provider :: string
  sr_model :: string
  sr_approval_mode :: string

text \<open>An error is its text.\<close>

type_synonym sched_error = string

definition normalizeScheduledApprovalMode :: "string \<Rightarrow> string" where
  "normalizeScheduledApprovalMode mode =
     (let m = to_lower (trim_space mode)
      in if m = ''ask'' then ''manual''
         else if m \<in> {''acceptedits'', ''accept_edits'', ''accept-edits''} then ''accept_edits''
         else m)"

definition approval_modes :: "string list" where
  "approval_modes = [''manual'', ''accept_edits'', ''auto'', ''skip'']"

definition scheduledApprovalModeForExecution :: "string \<Rightarrow> string" where
  "scheduledApprovalModeForExecution mode =
     (let m = normalizeScheduledApprovalMode mode in if m = [] then ''manual'' else m)"

definition ellipsis :: string where
  "ellipsis = [CHR 0xE2, CHR 0x80, CHR 0xA6]"

definition scheduledTaskTitle :: "string \<Rightarrow> nat \<Rightarrow> string" where
  "scheduledTaskTitle value maxRunes =
     (let v = trim_space value; l = takeWhile (\<lambda>c. c \<noteq> CHR 0x0A) v; rs = runes l
      in if maxRunes < length rs then concat (map rune_text (take maxRunes rs)) @ ellipsis else l)"

subsection \<open>Times of day\<close>

text \<open>\<open>time.Parse("15:04", \<dots>)\<close>: one or two digits, a colon and two digits.\<close>

definition is_dec :: "char \<Rightarrow> bool" where
  "is_dec c \<longleftrightarrow> between 48 c 57"

definition dec :: "char \<Rightarrow> int" where
  "dec c = int (byte c) - 48"

fun getnum :: "string \<Rightarrow> bool \<Rightarrow> (int \<times> string) option" where
  "getnum (a # b # s) fixed =
     (if \<not> is_dec a then None
      else if is_dec b then Some (dec a * 10 + dec b, s)
      else if fixed then None else Some (dec a, b # s))"
| "getnum [a] fixed = (if is_dec a \<and> \<not> fixed then Some (dec a, []) else None)"
| "getnum [] fixed = None"

definition parseLocalTime :: "string \<Rightarrow> (int \<times> int) option" where
  "parseLocalTime value =
     (case getnum value False of
        Some (h, c # r) \<Rightarrow>
          (if c = CHR '':'' \<and> h < 24
           then (case getnum r True of Some (m, []) \<Rightarrow> if m < 60 then Some (h, m) else None | _ \<Rightarrow> None)
           else None)
      | _ \<Rightarrow> None)"

definition clock_ms :: "int \<times> int \<Rightarrow> int" where
  "clock_ms hm = (fst hm * 60 + snd hm) * 60000"

definition task_clock :: "scheduled_task \<Rightarrow> int" where
  "task_clock t = clock_ms (case parseLocalTime (sk_time_of_day t) of None \<Rightarrow> (0, 0) | Some hm \<Rightarrow> hm)"

subsection \<open>Zones\<close>

record zone =
  zn_day :: "int \<Rightarrow> int"
  zn_clock :: "int \<Rightarrow> int"
  zn_at :: "int \<Rightarrow> int \<Rightarrow> int"

definition day_ms :: int where
  "day_ms = 86400000"

text \<open>1 January 1970 was a Thursday; Sunday is 0.\<close>

definition weekday :: "int \<Rightarrow> int" where
  "weekday d = (d + 4) mod 7"

definition is_weekend :: "int \<Rightarrow> bool" where
  "is_weekend d \<longleftrightarrow> weekday d = 6 \<or> weekday d = 0"

text \<open>\<open>t.AddDate(0, 0, n)\<close>.\<close>

definition add_days :: "zone \<Rightarrow> int \<Rightarrow> int \<Rightarrow> int" where
  "add_days z t n = zn_at z (zn_day z t + n) (zn_clock z t)"

text \<open>
  A zone with one change of its offset, at an instant. The functions are those of Go's \<^verbatim>\<open>time\<close> package:
  \<open>time.Date\<close> looks up the offset of the time taken as UTC, and once more when the result lies on the other
  side of the change.
\<close>

definition zone_with_change :: "int \<Rightarrow> int \<Rightarrow> int \<Rightarrow> zone" where
  "zone_with_change before change after =
     (let lookup = (\<lambda>t. if t < change then before else after)
      in \<lparr>zn_day = (\<lambda>t. (t + lookup t) div day_ms), zn_clock = (\<lambda>t. (t + lookup t) mod day_ms),
          zn_at = (\<lambda>d c. let unix = d * day_ms + c; offset = lookup unix; utc = unix - offset
                          in if offset = 0 then unix
                             else if (utc < change) \<noteq> (unix < change) then unix - lookup utc else utc)\<rparr>)"

subsection \<open>The next run\<close>

text \<open>The loop over the weekend looks at the day of the candidate again.\<close>

partial_function (option) skip_weekend :: "zone \<Rightarrow> int \<Rightarrow> int \<Rightarrow> int option" where
  "skip_weekend z c candidate =
     (if is_weekend (zn_day z candidate)
      then skip_weekend z c (zn_at z (zn_day z (add_days z candidate 1)) c) else Some candidate)"

declare skip_weekend.simps [code]

text \<open>The remainder of Go, which has the sign of the dividend.\<close>

definition go_rem :: "int \<Rightarrow> int \<Rightarrow> int" where
  "go_rem a b = sgn a * (\<bar>a\<bar> mod \<bar>b\<bar>)"

definition zero_time_ms :: int where
  "zero_time_ms = - 62135596800000"

definition nextScheduledRun :: "zone \<Rightarrow> scheduled_task \<Rightarrow> int \<Rightarrow> int option" where
  "nextScheduledRun z task after =
     (let c = task_clock task; d = zn_day z after; candidate = zn_at z d c
      in if sk_schedule task = ''interval'' then Some (after + sk_interval_minutes task * 60000)
         else if sk_schedule task = ''daily''
         then Some (if candidate \<le> after then add_days z candidate 1 else candidate)
         else if sk_schedule task = ''weekdays''
         then skip_weekend z c (if candidate \<le> after then zn_at z (zn_day z (add_days z after 1)) c else candidate)
         else if sk_schedule task = ''weekly''
         then (let c1 = add_days z candidate (go_rem (sk_weekday task - weekday d + 7) 7)
               in Some (if c1 \<le> after then add_days z c1 7 else c1))
         else if sk_schedule task = ''manual'' then Some zero_time_ms
         else Some (after + day_ms))"

subsection \<open>Checking a task\<close>

text \<open>
  \<open>catalog\<close> gives the error for a model that the provider does not have, \<open>uuid\<close> is a new identifier.
\<close>

definition clean_task :: "scheduled_task \<Rightarrow> scheduled_task" where
  "clean_task t =
     t\<lparr>sk_id := trim_space (sk_id t), sk_project_id := trim_space (sk_project_id t),
       sk_session_id := trim_space (sk_session_id t), sk_name := trim_space (sk_name t), sk_prompt := trim_space (sk_prompt t),
       sk_schedule := to_lower (trim_space (sk_schedule t)), sk_time_of_day := trim_space (sk_time_of_day t),
       sk_provider := to_lower (trim_space (sk_provider t)), sk_model := trim_space (sk_model t),
       sk_approval_mode := normalizeScheduledApprovalMode (sk_approval_mode t)\<rparr>"

definition schedule_fields :: "scheduled_task \<Rightarrow> sched_error + scheduled_task" where
  "schedule_fields t =
     (if sk_schedule t = ''interval''
      then (if sk_interval_minutes t < minScheduleIntervalMins \<or> maxScheduleIntervalMins < sk_interval_minutes t
            then Inl ''interval must be between 15 and 10080 minutes''
            else Inr (t\<lparr>sk_time_of_day := [], sk_weekday := 0\<rparr>))
      else if sk_schedule t \<in> {''daily'', ''weekdays'', ''weekly''}
      then (if parseLocalTime (sk_time_of_day t) = None then Inl ''time must use HH:MM (24-hour local time)''
            else if sk_schedule t = ''weekly''
            then (if sk_weekday t < 0 \<or> 6 < sk_weekday t then Inl ''weekday must be between 0 and 6''
                  else Inr (t\<lparr>sk_interval_minutes := 0\<rparr>))
            else Inr (t\<lparr>sk_interval_minutes := 0, sk_weekday := 0\<rparr>))
      else if sk_schedule t = ''manual'' then Inr (t\<lparr>sk_interval_minutes := 0, sk_time_of_day := [], sk_weekday := 0\<rparr>)
      else Inl ''schedule must be interval, daily, weekdays, weekly, or manual'')"

definition validateScheduledTask ::
  "zone \<Rightarrow> (string \<Rightarrow> string \<Rightarrow> sched_error option) \<Rightarrow> string \<Rightarrow> int \<Rightarrow> scheduled_task \<Rightarrow> (sched_error + scheduled_task) option" where
  "validateScheduledTask z catalog uuid now input =
     (let t = clean_task input
      in if 128 < length (sk_id t) \<or> CHR 0x00 \<in> set (sk_id t) then Some (Inl ''invalid scheduled task ID'')
         else if sk_project_id t = [] then Some (Inl ''project is required'')
         else
           let t1 = t\<lparr>sk_session_id := (if sk_session_id t = [] then ''default'' else sk_session_id t),
                      sk_name := (if sk_name t = [] then scheduledTaskTitle (sk_prompt t) 60 else sk_name t)\<rparr>
           in if sk_name t1 = [] \<or> maxScheduledTaskName < length (runes (sk_name t1))
              then Some (Inl ''task name must contain 1-120 characters'')
              else if \<not> validateRPCText (sk_prompt t1) ChatMessageMaxBytes True then Some (Inl ''prompt'')
              else case schedule_fields t1 of
                     Inl e \<Rightarrow> Some (Inl e)
                   | Inr t2 \<Rightarrow>
                       if (sk_provider t2 = []) \<noteq> (sk_model t2 = [])
                       then Some (Inl ''provider and model must be selected together'')
                       else case (if sk_provider t2 \<noteq> [] then catalog (sk_provider t2) (sk_model t2) else None) of
                              Some e \<Rightarrow> Some (Inl e)
                            | None \<Rightarrow>
                                let t3 = t2\<lparr>sk_approval_mode := (if sk_approval_mode t2 = [] then ''manual'' else sk_approval_mode t2)\<rparr>
                                in if sk_approval_mode t3 \<notin> set approval_modes
                                   then Some (Inl ''approval mode must be manual, accept_edits, auto, or skip'')
                                   else
                                     let t4 = t3\<lparr>sk_id := (if sk_id t3 = [] then uuid else sk_id t3),
                                                 sk_created_at := (if sk_created_at t3 = 0 then now else sk_created_at t3)\<rparr>
                                     in if sk_schedule t4 = ''manual'' then Some (Inr (t4\<lparr>sk_next_run_at := 0\<rparr>))
                                        else case nextScheduledRun z t4 now of
                                               None \<Rightarrow> None | Some n \<Rightarrow> Some (Inr (t4\<lparr>sk_next_run_at := n\<rparr>)))"

end
