(* ===== verification/Scheduler.thy ===== *)
theory Scheduler
  imports Schedule
begin

section \<open>The scheduler\<close>

text \<open>
  The second half of \<^verbatim>\<open>internal/studio/scheduled_tasks.go\<close>: the two files, of tasks and of runs, and the
  critical sections that work on them. Which accesses to the files fail, and with which text, is a
  parameter. The chats of runs are created, started and deleted elsewhere: what that does is a parameter too.
\<close>

subsection \<open>The files\<close>

record scheduler =
  sc_tasks :: "scheduled_task list"
  sc_runs :: "scheduled_run list"

record sched_env =
  en_load_tasks :: "sched_error option"
  en_load_runs :: "sched_error option"
  en_save_tasks :: "sched_error option"
  en_save_runs :: "sched_error option"
  en_restore_runs :: "sched_error option"

definition loadScheduledTasksRaw :: "sched_env \<Rightarrow> scheduler \<Rightarrow> sched_error + scheduled_task list" where
  "loadScheduledTasksRaw env s =
     (case en_load_tasks env of
        Some e \<Rightarrow> Inl e
      | None \<Rightarrow> if maxScheduledTasks < length (sc_tasks s) then Inl ''scheduled task file exceeds the 64-task limit'' else Inr (sc_tasks s))"

definition loadScheduledTaskRunsRaw :: "sched_env \<Rightarrow> scheduler \<Rightarrow> sched_error + scheduled_run list" where
  "loadScheduledTaskRunsRaw env s =
     (case en_load_runs env of
        Some e \<Rightarrow> Inl e
      | None \<Rightarrow> if maxScheduledTaskRuns < length (sc_runs s) then Inl ''scheduled task run file exceeds the 512-run limit'' else Inr (sc_runs s))"

definition saveScheduledTasksRaw :: "sched_env \<Rightarrow> scheduled_task list \<Rightarrow> scheduler \<Rightarrow> sched_error option \<times> scheduler" where
  "saveScheduledTasksRaw env ts s =
     (if maxScheduledTasks < length ts then (Some ''at most 64 scheduled tasks are allowed'', s)
      else case en_save_tasks env of Some e \<Rightarrow> (Some e, s) | None \<Rightarrow> (None, s\<lparr>sc_tasks := ts\<rparr>))"

definition save_runs :: "sched_error option \<Rightarrow> scheduled_run list \<Rightarrow> scheduler \<Rightarrow> sched_error option \<times> scheduler" where
  "save_runs io rs s =
     (if maxScheduledTaskRuns < length rs then (Some ''at most 512 scheduled task runs are retained'', s)
      else case io of Some e \<Rightarrow> (Some e, s) | None \<Rightarrow> (None, s\<lparr>sc_runs := rs\<rparr>))"

definition saveScheduledTaskRunsRaw :: "sched_env \<Rightarrow> scheduled_run list \<Rightarrow> scheduler \<Rightarrow> sched_error option \<times> scheduler" where
  "saveScheduledTaskRunsRaw env = save_runs (en_save_runs env)"

text \<open>The next two read both files; a task or a run is found by its identifiers.\<close>

definition task_is :: "string \<Rightarrow> string \<Rightarrow> scheduled_task \<Rightarrow> bool" where
  "task_is project i t \<longleftrightarrow> sk_id t = i \<and> sk_project_id t = project"

definition run_of_task :: "string \<Rightarrow> string \<Rightarrow> scheduled_run \<Rightarrow> bool" where
  "run_of_task project i r \<longleftrightarrow> sr_project_id r = project \<and> sr_task_id r = i"

definition scheduledTaskRunTerminal :: "string \<Rightarrow> bool" where
  "scheduledTaskRunTerminal st \<longleftrightarrow> st \<in> {''completed'', ''stopped'', ''error''}"

definition run_live :: "scheduled_run \<Rightarrow> bool" where
  "run_live r \<longleftrightarrow> \<not> scheduledTaskRunTerminal (sr_status r)"

subsection \<open>Listing and saving\<close>

record project_view =
  pv_provider :: string
  pv_model :: string
  pv_sessions :: "(string \<times> string) list"
  pv_archived :: "string list"

text \<open>A project has chats, each with the chat it was started from; some are archived.\<close>

type_synonym projects = "string \<Rightarrow> project_view option"

definition has_session :: "project_view \<Rightarrow> string \<Rightarrow> bool" where
  "has_session p sid \<longleftrightarrow> sid \<in> fst ` set (pv_sessions p)"

definition listed_task :: "project_view option \<Rightarrow> scheduled_task \<Rightarrow> scheduled_task" where
  "listed_task p t =
     (let t1 = (case p of
                  Some q \<Rightarrow> if sk_provider t = [] \<and> sk_model t = [] then t\<lparr>sk_provider := pv_provider q, sk_model := pv_model q\<rparr> else t
                | None \<Rightarrow> t)
      in t1\<lparr>sk_approval_mode := scheduledApprovalModeForExecution (sk_approval_mode t1)\<rparr>)"

definition ListScheduledTasks :: "sched_env \<Rightarrow> projects \<Rightarrow> string \<Rightarrow> scheduler \<Rightarrow> sched_error + scheduled_task list" where
  "ListScheduledTasks env projects project s =
     (case loadScheduledTasksRaw env s of
        Inl e \<Rightarrow> Inl e
      | Inr ts \<Rightarrow> Inr (sort_key (\<lambda>t. (\<not> sk_enabled t, sk_next_run_at t))
                        (map (listed_task (projects project)) (filter (\<lambda>t. project = [] \<or> sk_project_id t = project) ts))))"

definition ListScheduledTaskRuns :: "sched_env \<Rightarrow> string \<Rightarrow> string \<Rightarrow> scheduler \<Rightarrow> sched_error + scheduled_run list" where
  "ListScheduledTaskRuns env project i s =
     (case loadScheduledTaskRunsRaw env s of
        Inl e \<Rightarrow> Inl e
      | Inr rs \<Rightarrow> Inr (sort_key (\<lambda>r. - sr_started_at r)
                        (filter (\<lambda>r. sr_project_id r = project \<and> (i = [] \<or> sr_task_id r = i)) rs)))"

text \<open>An edit keeps the summary of the runs; a new task starts without one, whatever the caller sent.\<close>

definition edited_task :: "scheduled_task \<Rightarrow> scheduled_task \<Rightarrow> scheduled_task" where
  "edited_task old t =
     t\<lparr>sk_created_at := sk_created_at old, sk_last_run_at := sk_last_run_at old, sk_last_run_id := sk_last_run_id old,
       sk_last_status := sk_last_status old, sk_last_error := sk_last_error old\<rparr>"

definition fresh_task :: "scheduled_task \<Rightarrow> scheduled_task" where
  "fresh_task t = t\<lparr>sk_last_run_at := 0, sk_last_run_id := [], sk_last_status := [], sk_last_error := []\<rparr>"

text \<open>The critical section of \<open>SaveScheduledTask\<close>.\<close>

definition store_task :: "sched_env \<Rightarrow> scheduled_task \<Rightarrow> scheduler \<Rightarrow> (sched_error + scheduled_task) \<times> scheduler" where
  "store_task env t s =
     (case loadScheduledTasksRaw env s of
        Inl e \<Rightarrow> (Inl e, s)
      | Inr ts \<Rightarrow>
          (case find (\<lambda>u. sk_id u = sk_id t) ts of
             Some old \<Rightarrow>
               if sk_project_id old \<noteq> sk_project_id t then (Inl ''scheduled task belongs to another project'', s)
               else let t1 = edited_task old t
                    in case saveScheduledTasksRaw env (upd_first (\<lambda>u. sk_id u = sk_id t) (\<lambda>_. t1) ts) s of
                         (Some e, s1) \<Rightarrow> (Inl e, s1) | (None, s1) \<Rightarrow> (Inr t1, s1)
           | None \<Rightarrow>
               if maxScheduledTasks \<le> length ts then (Inl ''at most 64 scheduled tasks are allowed'', s)
               else let t1 = fresh_task t
                    in case saveScheduledTasksRaw env (ts @ [t1]) s of (Some e, s1) \<Rightarrow> (Inl e, s1) | (None, s1) \<Rightarrow> (Inr t1, s1)))"

definition SaveScheduledTask ::
  "zone \<Rightarrow> (string \<Rightarrow> string \<Rightarrow> sched_error option) \<Rightarrow> (string \<Rightarrow> string \<Rightarrow> sched_error option) \<Rightarrow> string \<Rightarrow> int \<Rightarrow> projects \<Rightarrow>
   sched_env \<Rightarrow> scheduled_task \<Rightarrow> scheduler \<Rightarrow> ((sched_error + scheduled_task) \<times> scheduler) option" where
  "SaveScheduledTask z catalog available uuid now projects env input s =
     (case validateScheduledTask z catalog uuid now input of
        None \<Rightarrow> None
      | Some (Inl e) \<Rightarrow> Some (Inl e, s)
      | Some (Inr t) \<Rightarrow>
          (case projects (sk_project_id t) of
             None \<Rightarrow> Some (Inl (''project not found: '' @ sk_project_id t), s)
           | Some p \<Rightarrow>
               let t1 = (if sk_provider t = [] then t\<lparr>sk_provider := pv_provider p, sk_model := pv_model p\<rparr> else t)
               in case available (sk_provider t1) (sk_model t1) of
                    Some e \<Rightarrow> Some (Inl e, s)
                  | None \<Rightarrow>
                      if \<not> has_session p (sk_session_id t1) then Some (Inl (''session not found: '' @ sk_session_id t1), s)
                      else Some (store_task env t1 s)))"

subsection \<open>Deleting\<close>

definition scheduledTaskDeletionSnapshot ::
  "sched_env \<Rightarrow> string \<Rightarrow> string \<Rightarrow> scheduler \<Rightarrow> sched_error + (scheduled_task \<times> scheduled_run list)" where
  "scheduledTaskDeletionSnapshot env project i s =
     (case loadScheduledTasksRaw env s of
        Inl e \<Rightarrow> Inl e
      | Inr ts \<Rightarrow>
          (case find (task_is project i) ts of
             None \<Rightarrow> Inl ''scheduled task not found''
           | Some t \<Rightarrow>
               if sk_id t = [] then Inl ''scheduled task not found''
               else case loadScheduledTaskRunsRaw env s of
                      Inl e \<Rightarrow> Inl e | Inr rs \<Rightarrow> Inr (t, filter (run_of_task project i) rs)))"

definition scheduledRunIDSet :: "scheduled_run list \<Rightarrow> string set" where
  "scheduledRunIDSet rs = sr_id ` set rs"

text \<open>Both files under one lock: the runs first, put back when the tasks cannot be written.\<close>

definition commit_removal ::
  "string \<Rightarrow> sched_env \<Rightarrow> scheduled_run list \<Rightarrow> scheduled_run list \<Rightarrow> scheduled_run list \<Rightarrow> scheduled_task list \<Rightarrow> scheduler \<Rightarrow>
   sched_error option \<times> scheduler" where
  "commit_removal what env runs removed runOut taskOut s =
     (case (if removed \<noteq> [] then saveScheduledTaskRunsRaw env runOut s else (None, s)) of
        (Some e, s1) \<Rightarrow> (Some e, s1)
      | (None, s1) \<Rightarrow>
          (case saveScheduledTasksRaw env taskOut s1 of
             (None, s2) \<Rightarrow> (None, s2)
           | (Some e, s2) \<Rightarrow>
               if removed = [] then (Some e, s2)
               else case save_runs (en_restore_runs env) runs s2 of
                      (Some e2, s3) \<Rightarrow> (Some (what @ e @ ''; restoring run index also failed: '' @ e2), s3)
                    | (None, s3) \<Rightarrow> (Some e, s3)))"

definition removeScheduledTaskRecords ::
  "sched_env \<Rightarrow> string \<Rightarrow> string \<Rightarrow> string set option \<Rightarrow> scheduler \<Rightarrow> (sched_error + (scheduled_run list \<times> bool)) \<times> scheduler" where
  "removeScheduledTaskRecords env project i expected s =
     (case loadScheduledTasksRaw env s of
        Inl e \<Rightarrow> (Inl e, s)
      | Inr ts \<Rightarrow>
          if \<not> list_ex (task_is project i) ts then (Inl ''scheduled task not found'', s)
          else case loadScheduledTaskRunsRaw env s of
                 Inl e \<Rightarrow> (Inl e, s)
               | Inr rs \<Rightarrow>
                   let removed = filter (run_of_task project i) rs
                   in if (case expected of None \<Rightarrow> False | Some ids \<Rightarrow> ids \<noteq> scheduledRunIDSet removed) then (Inr ([], True), s)
                      else case commit_removal ''delete scheduled task: '' env rs removed (filter (\<lambda>r. \<not> run_of_task project i r) rs)
                                  (filter (\<lambda>t. \<not> task_is project i t) ts) s of
                             (Some e, s1) \<Rightarrow> (Inl e, s1) | (None, s1) \<Rightarrow> (Inr (removed, False), s1))"

text \<open>
  The chats of runs: those that are linked to the task, how many are missing, how many are protected, and
  how many of the linked ones have a run that is not over.
\<close>

definition run_protected :: "project_view option \<Rightarrow> scheduled_task \<Rightarrow> scheduled_run \<Rightarrow> bool" where
  "run_protected p t r \<longleftrightarrow>
     sr_session_id r = [] \<or> sr_session_id r = sk_session_id t \<or>
     (case p of
        None \<Rightarrow> False
      | Some q \<Rightarrow> (case map_of (pv_sessions q) (sr_session_id r) of None \<Rightarrow> False | Some parent \<Rightarrow> parent \<noteq> sk_session_id t))"

definition run_missing :: "project_view option \<Rightarrow> scheduled_task \<Rightarrow> scheduled_run \<Rightarrow> bool" where
  "run_missing p t r \<longleftrightarrow>
     sr_session_id r \<noteq> [] \<and> sr_session_id r \<noteq> sk_session_id t \<and>
     (case p of None \<Rightarrow> True | Some q \<Rightarrow> \<not> has_session q (sr_session_id r))"

definition scheduledTaskRunSessions ::
  "projects \<Rightarrow> scheduled_task \<Rightarrow> scheduled_run list \<Rightarrow> string list \<times> nat \<times> nat \<times> nat" where
  "scheduledTaskRunSessions projects t rs =
     (let p = projects (sk_project_id t);
          owned = filter (\<lambda>r. \<not> run_protected p t r \<and> \<not> run_missing p t r) rs
      in (remdups (map sr_session_id owned), length (filter (run_missing p t) rs), length (filter (run_protected p t) rs),
          card (sr_session_id ` set (filter run_live owned))))"

definition sortedScheduledSessionIDs :: "string list \<Rightarrow> string list" where
  "sortedScheduledSessionIDs ids = sort ids"

record deletion_preview =
  dp_run_count :: nat
  dp_run_chat_count :: nat
  dp_active_run_count :: nat
  dp_missing :: nat
  dp_protected :: nat

definition GetScheduledTaskDeletionPreview ::
  "sched_env \<Rightarrow> projects \<Rightarrow> string \<Rightarrow> string \<Rightarrow> scheduler \<Rightarrow> sched_error + deletion_preview" where
  "GetScheduledTaskDeletionPreview env projects project i s =
     (case scheduledTaskDeletionSnapshot env project i s of
        Inl e \<Rightarrow> Inl e
      | Inr (t, rs) \<Rightarrow>
          (case scheduledTaskRunSessions projects t rs of
             (owned, missing, protected, active) \<Rightarrow>
               Inr \<lparr>dp_run_count = length rs, dp_run_chat_count = length owned, dp_active_run_count = active,
                    dp_missing = missing, dp_protected = protected\<rparr>))"

text \<open>The last chat of a project is not deleted, nor one whose worktree is dirty; \<open>worktree\<close> gives the refusal.\<close>

definition preflightScheduledRunSessionDeletion ::
  "projects \<Rightarrow> (string \<Rightarrow> sched_error option) \<Rightarrow> string \<Rightarrow> string list \<Rightarrow> sched_error option" where
  "preflightScheduledRunSessionDeletion projects worktree project ids =
     (if ids = [] then None
      else case projects project of
             None \<Rightarrow> Some (''project not found: '' @ project)
           | Some p \<Rightarrow>
               let active = filter (\<lambda>x. x \<notin> set (pv_archived p)) (map fst (pv_sessions p))
               in if filter (\<lambda>x. x \<notin> set ids) active = []
                  then Some ''cannot delete run data because it would remove the last remaining chat''
                  else fold (\<lambda>x acc. if acc = None then worktree x else acc) (filter (has_session p) ids) None)"

text \<open>
  \<open>DeleteScheduledTaskWithData\<close> reads, checks and removes; when a run has come in between, it starts again,
  three times at most. \<open>meanwhile\<close> is what other threads do in each attempt. The result has the removed runs and
  the chats to be deleted.
\<close>

fun delete_with_data ::
  "nat \<Rightarrow> (nat \<Rightarrow> scheduler \<Rightarrow> scheduler) \<Rightarrow> sched_env \<Rightarrow> projects \<Rightarrow> (string \<Rightarrow> sched_error option) \<Rightarrow> string \<Rightarrow> string \<Rightarrow>
   scheduler \<Rightarrow> (sched_error + (scheduled_task \<times> scheduled_run list \<times> string list)) \<times> scheduler" where
  "delete_with_data 0 meanwhile env projects worktree project i s = (Inl ''scheduled task changed while it was being deleted; try again'', s)"
| "delete_with_data (Suc n) meanwhile env projects worktree project i s =
     (case scheduledTaskDeletionSnapshot env project i s of
        Inl e \<Rightarrow> (Inl e, s)
      | Inr (t, rs) \<Rightarrow>
          let ids = sortedScheduledSessionIDs (fst (scheduledTaskRunSessions projects t rs))
          in case preflightScheduledRunSessionDeletion projects worktree project ids of
               Some e \<Rightarrow> (Inl e, s)
             | None \<Rightarrow>
                 (case removeScheduledTaskRecords env project i (Some (scheduledRunIDSet rs)) (meanwhile n s) of
                    (Inl e, s1) \<Rightarrow> (Inl e, s1)
                  | (Inr (removed, True), s1) \<Rightarrow> delete_with_data n meanwhile env projects worktree project i s1
                  | (Inr (removed, False), s1) \<Rightarrow> (Inr (t, removed, ids), s1)))"

text \<open>What happens to the chats: deleted one by one until one cannot be, or those still at work stopped.\<close>

definition chats_to_delete :: "projects \<Rightarrow> scheduled_task \<Rightarrow> scheduled_run list \<Rightarrow> string list \<Rightarrow> string list" where
  "chats_to_delete projects t removed ids = filter (\<lambda>x. x \<in> set (fst (scheduledTaskRunSessions projects t removed))) ids"

definition chats_to_stop :: "projects \<Rightarrow> scheduled_task \<Rightarrow> scheduled_run list \<Rightarrow> string list" where
  "chats_to_stop projects t removed =
     filter (\<lambda>x. x \<in> set (fst (scheduledTaskRunSessions projects t removed))) (map sr_session_id (filter run_live removed))"

definition delete_records ::
  "sched_env \<Rightarrow> string \<Rightarrow> string \<Rightarrow> scheduler \<Rightarrow> (sched_error + (scheduled_task \<times> scheduled_run list)) \<times> scheduler" where
  "delete_records env project i s =
     (case scheduledTaskDeletionSnapshot env project i s of
        Inl e \<Rightarrow> (Inl e, s)
      | Inr (t, rs) \<Rightarrow>
          (case removeScheduledTaskRecords env project i None s of
             (Inl e, s1) \<Rightarrow> (Inl e, s1) | (Inr (removed, _), s1) \<Rightarrow> (Inr (t, removed), s1)))"

definition removeScheduledTaskRunsLocked ::
  "sched_env \<Rightarrow> string \<Rightarrow> string set option \<Rightarrow> scheduler \<Rightarrow> (sched_error + scheduled_run list) \<times> scheduler" where
  "removeScheduledTaskRunsLocked env project ids s =
     (case loadScheduledTaskRunsRaw env s of
        Inl e \<Rightarrow> (Inl e, s)
      | Inr rs \<Rightarrow>
          let gone = (\<lambda>r. sr_project_id r = project \<and> (case ids of None \<Rightarrow> True | Some I \<Rightarrow> sr_task_id r \<in> I))
          in if filter gone rs = [] then (Inr [], s)
             else case saveScheduledTaskRunsRaw env (filter (\<lambda>r. \<not> gone r) rs) s of
                    (Some e, s1) \<Rightarrow> (Inl e, s1) | (None, s1) \<Rightarrow> (Inr (filter gone rs), s1))"

definition removeScheduledTasksFor ::
  "sched_env \<Rightarrow> string \<Rightarrow> string \<Rightarrow> scheduler \<Rightarrow> (sched_error + scheduled_run list) \<times> scheduler" where
  "removeScheduledTasksFor env project session s =
     (case loadScheduledTasksRaw env s of
        Inl e \<Rightarrow> (Inl e, s)
      | Inr ts \<Rightarrow>
          let gone = (\<lambda>t. sk_project_id t = project \<and> (session = [] \<or> sk_session_id t = session))
          in if filter gone ts = []
             then (if session = [] then removeScheduledTaskRunsLocked env project None s else (Inr [], s))
             else case loadScheduledTaskRunsRaw env s of
                    Inl e \<Rightarrow> (Inl e, s)
                  | Inr rs \<Rightarrow>
                      let ids = sk_id ` set (filter gone ts); out = (\<lambda>r. sr_project_id r = project \<and> sr_task_id r \<in> ids)
                      in case commit_removal ''remove scheduled tasks: '' env rs (filter out rs) (filter (\<lambda>r. \<not> out r) rs) (filter (\<lambda>t. \<not> gone t) ts) s of
                           (Some e, s1) \<Rightarrow> (Inl e, s1) | (None, s1) \<Rightarrow> (Inr (filter out rs), s1))"

subsection \<open>Starting a run\<close>

definition sameScheduledTaskExecution :: "scheduled_task \<Rightarrow> scheduled_task \<Rightarrow> bool" where
  "sameScheduledTaskExecution current expected \<longleftrightarrow>
     sk_id current = sk_id expected \<and> sk_project_id current = sk_project_id expected \<and>
     sk_session_id current = sk_session_id expected \<and> sk_prompt current = sk_prompt expected \<and>
     sk_enabled current = sk_enabled expected \<and>
     scheduledApprovalModeForExecution (sk_approval_mode current) = scheduledApprovalModeForExecution (sk_approval_mode expected) \<and>
     (sk_provider current = [] \<and> sk_model current = [] \<or>
      sk_provider current = sk_provider expected \<and> sk_model current = sk_model expected)"

text \<open>
  Retention: every live run is kept, then the final ones, the newest first, as far as the limits allow.
  \<open>kept\<close> counts are those of the tasks.
\<close>

definition runs_newest_first :: "scheduled_run list \<Rightarrow> scheduled_run list" where
  "runs_newest_first rs = sort_key (\<lambda>r. - sr_started_at r) rs"

definition task_count :: "string \<Rightarrow> scheduled_run list \<Rightarrow> nat" where
  "task_count i rs = length (filter (\<lambda>r. sr_task_id r = i) rs)"

fun keep_final :: "scheduled_run list \<Rightarrow> scheduled_run list \<Rightarrow> scheduled_run list \<Rightarrow> scheduled_run list \<times> scheduled_run list" where
  "keep_final kept evicted [] = (kept, evicted)"
| "keep_final kept evicted (r # rs) =
     (if maxScheduledTaskRuns \<le> length kept \<or> maxRunsPerScheduledTask \<le> task_count (sr_task_id r) kept
      then keep_final kept (evicted @ [r]) rs else keep_final (kept @ [r]) evicted rs)"

definition fitScheduledTaskRuns :: "scheduled_run list \<Rightarrow> sched_error + (scheduled_run list \<times> scheduled_run list)" where
  "fitScheduledTaskRuns runs =
     (let sorted = runs_newest_first runs; live = filter run_live sorted
      in if list_ex (\<lambda>r. maxRunsPerScheduledTask < task_count (sr_task_id r) live) live
         then Inl ''task already has too many live scheduled runs''
         else if maxScheduledTaskRuns < length live then Inl ''live scheduled runs exceed the global retention limit''
         else case keep_final live [] (filter (\<lambda>r. \<not> run_live r) sorted) of
                (kept, evicted) \<Rightarrow> Inr (runs_newest_first kept, evicted))"

fun first_run_conflict :: "scheduled_task option \<Rightarrow> scheduled_run \<Rightarrow> scheduled_run list \<Rightarrow> sched_error option" where
  "first_run_conflict task run [] = None"
| "first_run_conflict task run (c # cs) =
     (if sr_id c = sr_id run then Some (''scheduled run ID already exists: '' @ sr_id run)
      else if (case task of None \<Rightarrow> False | Some t \<Rightarrow> run_of_task (sk_project_id t) (sk_id t) c \<and> run_live c)
      then Some (''scheduled task is already running (run '' @ sr_id c @ '')'')
      else first_run_conflict task run cs)"

text \<open>The task must still be there, and as it was when the run was prepared.\<close>

definition task_unchanged :: "sched_env \<Rightarrow> scheduled_task \<Rightarrow> scheduler \<Rightarrow> sched_error option" where
  "task_unchanged env task s =
     (case loadScheduledTasksRaw env s of
        Inl e \<Rightarrow> Some e
      | Inr ts \<Rightarrow>
          (case find (task_is (sk_project_id task) (sk_id task)) ts of
             None \<Rightarrow> Some ''scheduled task was deleted before its run started''
           | Some current \<Rightarrow>
               if sameScheduledTaskExecution current task then None else Some ''scheduled task changed before its run started''))"

definition appendScheduledTaskRunOwned ::
  "sched_env \<Rightarrow> scheduled_task option \<Rightarrow> scheduled_run \<Rightarrow> scheduler \<Rightarrow> (sched_error + scheduled_run list) \<times> scheduler" where
  "appendScheduledTaskRunOwned env task run s =
     (case (case task of None \<Rightarrow> None | Some t \<Rightarrow> task_unchanged env t s) of
        Some e \<Rightarrow> (Inl e, s)
      | None \<Rightarrow>
          (case loadScheduledTaskRunsRaw env s of
             Inl e \<Rightarrow> (Inl e, s)
           | Inr rs \<Rightarrow>
               (case first_run_conflict task run rs of
                  Some e \<Rightarrow> (Inl e, s)
                | None \<Rightarrow>
                    (case fitScheduledTaskRuns (rs @ [run]) of
                       Inl e \<Rightarrow> (Inl e, s)
                     | Inr (kept, evicted) \<Rightarrow>
                         (case saveScheduledTaskRunsRaw env kept s of (Some e, s1) \<Rightarrow> (Inl e, s1) | (None, s1) \<Rightarrow> (Inr evicted, s1))))))"

definition appendScheduledTaskRunForTask ::
  "sched_env \<Rightarrow> scheduled_task \<Rightarrow> scheduled_run \<Rightarrow> scheduler \<Rightarrow> (sched_error + scheduled_run list) \<times> scheduler" where
  "appendScheduledTaskRunForTask env task = appendScheduledTaskRunOwned env (Some task)"

text \<open>
  The claim, in the same critical section as the start of the chat: \<open>start\<close> is its error. The result is the
  error, the flag whether the chat was started.
\<close>

definition claimScheduledTaskRunStart ::
  "sched_env \<Rightarrow> sched_error option \<Rightarrow> int \<Rightarrow> scheduled_task \<Rightarrow> scheduled_run \<Rightarrow> scheduler \<Rightarrow> (sched_error option \<times> bool) \<times> scheduler" where
  "claimScheduledTaskRunStart env start now task run s =
     (case (case en_load_tasks env of Some e \<Rightarrow> Some (''read scheduled tasks before run start: '' @ e) | None \<Rightarrow> task_unchanged env task s) of
        Some e \<Rightarrow> ((Some e, False), s)
      | None \<Rightarrow>
          (case loadScheduledTaskRunsRaw env s of
             Inl e \<Rightarrow> ((Some (''read scheduled runs before start: '' @ e), False), s)
           | Inr rs \<Rightarrow>
               if \<not> list_ex (\<lambda>c. sr_id c = sr_id run \<and> run_of_task (sk_project_id task) (sk_id task) c \<and>
                                  sr_session_id c = sr_session_id run \<and> sr_status c = ''running'') rs
               then ((Some ''scheduled run lost durable ownership before it started'', False), s)
               else case saveScheduledTasksRaw env
                           (upd_first (task_is (sk_project_id task) (sk_id task))
                              (\<lambda>t. t\<lparr>sk_last_run_at := now, sk_last_run_id := sr_id run, sk_last_status := ''running'', sk_last_error := []\<rparr>)
                              (sc_tasks s)) s of
                      (Some e, s1) \<Rightarrow> ((Some (''persist scheduled task running state: '' @ e), False), s1)
                    | (None, s1) \<Rightarrow> ((start, start = None), s1)))"

subsection \<open>The end of a run\<close>

definition ended_run :: "int \<Rightarrow> string \<Rightarrow> sched_error option \<Rightarrow> scheduled_run \<Rightarrow> scheduled_run" where
  "ended_run now status runErr r =
     r\<lparr>sr_status := status, sr_completed_at := now,
       sr_error := (case runErr of None \<Rightarrow> [] | Some e \<Rightarrow> truncateUTF8 e maxScheduledTaskError)\<rparr>"

text \<open>The result has the row, whether it changed, and the error.\<close>

definition finishScheduledTaskRun ::
  "sched_env \<Rightarrow> int \<Rightarrow> string \<Rightarrow> string \<Rightarrow> sched_error option \<Rightarrow> scheduler \<Rightarrow>
   (scheduled_run option \<times> bool \<times> sched_error option) \<times> scheduler" where
  "finishScheduledTaskRun env now i status runErr s =
     (if \<not> scheduledTaskRunTerminal status then ((None, False, Some ''invalid terminal scheduled run status''), s)
      else case loadScheduledTaskRunsRaw env s of
             Inl e \<Rightarrow> ((None, False, Some e), s)
           | Inr rs \<Rightarrow>
               (case find (\<lambda>r. sr_id r = i) rs of
                  None \<Rightarrow> ((None, False, Some (''scheduled task run not found: '' @ i)), s)
                | Some r \<Rightarrow>
                    if \<not> run_live r then ((Some r, False, None), s)
                    else let r' = ended_run now status runErr r
                         in case saveScheduledTaskRunsRaw env (upd_first (\<lambda>x. sr_id x = i) (\<lambda>_. r') rs) s of
                              (Some e, s1) \<Rightarrow> ((Some r', False, Some e), s1) | (None, s1) \<Rightarrow> ((Some r', True, None), s1)))"

text \<open>The summary on the task follows the run it shows; an older callback does not overwrite a newer run.\<close>

definition summarised :: "string \<Rightarrow> int \<Rightarrow> string \<Rightarrow> sched_error option \<Rightarrow> scheduled_task \<Rightarrow> scheduled_task" where
  "summarised runID now status err t =
     t\<lparr>sk_last_run_id := runID, sk_last_run_at := now, sk_last_status := status,
       sk_last_error := (case err of None \<Rightarrow> [] | Some e \<Rightarrow> truncateUTF8 e maxScheduledTaskError)\<rparr>"

definition summary_stays :: "string \<Rightarrow> int \<Rightarrow> scheduled_task \<Rightarrow> bool" where
  "summary_stays runID now t \<longleftrightarrow>
     (if runID \<noteq> []
      then sk_last_run_id t \<noteq> [] \<and> sk_last_run_id t \<noteq> runID \<or> sk_last_run_id t = [] \<and> now < sk_last_run_at t
      else sk_last_run_id t \<noteq> [] \<and> sk_last_status t \<in> {''running'', ''dispatching''})"

definition updateScheduledTaskRunResult ::
  "sched_env \<Rightarrow> string \<Rightarrow> string \<Rightarrow> int \<Rightarrow> string \<Rightarrow> sched_error option \<Rightarrow> scheduler \<Rightarrow> sched_error option \<times> scheduler" where
  "updateScheduledTaskRunResult env i runID now status err s =
     (case loadScheduledTasksRaw env s of
        Inl e \<Rightarrow> (Some e, s)
      | Inr ts \<Rightarrow>
          (case find (\<lambda>t. sk_id t = i) ts of
             None \<Rightarrow> (Some (''scheduled task not found: '' @ i), s)
           | Some t \<Rightarrow>
               if summary_stays runID now t then (None, s)
               else saveScheduledTasksRaw env (upd_first (\<lambda>t. sk_id t = i) (summarised runID now status err) ts) s))"

definition updateScheduledTaskResult ::
  "sched_env \<Rightarrow> string \<Rightarrow> int \<Rightarrow> string \<Rightarrow> sched_error option \<Rightarrow> scheduler \<Rightarrow> sched_error option \<times> scheduler" where
  "updateScheduledTaskResult env i = updateScheduledTaskRunResult env i []"

text \<open>Two critical sections, with what other threads do in between.\<close>

definition finalizeScheduledTaskRun ::
  "(scheduler \<Rightarrow> scheduler) \<Rightarrow> sched_env \<Rightarrow> sched_env \<Rightarrow> int \<Rightarrow> string \<Rightarrow> string \<Rightarrow> string \<Rightarrow> sched_error option \<Rightarrow> scheduler \<Rightarrow>
   sched_error option \<times> scheduler" where
  "finalizeScheduledTaskRun meanwhile env env2 now taskID runID status runErr s =
     (case finishScheduledTaskRun env now runID status runErr s of
        ((r, changed, Some e), s1) \<Rightarrow>
          let persistErr = ''persist scheduled run '' @ runID @ '' terminal state: '' @ e
          in (case updateScheduledTaskRunResult env2 taskID runID now ''error'' (Some persistErr) (meanwhile s1) of
                (Some e2, s2) \<Rightarrow> (Some (persistErr @ ''; persist scheduled task error summary: '' @ e2), s2)
              | (None, s2) \<Rightarrow> (Some persistErr, s2))
      | ((r, False, None), s1) \<Rightarrow> (None, s1)
      | ((r, True, None), s1) \<Rightarrow>
          (case updateScheduledTaskRunResult env2 taskID runID now status runErr (meanwhile s1) of
             (Some e, s2) \<Rightarrow> (Some (''persist scheduled task '' @ taskID @ '' result: '' @ e), s2)
           | (None, s2) \<Rightarrow> (None, s2)))"

subsection \<open>After a restart\<close>

text \<open>\<open>quote\<close> is the format \<^verbatim>\<open>%q\<close> of Go.\<close>

definition recovered_run :: "(string \<Rightarrow> string) \<Rightarrow> int \<Rightarrow> scheduled_run \<Rightarrow> scheduled_run" where
  "recovered_run quote now r =
     (if \<not> run_live r then r
      else if sr_status r = ''running''
      then r\<lparr>sr_status := ''stopped'', sr_completed_at := now, sr_error := ''Gokin Studio closed before this run finished''\<rparr>
      else r\<lparr>sr_status := ''error'', sr_completed_at := now,
             sr_error := truncateUTF8 (''invalid scheduled run status '' @ quote (sr_status r) @ '' recovered at startup'') maxScheduledTaskError\<rparr>)"

definition latest_run :: "string \<Rightarrow> scheduled_run list \<Rightarrow> scheduled_run option" where
  "latest_run i rs =
     foldl (\<lambda>acc r. if sr_task_id r = i \<and> \<not> run_live r
                    then (case acc of
                            None \<Rightarrow> Some r
                          | Some c \<Rightarrow> if sr_started_at c < sr_started_at r then Some r else Some c)
                    else acc) None rs"

definition terminal_by_id :: "string \<Rightarrow> scheduled_run list \<Rightarrow> scheduled_run option" where
  "terminal_by_id i rs = find (\<lambda>r. sr_id r = i \<and> \<not> run_live r) (rev rs)"

definition run_ended_at :: "scheduled_run \<Rightarrow> int" where
  "run_ended_at r = (if sr_completed_at r \<le> 0 then sr_started_at r else sr_completed_at r)"

definition shows_live :: "scheduled_task \<Rightarrow> bool" where
  "shows_live t \<longleftrightarrow> sk_last_status t = ''running'' \<or> sk_last_status t = ''dispatching''"

definition shows_run :: "scheduled_run \<Rightarrow> scheduled_task \<Rightarrow> scheduled_task" where
  "shows_run r t =
     t\<lparr>sk_last_run_at := run_ended_at r, sk_last_run_id := sr_id r, sk_last_status := sr_status r,
       sk_last_error := truncateUTF8 (sr_error r) maxScheduledTaskError\<rparr>"

definition lost :: "string \<Rightarrow> scheduled_task \<Rightarrow> scheduled_task" where
  "lost err t = t\<lparr>sk_last_status := ''error'', sk_last_error := err\<rparr>"

text \<open>The summary of a task after a restart, when it changes.\<close>

definition reconciled_task :: "scheduled_run list \<Rightarrow> scheduled_task \<Rightarrow> scheduled_task option" where
  "reconciled_task rs t =
     (if sk_last_run_id t \<noteq> []
      then (case terminal_by_id (sk_last_run_id t) rs of
              Some r \<Rightarrow>
                if run_of_task (sk_project_id t) (sk_id t) r then Some (shows_run r t)
                else if shows_live t
                then Some (lost (truncateUTF8 (''scheduled run '' @ sk_last_run_id t @ '' lost durable tracking before startup reconciliation'')
                                   maxScheduledTaskError) t)
                else None
            | None \<Rightarrow>
                if shows_live t
                then Some (lost (truncateUTF8 (''scheduled run '' @ sk_last_run_id t @ '' lost durable tracking before startup reconciliation'')
                                   maxScheduledTaskError) t)
                else None)
      else case latest_run (sk_id t) rs of
             None \<Rightarrow>
               if sk_last_status t = ''dispatching''
               then Some (t\<lparr>sk_last_status := ''stopped'', sk_last_error := ''Gokin Studio closed before this scheduled run started''\<rparr>)
               else if sk_last_status t = ''running''
               then Some (lost ''scheduled run lost durable tracking before startup reconciliation'' t) else None
           | Some r \<Rightarrow>
               if sk_last_status t = ''dispatching'' \<and> run_ended_at r < sk_last_run_at t
               then Some (t\<lparr>sk_last_status := ''stopped'', sk_last_error := ''Gokin Studio closed before this scheduled run started''\<rparr>)
               else if sk_last_status t = ''running'' \<and> run_ended_at r < sk_last_run_at t
               then Some (lost ''scheduled run lost durable tracking before startup reconciliation'' t)
               else if \<not> shows_live t \<and> run_ended_at r \<le> sk_last_run_at t then None
               else Some (shows_run r t))"

definition reconcile_summary :: "scheduled_run list \<Rightarrow> scheduled_task \<Rightarrow> scheduled_task" where
  "reconcile_summary rs t = (case reconciled_task rs t of None \<Rightarrow> t | Some t' \<Rightarrow> t')"

definition reconcileInterruptedScheduledRuns :: "(string \<Rightarrow> string) \<Rightarrow> sched_env \<Rightarrow> int \<Rightarrow> scheduler \<Rightarrow> scheduler" where
  "reconcileInterruptedScheduledRuns quote env now s =
     (case loadScheduledTaskRunsRaw env s of
        Inl e \<Rightarrow> s
      | Inr rs \<Rightarrow>
          let rs' = map (recovered_run quote now) rs
          in case (if list_ex run_live rs then saveScheduledTaskRunsRaw env rs' s else (None, s)) of
               (Some e, s1) \<Rightarrow> s1
             | (None, s1) \<Rightarrow>
                 (case loadScheduledTasksRaw env s1 of
                    Inl e \<Rightarrow> s1
                  | Inr ts \<Rightarrow>
                      if list_ex (\<lambda>t. reconciled_task rs' t \<noteq> None) ts
                      then snd (saveScheduledTasksRaw env (map (reconcile_summary rs') ts) s1) else s1))"

subsection \<open>Dispatching\<close>

definition is_due :: "(string \<Rightarrow> bool) \<Rightarrow> int \<Rightarrow> scheduled_task \<Rightarrow> bool" where
  "is_due archived now t \<longleftrightarrow>
     sk_enabled t \<and> sk_schedule t \<noteq> ''manual'' \<and> \<not> archived (sk_project_id t) \<and> 0 < sk_next_run_at t \<and> sk_next_run_at t \<le> now"

definition dispatching :: "int \<Rightarrow> scheduled_task \<Rightarrow> scheduled_task" where
  "dispatching now t = t\<lparr>sk_last_run_at := now, sk_last_run_id := [], sk_last_status := ''dispatching'', sk_last_error := []\<rparr>"

text \<open>The tasks as they are stored, and those that are to be run.\<close>

fun tick_tasks ::
  "zone \<Rightarrow> (string \<Rightarrow> bool) \<Rightarrow> (string \<Rightarrow> bool) \<Rightarrow> int \<Rightarrow> scheduled_task list \<Rightarrow> (scheduled_task list \<times> scheduled_task list) option" where
  "tick_tasks z archived live now [] = Some ([], [])"
| "tick_tasks z archived live now (t # ts) =
     (if \<not> is_due archived now t
      then (case tick_tasks z archived live now ts of None \<Rightarrow> None | Some (out, due) \<Rightarrow> Some (t # out, due))
      else case nextScheduledRun z t now of
             None \<Rightarrow> None
           | Some n \<Rightarrow>
               let t1 = t\<lparr>sk_next_run_at := n\<rparr>
               in (case tick_tasks z archived live now ts of
                     None \<Rightarrow> None
                   | Some (out, due) \<Rightarrow>
                       if live (sk_id t) then Some (t1 # out, due) else Some (dispatching now t1 # out, t1 # due)))"

definition dispatchDueScheduledTasks ::
  "zone \<Rightarrow> (string \<Rightarrow> bool) \<Rightarrow> sched_env \<Rightarrow> int \<Rightarrow> scheduler \<Rightarrow> (scheduled_task list \<times> scheduler) option" where
  "dispatchDueScheduledTasks z archived env now s =
     (case (loadScheduledTasksRaw env s, loadScheduledTaskRunsRaw env s) of
        (Inr ts, Inr rs) \<Rightarrow>
          (case tick_tasks z archived (\<lambda>i. list_ex (\<lambda>r. run_live r \<and> sr_task_id r = i) rs) now ts of
             None \<Rightarrow> None
           | Some (out, due) \<Rightarrow>
               if list_ex (is_due archived now) ts
               then (case saveScheduledTasksRaw env out s of (Some e, s1) \<Rightarrow> Some ([], s1) | (None, s1) \<Rightarrow> Some (due, s1))
               else Some (due, s))
      | _ \<Rightarrow> Some ([], s))"

text \<open>
  The dispatch of one task: the checks, the chat of the run, the row, the claim and the monitor. \<open>chat\<close> is
  the new chat or the error, \<open>discard\<close> the error of taking it back, \<open>background\<close> whether the monitor could be
  started. The critical sections are numbered; each has its own environment, and other threads run before it.
\<close>

definition dispatch_check ::
  "projects \<Rightarrow> (string \<Rightarrow> bool) \<Rightarrow> (string \<Rightarrow> string \<Rightarrow> sched_error option) \<Rightarrow> scheduled_task \<Rightarrow> (string \<times> sched_error) + scheduled_task" where
  "dispatch_check projects archived catalog t =
     (case projects (sk_project_id t) of
        None \<Rightarrow>
          if archived (sk_project_id t) then Inl (''stopped'', ''project was archived before the scheduled run started'')
          else Inl (''error'', ''project not found: '' @ sk_project_id t)
      | Some p \<Rightarrow>
          if \<not> has_session p (sk_session_id t) then Inl (''error'', ''session not found: '' @ sk_session_id t)
          else let t1 = listed_task (Some p) t
               in case catalog (sk_provider t1) (sk_model t1) of
                    Some e \<Rightarrow> Inl (''error'', e)
                  | None \<Rightarrow>
                      if sk_approval_mode t1 \<notin> set approval_modes
                      then Inl (''error'', ''approval mode must be manual, accept_edits, auto, or skip'') else Inr t1)"

definition new_scheduled_run :: "scheduled_task \<Rightarrow> string \<Rightarrow> string \<Rightarrow> int \<Rightarrow> scheduled_run" where
  "new_scheduled_run t uuid session now =
     \<lparr>sr_id = uuid, sr_task_id = sk_id t, sr_project_id = sk_project_id t, sr_session_id = session, sr_started_at = now,
      sr_completed_at = 0, sr_status = ''running'', sr_error = [], sr_provider = sk_provider t, sr_model = sk_model t,
      sr_approval_mode = sk_approval_mode t\<rparr>"

definition dispatchScheduledTask ::
  "(nat \<Rightarrow> scheduler \<Rightarrow> scheduler) \<Rightarrow> (nat \<Rightarrow> sched_env) \<Rightarrow> projects \<Rightarrow> (string \<Rightarrow> bool) \<Rightarrow> (string \<Rightarrow> string \<Rightarrow> sched_error option) \<Rightarrow>
   string \<Rightarrow> sched_error + string \<Rightarrow> sched_error option \<Rightarrow> sched_error option \<Rightarrow> bool \<Rightarrow> int \<Rightarrow> scheduled_task \<Rightarrow> scheduler \<Rightarrow>
   (sched_error option \<times> scheduled_run option) \<times> scheduler" where
  "dispatchScheduledTask meanwhile envs projects archived catalog uuid chat discard start background now task s =
     (case dispatch_check projects archived catalog task of
        Inl (status, e) \<Rightarrow> ((Some e, None), snd (updateScheduledTaskResult (envs 0) (sk_id task) now status (Some e) (meanwhile 0 s)))
      | Inr t \<Rightarrow>
          (case chat of
             Inl e \<Rightarrow> ((Some e, None), snd (updateScheduledTaskResult (envs 0) (sk_id t) now ''error'' (Some e) (meanwhile 0 s)))
           | Inr session \<Rightarrow>
               let run = new_scheduled_run t uuid session now
               in case appendScheduledTaskRunForTask (envs 0) t run (meanwhile 0 s) of
                    (Inl e, s1) \<Rightarrow>
                      let e1 = ''persist scheduled run: '' @ e @
                                 (case discard of None \<Rightarrow> [] | Some d \<Rightarrow> ''; discard unpublished child session: '' @ d)
                      in (case updateScheduledTaskResult (envs 1) (sk_id t) now ''error'' (Some e1) (meanwhile 1 s1) of
                            (Some e2, s2) \<Rightarrow> ((Some (e1 @ ''; persist scheduled task error summary: '' @ e2), None), s2)
                          | (None, s2) \<Rightarrow> ((Some e1, None), s2))
                  | (Inr evicted, s1) \<Rightarrow>
                      (case claimScheduledTaskRunStart (envs 1) start now t run (meanwhile 1 s1) of
                         ((Some e, started), s2) \<Rightarrow>
                           (case finalizeScheduledTaskRun (meanwhile 3) (envs 2) (envs 3) now (sk_id t) (sr_id run) ''error'' (Some e) (meanwhile 2 s2) of
                              (Some e2, s3) \<Rightarrow> ((Some (''start scheduled run: '' @ e @ ''; '' @ e2), Some run), s3)
                            | (None, s3) \<Rightarrow> ((Some e, Some run), s3))
                       | ((None, started), s2) \<Rightarrow>
                           if background then ((None, Some run), s2)
                           else (case finalizeScheduledTaskRun (meanwhile 3) (envs 2) (envs 3) now (sk_id t) (sr_id run) ''stopped''
                                        (Some ''studio is shutting down'') (meanwhile 2 s2) of
                                   (Some e2, s3) \<Rightarrow> ((Some (''studio is shutting down; '' @ e2), Some run), s3)
                                 | (None, s3) \<Rightarrow> ((Some ''studio is shutting down'', Some run), s3)))))"

definition RunScheduledTaskNow :: "sched_env \<Rightarrow> string \<Rightarrow> string \<Rightarrow> scheduler \<Rightarrow> sched_error + scheduled_task" where
  "RunScheduledTaskNow env project i s =
     (case loadScheduledTasksRaw env s of
        Inl e \<Rightarrow> Inl e
      | Inr ts \<Rightarrow> (case find (task_is project i) ts of None \<Rightarrow> Inl ''scheduled task not found'' | Some t \<Rightarrow> Inr t))"

subsection \<open>The monitor of a run\<close>

text \<open>The row, when it was found, and whether the task is still there.\<close>

definition loadScheduledTaskRunState ::
  "sched_env \<Rightarrow> scheduled_task \<Rightarrow> string \<Rightarrow> scheduler \<Rightarrow> (sched_error \<times> bool) + (scheduled_run option \<times> bool)" where
  "loadScheduledTaskRunState env task i s =
     (case loadScheduledTasksRaw env s of
        Inl e \<Rightarrow> Inl (e, False)
      | Inr ts \<Rightarrow>
          if \<not> list_ex (task_is (sk_project_id task) (sk_id task)) ts then Inr (None, False)
          else case loadScheduledTaskRunsRaw env s of
                 Inl e \<Rightarrow> Inl (e, True) | Inr rs \<Rightarrow> Inr (find (\<lambda>r. sr_id r = i) rs, True))"

text \<open>
  One round: what the chat looks like, and whether the ownership is to be checked. The chat is stopped when
  the monitor loses its row; an error goes into the summary only.
\<close>

datatype run_verdict = GoOn | StopChat | StopChatWith sched_error | EndRun string "sched_error option"

definition monitor_round ::
  "(string \<Rightarrow> string) \<Rightarrow> sched_env \<Rightarrow> scheduled_task \<Rightarrow> scheduled_run \<Rightarrow> bool \<Rightarrow> bool \<Rightarrow> bool \<Rightarrow> scheduler \<Rightarrow> run_verdict" where
  "monitor_round quote env task run active hasModel check_due s =
     (let over = (if active then GoOn
                  else if \<not> hasModel then EndRun ''error'' (Some ''run ended before a model response was saved'')
                  else EndRun ''completed'' None)
      in if active \<and> \<not> check_due then over
         else case loadScheduledTaskRunState env task (sr_id run) s of
                Inl (e, found) \<Rightarrow> StopChatWith (''scheduled run '' @ sr_id run @ '' lost durable tracking: '' @ e)
              | Inr (r, False) \<Rightarrow> StopChat
              | Inr (None, True) \<Rightarrow>
                  StopChatWith (''scheduled run '' @ sr_id run @ '' lost durable tracking: durable scheduled run row disappeared'')
              | Inr (Some r, True) \<Rightarrow>
                  if \<not> run_live r then StopChat
                  else if sr_status r \<noteq> ''running''
                  then StopChatWith (''scheduled run '' @ sr_id run @ '' has invalid durable status '' @ quote (sr_status r))
                  else over)"

end
