(* ===== verification/SchedulerInv.thy ===== *)
theory SchedulerInv
  imports Scheduler "HOL-Library.Multiset"
begin

section \<open>The invariant of the scheduler\<close>

text \<open>
  The critical sections as a step relation, each with the accesses to the files that fail, and the invariant
  of the two files that every step keeps.
\<close>

subsection \<open>The steps\<close>

inductive sched_step :: "scheduler \<Rightarrow> scheduler \<Rightarrow> bool" where
  stored: "sched_step s (snd (store_task env t s))"
| removed: "sched_step s (snd (removeScheduledTaskRecords env project i expected s))"
| removed_for: "sched_step s (snd (removeScheduledTasksFor env project session s))"
| appended: "run_of_task (sk_project_id t) (sk_id t) r \<Longrightarrow> sched_step s (snd (appendScheduledTaskRunForTask env t r s))"
| claimed: "sched_step s (snd (claimScheduledTaskRunStart env start now t r s))"
| finished: "sched_step s (snd (finishScheduledTaskRun env now i status err s))"
| updated: "sched_step s (snd (updateScheduledTaskRunResult env i runID now status err s))"
| reconciled: "sched_step s (reconcileInterruptedScheduledRuns quote env now s)"
| ticked: "dispatchDueScheduledTasks z archived env now s = Some (due, s') \<Longrightarrow> sched_step s s'"

abbreviation sched_steps :: "scheduler \<Rightarrow> scheduler \<Rightarrow> bool" where
  "sched_steps \<equiv> sched_step\<^sup>*\<^sup>*"

subsection \<open>The invariant\<close>

definition live_of :: "string \<Rightarrow> string \<Rightarrow> scheduled_run list \<Rightarrow> scheduled_run list" where
  "live_of p i rs = filter (\<lambda>r. run_of_task p i r \<and> run_live r) rs"

definition tasks_ok :: "scheduled_task list \<Rightarrow> bool" where
  "tasks_ok ts \<longleftrightarrow> distinct (map sk_id ts) \<and> length ts \<le> maxScheduledTasks"

definition runs_ok :: "scheduled_run list \<Rightarrow> bool" where
  "runs_ok rs \<longleftrightarrow>
     distinct (map sr_id rs) \<and> length rs \<le> maxScheduledTaskRuns \<and> (\<forall>i. task_count i rs \<le> maxRunsPerScheduledTask) \<and>
     (\<forall>p i. length (live_of p i rs) \<le> 1)"

definition sched_wf :: "scheduler \<Rightarrow> bool" where
  "sched_wf s \<longleftrightarrow> tasks_ok (sc_tasks s) \<and> runs_ok (sc_runs s)"

lemma sched_wfI [intro]: "tasks_ok (sc_tasks s) \<Longrightarrow> runs_ok (sc_runs s) \<Longrightarrow> sched_wf s"
  by (simp add: sched_wf_def)

lemma sched_wfD: "sched_wf s \<Longrightarrow> tasks_ok (sc_tasks s)" "sched_wf s \<Longrightarrow> runs_ok (sc_runs s)"
  by (simp_all add: sched_wf_def)

subsection \<open>Reading and writing\<close>

lemma loaded_tasks: "loadScheduledTasksRaw env s = Inr ts \<Longrightarrow> ts = sc_tasks s"
  by (auto simp: loadScheduledTasksRaw_def split: option.splits if_splits)

lemma loaded_runs: "loadScheduledTaskRunsRaw env s = Inr rs \<Longrightarrow> rs = sc_runs s"
  by (auto simp: loadScheduledTaskRunsRaw_def split: option.splits if_splits)

lemma save_tasks_wf:
  assumes "sched_wf s" "tasks_ok ts" shows "sched_wf (snd (saveScheduledTasksRaw env ts s))"
  using assms by (auto simp: saveScheduledTasksRaw_def sched_wf_def split: option.split)

lemma save_runs_wf:
  assumes "sched_wf s" "runs_ok rs" shows "sched_wf (snd (save_runs io rs s))"
  using assms by (auto simp: save_runs_def sched_wf_def split: option.split)

lemma save_tasks_runs [simp]: "sc_runs (snd (saveScheduledTasksRaw env ts s)) = sc_runs s"
  by (simp add: saveScheduledTasksRaw_def split: option.split)

lemma save_runs_tasks [simp]: "sc_tasks (snd (save_runs io rs s)) = sc_tasks s"
  by (simp add: save_runs_def split: option.split)

lemma saved_tasks: "saveScheduledTasksRaw env ts s = (None, s') \<Longrightarrow> s' = s\<lparr>sc_tasks := ts\<rparr>"
  by (auto simp: saveScheduledTasksRaw_def split: option.splits if_splits)

lemma saved_runs: "save_runs io rs s = (None, s') \<Longrightarrow> s' = s\<lparr>sc_runs := rs\<rparr>"
  by (auto simp: save_runs_def split: option.splits if_splits)

lemma unsaved_tasks: "saveScheduledTasksRaw env ts s = (Some e, s') \<Longrightarrow> s' = s"
  by (auto simp: saveScheduledTasksRaw_def split: option.splits if_splits)

lemma unsaved_runs: "save_runs io rs s = (Some e, s') \<Longrightarrow> s' = s"
  by (auto simp: save_runs_def split: option.splits if_splits)

lemmas file_results = saved_tasks saved_runs unsaved_tasks unsaved_runs loaded_tasks loaded_runs

subsection \<open>Lists that stay well formed\<close>

lemma tasks_ok_map:
  assumes "tasks_ok ts" "\<And>t. sk_id (f t) = sk_id t" shows "tasks_ok (map f ts)"
  using assms(1) unfolding tasks_ok_def by (simp add: comp_def assms(2))

lemma tasks_ok_upd:
  assumes "tasks_ok ts" "\<And>t. P t \<Longrightarrow> sk_id (f t) = sk_id t" shows "tasks_ok (upd_first P f ts)"
  using assms by (simp add: tasks_ok_def map_upd_first)

lemma tasks_ok_filter: "tasks_ok ts \<Longrightarrow> tasks_ok (filter P ts)"
  using le_trans [OF length_filter_le [of P ts]] by (simp add: tasks_ok_def distinct_map_filter)

lemma tasks_ok_cong:
  assumes "tasks_ok ts" "map sk_id ts' = map sk_id ts" shows "tasks_ok ts'"
  using assms unfolding tasks_ok_def by (metis length_map)

lemma task_count_filter: "task_count i (filter P rs) \<le> task_count i rs"
proof -
  have "filter (\<lambda>r. sr_task_id r = i) (filter P rs) = filter P (filter (\<lambda>r. sr_task_id r = i) rs)" by (simp add: conj_commute)
  then show ?thesis unfolding task_count_def by (metis length_filter_le)
qed

lemma live_of_filter: "length (live_of p i (filter P rs)) \<le> length (live_of p i rs)"
proof -
  have "live_of p i (filter P rs) = filter P (live_of p i rs)" by (simp add: live_of_def conj_commute)
  then show ?thesis by simp
qed

lemma runs_ok_filter:
  assumes "runs_ok rs" shows "runs_ok (filter P rs)"
  using assms le_trans [OF length_filter_le [of P rs]] le_trans [OF task_count_filter [of _ P rs]]
    le_trans [OF live_of_filter [of _ _ P rs]] unfolding runs_ok_def
  by (simp add: distinct_map_filter)

text \<open>A change of runs that keeps their task and adds no live one.\<close>

lemma runs_ok_settle:
  assumes ok: "runs_ok rs" and ids: "map sr_id rs' = map sr_id rs" and tasks: "map sr_task_id rs' = map sr_task_id rs"
    and live: "\<And>p i. length (live_of p i rs') \<le> length (live_of p i rs)"
  shows "runs_ok rs'"
proof -
  have count: "task_count i xs = length (filter (\<lambda>x. x = i) (map sr_task_id xs))" for i xs
    by (induct xs) (simp_all add: task_count_def)
  have "task_count i rs' = task_count i rs" for i by (simp add: count tasks)
  moreover have "length rs' = length rs" using ids by (metis length_map)
  ultimately show ?thesis using ok ids le_trans [OF live] unfolding runs_ok_def by simp
qed

lemma live_of_map:
  assumes "\<And>r. run_live (f r) \<Longrightarrow> run_live r" "\<And>r p i. run_of_task p i (f r) = run_of_task p i r"
  shows "length (live_of p i (map f rs)) \<le> length (live_of p i rs)"
  using assms by (induct rs) (auto simp: live_of_def)

lemma live_of_upd_final: "\<not> run_live e \<Longrightarrow> length (live_of p i (upd_first P (\<lambda>_. e) rs)) \<le> length (live_of p i rs)"
  by (induct rs) (auto simp: live_of_def)

subsection \<open>Retention\<close>

lemma mset_sorted [simp]: "mset (runs_newest_first rs) = mset rs"
  by (simp add: runs_newest_first_def)

lemma length_sorted [simp]: "length (runs_newest_first rs) = length rs"
  by (simp add: runs_newest_first_def)

lemma filter_length_mset: "mset xs = mset ys \<Longrightarrow> length (filter P xs) = length (filter P ys)"
  by (metis mset_filter size_mset)

lemma keep_final_parts:
  assumes "keep_final kept evicted rs = (k, e)"
  shows "\<exists>k' e'. k = kept @ k' \<and> e = evicted @ e' \<and> mset k' + mset e' = mset rs"
  using assms
proof (induct kept evicted rs rule: keep_final.induct)
  case (2 kept evicted r rs)
  consider "maxScheduledTaskRuns \<le> length kept \<or> maxRunsPerScheduledTask \<le> task_count (sr_task_id r) kept"
      "keep_final kept (evicted @ [r]) rs = (k, e)"
    | "\<not> (maxScheduledTaskRuns \<le> length kept \<or> maxRunsPerScheduledTask \<le> task_count (sr_task_id r) kept)"
      "keep_final (kept @ [r]) evicted rs = (k, e)"
    using 2(3) by (auto split: if_splits)
  then show ?case
  proof cases
    case 1
    then obtain k' e' where "k = kept @ k' \<and> e = (evicted @ [r]) @ e' \<and> mset k' + mset e' = mset rs" using 2(1) by blast
    then show ?thesis by (intro exI [of _ k'] exI [of _ "r # e'"]) simp
  next
    case 2
    then obtain k' e' where "k = (kept @ [r]) @ k' \<and> e = evicted @ e' \<and> mset k' + mset e' = mset rs" using 2 "2.hyps"(2) by blast
    then show ?thesis by (intro exI [of _ "r # k'"] exI [of _ e']) simp
  qed
qed simp

definition within :: "scheduled_run list \<Rightarrow> bool" where
  "within rs \<longleftrightarrow> length rs \<le> maxScheduledTaskRuns \<and> (\<forall>i. task_count i rs \<le> maxRunsPerScheduledTask)"

lemma keep_final_limits: "within kept \<Longrightarrow> within (fst (keep_final kept evicted rs))"
proof (induct kept evicted rs rule: keep_final.induct)
  case (2 kept evicted r rs)
  have "within (kept @ [r])"
    if "\<not> (maxScheduledTaskRuns \<le> length kept \<or> maxRunsPerScheduledTask \<le> task_count (sr_task_id r) kept)"
    using that 2(3) by (auto simp: within_def task_count_def)
  then show ?case using 2 by simp
qed simp

lemma fit_parts:
  assumes "fitScheduledTaskRuns rs = Inr (kept, evicted)"
  shows "mset kept + mset evicted = mset rs" "\<And>r. r \<in> set evicted \<Longrightarrow> \<not> run_live r"
    "length kept \<le> maxScheduledTaskRuns" "task_count i kept \<le> maxRunsPerScheduledTask"
proof -
  let ?s = "runs_newest_first rs"
  let ?live = "filter run_live ?s" and ?final = "filter (\<lambda>r. \<not> run_live r) ?s"
  obtain k where k: "keep_final ?live [] ?final = (k, evicted)" "kept = runs_newest_first k"
    and lim: "\<not> list_ex (\<lambda>r. maxRunsPerScheduledTask < task_count (sr_task_id r) ?live) ?live" "length ?live \<le> maxScheduledTaskRuns"
    using assms by (auto simp: fitScheduledTaskRuns_def Let_def split: if_splits prod.splits)
  obtain k' where k': "k = ?live @ k'" "mset k' + mset evicted = mset ?final" using keep_final_parts [OF k(1)] by auto
  have all: "mset ?live + mset ?final = mset rs" by simp
  show "mset kept + mset evicted = mset rs" using k(2) k' all by (simp add: add.assoc)
  have "set_mset (mset evicted) \<subseteq> set_mset (mset ?final)" unfolding k'(2) [symmetric] by simp
  then show "r \<in> set evicted \<Longrightarrow> \<not> run_live r" for r by auto
  have count: "task_count i ?live \<le> maxRunsPerScheduledTask" for i
  proof (cases "\<exists>r\<in>set ?live. sr_task_id r = i")
    case True
    then show ?thesis using lim(1) unfolding list_ex_iff by force
  next
    case False
    then have "filter (\<lambda>r. sr_task_id r = i) ?live = []" by (auto simp: filter_empty_conv)
    then show ?thesis by (simp add: task_count_def)
  qed
  have *: "within k" using keep_final_limits [of ?live "[]" ?final] lim(2) count k(1) by (simp add: within_def)
  show "length kept \<le> maxScheduledTaskRuns" using * k(2) by (simp add: within_def)
  have "task_count i kept = task_count i k" unfolding task_count_def k(2) by (rule filter_length_mset) simp
  then show "task_count i kept \<le> maxRunsPerScheduledTask" using * by (simp add: within_def)
qed

lemma no_conflict:
  assumes "first_run_conflict (Some t) run rs = None"
  shows "sr_id run \<notin> sr_id ` set rs" "live_of (sk_project_id t) (sk_id t) rs = []"
  using assms by (induct rs) (auto simp: live_of_def split: if_splits)

lemma appended_runs_ok:
  assumes ok: "runs_ok rs" and free: "first_run_conflict (Some t) run rs = None"
    and run: "run_of_task (sk_project_id t) (sk_id t) run" and fit: "fitScheduledTaskRuns (rs @ [run]) = Inr (kept, evicted)"
  shows "runs_ok kept"
proof -
  note parts = fit_parts [OF fit]
  have "mset (kept @ evicted) = mset (rs @ [run])" using parts(1) by simp
  then have "mset (map sr_id (kept @ evicted)) = mset (map sr_id (rs @ [run]))" by (simp only: mset_map)
  moreover have "distinct (map sr_id (rs @ [run]))" using ok no_conflict(1) [OF free] by (auto simp: runs_ok_def)
  ultimately have "distinct (map sr_id (kept @ evicted))" using mset_eq_imp_distinct_iff by blast
  then have "distinct (map sr_id kept)" by simp
  moreover have "length (live_of p i kept) \<le> 1" for p i
  proof -
    have "length (live_of p i kept) \<le> length (live_of p i (rs @ [run]))"
      unfolding live_of_def using parts(1) by (metis mset_filter size_mset filter_union_mset size_union le_add1)
    moreover have "length (live_of p i (rs @ [run])) \<le> 1"
    proof (cases "run_of_task p i run")
      case True
      then have "p = sk_project_id t" "i = sk_id t" using run by (auto simp: run_of_task_def)
      then show ?thesis using no_conflict(2) [OF free] by (simp add: live_of_def)
    next
      case False
      then show ?thesis using ok by (simp add: live_of_def runs_ok_def)
    qed
    ultimately show ?thesis by simp
  qed
  ultimately show ?thesis using parts(3,4) by (simp add: runs_ok_def)
qed
subsection \<open>Every step keeps it\<close>

lemma saved_tasks_wf: "saveScheduledTasksRaw env ts s = (e, s') \<Longrightarrow> sched_wf s \<Longrightarrow> tasks_ok ts \<Longrightarrow> sched_wf s'"
  using save_tasks_wf [of s ts env] by simp

lemma saved_runs_wf: "save_runs io rs s = (e, s') \<Longrightarrow> sched_wf s \<Longrightarrow> runs_ok rs \<Longrightarrow> sched_wf s'"
  using save_runs_wf [of s rs io] by simp

lemma edited_tasks_ok: "tasks_ok ts \<Longrightarrow> tasks_ok (upd_first (\<lambda>u. sk_id u = sk_id t) (\<lambda>_. edited_task old t) ts)"
  by (rule tasks_ok_upd) (simp_all add: edited_task_def)

lemma fresh_tasks_ok:
  assumes "tasks_ok ts" "find (\<lambda>u. sk_id u = sk_id t) ts = None" "\<not> maxScheduledTasks \<le> length ts"
  shows "tasks_ok (ts @ [fresh_task t])"
proof -
  have "sk_id t \<notin> sk_id ` set ts" using assms(2) by (auto simp: find_None_iff_all)
  then show ?thesis using assms(1,3) by (simp add: tasks_ok_def fresh_task_def)
qed

lemma store_wf:
  assumes "sched_wf s" "store_task env t s = (r, s')" shows "sched_wf s'"
  using assms(2) sched_wfD(1) [OF assms(1)] assms(1) unfolding store_task_def Let_def
  by (auto dest!: loaded_tasks split: sum.splits option.splits prod.splits if_splits
      elim: saved_tasks_wf intro: edited_tasks_ok fresh_tasks_ok)

lemma commit_wf:
  assumes "sched_wf s" "tasks_ok ts" "runs_ok rs" "commit_removal what env (sc_runs s) removed rs ts s = (r, s')"
  shows "sched_wf s'"
  using assms(4) assms(1-3) sched_wfD(2) [OF assms(1)] unfolding commit_removal_def saveScheduledTaskRunsRaw_def
  by (auto split: option.splits prod.splits if_splits) (blast intro: saved_tasks_wf saved_runs_wf)+

lemma remove_records_wf:
  assumes "sched_wf s" "removeScheduledTaskRecords env project i expected s = (r, s')" shows "sched_wf s'"
  using assms(2) assms(1) sched_wfD [OF assms(1)] unfolding removeScheduledTaskRecords_def Let_def
  by (auto dest!: loaded_tasks loaded_runs split: sum.splits option.splits prod.splits if_splits
      elim!: commit_wf [rotated 3] intro: tasks_ok_filter runs_ok_filter)

lemma remove_runs_wf:
  assumes "sched_wf s" "removeScheduledTaskRunsLocked env project ids s = (r, s')" shows "sched_wf s'"
  using assms(2) assms(1) sched_wfD [OF assms(1)] unfolding removeScheduledTaskRunsLocked_def saveScheduledTaskRunsRaw_def Let_def
  by (auto dest!: loaded_runs split: sum.splits option.splits prod.splits if_splits elim!: saved_runs_wf intro: runs_ok_filter)

lemma remove_for_wf:
  assumes "sched_wf s" "removeScheduledTasksFor env project session s = (r, s')" shows "sched_wf s'"
  using assms(2) assms(1) sched_wfD [OF assms(1)] unfolding removeScheduledTasksFor_def Let_def
  by (auto dest!: loaded_tasks loaded_runs split: sum.splits option.splits prod.splits if_splits
      elim!: commit_wf [rotated 3] intro: tasks_ok_filter runs_ok_filter remove_runs_wf)

lemma append_wf:
  assumes "sched_wf s" "run_of_task (sk_project_id t) (sk_id t) run" "appendScheduledTaskRunForTask env t run s = (r, s')"
  shows "sched_wf s'"
  using assms(3) assms(1,2) sched_wfD [OF assms(1)]
  unfolding appendScheduledTaskRunForTask_def appendScheduledTaskRunOwned_def saveScheduledTaskRunsRaw_def
  by (auto dest!: loaded_runs split: sum.splits option.splits prod.splits elim!: saved_runs_wf intro: appended_runs_ok)

lemma claim_wf:
  assumes "sched_wf s" "claimScheduledTaskRunStart env start now t run s = (r, s')" shows "sched_wf s'"
proof -
  let ?f = "\<lambda>t. t\<lparr>sk_last_run_at := now, sk_last_run_id := sr_id run, sk_last_status := ''running'', sk_last_error := []\<rparr>"
  have "tasks_ok (upd_first P ?f (sc_tasks s))" for P by (rule tasks_ok_upd [OF sched_wfD(1) [OF assms(1)]]) simp
  then show ?thesis using assms(2) assms(1) unfolding claimScheduledTaskRunStart_def
    by (auto split: sum.splits option.splits prod.splits if_splits elim!: saved_tasks_wf)
qed

lemma ended_runs_ok:
  assumes ok: "runs_ok rs" and found: "find (\<lambda>r. sr_id r = i) rs = Some r" and final: "scheduledTaskRunTerminal status"
  shows "runs_ok (upd_first (\<lambda>x. sr_id x = i) (\<lambda>_. ended_run now status err r) rs)"
proof (rule runs_ok_settle [OF ok])
  let ?e = "ended_run now status err r"
  have r: "sr_id ?e = i" "sr_task_id ?e = sr_task_id r" "\<not> run_live ?e"
    using final find_mem [OF found] by (simp_all add: ended_run_def run_live_def)
  show "map sr_id (upd_first (\<lambda>x. sr_id x = i) (\<lambda>_. ?e) rs) = map sr_id rs"
    by (rule map_upd_first) (simp add: r(1))
  show "map sr_task_id (upd_first (\<lambda>x. sr_id x = i) (\<lambda>_. ?e) rs) = map sr_task_id rs"
    by (rule map_upd_first_found) (simp add: found r(2))
  show "length (live_of p j (upd_first (\<lambda>x. sr_id x = i) (\<lambda>_. ?e) rs)) \<le> length (live_of p j rs)" for p j
    by (rule live_of_upd_final [OF r(3)])
qed

lemma finish_wf:
  assumes "sched_wf s" "finishScheduledTaskRun env now i status err s = (r, s')" shows "sched_wf s'"
  using assms(2) assms(1) sched_wfD [OF assms(1)] unfolding finishScheduledTaskRun_def saveScheduledTaskRunsRaw_def Let_def
  by (auto dest!: loaded_runs split: sum.splits option.splits prod.splits if_splits elim!: saved_runs_wf intro: ended_runs_ok)

lemma update_wf:
  assumes "sched_wf s" "updateScheduledTaskRunResult env i runID now status err s = (r, s')" shows "sched_wf s'"
proof -
  have "tasks_ok (upd_first P (summarised runID now status err) (sc_tasks s))" for P
    by (rule tasks_ok_upd [OF sched_wfD(1) [OF assms(1)]]) (simp add: summarised_def)
  then show ?thesis using assms(2) assms(1) unfolding updateScheduledTaskRunResult_def
    by (auto dest!: loaded_tasks split: sum.splits option.splits if_splits elim!: saved_tasks_wf)
qed

lemma recovered_runs_ok:
  assumes "runs_ok rs" shows "runs_ok (map (recovered_run quote now) rs)"
proof (rule runs_ok_settle [OF assms])
  let ?f = "recovered_run quote now"
  have keeps: "sr_id (?f r) = sr_id r" "sr_task_id (?f r) = sr_task_id r" "run_of_task p i (?f r) = run_of_task p i r" for p i r
    by (simp_all add: recovered_run_def run_of_task_def)
  have "\<not> run_live (?f r)" for r by (auto simp: recovered_run_def run_live_def scheduledTaskRunTerminal_def)
  then show "length (live_of p i (map ?f rs)) \<le> length (live_of p i rs)" for p i by (intro live_of_map) (simp_all add: keeps)
qed (simp_all add: recovered_run_def)

lemma summary_keeps_id: "sk_id (reconcile_summary rs t) = sk_id t"
  by (auto simp: reconcile_summary_def reconciled_task_def shows_run_def lost_def split: option.split)

lemma reconcile_wf:
  assumes "sched_wf s" shows "sched_wf (reconcileInterruptedScheduledRuns quote env now s)"
proof -
  have tasks: "tasks_ok (map (reconcile_summary rs) (sc_tasks s'))" if "sched_wf s'" for rs s'
    by (rule tasks_ok_map [OF sched_wfD(1) [OF that]]) (rule summary_keeps_id)
  have runs: "runs_ok (map (recovered_run quote now) (sc_runs s))" by (rule recovered_runs_ok [OF sched_wfD(2) [OF assms]])
  have next_part: "sched_wf (case loadScheduledTasksRaw env s1 of Inl e \<Rightarrow> s1
      | Inr ts \<Rightarrow> if list_ex P ts then snd (saveScheduledTasksRaw env (map (reconcile_summary rs) ts) s1) else s1)"
    if "sched_wf s1" for s1 P rs
    using that save_tasks_wf [OF that tasks [OF that]] by (auto dest!: loaded_tasks split: sum.split)
  show ?thesis
  proof (cases "loadScheduledTaskRunsRaw env s")
    case (Inr rs)
    then have rs: "rs = sc_runs s" by (rule loaded_runs)
    obtain e s1 where s1: "(if list_ex run_live rs then saveScheduledTaskRunsRaw env (map (recovered_run quote now) rs) s else (None, s)) = (e, s1)"
      by (cases "if list_ex run_live rs then saveScheduledTaskRunsRaw env (map (recovered_run quote now) rs) s else (None, s)")
    then have "sched_wf s1" using assms runs saved_runs_wf rs unfolding saveScheduledTaskRunsRaw_def by (metis prod.inject)
    then show ?thesis using next_part Inr s1 unfolding reconcileInterruptedScheduledRuns_def Let_def by (simp split: option.split)
  qed (simp add: reconcileInterruptedScheduledRuns_def assms)
qed

lemma tick_ids: "tick_tasks z archived live now ts = Some (out, due) \<Longrightarrow> map sk_id out = map sk_id ts"
  by (induct ts arbitrary: out due) (auto simp: dispatching_def Let_def split: option.splits if_splits)

lemma tick_wf:
  assumes "sched_wf s" "dispatchDueScheduledTasks z archived env now s = Some (due, s')" shows "sched_wf s'"
  using assms(2) assms(1) sched_wfD(1) [OF assms(1)] unfolding dispatchDueScheduledTasks_def
  by (auto dest!: loaded_tasks split: sum.splits option.splits prod.splits if_splits elim!: saved_tasks_wf
      intro: tasks_ok_cong tick_ids)

lemma step_wf: "sched_step s s' \<Longrightarrow> sched_wf s \<Longrightarrow> sched_wf s'"
proof (induct rule: sched_step.induct)
  case (stored s env t)
  then show ?case using store_wf [OF _ surjective_pairing] by blast
next
  case (removed s env project i expected)
  then show ?case using remove_records_wf [OF _ surjective_pairing] by blast
next
  case (removed_for s env project session)
  then show ?case using remove_for_wf [OF _ surjective_pairing] by blast
next
  case (appended t r s env)
  then show ?case using append_wf [OF _ _ surjective_pairing] by blast
next
  case (claimed s env start now t r)
  then show ?case using claim_wf [OF _ surjective_pairing] by blast
next
  case (finished s env now i status err)
  then show ?case using finish_wf [OF _ surjective_pairing] by blast
next
  case (updated s env i runID now status err)
  then show ?case using update_wf [OF _ surjective_pairing] by blast
next
  case (reconciled s quote env now)
  then show ?case by (rule reconcile_wf)
next
  case (ticked z archived env now s due s')
  then show ?case using tick_wf by blast
qed

end
