(* ===== verification/ScheduleProps.thy ===== *)
theory ScheduleProps
  imports Schedule
begin

section \<open>The next run of a task\<close>

text \<open>
  In a zone where the time of day occurs once a day, the next run is the first instant after now that is on
  the schedule. Where it does not, the day of a candidate may slip: one computation never ends.
\<close>

subsection \<open>Regular zones\<close>

text \<open>
  What Go's \<^verbatim>\<open>time\<close> package promises where no change of the offset is near: \<open>time.Date\<close> gives the instant with
  the day it was asked for, the time of day \<open>c\<close> occurs once a day, and the instants of earlier days are
  earlier.
\<close>

definition regular :: "zone \<Rightarrow> int \<Rightarrow> bool" where
  "regular z c \<longleftrightarrow>
     (\<forall>t. 0 \<le> zn_clock z t \<and> zn_clock z t < day_ms) \<and>
     (\<forall>d c'. 0 \<le> c' \<longrightarrow> c' < day_ms \<longrightarrow> zn_day z (zn_at z d c') = d) \<and>
     (\<forall>d. zn_clock z (zn_at z d c) = c) \<and>
     (\<forall>t. zn_clock z t = c \<longrightarrow> zn_at z (zn_day z t) c = t) \<and>
     (\<forall>t d. d < zn_day z t \<longrightarrow> zn_at z d c < t) \<and> (\<forall>t d. zn_day z t < d \<longrightarrow> t < zn_at z d c)"

lemma regularD:
  assumes "regular z c"
  shows "zn_clock z (zn_at z d c) = c" "zn_day z (zn_at z d c) = d" "zn_day z (add_days z t n) = zn_day z t + n"
    "zn_clock z t = c \<Longrightarrow> zn_at z (zn_day z t) c = t" "d < zn_day z t \<Longrightarrow> zn_at z d c < t" "zn_day z t < d \<Longrightarrow> t < zn_at z d c"
    "add_days z (zn_at z d c) n = zn_at z (d + n) c" "zn_at z d c \<le> zn_at z d' c \<longleftrightarrow> d \<le> d'"
proof -
  show clock: "zn_clock z (zn_at z d c) = c" for d using assms by (simp add: regular_def)
  have "0 \<le> c" "c < day_ms" using assms clock [of 0] unfolding regular_def by metis+
  then show day: "zn_day z (zn_at z d c) = d" for d using assms unfolding regular_def by blast
  show "zn_day z (add_days z t n) = zn_day z t + n" using assms unfolding regular_def add_days_def by blast
  show "zn_clock z t = c \<Longrightarrow> zn_at z (zn_day z t) c = t" using assms by (simp add: regular_def)
  show "d < zn_day z t \<Longrightarrow> zn_at z d c < t" using assms by (simp add: regular_def)
  show later: "zn_day z t < d \<Longrightarrow> t < zn_at z d c" for t d using assms by (simp add: regular_def)
  show "add_days z (zn_at z d c) n = zn_at z (d + n) c" by (simp add: add_days_def clock day)
  show "zn_at z d c \<le> zn_at z d' c \<longleftrightarrow> d \<le> d'"
    using later [of "zn_at z d c" d'] later [of "zn_at z d' c" d] day by (cases d d' rule: linorder_cases) auto
qed

subsection \<open>The first instant on the schedule\<close>

definition day_ok :: "scheduled_task \<Rightarrow> int \<Rightarrow> bool" where
  "day_ok t d \<longleftrightarrow>
     (if sk_schedule t = ''weekdays'' then \<not> is_weekend d
      else if sk_schedule t = ''weekly'' then weekday d = sk_weekday t else True)"

definition on_schedule :: "zone \<Rightarrow> scheduled_task \<Rightarrow> int \<Rightarrow> bool" where
  "on_schedule z t u \<longleftrightarrow> zn_clock z u = task_clock t \<and> day_ok t (zn_day z u)"

text \<open>It is enough to find the first day.\<close>

lemma first_day:
  assumes r: "regular z (task_clock t)" and n: "n = zn_at z d (task_clock t)" "after < n" "day_ok t d"
    and first: "\<And>d'. zn_day z after \<le> d' \<Longrightarrow> d' < d \<Longrightarrow> day_ok t d' \<Longrightarrow> zn_at z d' (task_clock t) \<le> after"
  shows "after < n \<and> on_schedule z t n \<and> (\<forall>u. after < u \<and> on_schedule z t u \<longrightarrow> n \<le> u)"
proof (intro conjI allI impI)
  show "on_schedule z t n" using n regularD(1,2) [OF r] by (simp add: on_schedule_def)
  fix u assume u: "after < u \<and> on_schedule z t u"
  let ?d = "zn_day z u"
  have at: "zn_at z ?d (task_clock t) = u" using regularD(4) [OF r] u by (simp add: on_schedule_def)
  have ge: "zn_day z after \<le> ?d" using regularD(5) [OF r, of ?d after] at u by force
  have "d \<le> ?d" using first [OF ge] u at by (force simp: on_schedule_def)
  with regularD(8) [OF r, of d ?d] at n(1) show "n \<le> u" by simp
qed (rule n)

lemma weekday_range: "0 \<le> weekday d" "weekday d \<le> 6"
  by (simp_all add: weekday_def)

lemma weekday_add: "weekday (d + n) = (weekday d + n) mod 7"
  unfolding weekday_def by (metis add.assoc add.commute mod_add_left_eq)

lemma weekday_next: "weekday (d + 1) = (if weekday d = 6 then 0 else weekday d + 1)"
  using weekday_range [of d] by (auto simp: weekday_add)

lemma weekend_steps: "is_weekend d \<Longrightarrow> \<not> is_weekend (d + 1) \<or> is_weekend (d + 1) \<and> \<not> is_weekend (d + 2)"
  unfolding is_weekend_def using weekday_next [of d] weekday_next [of "d + 1"] by (auto simp: add.commute)

lemma skip_weekend_day:
  assumes r: "regular z c"
  shows "\<exists>d'\<ge>d. skip_weekend z c (zn_at z d c) = Some (zn_at z d' c) \<and> \<not> is_weekend d' \<and> (\<forall>e. d \<le> e \<and> e < d' \<longrightarrow> is_weekend e)"
proof -
  have step: "skip_weekend z c (zn_at z d c) = (if is_weekend d then skip_weekend z c (zn_at z (d + 1) c) else Some (zn_at z d c))" for d
    by (subst skip_weekend.simps) (simp add: regularD(1,2,7) [OF r])
  consider "\<not> is_weekend d" | "is_weekend d" "\<not> is_weekend (d + 1)" | "is_weekend d" "is_weekend (d + 1)" "\<not> is_weekend (d + 2)"
    using weekend_steps by blast
  then show ?thesis
  proof cases
    case 1
    with step [of d] show ?thesis by (intro exI [of _ d]) auto
  next
    case 2
    moreover have "e = d" if "d \<le> e" "e < d + 1" for e :: int using that by linarith
    ultimately show ?thesis using step [of d] step [of "d + 1"] by (intro exI [of _ "d + 1"]) auto
  next
    case 3
    moreover have "e = d \<or> e = d + 1" if "d \<le> e" "e < d + 2" for e :: int using that by linarith
    moreover have "skip_weekend z c (zn_at z d c) = Some (zn_at z (d + 2) c)"
      using 3 step [of d] step [of "d + 1"] step [of "d + 2"] by (simp add: add.commute)
    ultimately show ?thesis by (intro exI [of _ "d + 2"]) auto
  qed
qed

text \<open>Counting the days from a day: the day of the week is that of the count.\<close>

lemma weekday_hit:
  assumes "0 \<le> w" "w \<le> 6" "days = (w - weekday d + 7) mod 7" "0 \<le> k" "k < days + 7"
  shows "weekday (d + k) = w \<longleftrightarrow> k = days"
proof -
  note r = weekday_range [of d]
  have days: "days = (if weekday d \<le> w then w - weekday d else w - weekday d + 7)"
    using assms(1,2,3) r by (cases "weekday d \<le> w") (simp, simp del: mod_add_self2)
  have "weekday d + k < 21" using assms(5) days r assms(2) by (auto split: if_splits)
  moreover have "7 \<le> x \<Longrightarrow> x < 14 \<Longrightarrow> x mod 7 = x - 7" "14 \<le> x \<Longrightarrow> x < 21 \<Longrightarrow> x mod 7 = x - 14" for x :: int by presburger+
  ultimately have "(weekday d + k) mod 7 = (if weekday d + k < 7 then weekday d + k else if weekday d + k < 14 then weekday d + k - 7 else weekday d + k - 14)"
    using r assms(4) by auto
  then show ?thesis using days assms r by (auto simp: weekday_add split: if_splits)
qed

lemma weekly_days:
  assumes "0 \<le> w" "w \<le> 6" "days = go_rem (w - weekday d + 7) 7"
  shows "0 \<le> days" "days \<le> 6" "weekday (d + days) = w" "\<And>e. d \<le> e \<Longrightarrow> e < d + days + 7 \<Longrightarrow> weekday e = w \<Longrightarrow> e = d + days"
    "weekday (d + days + 7) = w"
proof -
  have "sgn (w - weekday d + 7) = 1" "\<bar>w - weekday d + 7\<bar> = w - weekday d + 7" using assms(1) weekday_range [of d] by simp_all
  then have days: "days = (w - weekday d + 7) mod 7" using assms(3) by (simp add: go_rem_def)
  show *: "0 \<le> days" "days \<le> 6" using days by simp_all
  show w: "weekday (d + days) = w" using weekday_hit [OF assms(1,2) days, of days] * by simp
  show "weekday (d + days + 7) = w" using w weekday_add [of "d + days" 7] assms(1,2) by simp
  show "e = d + days" if "d \<le> e" "e < d + days + 7" "weekday e = w" for e
    using weekday_hit [OF assms(1,2) days, of "e - d"] that by simp
qed

text \<open>
  C34: The next run is the first instant on the schedule. In a zone where the time of day of the task occurs
  once a day, the computation ends, and for a daily, weekday or weekly task its result is after now, at the
  time and on a day of the schedule, and no other such instant lies between.
\<close>
theorem next_run_is_first:
  assumes "regular z (task_clock t)" "sk_schedule t \<in> {''daily'', ''weekdays'', ''weekly''}" "0 \<le> sk_weekday t" "sk_weekday t \<le> 6"
  shows "\<exists>n. nextScheduledRun z t after = Some n \<and> after < n \<and> on_schedule z t n \<and> (\<forall>u. after < u \<and> on_schedule z t u \<longrightarrow> n \<le> u)"
proof -
  note r = assms(1)
  let ?c = "task_clock t" and ?d = "zn_day z after"
  have tomorrow: "after < zn_at z (?d + 1) ?c" using regularD(6) [OF r, of after "?d + 1"] by simp
  consider "sk_schedule t = ''daily''" | "sk_schedule t = ''weekdays''" | "sk_schedule t = ''weekly''" using assms(2) by auto
  then show ?thesis
  proof cases
    case 1
    let ?e = "if zn_at z ?d ?c \<le> after then ?d + 1 else ?d"
    have "nextScheduledRun z t after = Some (zn_at z ?e ?c)"
      using 1 by (simp add: nextScheduledRun_def Let_def regularD(7) [OF r])
    moreover have "after < zn_at z ?e ?c" using tomorrow by simp
    moreover have "day_ok t ?e" using 1 by (simp add: day_ok_def)
    moreover have "zn_at z d' ?c \<le> after" if "?d \<le> d'" "d' < ?e" for d' using that by (auto split: if_splits)
    ultimately show ?thesis using first_day [OF r refl] by blast
  next
    case 2
    let ?e = "if zn_at z ?d ?c \<le> after then ?d + 1 else ?d"
    have "nextScheduledRun z t after = skip_weekend z ?c (zn_at z ?e ?c)"
      using 2 by (simp add: nextScheduledRun_def Let_def regularD(3) [OF r])
    moreover obtain d' where d': "?e \<le> d'" "skip_weekend z ?c (zn_at z ?e ?c) = Some (zn_at z d' ?c)" "\<not> is_weekend d'"
      "\<And>e. ?e \<le> e \<Longrightarrow> e < d' \<Longrightarrow> is_weekend e"
      using skip_weekend_day [OF r] by blast
    moreover have "after < zn_at z d' ?c"
      using regularD(8) [OF r, of ?e d'] d'(1) tomorrow by (auto split: if_splits)
    moreover have "day_ok t d'" using 2 d'(3) by (simp add: day_ok_def)
    moreover have "zn_at z e ?c \<le> after" if "?d \<le> e" "e < d'" "day_ok t e" for e
    proof -
      have "\<not> ?e \<le> e" using d'(4) [of e] that(2,3) 2 by (auto simp: day_ok_def)
      then have "zn_at z ?d ?c \<le> after \<and> e = ?d" using that(1) by (auto split: if_splits)
      then show ?thesis by simp
    qed
    ultimately show ?thesis using first_day [OF r refl] by metis
  next
    case 3
    define days where "days = go_rem (sk_weekday t - weekday ?d + 7) 7"
    note w = weekly_days [OF assms(3,4) days_def]
    let ?e = "if zn_at z (?d + days) ?c \<le> after then ?d + days + 7 else ?d + days"
    have "nextScheduledRun z t after = Some (zn_at z ?e ?c)"
      using 3 by (simp add: nextScheduledRun_def Let_def regularD(7) [OF r] days_def [symmetric])
    moreover have "after < zn_at z ?e ?c" using regularD(6) [OF r, of after "?d + days + 7"] w(1) by auto
    moreover have "day_ok t ?e" using 3 w(3,5) by (simp add: day_ok_def)
    moreover have "zn_at z e ?c \<le> after" if "?d \<le> e" "e < ?e" "day_ok t e" for e
    proof -
      have "weekday e = sk_weekday t" using that(3) 3 by (simp add: day_ok_def)
      moreover have "e < ?d + days + 7" using that(2) by (auto split: if_splits)
      ultimately have "e = ?d + days" using w(4) [OF that(1)] by simp
      then show ?thesis using that(2) by (auto split: if_splits)
    qed
    ultimately show ?thesis using first_day [OF r refl] by metis
  qed
qed

definition nightly_check :: scheduled_task where
  "nightly_check =
     \<lparr>sk_id = ''t'', sk_project_id = ''p'', sk_session_id = ''c'', sk_name = ''check'', sk_prompt = ''go'', sk_schedule = ''weekdays'',
      sk_interval_minutes = 0, sk_time_of_day = ''00:30'', sk_weekday = 0, sk_enabled = True, sk_created_at = 1, sk_next_run_at = 0,
      sk_last_run_at = 0, sk_last_run_id = [], sk_last_status = [], sk_last_error = [], sk_provider = [], sk_model = [],
      sk_approval_mode = ''auto''\<rparr>"

lemma nightly_clock: "task_clock nightly_check = 1800000"
  by code_simp

lemma utc_regular: "0 \<le> c \<Longrightarrow> c < day_ms \<Longrightarrow> regular (zone_with_change 0 0 0) c"
proof -
  assume c: "0 \<le> c" "c < day_ms"
  have pos: "0 < day_ms" by (simp add: day_ms_def)
  have "d * day_ms + c < t" if "d < t div day_ms" for d t
  proof -
    have "(d + 1) * day_ms \<le> (t div day_ms) * day_ms" using that pos by (intro mult_right_mono) auto
    moreover have "(t div day_ms) * day_ms \<le> t" using pos by (simp add: minus_mod_eq_div_mult [symmetric])
    ultimately show ?thesis using c by (simp add: algebra_simps)
  qed
  moreover have "t < d * day_ms + c" if "t div day_ms < d" for d t
  proof -
    have "(t div day_ms + 1) * day_ms \<le> d * day_ms" using that pos by (intro mult_right_mono) auto
    moreover have "t < (t div day_ms) * day_ms + day_ms" using pos pos_mod_bound [of day_ms t] by (simp add: minus_mod_eq_div_mult [symmetric])
    ultimately show ?thesis using c by (simp add: algebra_simps)
  qed
  ultimately show ?thesis using c pos by (auto simp: regular_def zone_with_change_def Let_def)
qed

lemma next_run_is_first_witness:
  "\<exists>n. nextScheduledRun (zone_with_change 0 0 0) nightly_check 1000 = Some n \<and> 1000 < n \<and> on_schedule (zone_with_change 0 0 0) nightly_check n"
  using next_run_is_first [of "zone_with_change 0 0 0" nightly_check 1000] utc_regular [of 1800000] nightly_clock
  by (auto simp: nightly_check_def day_ms_def)

subsection \<open>Where it never ends\<close>

text \<open>
  Havana moves its clocks on 8 March 2026, a Sunday, from midnight to one: half past midnight does not occur,
  and \<open>time.Date\<close> gives half past eleven on Saturday for it, so that the day after Saturday is Saturday.
\<close>

definition havana :: zone where
  "havana = zone_with_change (-18000000) (20520 * day_ms + 18000000) (-14400000)"

definition saturday :: int where
  "saturday = 20519 * day_ms + 19800000"

lemma saturday_again: "is_weekend (zn_day havana saturday)"
  "zn_at havana (zn_day havana (add_days havana saturday 1)) 1800000 = saturday"
  by code_simp+

lemma weekend_forever: "skip_weekend havana 1800000 saturday = Some y \<Longrightarrow> False"
proof -
  assume ends: "skip_weekend havana 1800000 saturday = Some y"
  let ?P = "\<lambda>z (c :: int) u (y :: int). z = havana \<and> c = 1800000 \<and> u = saturday \<longrightarrow> False"
  have "?P havana 1800000 saturday y"
    using ends by (rule skip_weekend.raw_induct [of ?P, rotated]) (clarsimp simp: saturday_again, blast)
  then show False by simp
qed

definition friday_run :: int where
  "friday_run = 20518 * day_ms + 18000000 + 1800000"

lemma friday_steps:
  "zn_at havana (zn_day havana friday_run) 1800000 \<le> friday_run"
  "zn_at havana (zn_day havana (add_days havana friday_run 1)) 1800000 = saturday"
  by code_simp+

lemma weekday_run_never_found:
  "nextScheduledRun havana nightly_check friday_run = None"
proof -
  have "nextScheduledRun havana nightly_check friday_run = skip_weekend havana 1800000 saturday"
    using friday_steps by (simp add: nextScheduledRun_def Let_def nightly_clock) (simp add: nightly_check_def)
  also have "\<dots> = None"
    using weekend_forever by (cases "skip_weekend havana 1800000 saturday") auto
  finally show ?thesis .
qed

end
