(* ===== verification/SchedulerProps.thy ===== *)
theory SchedulerProps
  imports SchedulerInv ScheduleProps
begin

section \<open>What the scheduler promises\<close>

text \<open>
  The invariant through every sequence of critical sections and through the operations composed of them, the
  start of at most one chat for a task, the recovery after a restart, the dispatch of due tasks, retention,
  and the removal of a task with its runs.
\<close>

subsection \<open>The operations are made of steps\<close>

lemma then_steps:
  assumes "sched_steps s s1" "sched_steps s1 (snd x)" "x = (e, s2)" shows "sched_steps s s2"
  using rtranclp_trans [OF assms(1,2)] assms(3) by simp

lemma store_steps: "sched_steps s (snd (store_task env t s))"
  by (rule r_into_rtranclp) (rule sched_step.intros)

lemma save_task_steps:
  "SaveScheduledTask z catalog available uuid now projects env input s = Some (r, s') \<Longrightarrow> sched_steps s s'"
  using store_steps unfolding SaveScheduledTask_def Let_def
  by (auto split: option.splits sum.splits if_splits) (metis snd_conv)+

lemma update_steps: "sched_steps s (snd (updateScheduledTaskRunResult env i runID now status err s))"
  by (rule r_into_rtranclp) (rule sched_step.intros)

lemma finish_steps: "sched_steps s (snd (finishScheduledTaskRun env now i status err s))"
  by (rule r_into_rtranclp) (rule sched_step.intros)

lemma finalize_steps:
  assumes "\<And>s. sched_steps s (meanwhile s)"
  shows "sched_steps s (snd (finalizeScheduledTaskRun meanwhile env env2 now taskID runID status err s))"
proof -
  obtain r changed e s1 where f: "finishScheduledTaskRun env now runID status err s = ((r, changed, e), s1)" by (metis prod_cases4 prod.collapse)
  then have 1: "sched_steps s s1" using finish_steps [of s env now runID status err] by simp
  have "sched_steps s (snd (updateScheduledTaskRunResult env2 taskID runID now st err' (meanwhile s1)))" for st err'
    using 1 assms update_steps by (meson rtranclp_trans)
  then show ?thesis using 1 f unfolding finalizeScheduledTaskRun_def Let_def
    by (auto split: option.split prod.split bool.split) (metis snd_conv)+
qed

text \<open>A dispatch, with what other threads do between its critical sections, is a sequence of steps.\<close>

lemma dispatch_steps:
  assumes m: "\<And>n s. sched_steps s (meanwhile n s)"
  shows "sched_steps s (snd (dispatchScheduledTask meanwhile envs projects archived catalog uuid chat discard start background now task s))"
proof -
  have append: "sched_steps s1 (snd (appendScheduledTaskRunForTask env t (new_scheduled_run t uuid session now) s1))" for env t session s1
    by (intro r_into_rtranclp sched_step.appended) (simp add: new_scheduled_run_def run_of_task_def)
  have claim: "sched_steps s1 (snd (claimScheduledTaskRunStart env start now t r s1))" for env t r s1
    by (intro r_into_rtranclp sched_step.claimed)
  have upd: "sched_steps s1 s2" if "updateScheduledTaskRunResult env i runID now st err (meanwhile n s1) = (e, s2)" for env i runID st err n s1 e s2
    using m update_steps that by (rule then_steps)
  have fin: "sched_steps s1 s2"
    if "finalizeScheduledTaskRun (meanwhile n) env env2 now i runID st err (meanwhile k s1) = (e, s2)" for n env env2 i runID st err k s1 e s2
    using m finalize_steps [OF m] that by (rule then_steps)
  have app: "sched_steps s s1" if "appendScheduledTaskRunForTask env t (new_scheduled_run t uuid session now) (meanwhile 0 s) = (e, s1)" for env t session e s1
    using m append that by (rule then_steps)
  have cl: "sched_steps s1 s2" if "claimScheduledTaskRunStart env start now t r (meanwhile 1 s1) = (e, s2)" for env t r s1 e s2
    using m claim that by (rule then_steps)
  have first: "sched_steps s (snd (updateScheduledTaskResult env i now st err (meanwhile 0 s)))" for env i st err
    unfolding updateScheduledTaskResult_def by (rule rtranclp_trans [OF m update_steps])
  show ?thesis
  proof (cases "dispatch_check projects archived catalog task")
    case (Inl a)
    then show ?thesis using first by (cases a) (simp add: dispatchScheduledTask_def)
  next
    case (Inr t)
    note check = Inr
    show ?thesis
    proof (cases chat)
      case (Inl e)
      then show ?thesis using first check by (simp add: dispatchScheduledTask_def)
    next
      case (Inr session)
      define run where "run = new_scheduled_run t uuid session now"
      obtain x s1 where x: "appendScheduledTaskRunForTask (envs 0) t run (meanwhile 0 s) = (x, s1)" by (meson surj_pair)
      have 1: "sched_steps s s1" using app x unfolding run_def by blast
      show ?thesis
      proof (cases x)
        case (Inl e)
        then show ?thesis using check Inr x upd rtranclp_trans [OF 1]
          by (auto simp: dispatchScheduledTask_def updateScheduledTaskResult_def Let_def run_def [symmetric] split: prod.split option.split)
      next
        case (Inr evicted)
        obtain e started s2 where c: "claimScheduledTaskRunStart (envs 1) start now t run (meanwhile 1 s1) = ((e, started), s2)"
          by (metis prod.collapse)
        have 2: "sched_steps s s2" using rtranclp_trans [OF 1 cl [OF c]] .
        show ?thesis using check \<open>chat = Inr session\<close> x Inr c 2 fin rtranclp_trans [OF 2]
          by (auto simp: dispatchScheduledTask_def Let_def run_def [symmetric] split: prod.split option.split)
      qed
    qed
  qed
qed

lemma remove_records_steps: "sched_steps s (snd (removeScheduledTaskRecords env project i expected s))"
  by (rule r_into_rtranclp) (rule sched_step.intros)

lemma delete_steps:
  assumes m: "\<And>n s. sched_steps s (meanwhile n s)"
  shows "sched_steps s (snd (delete_with_data n meanwhile env projects worktree project i s))"
proof (induct n arbitrary: s)
  case (Suc n)
  have "sched_steps s s1" if "removeScheduledTaskRecords env project i ids (meanwhile n s) = (e, s1)" for ids e s1
    using m remove_records_steps that by (rule then_steps)
  moreover have "sched_steps s (snd (delete_with_data n meanwhile env projects worktree project i s1))" if "sched_steps s s1" for s1
    using rtranclp_trans [OF that Suc] .
  ultimately show ?case by (auto simp: Let_def split: sum.split option.split prod.split bool.split)
qed simp

lemma delete_records_steps: "sched_steps s (snd (delete_records env project i s))"
  using remove_records_steps [of s env project i None]
  by (auto simp: delete_records_def split: sum.split prod.split)
subsection \<open>The invariant\<close>

text \<open>
  C31: Whatever the order of the critical sections and whichever accesses to the two files fail, the files stay
  well formed: task identifiers are unique and at most 64, run identifiers unique and at most 512, at most 50
  of one task, and no task has two live runs. A dispatch that other threads interrupt between its critical
  sections keeps it too.
\<close>
theorem scheduler_stays_well_formed:
  assumes "sched_wf s" "sched_steps s s1" "\<And>n s. sched_steps s (meanwhile n s)"
  shows "sched_wf s1 \<and>
    sched_wf (snd (dispatchScheduledTask meanwhile envs projects archived catalog uuid chat discard start background now task s1))"
proof -
  have wf: "sched_steps a b \<Longrightarrow> sched_wf a \<Longrightarrow> sched_wf b" for a b by (induct rule: rtranclp_induct) (auto intro: step_wf)
  have "sched_steps s1 (snd (dispatchScheduledTask meanwhile envs projects archived catalog uuid chat discard start background now task s1))"
    by (rule dispatch_steps) (rule assms(3))
  then show ?thesis using wf assms(1,2) by blast
qed

definition quiet_env :: sched_env where
  "quiet_env = \<lparr>en_load_tasks = None, en_load_runs = None, en_save_tasks = None, en_save_runs = None, en_restore_runs = None\<rparr>"

definition one_project :: projects where
  "one_project p =
     (if p = ''p'' then Some \<lparr>pv_provider = ''kimi'', pv_model = ''k'', pv_sessions = [(''c'', [])], pv_archived = []\<rparr> else None)"

definition due_now :: scheduler where
  "due_now = \<lparr>sc_tasks = [nightly_check\<lparr>sk_next_run_at := 1000\<rparr>], sc_runs = []\<rparr>"

lemma due_now_wf: "sched_wf due_now"
  by (simp add: due_now_def sched_wf_def tasks_ok_def runs_ok_def maxScheduledTasks_def live_of_def task_count_def)

lemma scheduler_stays_well_formed_witness:
  "sched_wf (snd (dispatchScheduledTask (\<lambda>_ s. s) (\<lambda>_. quiet_env) one_project (\<lambda>_. False) (\<lambda>_ _. None) ''r'' (Inr ''d'') None None True 2000
     nightly_check due_now))"
  using scheduler_stays_well_formed [OF due_now_wf rtranclp.rtrancl_refl, of "\<lambda>_ s. s"] by simp

subsection \<open>One chat for a task\<close>

text \<open>
  C32: A chat is started only for the one live run of its task. When the claim starts the chat, the task is still
  there and executes as it did when the run was prepared, the row of the run is the only live row of the task
  and has the chat and the status running, and the summary of the task now shows that run.
\<close>
theorem chat_starts_for_only_run:
  assumes "sched_wf s" "claimScheduledTaskRunStart env start now task run s = ((e, True), s')"
  shows "e = None \<and> sc_runs s' = sc_runs s \<and>
    (\<exists>row. live_of (sk_project_id task) (sk_id task) (sc_runs s) = [row] \<and> sr_id row = sr_id run \<and>
       sr_session_id row = sr_session_id run \<and> sr_status row = ''running'') \<and>
    (\<exists>current. find (task_is (sk_project_id task) (sk_id task)) (sc_tasks s) = Some current \<and> sameScheduledTaskExecution current task \<and>
       find (task_is (sk_project_id task) (sk_id task)) (sc_tasks s') =
         Some (current\<lparr>sk_last_run_at := now, sk_last_run_id := sr_id run, sk_last_status := ''running'', sk_last_error := []\<rparr>))"
proof -
  let ?is = "task_is (sk_project_id task) (sk_id task)" and ?mine = "run_of_task (sk_project_id task) (sk_id task)"
  let ?f = "\<lambda>t. t\<lparr>sk_last_run_at := now, sk_last_run_id := sr_id run, sk_last_status := ''running'', sk_last_error := []\<rparr>"
  have un: "task_unchanged env task s = None" and row: "list_ex (\<lambda>c. sr_id c = sr_id run \<and> ?mine c \<and>
      sr_session_id c = sr_session_id run \<and> sr_status c = ''running'') (sc_runs s)"
    and saved: "saveScheduledTasksRaw env (upd_first ?is ?f (sc_tasks s)) s = (None, s')" and e: "e = None"
    using assms(2) by (auto simp: claimScheduledTaskRunStart_def dest!: loaded_runs split: option.splits sum.splits if_splits prod.splits)
  obtain current where cur: "find ?is (sc_tasks s) = Some current" "sameScheduledTaskExecution current task"
    using un by (auto simp: task_unchanged_def dest!: loaded_tasks split: sum.splits option.splits if_splits)
  have s': "s' = s\<lparr>sc_tasks := upd_first ?is ?f (sc_tasks s)\<rparr>" using saved by (rule saved_tasks)
  have new: "find ?is (sc_tasks s') = Some (?f current)"
    unfolding s' using find_upd_first_found [OF cur(1), of ?f] find_mem [OF cur(1)] by (simp add: task_is_def)
  obtain r where r: "r \<in> set (sc_runs s)" "sr_id r = sr_id run" "?mine r" "sr_session_id r = sr_session_id run" "sr_status r = ''running''"
    using row by (auto simp: list_ex_iff)
  then have "r \<in> set (live_of (sk_project_id task) (sk_id task) (sc_runs s))"
    by (simp add: live_of_def run_live_def scheduledTaskRunTerminal_def)
  moreover have "length (live_of (sk_project_id task) (sk_id task) (sc_runs s)) \<le> 1"
    using sched_wfD(2) [OF assms(1)] by (simp add: runs_ok_def)
  ultimately have "live_of (sk_project_id task) (sk_id task) (sc_runs s) = [r]"
    by (cases "live_of (sk_project_id task) (sk_id task) (sc_runs s)") auto
  with r cur new e s' show ?thesis by simp
qed

definition first_run :: scheduled_run where
  "first_run = new_scheduled_run nightly_check ''r'' ''d'' 1500"

lemma first_run_ok: "runs_ok [first_run]"
proof -
  have "live_of p i [first_run] = (if p = ''p'' \<and> i = ''t'' then [first_run] else [])" for p i
    by (simp add: live_of_def first_run_def new_scheduled_run_def run_of_task_def run_live_def scheduledTaskRunTerminal_def nightly_check_def)
  then show ?thesis by (simp add: runs_ok_def task_count_def maxScheduledTaskRuns_def maxRunsPerScheduledTask_def)
qed

lemma chat_starts_for_only_run_witness:
  "\<exists>row. live_of ''p'' ''t'' [first_run] = [row] \<and> sr_id row = ''r'' \<and> sr_session_id row = ''d'' \<and> sr_status row = ''running''"
proof -
  let ?s = "due_now\<lparr>sc_runs := [first_run]\<rparr>"
  have wf: "sched_wf ?s" using due_now_wf first_run_ok by (simp add: sched_wf_def)
  have "fst (claimScheduledTaskRunStart quiet_env None 2000 nightly_check first_run ?s) = (None, True)" by code_simp
  then obtain s' where "claimScheduledTaskRunStart quiet_env None 2000 nightly_check first_run ?s = ((None, True), s')" by (metis prod.collapse)
  from chat_starts_for_only_run [OF wf this] show ?thesis
    by (simp add: nightly_check_def) (simp add: first_run_def new_scheduled_run_def)
qed

subsection \<open>Dispatching\<close>

definition live_run_of :: "scheduler \<Rightarrow> string \<Rightarrow> bool" where
  "live_run_of s i \<longleftrightarrow> list_ex (\<lambda>r. run_live r \<and> sr_task_id r = i) (sc_runs s)"

lemma tick_due:
  "tick_tasks z archived live now ts = Some (out, due) \<Longrightarrow>
   map sk_id due = map sk_id (filter (\<lambda>t. is_due archived now t \<and> \<not> live (sk_id t)) ts)"
  by (induct ts arbitrary: out due) (auto simp: Let_def split: option.splits if_splits)

lemma tick_stored:
  "tick_tasks z archived live now ts = Some (out, due) \<Longrightarrow> t \<in> set due \<Longrightarrow> dispatching now t \<in> set out"
  by (induct ts arbitrary: out due) (auto simp: Let_def split: option.splits if_splits)

lemma tick_from:
  "tick_tasks z archived live now ts = Some (out, due) \<Longrightarrow> t \<in> set due \<Longrightarrow>
   \<exists>u n. u \<in> set ts \<and> nextScheduledRun z u now = Some n \<and> t = u\<lparr>sk_next_run_at := n\<rparr>"
  by (induct ts arbitrary: out due) (auto simp: Let_def split: option.splits if_splits, blast+)

text \<open>When every access works, a tick gives the tasks of \<open>tick_tasks\<close>; when one does not, nothing.\<close>

lemma tick_cases:
  assumes "dispatchDueScheduledTasks z archived env now s = Some (due, s')"
  shows "due = [] \<or>
    (\<exists>out. tick_tasks z archived (live_run_of s) now (sc_tasks s) = Some (out, due) \<and> sc_tasks s' = out)"
proof -
  have "due = [] \<or> list_ex (is_due archived now) (sc_tasks s)" if "tick_tasks z archived l now (sc_tasks s) = Some (out, due)" for l out
    using tick_due [OF that] by (cases due) (auto simp: list_ex_iff filter_eq_Cons_iff Cons_eq_map_conv Cons_eq_filter_iff)
  then show ?thesis using assms
    by (auto simp: dispatchDueScheduledTasks_def live_run_of_def [abs_def] dest!: loaded_tasks loaded_runs saved_tasks
        split: sum.splits option.splits prod.splits if_splits)
qed

lemma tick_dispatches:
  assumes "sched_wf s" "dispatchDueScheduledTasks z archived env now s = Some (due, s')"
  shows "due = [] \<or> map sk_id due = map sk_id (filter (\<lambda>t. is_due archived now t \<and> \<not> live_run_of s (sk_id t)) (sc_tasks s))"
    "t \<in> set due \<Longrightarrow> (\<exists>u\<in>set (sc_tasks s). nextScheduledRun z u now = Some (sk_next_run_at t) \<and> t = u\<lparr>sk_next_run_at := sk_next_run_at t\<rparr>) \<and>
       dispatching now t \<in> set (sc_tasks s')"
    "t \<in> set due \<Longrightarrow> later < sk_next_run_at t \<Longrightarrow> dispatchDueScheduledTasks z archived2 env2 later s' = Some (due2, s2) \<Longrightarrow>
       sk_id t \<notin> sk_id ` set due2"
proof -
  note cases = tick_cases [OF assms(2)]
  show "due = [] \<or> map sk_id due = map sk_id (filter (\<lambda>t. is_due archived now t \<and> \<not> live_run_of s (sk_id t)) (sc_tasks s))"
    using cases tick_due by blast
  have found: "(\<exists>u\<in>set (sc_tasks s). nextScheduledRun z u now = Some (sk_next_run_at t) \<and> t = u\<lparr>sk_next_run_at := sk_next_run_at t\<rparr>) \<and>
       dispatching now t \<in> set (sc_tasks s')" if t: "t \<in> set due"
  proof -
    obtain out where out: "tick_tasks z archived (live_run_of s) now (sc_tasks s) = Some (out, due)" "sc_tasks s' = out" using cases t by auto
    obtain u n where "u \<in> set (sc_tasks s)" "nextScheduledRun z u now = Some n" "t = u\<lparr>sk_next_run_at := n\<rparr>" using tick_from [OF out(1) t] by blast
    then show ?thesis using tick_stored [OF out(1) t] out(2) by auto
  qed
  then show "t \<in> set due \<Longrightarrow> (\<exists>u\<in>set (sc_tasks s). nextScheduledRun z u now = Some (sk_next_run_at t) \<and> t = u\<lparr>sk_next_run_at := sk_next_run_at t\<rparr>) \<and>
       dispatching now t \<in> set (sc_tasks s')" .
  assume t: "t \<in> set due" and later: "later < sk_next_run_at t" and tick: "dispatchDueScheduledTasks z archived2 env2 later s' = Some (due2, s2)"
  let ?d = "dispatching now t"
  have d: "?d \<in> set (sc_tasks s')" "sk_id ?d = sk_id t" "sk_next_run_at ?d = sk_next_run_at t" using found [OF t] by (simp_all add: dispatching_def)
  have "distinct (map sk_id (sc_tasks s'))" using tick_wf [OF assms] by (simp add: sched_wf_def tasks_ok_def)
  then have same: "u = ?d" if "u \<in> set (sc_tasks s')" "sk_id u = sk_id t" for u
    using that d(1,2) by (metis distinct_map inj_on_eq_iff)
  show "sk_id t \<notin> sk_id ` set due2"
  proof
    assume "sk_id t \<in> sk_id ` set due2"
    then have in2: "sk_id t \<in> set (map sk_id due2)" by simp
    then have "due2 \<noteq> []" by auto
    then obtain out where "tick_tasks z archived2 (live_run_of s') later (sc_tasks s') = Some (out, due2)" using tick_cases [OF tick] by blast
    from in2 [unfolded tick_due [OF this]] obtain u where "u \<in> set (sc_tasks s')" "is_due archived2 later u" "sk_id u = sk_id t" by auto
    with same [of u] d(3) later show False by (simp add: is_due_def)
  qed
qed


text \<open>A daily task for six in the morning is due, and not again before the next morning.\<close>

definition morning_check :: scheduled_task where
  "morning_check = nightly_check\<lparr>sk_schedule := ''daily'', sk_time_of_day := ''06:00'', sk_next_run_at := 21600000\<rparr>"


lemma next_run_ignored: "nextScheduledRun z (t\<lparr>sk_next_run_at := n\<rparr>) now = nextScheduledRun z t now"
  by (simp add: nextScheduledRun_def task_clock_def Let_def cong: if_cong)


subsection \<open>After a restart\<close>

lemma recovered_final: "\<not> run_live (recovered_run quote now r)"
  by (auto simp: recovered_run_def run_live_def scheduledTaskRunTerminal_def)

lemma recovered_keeps [simp]: "\<not> run_live r \<Longrightarrow> recovered_run quote now r = r"
  by (simp add: recovered_run_def)

lemma final_not_shown_live: "\<not> run_live r \<Longrightarrow> \<not> shows_live (shows_run r t)"
  by (auto simp: run_live_def scheduledTaskRunTerminal_def shows_live_def shows_run_def)

lemma latest_run_mem: "latest_run i rs = Some r \<Longrightarrow> r \<in> set rs \<and> \<not> run_live r"
  unfolding latest_run_def
proof (induct rs arbitrary: r rule: rev_induct)
  case (snoc x rs)
  then show ?case by (auto split: if_splits option.splits)
qed simp

lemma terminal_mem: "terminal_by_id i rs = Some r \<Longrightarrow> r \<in> set rs \<and> sr_id r = i \<and> \<not> run_live r"
  by (auto simp: terminal_by_id_def dest: find_mem)

lemma reconciled_settled:
  assumes "reconciled_task rs t = Some t'" shows "\<not> shows_live t'"
proof -
  have "\<not> shows_live (lost e t)" "\<not> shows_live (t\<lparr>sk_last_status := ''stopped'', sk_last_error := e\<rparr>)" for e
    by (simp_all add: shows_live_def lost_def)
  then show ?thesis using assms
    by (auto simp: reconciled_task_def final_not_shown_live dest: latest_run_mem terminal_mem split: if_splits option.splits)
qed

lemma unreconciled_settled: "reconciled_task rs t = None \<Longrightarrow> \<not> shows_live t"
  by (auto simp: reconciled_task_def shows_live_def split: if_splits option.splits)

lemma summary_settled: "\<not> shows_live (reconcile_summary rs t)"
  by (simp add: reconcile_summary_def reconciled_settled unreconciled_settled split: option.split)

lemma terminal_unique:
  assumes "distinct (map sr_id rs)" "r \<in> set rs" "\<not> run_live r" shows "terminal_by_id (sr_id r) rs = Some r"
proof -
  have "\<exists>y. terminal_by_id (sr_id r) rs = Some y" unfolding terminal_by_id_def using assms(2,3) by (intro find_isSome) auto
  then obtain y where y: "terminal_by_id (sr_id r) rs = Some y" by blast
  with terminal_mem [OF y] assms(1,2) show ?thesis by (metis distinct_map inj_on_eq_iff)
qed

lemma shows_run_again [simp]: "shows_run r (shows_run r t) = shows_run r t"
  by (simp add: shows_run_def)

text \<open>A second look at a reconciled task changes nothing.\<close>

lemma shown_run_stays:
  assumes "distinct (map sr_id rs)" "r \<in> set rs" "\<not> run_live r" "sr_id r \<noteq> []"
  shows "reconcile_summary rs (shows_run r t) = shows_run r t"
  using terminal_unique [OF assms(1-3)] assms(4) final_not_shown_live [OF assms(3), of t]
  by (auto simp: reconcile_summary_def reconciled_task_def) (simp_all add: shows_run_def)

lemma stays_unless_newer:
  assumes "\<not> shows_live t"
    "sk_last_run_id t \<noteq> [] \<Longrightarrow> \<forall>r. terminal_by_id (sk_last_run_id t) rs = Some r \<longrightarrow> \<not> run_of_task (sk_project_id t) (sk_id t) r"
    "sk_last_run_id t = [] \<Longrightarrow> \<forall>r. latest_run (sk_id t) rs = Some r \<longrightarrow> run_ended_at r < sk_last_run_at t"
  shows "reconciled_task rs t = None"
proof (cases "sk_last_run_id t = []")
  case True
  have "sk_last_status t \<noteq> ''running''" "sk_last_status t \<noteq> ''dispatching''" using assms(1) by (simp_all add: shows_live_def)
  then show ?thesis using assms(1) assms(3) [OF True] True
    by (cases "latest_run (sk_id t) rs") (simp_all add: reconciled_task_def)
next
  case False
  then show ?thesis using assms(1) assms(2) [OF False]
    by (cases "terminal_by_id (sk_last_run_id t) rs") (simp_all add: reconciled_task_def)
qed

lemma summary_again:
  assumes "distinct (map sr_id rs)" "[] \<notin> sr_id ` set rs"
  shows "reconcile_summary rs (reconcile_summary rs t) = reconcile_summary rs t"
proof -
  have again: "reconcile_summary rs (shows_run r t) = shows_run r t" if "r \<in> set rs" "\<not> run_live r" for r
    using shown_run_stays [OF assms(1) that] assms(2) that(1) by force
  have settled: "reconcile_summary rs (t\<lparr>sk_last_status := st, sk_last_error := e\<rparr>) = t\<lparr>sk_last_status := st, sk_last_error := e\<rparr>"
    if "st = ''error'' \<or> st = ''stopped''"
      "sk_last_run_id t \<noteq> [] \<Longrightarrow> \<forall>r. terminal_by_id (sk_last_run_id t) rs = Some r \<longrightarrow> \<not> run_of_task (sk_project_id t) (sk_id t) r"
      "sk_last_run_id t = [] \<Longrightarrow> \<forall>r. latest_run (sk_id t) rs = Some r \<longrightarrow> run_ended_at r < sk_last_run_at t" for st e
  proof -
    let ?t = "t\<lparr>sk_last_status := st, sk_last_error := e\<rparr>"
    have "\<not> shows_live ?t" using that(1) by (auto simp: shows_live_def)
    then have "reconciled_task rs ?t = None" by (rule stays_unless_newer) (use that(2,3) in simp_all)
    then show ?thesis by (simp add: reconcile_summary_def)
  qed
  show ?thesis
  proof (cases "reconciled_task rs t")
    case None
    then show ?thesis by (simp add: reconcile_summary_def)
  next
    case (Some t')
    have lost_eq: "lost e t = t\<lparr>sk_last_status := ''error'', sk_last_error := e\<rparr>" for e by (simp add: lost_def)
    consider (shown) r where "r \<in> set rs" "\<not> run_live r" "t' = shows_run r t"
      | (gave_up) st e where "t' = t\<lparr>sk_last_status := st, sk_last_error := e\<rparr>" "st = ''error'' \<or> st = ''stopped''"
          "sk_last_run_id t \<noteq> [] \<longrightarrow> (\<forall>r. terminal_by_id (sk_last_run_id t) rs = Some r \<longrightarrow> \<not> run_of_task (sk_project_id t) (sk_id t) r)"
          "sk_last_run_id t = [] \<longrightarrow> (\<forall>r. latest_run (sk_id t) rs = Some r \<longrightarrow> run_ended_at r < sk_last_run_at t)"
    proof (cases "sk_last_run_id t = []")
      case True
      show ?thesis
      proof (cases "latest_run (sk_id t) rs")
        case None
        then show ?thesis using Some True by (intro gave_up [of "sk_last_error t'" "sk_last_status t'"]) (auto simp: reconciled_task_def lost_eq split: if_splits)
      next
        case (Some r)
        have "t' = shows_run r t \<or> (\<exists>st e. t' = t\<lparr>sk_last_status := st, sk_last_error := e\<rparr> \<and> (st = ''error'' \<or> st = ''stopped'') \<and> run_ended_at r < sk_last_run_at t)"
          using \<open>reconciled_task rs t = Some t'\<close> True Some by (auto simp: reconciled_task_def lost_eq split: if_splits)
        then show ?thesis using shown [of r] gave_up latest_run_mem [OF Some] True Some by auto
      qed
    next
      case False
      show ?thesis
      proof (cases "terminal_by_id (sk_last_run_id t) rs")
        case None
        then show ?thesis using Some False by (intro gave_up [of "sk_last_error t'" "sk_last_status t'"]) (auto simp: reconciled_task_def lost_eq split: if_splits)
      next
        case (Some r)
        have "t' = shows_run r t \<or> (\<exists>st e. t' = t\<lparr>sk_last_status := st, sk_last_error := e\<rparr> \<and> (st = ''error'' \<or> st = ''stopped'') \<and> \<not> run_of_task (sk_project_id t) (sk_id t) r)"
          using \<open>reconciled_task rs t = Some t'\<close> False Some by (auto simp: reconciled_task_def lost_eq split: if_splits)
        then show ?thesis using shown [of r] gave_up terminal_mem [OF Some] False Some by auto
      qed
    qed
    then have "reconcile_summary rs t' = t'"
    proof cases
      case shown
      then show ?thesis using again by simp
    next
      case (gave_up st e)
      then show ?thesis using settled by blast
    qed
    then show ?thesis using Some by (simp add: reconcile_summary_def)
  qed
qed

lemma reconcile_result:
  assumes "sched_wf s"
  shows "reconcileInterruptedScheduledRuns quote quiet_env now s =
    (let rs = map (recovered_run quote now) (sc_runs s) in s\<lparr>sc_runs := rs, sc_tasks := map (reconcile_summary rs) (sc_tasks s)\<rparr>)"
proof -
  let ?rs = "map (recovered_run quote now) (sc_runs s)"
  have lim: "\<not> maxScheduledTasks < length (sc_tasks s)" "\<not> maxScheduledTaskRuns < length (sc_runs s)"
    using assms by (auto simp: sched_wf_def tasks_ok_def runs_ok_def)
  have runs: "(if list_ex run_live (sc_runs s) then saveScheduledTaskRunsRaw quiet_env ?rs s else (None, s)) = (None, s\<lparr>sc_runs := ?rs\<rparr>)"
  proof (cases "list_ex run_live (sc_runs s)")
    case False
    then have "?rs = sc_runs s" by (auto simp: list_ex_iff intro: map_idI)
    with False show ?thesis by simp
  qed (simp add: saveScheduledTaskRunsRaw_def save_runs_def quiet_env_def lim)
  have tasks: "\<not> list_ex (\<lambda>t. reconciled_task rs t \<noteq> None) ts \<Longrightarrow> map (reconcile_summary rs) ts = ts" for rs ts
    by (auto simp: list_ex_iff reconcile_summary_def intro: map_idI)
  show ?thesis using lim runs tasks [of ?rs "sc_tasks s"]
    by (auto simp: reconcileInterruptedScheduledRuns_def loadScheduledTaskRunsRaw_def loadScheduledTasksRaw_def saveScheduledTasksRaw_def
        quiet_env_def Let_def simp del: map_map)
qed

text \<open>
  C36: After a restart everything is settled. With a working store no run is live any more and no task shows a run
  under way; the rows that were final are as they were, no row or task is added or lost, and a second
  reconciliation changes nothing.
\<close>
theorem restart_settles_runs:
  fixes quote :: "string \<Rightarrow> string" and now later :: int
  assumes "sched_wf s" "[] \<notin> sr_id ` set (sc_runs s)"
  defines "s' \<equiv> reconcileInterruptedScheduledRuns quote quiet_env now s"
  shows "(\<forall>r\<in>set (sc_runs s'). \<not> run_live r) \<and> (\<forall>t\<in>set (sc_tasks s'). \<not> shows_live t) \<and>
    (\<forall>r\<in>set (sc_runs s). \<not> run_live r \<longrightarrow> r \<in> set (sc_runs s')) \<and>
    map sr_id (sc_runs s') = map sr_id (sc_runs s) \<and> map sk_id (sc_tasks s') = map sk_id (sc_tasks s) \<and>
    reconcileInterruptedScheduledRuns quote quiet_env later s' = s'"
proof -
  let ?rs = "map (recovered_run quote now) (sc_runs s)"
  have s': "s' = s\<lparr>sc_runs := ?rs, sc_tasks := map (reconcile_summary ?rs) (sc_tasks s)\<rparr>"
    unfolding s'_def reconcile_result [OF assms(1)] Let_def by simp
  have ids: "map sr_id ?rs = map sr_id (sc_runs s)" by (simp add: recovered_run_def)
  have again: "map (recovered_run quote later) ?rs = ?rs" by (simp add: recovered_final)
  have d: "distinct (map sr_id ?rs)" using assms(1) by (simp only: ids sched_wf_def runs_ok_def)
  have nil: "[] \<notin> sr_id ` set ?rs" using assms(2) ids by (metis set_map)
  have "reconcileInterruptedScheduledRuns quote quiet_env later s' = s'"
    using reconcile_result [OF reconcile_wf [OF assms(1), of quote quiet_env now], folded s'_def] again summary_again [OF d nil]
    by (simp add: s' Let_def del: map_map) (simp add: comp_def summary_again [OF d nil])
  moreover have "map sk_id (sc_tasks s') = map sk_id (sc_tasks s)" by (simp add: s' comp_def summary_keeps_id)
  moreover have "\<forall>r\<in>set (sc_runs s). \<not> run_live r \<longrightarrow> r \<in> set (sc_runs s')" by (force simp: s')
  ultimately show ?thesis using ids by (simp add: s' recovered_final summary_settled del: map_map)
qed

lemma restart_settles_runs_witness:
  "shows_live (dispatching 1500 nightly_check) \<and> run_live first_run \<and>
   list_all (\<lambda>r. \<not> run_live r) (sc_runs (reconcileInterruptedScheduledRuns id quiet_env 9000
     \<lparr>sc_tasks = [dispatching 1500 nightly_check], sc_runs = [first_run]\<rparr>)) \<and>
   list_all (\<lambda>t. \<not> shows_live t) (sc_tasks (reconcileInterruptedScheduledRuns id quiet_env 9000
     \<lparr>sc_tasks = [dispatching 1500 nightly_check], sc_runs = [first_run]\<rparr>))"
proof -
  have "sched_wf \<lparr>sc_tasks = [dispatching 1500 nightly_check], sc_runs = [first_run]\<rparr>"
    using first_run_ok by (simp add: sched_wf_def tasks_ok_def maxScheduledTasks_def)
  moreover have "sr_id first_run \<noteq> []" "shows_live (dispatching 1500 nightly_check)" "run_live first_run" by code_simp+
  ultimately show ?thesis using restart_settles_runs [of "\<lparr>sc_tasks = [dispatching 1500 nightly_check], sc_runs = [first_run]\<rparr>" id 9000]
    by (simp add: list_all_iff)
qed

subsection \<open>Retention\<close>

lemma full_keeps_none:
  assumes "maxRunsPerScheduledTask \<le> task_count i kept \<or> maxScheduledTaskRuns \<le> length kept" "keep_final kept evicted rs = (kept @ k, e)"
  shows "\<forall>x\<in>set k. sr_task_id x \<noteq> i"
  using assms
proof (induct kept evicted rs arbitrary: k rule: keep_final.induct)
  case (2 kept evicted r rs)
  show ?case
  proof (cases "maxScheduledTaskRuns \<le> length kept \<or> maxRunsPerScheduledTask \<le> task_count (sr_task_id r) kept")
    case True
    then show ?thesis using 2(1) [OF True 2(3)] 2(4) by simp
  next
    case False
    obtain k' where k': "k = r # k'" using keep_final_parts [of "kept @ [r]" evicted rs "kept @ k" e] 2(4) False by auto
    have "task_count i kept \<le> task_count i (kept @ [r])" by (simp add: task_count_def)
    then have full: "maxRunsPerScheduledTask \<le> task_count i (kept @ [r]) \<or> maxScheduledTaskRuns \<le> length (kept @ [r])"
      using 2(3) by (elim disjE) simp_all
    have "keep_final (kept @ [r]) evicted rs = ((kept @ [r]) @ k', e)" using 2(4) False k' by simp
    then have "\<forall>x\<in>set k'. sr_task_id x \<noteq> i" by (rule 2(2) [OF False full])
    moreover have "sr_task_id r \<noteq> i" using False 2(3) by auto
    ultimately show ?thesis using k' by simp
  qed
qed simp

lemma kept_newer:
  assumes "keep_final kept evicted rs = (kept @ k, evicted @ e)" "sorted_wrt (\<lambda>x y. sr_started_at y \<le> sr_started_at x) rs"
  shows "\<forall>x\<in>set k. \<forall>y\<in>set e. sr_task_id x = sr_task_id y \<longrightarrow> sr_started_at y \<le> sr_started_at x"
  using assms
proof (induct kept evicted rs arbitrary: k e rule: keep_final.induct)
  case (2 kept evicted r rs)
  show ?case
  proof (cases "maxScheduledTaskRuns \<le> length kept \<or> maxRunsPerScheduledTask \<le> task_count (sr_task_id r) kept")
    case True
    then have eq: "keep_final kept (evicted @ [r]) rs = (kept @ k, evicted @ e)" using 2(3) by simp
    obtain e' where e': "e = r # e'" using keep_final_parts [OF eq] by auto
    have "\<forall>x\<in>set k. sr_task_id x \<noteq> sr_task_id r" using full_keeps_none [OF _ eq] True by blast
    then show ?thesis using 2(1) [OF True, of k e'] eq e' 2(4) by auto
  next
    case False
    then have eq: "keep_final (kept @ [r]) evicted rs = (kept @ k, evicted @ e)" using 2(3) by simp
    obtain k' where k': "k = r # k'" using keep_final_parts [OF eq] by auto
    have "set e \<subseteq> set rs" using keep_final_parts [OF eq] by (auto dest!: arg_cong [of _ _ set_mset])
    then have "\<forall>y\<in>set e. sr_started_at y \<le> sr_started_at r" using 2(4) by auto
    then show ?thesis using 2(2) [OF False, of k' e] eq k' 2(4) by auto
  qed
qed simp

lemma newest_first_sorted: "sorted_wrt (\<lambda>x y. sr_started_at y \<le> sr_started_at x) (runs_newest_first rs)"
proof -
  have "sorted (map (\<lambda>r. - sr_started_at r) (runs_newest_first rs))" by (simp add: runs_newest_first_def)
  then show ?thesis by (simp add: sorted_map sorted_wrt_iff_nth_less)
qed

lemma fit_keeps_newest:
  assumes "fitScheduledTaskRuns rs = Inr (kept, evicted)" "x \<in> set kept" "y \<in> set evicted" "sr_task_id x = sr_task_id y" "\<not> run_live x"
  shows "sr_started_at y \<le> sr_started_at x"
proof -
  let ?s = "runs_newest_first rs"
  let ?live = "filter run_live ?s" and ?final = "filter (\<lambda>r. \<not> run_live r) ?s"
  obtain k where k: "keep_final ?live [] ?final = (k, evicted)" "kept = runs_newest_first k"
    using assms(1) by (auto simp: fitScheduledTaskRuns_def Let_def split: if_splits prod.splits)
  obtain k' where k': "k = ?live @ k'" using keep_final_parts [OF k(1)] by auto
  have "sorted_wrt (\<lambda>x y. sr_started_at y \<le> sr_started_at x) ?final" using newest_first_sorted by (rule sorted_wrt_filter)
  then have "\<forall>x\<in>set k'. \<forall>y\<in>set evicted. sr_task_id x = sr_task_id y \<longrightarrow> sr_started_at y \<le> sr_started_at x"
    using kept_newer [of ?live "[]" ?final k' evicted] k(1) k' by simp
  moreover have "x \<in> set k'"
  proof -
    have "x \<in> set k" using assms(2) k(2) by (metis mset_sorted set_mset_mset)
    then show ?thesis using k' assms(5) by simp
  qed
  ultimately show ?thesis using assms(3,4) by blast
qed

text \<open>
  C37: A new run displaces only what is over and older. When the row of a run is written, every live row and the new
  one are kept, the rows that are kept and those that are evicted are together those there were and the new one,
  the evicted ones are final, and none of them is newer than a final row of its task that is kept.
\<close>
theorem append_evicts_oldest_final:
  assumes "appendScheduledTaskRunForTask env task run s = (Inr evicted, s')"
  shows "mset (sc_runs s') + mset evicted = mset (sc_runs s) + {#run#} \<and> sc_tasks s' = sc_tasks s \<and>
    (\<forall>y\<in>set evicted. \<not> run_live y) \<and> (\<forall>x\<in>set (sc_runs s) \<union> {run}. run_live x \<longrightarrow> x \<in> set (sc_runs s')) \<and>
    (\<forall>x\<in>set (sc_runs s'). \<forall>y\<in>set evicted. \<not> run_live x \<longrightarrow> sr_task_id x = sr_task_id y \<longrightarrow> sr_started_at y \<le> sr_started_at x)"
proof -
  obtain kept where fit: "fitScheduledTaskRuns (sc_runs s @ [run]) = Inr (kept, evicted)" and s': "s' = s\<lparr>sc_runs := kept\<rparr>"
    using assms by (auto simp: appendScheduledTaskRunForTask_def appendScheduledTaskRunOwned_def saveScheduledTaskRunsRaw_def
        dest!: loaded_runs saved_runs split: option.splits sum.splits prod.splits)
  note parts = fit_parts(1,2) [OF fit]
  have all: "set kept \<union> set evicted = set (sc_runs s) \<union> {run}"
    using arg_cong [OF parts(1), of set_mset] by auto
  show ?thesis using parts fit_keeps_newest [OF fit] all by (auto simp: s')
qed

subsection \<open>Removing a task\<close>

lemma runs_loaded: "loadScheduledTaskRunsRaw env s = Inr rs \<Longrightarrow> rs = sc_runs s \<and> length (sc_runs s) \<le> maxScheduledTaskRuns"
  by (auto simp: loadScheduledTaskRunsRaw_def split: option.splits if_splits)

lemma commit_failed:
  assumes "commit_removal what env (sc_runs s) removed rs ts s = (Some e, s')" "length (sc_runs s) \<le> maxScheduledTaskRuns"
  shows "s' = s \<or> en_restore_runs env \<noteq> None \<and> sc_tasks s' = sc_tasks s \<and> sc_runs s' = rs"
  using assms unfolding commit_removal_def saveScheduledTaskRunsRaw_def
  by (auto simp: save_runs_def dest!: unsaved_tasks split: option.splits prod.splits if_splits)

lemma commit_done:
  assumes "commit_removal what env (sc_runs s) (filter P (sc_runs s)) (filter (\<lambda>r. \<not> P r) (sc_runs s)) ts s = (None, s')"
  shows "sc_tasks s' = ts" "sc_runs s' = filter (\<lambda>r. \<not> P r) (sc_runs s)"
proof -
  have "filter P (sc_runs s) = [] \<Longrightarrow> filter (\<lambda>r. \<not> P r) (sc_runs s) = sc_runs s"
    by (simp add: filter_empty_conv)
  then show "sc_tasks s' = ts" "sc_runs s' = filter (\<lambda>r. \<not> P r) (sc_runs s)"
    using assms unfolding commit_removal_def saveScheduledTaskRunsRaw_def
    by (auto dest!: saved_tasks saved_runs unsaved_tasks unsaved_runs split: option.splits prod.splits if_splits)
qed

text \<open>
  C38: A task and its runs are removed together. When the removal fails, nothing is changed, unless the run index could
  not be put back either, and then the tasks are unchanged; when a run that was not expected has come in,
  nothing is changed and the caller tries again; when it succeeds, exactly the task and its rows are gone, the rows
  are the result, and they are the expected ones.
\<close>
theorem task_removed_with_its_runs:
  "case removeScheduledTaskRecords env project i expected s of
     (Inl e, s') \<Rightarrow> s' = s \<or> en_restore_runs env \<noteq> None \<and> sc_tasks s' = sc_tasks s \<and>
       sc_runs s' = filter (\<lambda>r. \<not> run_of_task project i r) (sc_runs s)
   | (Inr (removed, True), s') \<Rightarrow> s' = s \<and> removed = [] \<and> expected \<noteq> Some (scheduledRunIDSet (filter (run_of_task project i) (sc_runs s)))
   | (Inr (removed, False), s') \<Rightarrow>
       removed = filter (run_of_task project i) (sc_runs s) \<and> (expected = None \<or> expected = Some (scheduledRunIDSet removed)) \<and>
       sc_runs s' = filter (\<lambda>r. \<not> run_of_task project i r) (sc_runs s) \<and>
       sc_tasks s' = filter (\<lambda>t. \<not> task_is project i t) (sc_tasks s)"
proof (cases "removeScheduledTaskRecords env project i expected s")
  case (Pair r s')
  let ?removed = "filter (run_of_task project i) (sc_runs s)"
  note D = Pair [unfolded removeScheduledTaskRecords_def Let_def]
  show ?thesis
  proof (cases r)
    case (Inl e)
    then have "s' = s \<or> length (sc_runs s) \<le> maxScheduledTaskRuns \<and>
        commit_removal ''delete scheduled task: '' env (sc_runs s) ?removed (filter (\<lambda>r. \<not> run_of_task project i r) (sc_runs s))
          (filter (\<lambda>t. \<not> task_is project i t) (sc_tasks s)) s = (Some e, s')"
      using D by (auto dest!: loaded_tasks runs_loaded split: sum.splits option.splits prod.splits if_splits)
    then have "s' = s \<or> en_restore_runs env \<noteq> None \<and> sc_tasks s' = sc_tasks s \<and>
       sc_runs s' = filter (\<lambda>r. \<not> run_of_task project i r) (sc_runs s)"
      using commit_failed by blast
    then show ?thesis using Inl Pair by simp
  next
    case (Inr x)
    obtain removed again where x: "x = (removed, again)" by fastforce
    show ?thesis
    proof (cases again)
      case True
      then have "s' = s \<and> removed = [] \<and> expected \<noteq> Some (scheduledRunIDSet ?removed)"
        using D Inr x by (auto dest!: loaded_tasks loaded_runs split: sum.splits option.splits prod.splits if_splits)
      then show ?thesis using True Pair Inr x by simp
    next
      case False
      then have ok: "removed = ?removed" "expected = None \<or> expected = Some (scheduledRunIDSet removed)"
        and c: "commit_removal ''delete scheduled task: '' env (sc_runs s) ?removed (filter (\<lambda>r. \<not> run_of_task project i r) (sc_runs s))
            (filter (\<lambda>t. \<not> task_is project i t) (sc_tasks s)) s = (None, s')"
        using D Inr x by (auto dest!: loaded_tasks loaded_runs split: sum.splits option.splits prod.splits if_splits)
      show ?thesis using False Pair Inr x ok commit_done [OF c] by simp
    qed
  qed
qed

text \<open>Of two writes the second fails, and the runs are put back.\<close>

lemma task_removed_with_its_runs_witness:
  "case removeScheduledTaskRecords (quiet_env\<lparr>en_save_tasks := Some ''disk full''\<rparr>) ''p'' ''t'' None
          \<lparr>sc_tasks = [nightly_check], sc_runs = [first_run]\<rparr> of
     (Inl e, s') \<Rightarrow> s' = \<lparr>sc_tasks = [nightly_check], sc_runs = [first_run]\<rparr>
   | (Inr _, s') \<Rightarrow> False"
proof -
  let ?env = "quiet_env\<lparr>en_save_tasks := Some ''disk full''\<rparr>" and ?s = "\<lparr>sc_tasks = [nightly_check], sc_runs = [first_run]\<rparr>"
  obtain r s' where r: "removeScheduledTaskRecords ?env ''p'' ''t'' None ?s = (r, s')" by (meson surj_pair)
  have "isl (fst (removeScheduledTaskRecords ?env ''p'' ''t'' None ?s))" "en_restore_runs ?env = None" by code_simp+
  then show ?thesis using task_removed_with_its_runs [where env = ?env and project = "''p''" and i = "''t''" and expected = None and s = ?s] r by (cases r) simp_all
qed

text \<open>With an old final run the new one stands beside it.\<close>

definition old_run :: scheduled_run where
  "old_run = first_run\<lparr>sr_id := ''q'', sr_started_at := 100, sr_completed_at := 200, sr_status := ''completed''\<rparr>"

lemma append_evicts_oldest_final_witness:
  "run_live first_run \<and> first_run \<in> set (sc_runs (snd (appendScheduledTaskRunForTask quiet_env nightly_check first_run
     \<lparr>sc_tasks = [nightly_check], sc_runs = [old_run]\<rparr>)))"
proof -
  let ?r = "appendScheduledTaskRunForTask quiet_env nightly_check first_run \<lparr>sc_tasks = [nightly_check], sc_runs = [old_run]\<rparr>"
  have "\<not> isl (fst ?r)" "run_live first_run" by code_simp+
  moreover obtain x s' where r: "?r = (x, s')" by (meson surj_pair)
  ultimately obtain evicted where ok: "?r = (Inr evicted, s')" by (cases x) auto
  from append_evicts_oldest_final [OF ok] show ?thesis using ok \<open>run_live first_run\<close> by simp
qed

end
