(* ===== verification/MemoryEntry.thy ===== *)
theory MemoryEntry
  imports Utf8 Complex_Main
begin

section \<open>Memories\<close>

text \<open>
  The entries of the memory (\<^verbatim>\<open>internal/engine/memory/memory.go\<close>) and the functions of \<^verbatim>\<open>store.go\<close> on their
  texts: tags found in the content, normal forms and their similarity. Instants and durations are those of
  \<open>Prelude\<close>. \<open>letter\<close> is the table of the letters and digits beyond ASCII. The pointer fields of the code hold no
  shared data except \<open>Tags\<close>, which the copies duplicate: \<open>copyEntry\<close> is the identity on values.
\<close>

subsection \<open>Entries\<close>

definition MemorySession :: string where
  "MemorySession = ''session''"

definition MemoryProject :: string where
  "MemoryProject = ''project''"

definition MemoryGlobal :: string where
  "MemoryGlobal = ''global''"

record memory_entry =
  me_id :: string
  me_key :: string
  me_content :: string
  me_type :: string
  me_tags :: "string list"
  me_timestamp :: gotime
  me_project :: string
  me_last_accessed :: gotime
  me_access_count :: int
  me_success_count :: int
  me_failure_count :: int
  me_reinforcement :: int
  me_expires_at :: gotime
  me_archived :: bool
  me_archive_reason :: string

definition NewEntry :: "(string \<Rightarrow> gotime \<Rightarrow> string) \<Rightarrow> gotime \<Rightarrow> string \<Rightarrow> string \<Rightarrow> memory_entry" where
  "NewEntry generateID now content memType =
     \<lparr>me_id = generateID content now, me_key = [], me_content = content, me_type = memType, me_tags = [], me_timestamp = now,
      me_project = [], me_last_accessed = zero_time, me_access_count = 0, me_success_count = 0, me_failure_count = 0,
      me_reinforcement = 0, me_expires_at = zero_time, me_archived = False, me_archive_reason = []\<rparr>"

definition WithTTL :: "gotime \<Rightarrow> duration \<Rightarrow> memory_entry \<Rightarrow> memory_entry" where
  "WithTTL now ttl e = (if 0 < ttl then e\<lparr>me_expires_at := now + ttl\<rparr> else e)"

definition HasTag :: "string \<Rightarrow> memory_entry \<Rightarrow> bool" where
  "HasTag tag e \<longleftrightarrow> trim_space (to_lower tag) \<in> set (map (\<lambda>t. to_lower (trim_space t)) (me_tags e))"

definition mem_expired :: "gotime \<Rightarrow> memory_entry \<Rightarrow> bool" where
  "mem_expired now e \<longleftrightarrow> \<not> is_zero (me_expires_at e) \<and> me_expires_at e < now"

definition SuccessRate :: "memory_entry \<Rightarrow> rat" where
  "SuccessRate e =
     (let total = me_success_count e + me_failure_count e
      in if total = 0 then 1 / 2 else of_int (me_success_count e + 1) / of_int (total + 2))"

definition record_access :: "gotime \<Rightarrow> memory_entry \<Rightarrow> memory_entry" where
  "record_access now e = e\<lparr>me_access_count := me_access_count e + 1, me_last_accessed := now\<rparr>"

definition RecordOutcome :: "gotime \<Rightarrow> bool \<Rightarrow> memory_entry \<Rightarrow> memory_entry" where
  "RecordOutcome now success e =
     (if success then e\<lparr>me_success_count := me_success_count e + 1, me_last_accessed := now\<rparr>
      else e\<lparr>me_failure_count := me_failure_count e + 1, me_last_accessed := now\<rparr>)"

record search_query =
  sq_key :: string
  sq_query :: string
  sq_tags :: "string list"
  sq_project_only :: bool
  sq_project :: string
  sq_limit :: int
  sq_include_archived :: bool

definition mem_matches :: "search_query \<Rightarrow> memory_entry \<Rightarrow> bool" where
  "mem_matches q e \<longleftrightarrow>
     (sq_include_archived q \<or> \<not> me_archived e) \<and> (sq_key q = [] \<or> me_key e = sq_key q) \<and>
     (\<not> (sq_project_only q \<and> sq_project q \<noteq> []) \<or> me_project e = sq_project q) \<and> list_all (\<lambda>t. HasTag t e) (sq_tags q)"

subsection \<open>Tags in the content\<close>

text \<open>
  The three regular expressions, each with its leftmost matches that do not overlap. \<open>alpha\<close>, \<open>word\<close> and \<open>path\<close>
  are their classes, \<open>re_space\<close> is the class \<^verbatim>\<open>\s\<close>.
\<close>

definition re_space :: "char \<Rightarrow> bool" where
  "re_space c \<longleftrightarrow> c \<in> {CHR 0x09, CHR 0x0A, CHR 0x0C, CHR 0x0D, CHR 0x20}"

definition re_alpha :: "char \<Rightarrow> bool" where
  "re_alpha c \<longleftrightarrow> between 97 c 122 \<or> between 65 c 90 \<or> c = CHR ''_''"

definition re_word :: "char \<Rightarrow> bool" where
  "re_word c \<longleftrightarrow> re_alpha c \<or> between 48 c 57"

definition re_path :: "char \<Rightarrow> bool" where
  "re_path c \<longleftrightarrow> re_word c \<or> c \<in> {CHR ''.'', CHR ''-'', CHR ''/''}"

text \<open>The group of a match at the start of the text, and the text behind the match.\<close>

definition path_here :: "string \<Rightarrow> (string \<times> string) option" where
  "path_here s =
     (case s of
        c # r \<Rightarrow> if c = CHR ''/'' \<and> takeWhile re_path r \<noteq> [] then Some (c # takeWhile re_path r, dropWhile re_path r) else None
      | [] \<Rightarrow> None)"

definition name_here :: "string \<Rightarrow> (string \<times> string) option" where
  "name_here s =
     (let r = dropWhile re_space s
      in case r of
           a # _ \<Rightarrow> if s \<noteq> r \<and> re_alpha a then Some (takeWhile re_word r, dropWhile re_word r) else None
         | [] \<Rightarrow> None)"

definition after_word :: "string \<Rightarrow> string \<Rightarrow> (string \<times> string) option" where
  "after_word w s = (if has_prefix s w then name_here (drop (length w) s) else None)"

definition func_here :: "string \<Rightarrow> (string \<times> string) option" where
  "func_here s = (case after_word ''func'' s of Some m \<Rightarrow> Some m | None \<Rightarrow> after_word ''function'' s)"

definition package_here :: "string \<Rightarrow> (string \<times> string) option" where
  "package_here s = after_word ''package'' s"

text \<open>The scan of a text; a path starts at the beginning of the text or behind a white space that it consumes.\<close>

function scan_matches :: "(string \<Rightarrow> (string \<times> string) option) \<Rightarrow> string \<Rightarrow> string list" where
  "scan_matches here s =
     (case s of
        [] \<Rightarrow> []
      | c # r \<Rightarrow>
          (case here s of
             None \<Rightarrow> scan_matches here r
           | Some (m, rest) \<Rightarrow> if length rest < length s then m # scan_matches here rest else []))"
  by pat_completeness auto
termination by (relation "measure (\<lambda>(here, s). length s)") auto

declare scan_matches.simps [simp del]

definition spaced_path_here :: "string \<Rightarrow> (string \<times> string) option" where
  "spaced_path_here s = (case s of c # r \<Rightarrow> if re_space c then path_here r else None | [] \<Rightarrow> None)"

definition path_matches :: "string \<Rightarrow> string list" where
  "path_matches s =
     (case path_here s of Some (m, rest) \<Rightarrow> m # scan_matches spaced_path_here rest | None \<Rightarrow> scan_matches spaced_path_here s)"

definition extractContentTags :: "string \<Rightarrow> string list" where
  "extractContentTags content =
     fold (\<lambda>t acc. if t = [] \<or> t \<in> set acc then acc else acc @ [t])
       (path_matches content @ scan_matches func_here content @ scan_matches package_here content) []"

definition autoTag :: "memory_entry \<Rightarrow> memory_entry" where
  "autoTag e =
     e\<lparr>me_tags := fold (\<lambda>t acc. if t \<in> set acc then acc else acc @ [t]) (extractContentTags (me_content e)) (me_tags e)\<rparr>"

definition mergeTags :: "string list \<Rightarrow> string list \<Rightarrow> string list" where
  "mergeTags existing incoming =
     snd (fold (\<lambda>t (seen, out). let n = to_lower (trim_space t) in if n = [] \<or> n \<in> set seen then (seen, out) else (n # seen, out @ [t]))
       (existing @ incoming) ([], []))"

subsection \<open>Normal forms and similarity\<close>

definition text_rune :: "(string \<Rightarrow> bool) \<Rightarrow> string \<Rightarrow> bool" where
  "text_rune letter r \<longleftrightarrow>
     (case r of [c] \<Rightarrow> byte c < 128 \<and> (re_word c \<or> c \<in> {CHR ''/'', CHR ''-'', CHR ''.''}) | _ \<Rightarrow> letter r)"

fun normal_runes :: "(string \<Rightarrow> bool) \<Rightarrow> bool \<Rightarrow> string list \<Rightarrow> string" where
  "normal_runes letter space [] = []"
| "normal_runes letter space (r # rs) =
     (if text_rune letter r then rune_text r @ normal_runes letter False rs
      else if space then normal_runes letter True rs else CHR '' '' # normal_runes letter True rs)"

definition normalizeMemoryText :: "(string \<Rightarrow> bool) \<Rightarrow> string \<Rightarrow> string" where
  "normalizeMemoryText letter s = trim_space (normal_runes letter False (runes (to_lower (trim_space s))))"

definition tokenSetFromText :: "(string \<Rightarrow> bool) \<Rightarrow> string \<Rightarrow> string set" where
  "tokenSetFromText letter s = set (filter (\<lambda>w. 3 \<le> length w) (str_fields (normalizeMemoryText letter s)))"

text \<open>
  The quotient of two sizes. The code computes it in floating point and compares it with \<^verbatim>\<open>0.90\<close>: rounding is monotone and
  the nearest number to 9/10 is the quotient of 9 and 10, so the comparison comes out as that of the fractions.
\<close>

definition jaccardSimilarity :: "string set \<Rightarrow> string set \<Rightarrow> rat" where
  "jaccardSimilarity a b =
     (if a = {} \<and> b = {} then 1 else of_nat (card (a \<inter> b)) / of_nat (card (a \<union> b)))"

definition similar_texts :: "(string \<Rightarrow> bool) \<Rightarrow> string \<Rightarrow> string \<Rightarrow> bool" where
  "similar_texts letter new old \<longleftrightarrow>
     normalizeMemoryText letter old = normalizeMemoryText letter new \<or>
     9 / 10 \<le> jaccardSimilarity (tokenSetFromText letter new) (tokenSetFromText letter old)"

lemma same_text_similar: "similar_texts letter c c"
  by (simp add: similar_texts_def)

text \<open>Texts of short words only have no tokens, and are similar whatever they say.\<close>

lemma short_texts_similar:
  assumes "tokenSetFromText letter new = {}" "tokenSetFromText letter old = {}" shows "similar_texts letter new old"
  using assms by (simp add: similar_texts_def jaccardSimilarity_def)

end
