(* ===== verification/MemoryStore.thy ===== *)
theory MemoryStore
  imports MemoryEntry "HOL-Library.AList" "HOL-Library.Product_Lexorder" "HOL-Library.List_Lexorder" "HOL-Library.Char_ord" "HOL-Library.Word"
begin

section \<open>The memory store\<close>

text \<open>
  \<^verbatim>\<open>internal/engine/memory/store.go\<close>: memories of a project and global ones, their archives, an index of keys, and
  the four files they are saved in. A map is an association list; \<open>order\<close> gives the order in which Go ranges over one.
  A timer that has fired takes a snapshot in one critical section and writes it outside of the lock. The contents of a
  file are its entries, a null entry being \<open>None\<close>; which files can be read, written and renamed are parameters, as is
  the score of a search, which the code computes in floating point.
\<close>

subsection \<open>The state\<close>

type_synonym mem_map = "(string \<times> memory_entry) list"

record memory_store =
  ms_max_entries :: int
  ms_hash :: string
  ms_entries :: mem_map
  ms_global :: mem_map
  ms_archived :: mem_map
  ms_global_archive :: mem_map
  ms_by_key :: "string \<Rightarrow> string option"
  ms_dirty :: bool
  ms_timer :: bool
  ms_cache :: "string \<Rightarrow> string option"
  ms_version :: "64 word"

definition staleArchiveWindow :: duration where
  "staleArchiveWindow = 90 * 24 * 3600000000000"

definition maxContextMemories :: nat where
  "maxContextMemories = 12"

definition empty_store :: "string \<Rightarrow> int \<Rightarrow> memory_store" where
  "empty_store hash maxEntries =
     \<lparr>ms_max_entries = maxEntries, ms_hash = hash, ms_entries = [], ms_global = [], ms_archived = [], ms_global_archive = [],
      ms_by_key = Map.empty, ms_dirty = False, ms_timer = False, ms_cache = Map.empty, ms_version = 0\<rparr>"

definition markDirty :: "memory_store \<Rightarrow> memory_store" where
  "markDirty s = s\<lparr>ms_dirty := True, ms_version := ms_version s + 1, ms_cache := Map.empty\<rparr>"

text \<open>What every mutation ends with.\<close>

definition changed :: "memory_store \<Rightarrow> memory_store" where
  "changed s = (markDirty s)\<lparr>ms_timer := True\<rparr>"

definition forget_key :: "string \<Rightarrow> memory_store \<Rightarrow> memory_store" where
  "forget_key k s = (if k = [] then s else s\<lparr>ms_by_key := (ms_by_key s)(k := None)\<rparr>)"

definition mem_active :: "memory_store \<Rightarrow> string \<Rightarrow> memory_entry option" where
  "mem_active s i = (case map_of (ms_entries s) i of Some e \<Rightarrow> Some e | None \<Rightarrow> map_of (ms_global s) i)"

definition mem_count :: "memory_store \<Rightarrow> nat" where
  "mem_count s = length (ms_entries s) + length (ms_global s)"

subsection \<open>Housekeeping\<close>

definition archiveEntryLocked :: "string \<Rightarrow> memory_entry \<Rightarrow> memory_store \<Rightarrow> memory_store" where
  "archiveEntryLocked reason e s =
     (let s1 = forget_key (me_key e) s; e1 = e\<lparr>me_archived := True, me_archive_reason := reason\<rparr>
      in if me_type e = MemoryGlobal then s1\<lparr>ms_global_archive := AList.update (me_id e) e1 (ms_global_archive s1)\<rparr>
         else s1\<lparr>ms_archived := AList.update (me_id e) e1 (ms_archived s1)\<rparr>)"

text \<open>The entries with a property leave one of the two maps for the archive.\<close>

definition archive_entries :: "(memory_entry \<Rightarrow> bool) \<Rightarrow> string \<Rightarrow> memory_store \<Rightarrow> memory_store" where
  "archive_entries P reason s =
     fold (\<lambda>(i, e) s. archiveEntryLocked reason e (s\<lparr>ms_entries := AList.delete i (ms_entries s)\<rparr>))
       (filter (\<lambda>(i, e). P e) (ms_entries s)) s"

definition archive_global :: "(memory_entry \<Rightarrow> bool) \<Rightarrow> string \<Rightarrow> memory_store \<Rightarrow> memory_store" where
  "archive_global P reason s =
     fold (\<lambda>(i, e) s. archiveEntryLocked reason e (s\<lparr>ms_global := AList.delete i (ms_global s)\<rparr>))
       (filter (\<lambda>(i, e). P e) (ms_global s)) s"

definition archiveExpiredLocked :: "gotime \<Rightarrow> memory_store \<Rightarrow> memory_store" where
  "archiveExpiredLocked now s = archive_global (mem_expired now) ''ttl_expired'' (archive_entries (mem_expired now) ''ttl_expired'' s)"

definition mem_stale :: "gotime \<Rightarrow> memory_entry \<Rightarrow> bool" where
  "mem_stale now e \<longleftrightarrow>
     me_type e \<noteq> MemorySession \<and> staleArchiveWindow \<le> time_sub now (me_timestamp e) \<and>
     \<not> (0 < me_reinforcement e \<or> 0 < me_access_count e \<or> 0 < me_success_count e)"

definition archiveStaleLowValueLocked :: "gotime \<Rightarrow> memory_store \<Rightarrow> memory_store" where
  "archiveStaleLowValueLocked now s =
     archive_global (mem_stale now) ''stale_low_value'' (archive_entries (mem_stale now) ''stale_low_value'' s)"

definition mem_outdated :: "gotime \<Rightarrow> memory_entry \<Rightarrow> bool" where
  "mem_outdated now e \<longleftrightarrow>
     \<not> is_zero (me_expires_at e) \<and> me_expires_at e + 30 * 24 * 3600000000000 < now \<or>
     365 * 24 * 3600000000000 < time_sub now (me_timestamp e)"

definition forget_keys_of :: "mem_map \<Rightarrow> memory_store \<Rightarrow> memory_store" where
  "forget_keys_of xs s = fold (\<lambda>(i, e) s. forget_key (me_key e) s) xs s"

definition cleanupArchivedLocked :: "gotime \<Rightarrow> memory_store \<Rightarrow> memory_store" where
  "cleanupArchivedLocked now s =
     (let s1 = forget_keys_of (filter (\<lambda>(i, e). mem_outdated now e) (ms_archived s @ ms_global_archive s)) s
      in s1\<lparr>ms_archived := filter (\<lambda>(i, e). \<not> mem_outdated now e) (ms_archived s),
            ms_global_archive := filter (\<lambda>(i, e). \<not> mem_outdated now e) (ms_global_archive s)\<rparr>)"

definition housekeeping :: "gotime \<Rightarrow> memory_store \<Rightarrow> memory_store" where
  "housekeeping now s = cleanupArchivedLocked now (archiveStaleLowValueLocked now (archiveExpiredLocked now s))"

subsection \<open>Adding\<close>

definition dup_candidate :: "(string \<Rightarrow> bool) \<Rightarrow> memory_entry \<Rightarrow> memory_store \<Rightarrow> memory_entry \<Rightarrow> bool" where
  "dup_candidate letter e s old \<longleftrightarrow>
     \<not> me_archived old \<and> (me_type e = MemoryGlobal \<or> me_project old = [] \<or> me_project old = ms_hash s) \<and>
     similar_texts letter (me_content e) (me_content old)"

definition findSemanticDuplicateLocked ::
  "(mem_map \<Rightarrow> mem_map) \<Rightarrow> (string \<Rightarrow> bool) \<Rightarrow> memory_entry \<Rightarrow> memory_store \<Rightarrow> (string \<times> memory_entry) option" where
  "findSemanticDuplicateLocked order letter e s =
     (if trim_space (me_content e) = [] then None
      else find (\<lambda>(i, old). dup_candidate letter e s old)
             (order (if me_type e = MemoryGlobal then ms_global s else ms_entries s)))"

text \<open>Removing an identifier from both maps of active memories.\<close>

definition drop_active :: "string \<Rightarrow> memory_store \<Rightarrow> memory_store" where
  "drop_active i s = s\<lparr>ms_entries := AList.delete i (ms_entries s), ms_global := AList.delete i (ms_global s)\<rparr>"

definition drop_everywhere :: "string \<Rightarrow> memory_store \<Rightarrow> memory_store" where
  "drop_everywhere i s =
     (drop_active i s)\<lparr>ms_archived := AList.delete i (ms_archived s), ms_global_archive := AList.delete i (ms_global_archive s)\<rparr>"

definition reinforced :: "gotime \<Rightarrow> memory_entry \<Rightarrow> memory_entry \<Rightarrow> memory_entry" where
  "reinforced now e old =
     old\<lparr>me_reinforcement := me_reinforcement old + 1, me_timestamp := now, me_tags := mergeTags (me_tags old) (me_tags e),
         me_key := (if me_key e \<noteq> [] then me_key e else me_key old), me_archived := False, me_archive_reason := []\<rparr>"

definition reinforce :: "gotime \<Rightarrow> memory_entry \<Rightarrow> string \<times> memory_entry \<Rightarrow> memory_store \<Rightarrow> memory_store" where
  "reinforce now e found s =
     (case found of
        (i, old) \<Rightarrow>
          let s1 = (if me_key e = [] then s
                    else (case ms_by_key s (me_key e) of
                            Some oldID \<Rightarrow> if oldID \<noteq> me_id old then drop_active oldID s else s
                          | None \<Rightarrow> s)\<lparr>ms_by_key := (ms_by_key s)(me_key e \<mapsto> me_id old)\<rparr>)
          in s1\<lparr>ms_entries := (if me_type e = MemoryGlobal then ms_entries s1
                              else AList.map_entry i (reinforced now e) (ms_entries s1)),
                ms_global := (if me_type e = MemoryGlobal then AList.map_entry i (reinforced now e) (ms_global s1)
                             else ms_global s1)\<rparr>)"

definition pruneOldest :: "(mem_map \<Rightarrow> mem_map) \<Rightarrow> memory_store \<Rightarrow> memory_store" where
  "pruneOldest order s =
     (if ms_max_entries s \<le> 0 \<or> int (mem_count s) \<le> ms_max_entries s then s
      else fold (\<lambda>e s. forget_key (me_key e) (drop_active (me_id e) s))
             (take (mem_count s - nat (ms_max_entries s))
               (sort_key me_timestamp (map snd (order (ms_entries s) @ order (ms_global s))))) s)"

definition insert_new :: "memory_entry \<Rightarrow> memory_store \<Rightarrow> memory_store" where
  "insert_new e s =
     (let s1 = (if me_key e = [] then s
                else (case ms_by_key s (me_key e) of Some oldID \<Rightarrow> drop_everywhere oldID s | None \<Rightarrow> s)
                       \<lparr>ms_by_key := (ms_by_key s)(me_key e \<mapsto> me_id e)\<rparr>)
      in if me_type e = MemoryGlobal then s1\<lparr>ms_global := AList.update (me_id e) e (ms_global s1)\<rparr>
         else s1\<lparr>ms_entries := AList.update (me_id e)
                   (e\<lparr>me_project := (if me_project e = [] then ms_hash s else me_project e)\<rparr>) (ms_entries s1)\<rparr>)"

definition stamped_entry :: "gotime \<Rightarrow> memory_entry \<Rightarrow> memory_entry" where
  "stamped_entry now e = autoTag (if is_zero (me_timestamp e) then e\<lparr>me_timestamp := now\<rparr> else e)"

definition Add :: "(mem_map \<Rightarrow> mem_map) \<Rightarrow> (string \<Rightarrow> bool) \<Rightarrow> gotime \<Rightarrow> memory_entry \<Rightarrow> memory_store \<Rightarrow> memory_store" where
  "Add order letter now entry s =
     (let s1 = housekeeping now s; e = stamped_entry now entry
      in case findSemanticDuplicateLocked order letter e s1 of
           Some found \<Rightarrow> changed (reinforce now e found s1)
         | None \<Rightarrow> changed (pruneOldest order (insert_new e s1)))"

subsection \<open>Reading and changing\<close>

definition unexpired :: "gotime \<Rightarrow> memory_entry option \<Rightarrow> memory_entry option" where
  "unexpired now r = (case r of Some e \<Rightarrow> if mem_expired now e then None else Some e | None \<Rightarrow> None)"

definition mem_GetByID :: "gotime \<Rightarrow> string \<Rightarrow> memory_store \<Rightarrow> memory_entry option" where
  "mem_GetByID now i s = unexpired now (mem_active s i)"

definition mem_Get :: "gotime \<Rightarrow> string \<Rightarrow> memory_store \<Rightarrow> memory_entry option" where
  "mem_Get now k s = (case ms_by_key s k of None \<Rightarrow> None | Some i \<Rightarrow> mem_GetByID now i s)"

text \<open>An entry is changed in the first of the two maps that has it.\<close>

definition update_active :: "string \<Rightarrow> (memory_entry \<Rightarrow> memory_entry) \<Rightarrow> memory_store \<Rightarrow> memory_store option" where
  "update_active i f s =
     (if map_of (ms_entries s) i \<noteq> None then Some (changed (s\<lparr>ms_entries := AList.map_entry i f (ms_entries s)\<rparr>))
      else if map_of (ms_global s) i \<noteq> None then Some (changed (s\<lparr>ms_global := AList.map_entry i f (ms_global s)\<rparr>))
      else None)"

definition RecordAccess :: "gotime \<Rightarrow> string \<Rightarrow> memory_store \<Rightarrow> memory_store" where
  "RecordAccess now i s = (case update_active i (record_access now) s of None \<Rightarrow> s | Some s1 \<Rightarrow> s1)"

definition RecordFeedback :: "gotime \<Rightarrow> string \<Rightarrow> bool \<Rightarrow> memory_store \<Rightarrow> bool \<times> memory_store" where
  "RecordFeedback now i success s =
     (case update_active i (RecordOutcome now success) s of None \<Rightarrow> (False, s) | Some s1 \<Rightarrow> (True, s1))"

definition mem_Edit :: "string \<Rightarrow> string \<Rightarrow> memory_store \<Rightarrow> string option \<times> memory_store" where
  "mem_Edit i content s =
     (case update_active i (\<lambda>e. autoTag (e\<lparr>me_content := content, me_tags := []\<rparr>)) s of
        None \<Rightarrow> (Some (''entry not found: '' @ i), s) | Some s1 \<Rightarrow> (None, s1))"

text \<open>The identifier that \<open>Remove\<close> works on.\<close>

definition mem_has :: "mem_map \<Rightarrow> string \<Rightarrow> bool" where
  "mem_has m i \<longleftrightarrow> map_of m i \<noteq> None"

definition remove_target :: "string \<Rightarrow> memory_store \<Rightarrow> string option" where
  "remove_target i s =
     (if mem_has (ms_entries s) i \<or> mem_has (ms_global s) i then Some i
      else if mem_has (ms_archived s) i \<or> mem_has (ms_global_archive s) i
      then Some (case ms_by_key s i of Some j \<Rightarrow> j | None \<Rightarrow> i)
      else ms_by_key s i)"

definition mem_Remove :: "string \<Rightarrow> memory_store \<Rightarrow> bool \<times> memory_store" where
  "mem_Remove i s =
     (case remove_target i s of
        None \<Rightarrow> (False, s)
      | Some j \<Rightarrow>
          (case map_of (ms_entries s) j of
             Some e \<Rightarrow> (True, changed (forget_key (me_key e) (s\<lparr>ms_entries := AList.delete j (ms_entries s)\<rparr>)))
           | None \<Rightarrow>
               (case map_of (ms_global s) j of
                  Some e \<Rightarrow> (True, changed (forget_key (me_key e) (s\<lparr>ms_global := AList.delete j (ms_global s)\<rparr>)))
                | None \<Rightarrow>
                    (case map_of (ms_archived s) j of
                       Some e \<Rightarrow> (True, changed (forget_key (me_key e) (s\<lparr>ms_archived := AList.delete j (ms_archived s)\<rparr>)))
                     | None \<Rightarrow>
                         (case map_of (ms_global_archive s) j of
                            Some e \<Rightarrow> (True, changed (forget_key (me_key e) (s\<lparr>ms_global_archive := AList.delete j (ms_global_archive s)\<rparr>)))
                          | None \<Rightarrow> (False, s))))))"

text \<open>The hits of a search, each with its score; those of archived entries count for less.\<close>

definition mem_hits :: "(memory_entry \<Rightarrow> search_query \<Rightarrow> rat) \<Rightarrow> gotime \<Rightarrow> search_query \<Rightarrow> memory_store \<Rightarrow> (memory_entry \<times> rat) list" where
  "mem_hits score now q s =
     (let live = (\<lambda>m. map (\<lambda>e. (e, score e q)) (filter (\<lambda>e. \<not> mem_expired now e \<and> mem_matches q e) (map snd m)));
          old = (\<lambda>m. map (\<lambda>e. (e, score e q * (65 / 100))) (filter (mem_matches q) (map snd m)))
      in filter (\<lambda>(e, sc). 0 < sc)
           (live (ms_entries s) @ (if sq_project_only q then [] else live (ms_global s)) @
            (if sq_include_archived q then old (ms_archived s) @ (if sq_project_only q then [] else old (ms_global_archive s)) else [])))"

definition mem_Search :: "(memory_entry \<Rightarrow> search_query \<Rightarrow> rat) \<Rightarrow> gotime \<Rightarrow> search_query \<Rightarrow> memory_store \<Rightarrow> memory_entry list" where
  "mem_Search score now query s =
     (let q = query\<lparr>sq_project := ms_hash s\<rparr>;
          results = map fst (sort_key (\<lambda>(e, sc). (- sc, - me_timestamp e)) (mem_hits score now q s))
      in if 0 < sq_limit q \<and> sq_limit q < int (length results) then take (nat (sq_limit q)) results else results)"

definition mem_List :: "(memory_entry \<Rightarrow> search_query \<Rightarrow> rat) \<Rightarrow> gotime \<Rightarrow> bool \<Rightarrow> memory_store \<Rightarrow> memory_entry list" where
  "mem_List score now projectOnly s =
     mem_Search score now
       \<lparr>sq_key = [], sq_query = [], sq_tags = [], sq_project_only = projectOnly, sq_project = ms_hash s, sq_limit = 0, sq_include_archived = False\<rparr> s"

definition mem_ListAll :: "gotime \<Rightarrow> memory_store \<Rightarrow> memory_entry list" where
  "mem_ListAll now s =
     sort_key (\<lambda>e. - me_timestamp e) (filter (\<lambda>e. \<not> mem_expired now e) (map snd (ms_entries s @ ms_global s)))"

definition mem_Clear :: "memory_store \<Rightarrow> memory_store" where
  "mem_Clear s =
     changed (s\<lparr>ms_entries := [], ms_global := [], ms_archived := [], ms_global_archive := [], ms_by_key := Map.empty\<rparr>)"

text \<open>\<open>Import\<close> of decoded entries; a null entry is a nil pointer that is followed, a panic.\<close>

definition import_one :: "memory_entry \<Rightarrow> memory_store \<Rightarrow> memory_store" where
  "import_one e s =
     (if mem_has (ms_entries s) (me_id e) \<or> mem_has (ms_global s) (me_id e) then s
      else let s1 = (if me_type e = MemoryGlobal then s\<lparr>ms_global := AList.update (me_id e) e (ms_global s)\<rparr>
                     else s\<lparr>ms_entries := AList.update (me_id e) e (ms_entries s)\<rparr>)
           in if me_key e \<noteq> [] then s1\<lparr>ms_by_key := (ms_by_key s1)(me_key e \<mapsto> me_id e)\<rparr> else s1)"

definition mem_Import :: "memory_entry option list \<Rightarrow> memory_store \<Rightarrow> memory_store option" where
  "mem_Import decoded s =
     (if None \<in> set decoded then None else Some (changed (fold import_one (map the decoded) s)))"

definition Export :: "memory_store \<Rightarrow> memory_entry list" where
  "Export s = map snd (ms_entries s @ ms_global s)"

subsection \<open>Memories in the prompt\<close>

text \<open>The text of the selected memories, by type.\<close>

definition memory_line :: "memory_entry \<Rightarrow> string" where
  "memory_line e =
     (let c = trim_space (me_content e); rs = runes c;
          c1 = (if 220 < length rs then concat (map rune_text (take 220 rs)) @ ''...'' else c)
      in if me_key e \<noteq> [] then ''- **'' @ me_key e @ ''**: '' @ c1 @ [CHR 0x0A] else ''- '' @ c1 @ [CHR 0x0A])"

definition memory_group :: "string \<Rightarrow> string \<Rightarrow> memory_entry list \<Rightarrow> string" where
  "memory_group t label es =
     (let items = filter (\<lambda>e. me_type e = t) es
      in if items = [] then [] else ''### '' @ label @ [CHR 0x0A] @ concat (map memory_line items) @ [CHR 0x0A])"

definition memory_text :: "memory_entry list \<Rightarrow> string" where
  "memory_text es =
     ''## Memory'' @ [CHR 0x0A, CHR 0x0A] @ memory_group MemorySession ''Current Session'' es @
     memory_group MemoryProject ''Project Knowledge'' es @ memory_group MemoryGlobal ''User Preferences'' es"

text \<open>
  \<open>GetForContext\<close>: the look at the cache, the list, which is read in another critical section, and the entry in the
  cache, in a third one, when nothing was changed meanwhile.
\<close>

definition context_entries :: "(memory_entry \<Rightarrow> rat) \<Rightarrow> memory_entry list \<Rightarrow> memory_entry list" where
  "context_entries rank es = take maxContextMemories (sort_key (\<lambda>e. (- rank e, - me_timestamp e)) es)"

definition mem_GetForContext ::
  "(nat \<Rightarrow> memory_store \<Rightarrow> memory_store) \<Rightarrow> (memory_entry \<Rightarrow> search_query \<Rightarrow> rat) \<Rightarrow> (memory_entry \<Rightarrow> rat) \<Rightarrow> gotime \<Rightarrow> bool \<Rightarrow>
   memory_store \<Rightarrow> string \<times> memory_store" where
  "mem_GetForContext meanwhile score rank now projectOnly s =
     (let k = (if projectOnly then ''project'' else ''all'')
      in case ms_cache s k of
           Some text \<Rightarrow> (text, s)
         | None \<Rightarrow>
             let s1 = meanwhile 0 s; es = mem_List score now projectOnly s1
             in if es = [] then ([], s1)
                else let text = memory_text (context_entries rank es); s2 = meanwhile 1 s1
                     in (text, if ms_version s2 = ms_version s then s2\<lparr>ms_cache := (ms_cache s2)(k \<mapsto> text)\<rparr> else s2))"

subsection \<open>The files\<close>

datatype mem_file = ProjectFile | GlobalFile | ArchiveFile | GlobalArchiveFile

datatype file_content = MissingFile | CorruptFile | UnreadableFile | Stored "memory_entry option list"

type_synonym mem_disk = "mem_file \<Rightarrow> file_content"

definition loadFile :: "file_content \<Rightarrow> mem_map option" where
  "loadFile c =
     (case c of
        MissingFile \<Rightarrow> Some []
      | CorruptFile \<Rightarrow> None
      | UnreadableFile \<Rightarrow> None
      | Stored es \<Rightarrow> Some (fold (\<lambda>r m. case r of None \<Rightarrow> m | Some e \<Rightarrow> if me_id e = [] then m else AList.update (me_id e) e m) es []))"

text \<open>A file that cannot be loaded is moved aside; \<open>moved\<close> tells whether that works.\<close>

definition quarantineFile :: "(mem_file \<Rightarrow> bool) \<Rightarrow> mem_file \<Rightarrow> mem_disk \<Rightarrow> mem_disk" where
  "quarantineFile moved f d = (if d f \<noteq> MissingFile \<and> moved f then d(f := MissingFile) else d)"

definition load_map :: "mem_disk \<Rightarrow> mem_file \<Rightarrow> mem_map" where
  "load_map d f = (case loadFile (d f) of None \<Rightarrow> [] | Some m \<Rightarrow> m)"

definition load_disk :: "(mem_file \<Rightarrow> bool) \<Rightarrow> mem_disk \<Rightarrow> mem_disk" where
  "load_disk moved d =
     fold (\<lambda>f d. if loadFile (d f) = None then quarantineFile moved f d else d) [ProjectFile, GlobalFile, ArchiveFile, GlobalArchiveFile] d"

definition index_keys :: "mem_map \<Rightarrow> (string \<Rightarrow> string option) \<Rightarrow> string \<Rightarrow> string option" where
  "index_keys m idx = fold (\<lambda>(i, e) idx. if me_key e \<noteq> [] then idx(me_key e \<mapsto> me_id e) else idx) m idx"

definition load_store :: "(mem_map \<Rightarrow> mem_map) \<Rightarrow> mem_disk \<Rightarrow> memory_store \<Rightarrow> memory_store" where
  "load_store order d s =
     (let p = load_map d ProjectFile; g = load_map d GlobalFile
      in s\<lparr>ms_entries := p, ms_global := g, ms_archived := load_map d ArchiveFile, ms_global_archive := load_map d GlobalArchiveFile,
           ms_by_key := index_keys (order g) (index_keys (order p) (ms_by_key s))\<rparr>)"

definition NewStore ::
  "(mem_map \<Rightarrow> mem_map) \<Rightarrow> (mem_file \<Rightarrow> bool) \<Rightarrow> bool \<Rightarrow> string \<Rightarrow> int \<Rightarrow> mem_disk \<Rightarrow> memory_store option \<times> mem_disk" where
  "NewStore order moved made hash maxEntries d =
     (if \<not> made then (None, d) else (Some (load_store order d (empty_store hash maxEntries)), load_disk moved d))"

text \<open>What is written: of the entries of the project, those of the session stay out.\<close>

definition file_entries :: "memory_store \<Rightarrow> mem_file \<Rightarrow> memory_entry list" where
  "file_entries s f =
     (case f of
        ProjectFile \<Rightarrow> filter (\<lambda>e. me_type e = MemoryProject) (map snd (ms_entries s))
      | GlobalFile \<Rightarrow> map snd (ms_global s)
      | ArchiveFile \<Rightarrow> map snd (ms_archived s)
      | GlobalArchiveFile \<Rightarrow> map snd (ms_global_archive s))"

definition saveFile :: "(mem_file \<Rightarrow> bool) \<Rightarrow> mem_file \<Rightarrow> memory_entry list \<Rightarrow> mem_disk \<Rightarrow> bool \<times> mem_disk" where
  "saveFile writes f es d = (if writes f then (True, d(f := Stored (map Some es))) else (False, d))"

fun save_files :: "(mem_file \<Rightarrow> bool) \<Rightarrow> (mem_file \<Rightarrow> memory_entry list) \<Rightarrow> mem_file list \<Rightarrow> mem_disk \<Rightarrow> bool \<times> mem_disk" where
  "save_files writes es [] d = (True, d)"
| "save_files writes es (f # fs) d =
     (case saveFile writes f (es f) d of (True, d1) \<Rightarrow> save_files writes es fs d1 | (False, d1) \<Rightarrow> (False, d1))"

definition all_files :: "mem_file list" where
  "all_files = [ProjectFile, GlobalFile, ArchiveFile, GlobalArchiveFile]"

definition mem_save :: "(mem_file \<Rightarrow> bool) \<Rightarrow> gotime \<Rightarrow> memory_store \<Rightarrow> mem_disk \<Rightarrow> bool \<times> memory_store \<times> mem_disk" where
  "mem_save writes now s d =
     (let s1 = housekeeping now s in case save_files writes (file_entries s1) all_files d of (ok, d1) \<Rightarrow> (ok, s1, d1))"

definition mem_Flush :: "(mem_file \<Rightarrow> bool) \<Rightarrow> gotime \<Rightarrow> memory_store \<Rightarrow> mem_disk \<Rightarrow> bool \<times> memory_store \<times> mem_disk" where
  "mem_Flush writes now s d =
     (let s0 = s\<lparr>ms_timer := False\<rparr>
      in if \<not> ms_dirty s0 then (True, s0, d)
         else case mem_save writes now s0 d of
                (True, s1, d1) \<Rightarrow> (True, s1\<lparr>ms_dirty := False\<rparr>, d1) | (False, s1, d1) \<Rightarrow> (False, s1, d1))"

text \<open>The timer: the snapshot under the lock, and the writes without it, all of them even when one fails.\<close>

type_synonym snapshot = "mem_file \<Rightarrow> memory_entry list"

definition timer_snapshot :: "gotime \<Rightarrow> memory_store \<Rightarrow> snapshot option \<times> memory_store" where
  "timer_snapshot now s =
     (let s0 = s\<lparr>ms_timer := False\<rparr>
      in if \<not> ms_dirty s0 then (None, s0)
         else let s1 = housekeeping now s0 in (Some (file_entries s1), s1\<lparr>ms_dirty := False\<rparr>))"

definition timer_write :: "(mem_file \<Rightarrow> bool) \<Rightarrow> snapshot \<Rightarrow> mem_disk \<Rightarrow> bool \<times> mem_disk" where
  "timer_write writes snap d =
     fold (\<lambda>f (ok, d). case saveFile writes f (snap f) d of (ok1, d1) \<Rightarrow> (ok \<and> ok1, d1)) all_files (True, d)"

definition timer_done :: "bool \<Rightarrow> memory_store \<Rightarrow> memory_store" where
  "timer_done ok s = (if ok then s else markDirty s)"

subsection \<open>Moving a project\<close>

text \<open>One of the two files of \<open>CloneProjectMemory\<close>: the entries of the source win, and they get the new project.\<close>

definition clone_entry :: "string \<Rightarrow> memory_entry \<Rightarrow> memory_entry" where
  "clone_entry newHash e = (if me_type e \<noteq> MemoryGlobal then e\<lparr>me_project := newHash\<rparr> else e)"

definition readMemoryEntriesForClone :: "file_content \<Rightarrow> (memory_entry option list \<times> bool) option" where
  "readMemoryEntriesForClone c =
     (case c of MissingFile \<Rightarrow> Some ([], False) | CorruptFile \<Rightarrow> None | UnreadableFile \<Rightarrow> None | Stored es \<Rightarrow> Some (es, True))"

definition merge_entries :: "memory_entry option list \<Rightarrow> mem_map \<Rightarrow> mem_map" where
  "merge_entries es m = fold (\<lambda>r m. case r of None \<Rightarrow> m | Some e \<Rightarrow> AList.update (me_id e) e m) es m"

definition clone_file :: "string \<Rightarrow> bool \<Rightarrow> file_content \<Rightarrow> file_content \<Rightarrow> file_content option" where
  "clone_file newHash writes source target =
     (case readMemoryEntriesForClone source of
        None \<Rightarrow> None
      | Some (_, False) \<Rightarrow> Some target
      | Some (src, True) \<Rightarrow>
          (case readMemoryEntriesForClone target of
             None \<Rightarrow> None
           | Some (tgt, _) \<Rightarrow>
               if \<not> writes then None
               else Some (Stored (map Some (sort_key (\<lambda>e. (me_timestamp e, me_id e))
                       (map (\<lambda>(i, e). clone_entry newHash e) (merge_entries src (merge_entries tgt []))))))))"

definition CloneProjectMemory ::
  "string \<Rightarrow> string \<Rightarrow> (mem_file \<Rightarrow> bool) \<Rightarrow> mem_disk \<Rightarrow> mem_disk \<Rightarrow> bool \<times> mem_disk" where
  "CloneProjectMemory oldHash newHash writes old new =
     (if oldHash = newHash then (True, new)
      else case clone_file newHash (writes ProjectFile) (old ProjectFile) (new ProjectFile) of
             None \<Rightarrow> (False, new)
           | Some c \<Rightarrow>
               let new1 = new(ProjectFile := c)
               in (case clone_file newHash (writes ArchiveFile) (old ArchiveFile) (new ArchiveFile) of
                     None \<Rightarrow> (False, new1) | Some c1 \<Rightarrow> (True, new1(ArchiveFile := c1))))"

end
