(* ===== verification/MemoryProps.thy ===== *)
theory MemoryProps
  imports MemoryStore "HOL-Library.Multiset"
begin

section \<open>What the memory store keeps\<close>

text \<open>
  What becomes of a memory when another one is added, that what was saved is found again after a restart, and runs on
  which an update, an index entry or a write is lost.
\<close>

subsection \<open>Well-formed stores\<close>

definition mem_map_ok :: "mem_map \<Rightarrow> bool" where
  "mem_map_ok m \<longleftrightarrow> distinct (map fst m) \<and> (\<forall>(i, e)\<in>set m. me_id e = i)"

definition mem_wf :: "memory_store \<Rightarrow> bool" where
  "mem_wf s \<longleftrightarrow>
     mem_map_ok (ms_entries s) \<and> mem_map_ok (ms_global s) \<and> mem_map_ok (ms_archived s) \<and> mem_map_ok (ms_global_archive s) \<and>
     fst ` set (ms_entries s) \<inter> fst ` set (ms_global s) = {}"

lemma ok_filter: "mem_map_ok m \<Longrightarrow> mem_map_ok (filter P m)"
  by (auto simp: mem_map_ok_def distinct_map_filter)

lemma ok_id: "mem_map_ok m \<Longrightarrow> (i, e) \<in> set m \<Longrightarrow> me_id e = i"
  by (auto simp: mem_map_ok_def)

lemma ok_map_of: "mem_map_ok m \<Longrightarrow> map_of m i = Some e \<longleftrightarrow> (i, e) \<in> set m"
  by (auto simp: mem_map_ok_def)

lemma ok_tail: "mem_map_ok (x # m) \<Longrightarrow> mem_map_ok m \<and> fst x \<notin> fst ` set m"
  by (auto simp: mem_map_ok_def)

lemma map_of_filter_ok:
  assumes "mem_map_ok m"
  shows "map_of (filter (\<lambda>(i, e). P e) m) i = (case map_of m i of Some e \<Rightarrow> if P e then Some e else None | None \<Rightarrow> None)"
  using assms
proof (induct m)
  case (Cons x m)
  have "map_of m (fst x) = None" using ok_tail [OF Cons(2)] by (simp add: map_of_eq_None_iff)
  then show ?case using Cons ok_tail [OF Cons(2)] by (cases x) (auto split: option.splits)
qed simp

lemma ok_delete: "mem_map_ok m \<Longrightarrow> mem_map_ok (AList.delete i m)"
  by (simp add: AList.delete_eq ok_filter)

lemma set_update: "x \<in> set (AList.update k v m) \<Longrightarrow> x = (k, v) \<or> x \<in> set m"
  by (induct m) (auto split: if_splits)

lemma ok_update: "mem_map_ok m \<Longrightarrow> mem_map_ok (AList.update (me_id e) e m)"
  unfolding mem_map_ok_def by (auto simp: AList.distinct_update dest!: set_update)

text \<open>Entries that leave a map for the archive.\<close>

lemma archive_frame [simp]:
  "ms_entries (archiveEntryLocked r e s) = ms_entries s" "ms_global (archiveEntryLocked r e s) = ms_global s"
  "ms_max_entries (archiveEntryLocked r e s) = ms_max_entries s" "ms_hash (archiveEntryLocked r e s) = ms_hash s"
  by (simp_all add: archiveEntryLocked_def forget_key_def Let_def)

lemma forget_key_frame [simp]:
  "ms_entries (forget_key k s) = ms_entries s" "ms_global (forget_key k s) = ms_global s"
  "ms_archived (forget_key k s) = ms_archived s" "ms_global_archive (forget_key k s) = ms_global_archive s"
  "ms_max_entries (forget_key k s) = ms_max_entries s" "ms_hash (forget_key k s) = ms_hash s"
  by (simp_all add: forget_key_def)

text \<open>What is in the two archives.\<close>

definition in_archives :: "memory_store \<Rightarrow> (string \<times> memory_entry) set" where
  "in_archives s = set (ms_archived s) \<union> set (ms_global_archive s)"

definition archived_form :: "string \<Rightarrow> memory_entry \<Rightarrow> memory_entry" where
  "archived_form r e = e\<lparr>me_archived := True, me_archive_reason := r\<rparr>"

lemma update_keeps: "(j, a) \<in> set m \<Longrightarrow> j \<noteq> k \<Longrightarrow> (j, a) \<in> set (AList.update k v m)"
  by (induct m) auto

lemma update_puts: "(k, v) \<in> set (AList.update k v m)"
  by (induct m) auto

lemma archive_keeps: "(j, a) \<in> in_archives s \<Longrightarrow> j \<noteq> me_id e \<Longrightarrow> (j, a) \<in> in_archives (archiveEntryLocked r e s)"
  by (auto simp: in_archives_def archiveEntryLocked_def Let_def intro: update_keeps)

lemma archive_puts: "(me_id e, archived_form r e) \<in> in_archives (archiveEntryLocked r e s)"
  by (simp add: in_archives_def archiveEntryLocked_def archived_form_def Let_def update_puts)

lemma archives_of_delete [simp]:
  "in_archives (s\<lparr>ms_entries := m\<rparr>) = in_archives s" "in_archives (s\<lparr>ms_global := m\<rparr>) = in_archives s"
  by (simp_all add: in_archives_def)

lemma archive_maps_ok:
  assumes "mem_map_ok (ms_archived s)" "mem_map_ok (ms_global_archive s)"
  shows "mem_map_ok (ms_archived (archiveEntryLocked r e s)) \<and> mem_map_ok (ms_global_archive (archiveEntryLocked r e s))"
  using assms ok_update [of _ "archived_form r e"] by (simp add: archiveEntryLocked_def archived_form_def Let_def)

text \<open>The loop of the housekeeping, for either of the two maps: \<open>D\<close> deletes an identifier from it.\<close>

lemma archive_loop:
  fixes s :: memory_store and r :: string
  assumes "\<And>i s. in_archives (D i s) = in_archives s" "distinct (map fst L)" "\<forall>(i, e)\<in>set L. me_id e = i"
  defines "s' \<equiv> fold (\<lambda>(i, e) s. archiveEntryLocked r e (D i s)) L s"
  shows "\<And>i e. (i, e) \<in> set L \<Longrightarrow> (i, archived_form r e) \<in> in_archives s'"
    "\<And>j a. (j, a) \<in> in_archives s \<Longrightarrow> j \<notin> fst ` set L \<Longrightarrow> (j, a) \<in> in_archives s'"
proof -
  have "(\<forall>(i, e)\<in>set L. (i, archived_form r e) \<in> in_archives s') \<and> (\<forall>(j, a)\<in>in_archives s. j \<notin> fst ` set L \<longrightarrow> (j, a) \<in> in_archives s')"
    unfolding s'_def using assms(2,3)
  proof (induct L arbitrary: s)
    case (Cons x L)
    obtain i e where x: "x = (i, e)" by fastforce
    let ?s1 = "archiveEntryLocked r e (D i s)"
    have id: "me_id e = i" "i \<notin> fst ` set L" using Cons(2,3) x by auto
    have put: "(i, archived_form r e) \<in> in_archives ?s1" using archive_puts [of e r "D i s"] id by simp
    have keep: "(j, a) \<in> in_archives ?s1" if "(j, a) \<in> in_archives s" "j \<noteq> i" for j a
      using archive_keeps [of j a "D i s" e r] that id assms(1) by simp
    have IH: "(\<forall>(i, e)\<in>set L. (i, archived_form r e) \<in> in_archives (fold (\<lambda>(i, e) s. archiveEntryLocked r e (D i s)) L ?s1)) \<and>
        (\<forall>(j, a)\<in>in_archives ?s1. j \<notin> fst ` set L \<longrightarrow> (j, a) \<in> in_archives (fold (\<lambda>(i, e) s. archiveEntryLocked r e (D i s)) L ?s1))"
      using Cons(1) [of ?s1] Cons(2,3) by simp
    show ?case
    proof (intro conjI ballI, goal_cases)
      case (1 y)
      then show ?case using IH put id x by auto
    next
      case (2 y)
      obtain j a where y: "y = (j, a)" by fastforce
      have "j \<notin> fst ` set (x # L) \<Longrightarrow> (j, a) \<in> in_archives (fold (\<lambda>(i, e) s. archiveEntryLocked r e (D i s)) L ?s1)"
        using conjunct2 [OF IH] keep [of j a] 2 x y by auto
      then show ?case using x y by simp
    qed
  qed simp
  then show "\<And>i e. (i, e) \<in> set L \<Longrightarrow> (i, archived_form r e) \<in> in_archives s'"
    "\<And>j a. (j, a) \<in> in_archives s \<Longrightarrow> j \<notin> fst ` set L \<Longrightarrow> (j, a) \<in> in_archives s'" by blast+
qed

lemma entries_loop:
  "ms_entries (fold (\<lambda>(i, e) s. archiveEntryLocked r e (s\<lparr>ms_entries := AList.delete i (ms_entries s)\<rparr>)) L s) =
     filter (\<lambda>(j, e). j \<notin> fst ` set L) (ms_entries s)"
  "ms_global (fold (\<lambda>(i, e) s. archiveEntryLocked r e (s\<lparr>ms_entries := AList.delete i (ms_entries s)\<rparr>)) L s) = ms_global s"
  by (induct L arbitrary: s) (auto simp: AList.delete_eq case_prod_unfold conj_commute intro: filter_cong)

lemma global_loop:
  "ms_global (fold (\<lambda>(i, e) s. archiveEntryLocked r e (s\<lparr>ms_global := AList.delete i (ms_global s)\<rparr>)) L s) =
     filter (\<lambda>(j, e). j \<notin> fst ` set L) (ms_global s)"
  "ms_entries (fold (\<lambda>(i, e) s. archiveEntryLocked r e (s\<lparr>ms_global := AList.delete i (ms_global s)\<rparr>)) L s) = ms_entries s"
  by (induct L arbitrary: s) (auto simp: AList.delete_eq case_prod_unfold conj_commute intro: filter_cong)

lemma filter_ids:
  assumes "mem_map_ok m"
  shows "filter (\<lambda>(j, e). j \<notin> fst ` set (filter (\<lambda>(i, e). P e) m)) m = filter (\<lambda>(j, e). \<not> P e) m"
proof (rule filter_cong [OF refl])
  fix x assume x: "x \<in> set m"
  obtain j e where je: "x = (j, e)" by fastforce
  then have m: "map_of m j = Some e" using ok_map_of [OF assms] x by simp
  have "P e" if "(j, e') \<in> set m" "P e'" for e' using ok_map_of [OF assms, of j e'] m that by simp
  then show "(case x of (j, e) \<Rightarrow> j \<notin> fst ` set (filter (\<lambda>(i, e). P e) m)) = (case x of (j, e) \<Rightarrow> \<not> P e)"
    using x je by force
qed

lemma archive_entries_result:
  assumes "mem_map_ok (ms_entries s)"
  shows "ms_entries (archive_entries P r s) = filter (\<lambda>(i, e). \<not> P e) (ms_entries s)"
    "ms_global (archive_entries P r s) = ms_global s"
    "(i, e) \<in> set (ms_entries s) \<Longrightarrow> P e \<Longrightarrow> (i, archived_form r e) \<in> in_archives (archive_entries P r s)"
    "(j, a) \<in> in_archives s \<Longrightarrow> j \<notin> fst ` set (filter (\<lambda>(i, e). P e) (ms_entries s)) \<Longrightarrow> (j, a) \<in> in_archives (archive_entries P r s)"
proof -
  let ?L = "filter (\<lambda>(i, e). P e) (ms_entries s)"
  show "ms_entries (archive_entries P r s) = filter (\<lambda>(i, e). \<not> P e) (ms_entries s)" "ms_global (archive_entries P r s) = ms_global s"
    by (simp_all only: archive_entries_def entries_loop filter_ids [OF assms])
  have L: "distinct (map fst ?L)" "\<forall>(i, e)\<in>set ?L. me_id e = i" using ok_filter [OF assms] by (auto simp: mem_map_ok_def)
  have D: "\<And>i s. in_archives (s\<lparr>ms_entries := AList.delete i (ms_entries s)\<rparr>) = in_archives s" by simp
  note loop = archive_loop [where D = "\<lambda>i s. s\<lparr>ms_entries := AList.delete i (ms_entries s)\<rparr>", OF D L]
  show "(i, e) \<in> set (ms_entries s) \<Longrightarrow> P e \<Longrightarrow> (i, archived_form r e) \<in> in_archives (archive_entries P r s)"
    unfolding archive_entries_def by (rule loop(1)) simp
  show "(j, a) \<in> in_archives s \<Longrightarrow> j \<notin> fst ` set ?L \<Longrightarrow> (j, a) \<in> in_archives (archive_entries P r s)"
    unfolding archive_entries_def by (rule loop(2))
qed

lemma archive_global_result:
  assumes "mem_map_ok (ms_global s)"
  shows "ms_global (archive_global P r s) = filter (\<lambda>(i, e). \<not> P e) (ms_global s)"
    "ms_entries (archive_global P r s) = ms_entries s"
    "(i, e) \<in> set (ms_global s) \<Longrightarrow> P e \<Longrightarrow> (i, archived_form r e) \<in> in_archives (archive_global P r s)"
    "(j, a) \<in> in_archives s \<Longrightarrow> j \<notin> fst ` set (filter (\<lambda>(i, e). P e) (ms_global s)) \<Longrightarrow> (j, a) \<in> in_archives (archive_global P r s)"
proof -
  let ?L = "filter (\<lambda>(i, e). P e) (ms_global s)"
  show "ms_global (archive_global P r s) = filter (\<lambda>(i, e). \<not> P e) (ms_global s)" "ms_entries (archive_global P r s) = ms_entries s"
    by (simp_all only: archive_global_def global_loop filter_ids [OF assms])
  have L: "distinct (map fst ?L)" "\<forall>(i, e)\<in>set ?L. me_id e = i" using ok_filter [OF assms] by (auto simp: mem_map_ok_def)
  have D: "\<And>i s. in_archives (s\<lparr>ms_global := AList.delete i (ms_global s)\<rparr>) = in_archives s" by simp
  note loop = archive_loop [where D = "\<lambda>i s. s\<lparr>ms_global := AList.delete i (ms_global s)\<rparr>", OF D L]
  show "(i, e) \<in> set (ms_global s) \<Longrightarrow> P e \<Longrightarrow> (i, archived_form r e) \<in> in_archives (archive_global P r s)"
    unfolding archive_global_def by (rule loop(1)) simp
  show "(j, a) \<in> in_archives s \<Longrightarrow> j \<notin> fst ` set ?L \<Longrightarrow> (j, a) \<in> in_archives (archive_global P r s)"
    unfolding archive_global_def by (rule loop(2))
qed

text \<open>The archives stay maps, and nothing else of the store is touched.\<close>

definition archives_ok :: "memory_store \<Rightarrow> bool" where
  "archives_ok s \<longleftrightarrow> mem_map_ok (ms_archived s) \<and> mem_map_ok (ms_global_archive s)"

lemma archives_ok_loop:
  assumes "\<And>i s. archives_ok s \<Longrightarrow> archives_ok (D i s)" "archives_ok s"
  shows "archives_ok (fold (\<lambda>(i, e) s. archiveEntryLocked r e (D i s)) L s)"
  using assms(2)
proof (induct L arbitrary: s)
  case (Cons x L)
  obtain i e where "x = (i, e)" by fastforce
  then show ?case using Cons(1) [of "archiveEntryLocked r e (D i s)"] archive_maps_ok assms(1) [OF Cons(2)]
    by (simp add: archives_ok_def)
qed simp

lemma archives_ok_archive: "archives_ok s \<Longrightarrow> archives_ok (archive_entries P r s)" "archives_ok s \<Longrightarrow> archives_ok (archive_global P r s)"
proof -
  have "archives_ok s \<Longrightarrow> archives_ok (s\<lparr>ms_entries := m\<rparr>)" "archives_ok s \<Longrightarrow> archives_ok (s\<lparr>ms_global := m\<rparr>)" for s m
    by (simp_all add: archives_ok_def)
  then show "archives_ok s \<Longrightarrow> archives_ok (archive_entries P r s)" "archives_ok s \<Longrightarrow> archives_ok (archive_global P r s)"
    by (simp_all add: archive_entries_def archive_global_def archives_ok_loop
        archives_ok_loop [where D = "\<lambda>i s. s\<lparr>ms_entries := AList.delete i (ms_entries s)\<rparr>"]
        archives_ok_loop [where D = "\<lambda>i s. s\<lparr>ms_global := AList.delete i (ms_global s)\<rparr>"])
qed

lemma archive_settings:
  "ms_max_entries (archive_entries P r s) = ms_max_entries s" "ms_max_entries (archive_global P r s) = ms_max_entries s"
proof -
  have "ms_max_entries (fold (\<lambda>(i, e) s. archiveEntryLocked r e (s\<lparr>ms_entries := AList.delete i (ms_entries s)\<rparr>)) L s) = ms_max_entries s"
    "ms_max_entries (fold (\<lambda>(i, e) s. archiveEntryLocked r e (s\<lparr>ms_global := AList.delete i (ms_global s)\<rparr>)) L s) = ms_max_entries s" for L
    by (induct L arbitrary: s) auto
  then show "ms_max_entries (archive_entries P r s) = ms_max_entries s" "ms_max_entries (archive_global P r s) = ms_max_entries s"
    by (simp_all add: archive_entries_def archive_global_def)
qed

lemma forget_keys_frame [simp]:
  "ms_entries (forget_keys_of xs s) = ms_entries s" "ms_global (forget_keys_of xs s) = ms_global s"
  "ms_archived (forget_keys_of xs s) = ms_archived s" "ms_global_archive (forget_keys_of xs s) = ms_global_archive s"
  "ms_max_entries (forget_keys_of xs s) = ms_max_entries s"
  unfolding forget_keys_of_def by (induct xs arbitrary: s) (auto simp: case_prod_unfold)

lemma cleanup_frame [simp]:
  "ms_entries (cleanupArchivedLocked now s) = ms_entries s" "ms_global (cleanupArchivedLocked now s) = ms_global s"
  "ms_max_entries (cleanupArchivedLocked now s) = ms_max_entries s"
  by (simp_all add: cleanupArchivedLocked_def Let_def)

lemma cleanup_archives: "in_archives (cleanupArchivedLocked now s) = {(i, e) \<in> in_archives s. \<not> mem_outdated now e}"
  by (auto simp: cleanupArchivedLocked_def in_archives_def Let_def)

text \<open>What the housekeeping leaves active, and what it moves.\<close>

abbreviation set_aside :: "gotime \<Rightarrow> memory_entry \<Rightarrow> bool" where
  "set_aside now e \<equiv> mem_expired now e \<or> mem_stale now e"

lemma set_aside_gone:
  assumes "mem_map_ok m" "(i, e) \<in> set m" "P e" shows "i \<notin> fst ` set (filter (\<lambda>(i, e). \<not> P e) m)"
proof
  assume "i \<in> fst ` set (filter (\<lambda>(i, e). \<not> P e) m)"
  then obtain e' where "(i, e') \<in> set m" "\<not> P e'" by auto
  with ok_map_of [OF assms(1), of i e] ok_map_of [OF assms(1), of i e'] assms(2,3) show False by simp
qed

lemma tidied:
  assumes "mem_wf s"
  shows "ms_entries (housekeeping now s) = filter (\<lambda>(i, e). \<not> set_aside now e) (ms_entries s)"
    "ms_global (housekeeping now s) = filter (\<lambda>(i, e). \<not> set_aside now e) (ms_global s)"
    "ms_max_entries (housekeeping now s) = ms_max_entries s" "archives_ok (housekeeping now s)"
    "(i, e) \<in> set (ms_entries s) \<union> set (ms_global s) \<Longrightarrow> set_aside now e \<Longrightarrow> \<not> mem_outdated now e \<Longrightarrow>
       \<exists>r. (i, archived_form r e) \<in> in_archives (housekeeping now s)"
proof -
  define s1 where "s1 = archive_entries (mem_expired now) ''ttl_expired'' s"
  define s2 where "s2 = archive_global (mem_expired now) ''ttl_expired'' s1"
  define s3 where "s3 = archive_entries (mem_stale now) ''stale_low_value'' s2"
  define s4 where "s4 = archive_global (mem_stale now) ''stale_low_value'' s3"
  have hk: "housekeeping now s = cleanupArchivedLocked now s4"
    by (simp add: housekeeping_def archiveExpiredLocked_def archiveStaleLowValueLocked_def s1_def s2_def s3_def s4_def)
  note wf = assms [unfolded mem_wf_def]
  have 1: "mem_map_ok (ms_entries s)" using wf by simp
  note r1 = archive_entries_result [OF 1, where P = "mem_expired now" and r = "''ttl_expired''", folded s1_def]
  have 2: "mem_map_ok (ms_global s1)" using wf r1(2) by simp
  note r2 = archive_global_result [OF 2, where P = "mem_expired now" and r = "''ttl_expired''", folded s2_def]
  have 3: "mem_map_ok (ms_entries s2)" using r2(2) r1(1) 1 ok_filter by simp
  note r3 = archive_entries_result [OF 3, where P = "mem_stale now" and r = "''stale_low_value''", folded s3_def]
  have 4: "mem_map_ok (ms_global s3)" using r3(2) r2(1) 2 ok_filter by simp
  note r4 = archive_global_result [OF 4, where P = "mem_stale now" and r = "''stale_low_value''", folded s4_def]
  show "ms_entries (housekeeping now s) = filter (\<lambda>(i, e). \<not> set_aside now e) (ms_entries s)"
    by (simp add: hk r4(2) r3(1) r2(2) r1(1)) (auto intro: filter_cong)
  show "ms_global (housekeeping now s) = filter (\<lambda>(i, e). \<not> set_aside now e) (ms_global s)"
    by (simp add: hk r4(1) r3(2) r2(1) r1(2)) (auto intro: filter_cong)
  show "ms_max_entries (housekeeping now s) = ms_max_entries s"
    by (simp add: hk s1_def s2_def s3_def s4_def archive_settings)
  have "archives_ok s4" using wf by (simp add: s1_def s2_def s3_def s4_def archives_ok_archive archives_ok_def [of s])
  then show "archives_ok (housekeeping now s)"
    by (simp add: hk archives_ok_def cleanupArchivedLocked_def Let_def ok_filter)
  have disj: "fst ` set (ms_entries s) \<inter> fst ` set (ms_global s) = {}" using wf by simp
  assume e: "(i, e) \<in> set (ms_entries s) \<union> set (ms_global s)" "set_aside now e" "\<not> mem_outdated now e"
  consider (ee) "(i, e) \<in> set (ms_entries s)" "mem_expired now e" | (es) "(i, e) \<in> set (ms_entries s)" "\<not> mem_expired now e" "mem_stale now e"
    | (ge) "(i, e) \<in> set (ms_global s)" "mem_expired now e" | (gs) "(i, e) \<in> set (ms_global s)" "\<not> mem_expired now e" "mem_stale now e"
    using e by blast
  then have "\<exists>r. (i, archived_form r e) \<in> in_archives s4"
  proof cases
    case ee
    have gone: "i \<notin> fst ` set (ms_global s)" using ee(1) disj by force
    have "(i, archived_form ''ttl_expired'' e) \<in> in_archives s1" using r1(3) ee by blast
    then have "(i, archived_form ''ttl_expired'' e) \<in> in_archives s2" using r2(4) gone r1(2) by fastforce
    moreover have "i \<notin> fst ` set (ms_entries s2)" using set_aside_gone [OF 1 ee(1), of "mem_expired now"] ee(2) by (simp add: r2(2) r1(1))
    ultimately have "(i, archived_form ''ttl_expired'' e) \<in> in_archives s3" using r3(4) by fastforce
    moreover have "i \<notin> fst ` set (ms_global s3)" using gone by (force simp: r3(2) r2(1) r1(2))
    ultimately show ?thesis using r4(4) by fastforce
  next
    case es
    have "(i, e) \<in> set (ms_entries s2)" using es by (simp add: r2(2) r1(1))
    then have "(i, archived_form ''stale_low_value'' e) \<in> in_archives s3" using r3(3) es(3) by blast
    moreover have "i \<notin> fst ` set (ms_global s3)" using es(1) disj by (force simp: r3(2) r2(1) r1(2))
    ultimately show ?thesis using r4(4) by fastforce
  next
    case ge
    have "(i, archived_form ''ttl_expired'' e) \<in> in_archives s2" using r2(3) ge r1(2) by simp
    moreover have "i \<notin> fst ` set (ms_entries s2)" using ge(1) disj by (force simp: r2(2) r1(1))
    ultimately have "(i, archived_form ''ttl_expired'' e) \<in> in_archives s3" using r3(4) by fastforce
    moreover have "i \<notin> fst ` set (ms_global s3)" using set_aside_gone [OF 2, of i e "mem_expired now"] ge by (simp add: r3(2) r2(1) r1(2))
    ultimately show ?thesis using r4(4) by fastforce
  next
    case gs
    then have "(i, e) \<in> set (ms_global s3)" by (simp add: r3(2) r2(1) r1(2))
    then show ?thesis using r4(3) gs(3) by blast
  qed
  then show "\<exists>r. (i, archived_form r e) \<in> in_archives (housekeeping now s)"
    using e(3) by (auto simp: hk cleanup_archives archived_form_def mem_outdated_def)
qed

lemma tidied_wf: "mem_wf s \<Longrightarrow> mem_wf (housekeeping now s)"
  using tidied [where s = s and now = now] by (auto simp: mem_wf_def archives_ok_def ok_filter)

subsection \<open>Adding a memory\<close>

lemma active_iff:
  assumes "mem_wf s" shows "mem_active s i = Some e \<longleftrightarrow> (i, e) \<in> set (ms_entries s) \<union> set (ms_global s)"
proof -
  note wf = assms [unfolded mem_wf_def]
  have maps: "map_of (ms_entries s) i = Some x \<longleftrightarrow> (i, x) \<in> set (ms_entries s)" "map_of (ms_global s) i = Some x \<longleftrightarrow> (i, x) \<in> set (ms_global s)" for x
    using ok_map_of wf by blast+
  show ?thesis
  proof (cases "map_of (ms_entries s) i")
    case None
    then have "(i, e) \<notin> set (ms_entries s)" using maps(1) [of e] by simp
    with None show ?thesis by (simp add: mem_active_def maps(2))
  next
    case (Some x)
    then have "i \<in> fst ` set (ms_entries s)" using maps(1) by force
    then have "(i, e) \<notin> set (ms_global s)" using wf by force
    with Some show ?thesis using maps(1) [of e] by (simp add: mem_active_def)
  qed
qed

definition still_there :: "memory_store \<Rightarrow> string \<Rightarrow> memory_entry \<Rightarrow> bool" where
  "still_there s i e \<longleftrightarrow> (\<exists>y. mem_active s i = Some y \<and> me_content y = me_content e)"

lemma active_changed [simp]: "mem_active (changed s) i = mem_active s i" "mem_count (changed s) = mem_count s"
  "in_archives (changed s) = in_archives s"
  by (simp_all add: changed_def markDirty_def mem_active_def mem_count_def in_archives_def split: option.split)

lemma drop_active_other: "j \<noteq> i \<Longrightarrow> mem_active (drop_active j s) i = mem_active s i"
  by (simp add: drop_active_def mem_active_def AList.delete_conv' split: option.split)

lemma drop_everywhere_other: "j \<noteq> i \<Longrightarrow> mem_active (drop_everywhere j s) i = mem_active s i"
  by (simp add: drop_everywhere_def drop_active_def mem_active_def AList.delete_conv' split: option.split)

lemma delete_length: "length (AList.delete i m) \<le> length m"
  by (simp add: AList.delete_eq)

lemma map_entry_of: "map_of (AList.map_entry k f m) i = (if i = k then map_option f (map_of m k) else map_of m i)"
  by (induct m) auto

lemma map_entry_length [simp]: "length (AList.map_entry k f m) = length m"
  by (induct m) auto

definition takes_key_of :: "memory_entry \<Rightarrow> memory_store \<Rightarrow> string \<Rightarrow> bool" where
  "takes_key_of e s i \<longleftrightarrow> me_key e \<noteq> [] \<and> ms_by_key s (me_key e) = Some i"

lemma reinforce_keeps:
  assumes "mem_active s i = Some x" "\<not> takes_key_of e s i"
  shows "still_there (reinforce now e found s) i x"
proof -
  obtain j old where found: "found = (j, old)" by fastforce
  define s1 where "s1 = (if me_key e = [] then s
      else (case ms_by_key s (me_key e) of
              Some oldID \<Rightarrow> if oldID \<noteq> me_id old then drop_active oldID s else s
            | None \<Rightarrow> s)\<lparr>ms_by_key := (ms_by_key s)(me_key e \<mapsto> me_id old)\<rparr>)"
  have r: "reinforce now e found s = s1\<lparr>
      ms_entries := (if me_type e = MemoryGlobal then ms_entries s1 else AList.map_entry j (reinforced now e) (ms_entries s1)),
      ms_global := (if me_type e = MemoryGlobal then AList.map_entry j (reinforced now e) (ms_global s1) else ms_global s1)\<rparr>"
    unfolding reinforce_def found prod.case Let_def s1_def by (rule refl)
  have "mem_active (t\<lparr>ms_by_key := k\<rparr>) i = mem_active t i" for t k by (simp add: mem_active_def split: option.split)
  then have "mem_active s1 i = Some x"
    using assms drop_active_other by (auto simp: s1_def takes_key_of_def split: option.split)
  moreover have "me_content (reinforced now e y) = me_content y" for y by (simp add: reinforced_def)
  ultimately show ?thesis
    unfolding still_there_def r by (auto simp: mem_active_def map_entry_of split: option.splits)
qed

lemma reinforce_count: "mem_count (reinforce now e found s) \<le> mem_count s"
  using delete_length [of _ "ms_entries s"] delete_length [of _ "ms_global s"]
  by (auto simp: reinforce_def mem_count_def drop_active_def Let_def split: prod.split option.split intro: add_mono)

lemma insert_keeps:
  assumes "mem_active s i = Some x" "\<not> takes_key_of e s i" "i \<noteq> me_id e"
  shows "mem_active (insert_new e s) i = Some x"
proof -
  define s1 where "s1 = (if me_key e = [] then s
      else (case ms_by_key s (me_key e) of Some oldID \<Rightarrow> drop_everywhere oldID s | None \<Rightarrow> s)\<lparr>ms_by_key := (ms_by_key s)(me_key e \<mapsto> me_id e)\<rparr>)"
  have "mem_active (t\<lparr>ms_by_key := k\<rparr>) i = mem_active t i" for t k by (simp add: mem_active_def split: option.split)
  then have "mem_active s1 i = Some x"
    using assms drop_everywhere_other by (auto simp: s1_def takes_key_of_def split: option.split)
  moreover have "insert_new e s = (if me_type e = MemoryGlobal then s1\<lparr>ms_global := AList.update (me_id e) e (ms_global s1)\<rparr>
      else s1\<lparr>ms_entries := AList.update (me_id e) (e\<lparr>me_project := (if me_project e = [] then ms_hash s else me_project e)\<rparr>) (ms_entries s1)\<rparr>)"
    unfolding insert_new_def Let_def s1_def by (rule refl)
  ultimately show ?thesis using assms(3) by (auto simp: mem_active_def AList.update_conv' split: option.splits)
qed

lemma insert_archives:
  assumes "(i, a) \<in> in_archives s" "\<not> takes_key_of e s i" shows "(i, a) \<in> in_archives (insert_new e s)"
  using assms by (auto simp: insert_new_def in_archives_def takes_key_of_def drop_everywhere_def drop_active_def AList.delete_eq Let_def split: option.split)

lemma ids_after:
  "fst ` set (AList.delete i m) = fst ` set m - {i}" "fst ` set (AList.update k v m) = insert k (fst ` set m)"
  by (auto simp: AList.delete_eq AList.dom_update)

lemma insert_wf:
  assumes "mem_wf s" "mem_active s (me_id e) = None" shows "mem_wf (insert_new e s)"
proof -
  define s1 where "s1 = (if me_key e = [] then s
      else (case ms_by_key s (me_key e) of Some oldID \<Rightarrow> drop_everywhere oldID s | None \<Rightarrow> s)\<lparr>ms_by_key := (ms_by_key s)(me_key e \<mapsto> me_id e)\<rparr>)"
  have "mem_wf (drop_everywhere j s)" for j
    using assms(1) by (auto simp: mem_wf_def drop_everywhere_def drop_active_def ok_delete ids_after)
  moreover have "mem_wf (t\<lparr>ms_by_key := k\<rparr>) = mem_wf t" for t k by (simp add: mem_wf_def)
  ultimately have wf: "mem_wf s1" using assms(1) by (simp add: s1_def split: option.split)
  have "fst ` set (ms_entries s1) \<union> fst ` set (ms_global s1) \<subseteq> fst ` set (ms_entries s) \<union> fst ` set (ms_global s)"
    by (auto simp: s1_def drop_everywhere_def drop_active_def AList.delete_eq split: option.splits)
  moreover have "me_id e \<notin> fst ` set (ms_entries s) \<union> fst ` set (ms_global s)"
    using assms(2) by (auto simp: mem_active_def map_of_eq_None_iff split: option.splits)
  ultimately have "me_id e \<notin> fst ` set (ms_entries s1)" "me_id e \<notin> fst ` set (ms_global s1)" by auto
  moreover have "insert_new e s = (if me_type e = MemoryGlobal then s1\<lparr>ms_global := AList.update (me_id e) e (ms_global s1)\<rparr>
      else s1\<lparr>ms_entries := AList.update (me_id e) (e\<lparr>me_project := (if me_project e = [] then ms_hash s else me_project e)\<rparr>) (ms_entries s1)\<rparr>)"
    unfolding insert_new_def Let_def s1_def by (rule refl)
  moreover have "mem_map_ok m \<Longrightarrow> mem_map_ok (AList.update (me_id e) (e\<lparr>me_project := p\<rparr>) m)" for m p
    using ok_update [of m "e\<lparr>me_project := p\<rparr>"] by simp
  ultimately show ?thesis using wf ok_update by (simp add: mem_wf_def ids_after)
qed

text \<open>Pruning removes the oldest, as many as are too many.\<close>

lemma prune_loop:
  "ms_entries (fold (\<lambda>e s. forget_key (me_key e) (drop_active (me_id e) s)) es s) = filter (\<lambda>(j, e). j \<notin> me_id ` set es) (ms_entries s)"
  "ms_global (fold (\<lambda>e s. forget_key (me_key e) (drop_active (me_id e) s)) es s) = filter (\<lambda>(j, e). j \<notin> me_id ` set es) (ms_global s)"
  "in_archives (fold (\<lambda>e s. forget_key (me_key e) (drop_active (me_id e) s)) es s) = in_archives s"
  by (induct es arbitrary: s)
    (auto simp: drop_active_def AList.delete_eq case_prod_unfold in_archives_def conj_commute intro: filter_cong)

lemma prune_archives: "in_archives (pruneOldest order s) = in_archives s"
  by (simp add: pruneOldest_def prune_loop)

lemma prune_result:
  assumes wf: "mem_wf s" and order: "\<And>m. mset (order m) = mset m"
  shows "mem_active s i = Some x \<Longrightarrow> mem_active (pruneOldest order s) i = Some x \<or>
      0 < ms_max_entries s \<and> (\<forall>j y. mem_active (pruneOldest order s) j = Some y \<longrightarrow> me_timestamp x \<le> me_timestamp y)"
    "0 < ms_max_entries s \<Longrightarrow> int (mem_count (pruneOldest order s)) \<le> ms_max_entries s"
proof -
  let ?p = "pruneOldest order s"
  define all where "all = sort_key me_timestamp (map snd (order (ms_entries s) @ order (ms_global s)))"
  define n where "n = mem_count s - nat (ms_max_entries s)"
  have all: "mset all = mset (map snd (ms_entries s @ ms_global s))" unfolding all_def by (simp add: order)
  have wf': "mem_map_ok (ms_entries s)" "mem_map_ok (ms_global s)" "fst ` set (ms_entries s) \<inter> fst ` set (ms_global s) = {}"
    using wf by (simp_all add: mem_wf_def)
  have id_of: "me_id y = j" if "mem_active s j = Some y" for j y
    using active_iff [OF wf, of j y] that ok_id wf'(1,2) by blast
  have listed: "mem_active s j = Some y \<longleftrightarrow> y \<in> set all \<and> me_id y = j" for j y
  proof -
    have "y \<in> set all \<longleftrightarrow> y \<in> snd ` set (ms_entries s @ ms_global s)" using all by (metis set_map set_mset_mset)
    moreover have "(j, y) \<in> set m \<longleftrightarrow> y \<in> snd ` set m \<and> me_id y = j" if "mem_map_ok m" for m
      using that by (force simp: mem_map_ok_def)
    ultimately show ?thesis using active_iff [OF wf, of j y] wf'(1,2) by auto
  qed
  have ids: "map me_id (map snd m) = map fst m" if "mem_map_ok m" for m
    using that by (induct m) (auto simp: mem_map_ok_def)
  have "distinct (map fst (ms_entries s @ ms_global s))" using wf' by (simp add: mem_map_ok_def)
  then have "distinct (map me_id (map snd (ms_entries s @ ms_global s)))"
    by (simp only: map_append ids [OF wf'(1)] ids [OF wf'(2)])
  then have dist: "distinct (map me_id all)" using all mset_eq_imp_distinct_iff mset_map by metis
  have sorted: "sorted (map me_timestamp (take n all @ drop n all))" unfolding append_take_drop_id by (simp add: all_def)
  define R where "R = me_id ` set (take n all)"
  have p: "ms_entries ?p = filter (\<lambda>(j, e). j \<notin> R) (ms_entries s)" "ms_global ?p = filter (\<lambda>(j, e). j \<notin> R) (ms_global s)"
    if "\<not> (ms_max_entries s \<le> 0 \<or> int (mem_count s) \<le> ms_max_entries s)"
    using that by (simp_all add: pruneOldest_def prune_loop all_def n_def R_def)
  have "map_of (filter (\<lambda>(j, e). j \<notin> R) m) i = (if i \<in> R then None else map_of m i)" for m :: mem_map and i
    by (induct m) auto
  then have active: "mem_active ?p i = (if i \<in> R then None else mem_active s i)"
    if "\<not> (ms_max_entries s \<le> 0 \<or> int (mem_count s) \<le> ms_max_entries s)" for i
    using p [OF that] by (auto simp: mem_active_def split: option.split)
  show "mem_active ?p i = Some x \<or> 0 < ms_max_entries s \<and> (\<forall>j y. mem_active ?p j = Some y \<longrightarrow> me_timestamp x \<le> me_timestamp y)"
    if x: "mem_active s i = Some x"
  proof (cases "ms_max_entries s \<le> 0 \<or> int (mem_count s) \<le> ms_max_entries s")
    case True
    then show ?thesis using x by (simp add: pruneOldest_def)
  next
    case False
    show ?thesis
    proof (cases "i \<in> R")
      case True
      then obtain e where e: "e \<in> set (take n all)" "me_id e = i" by (auto simp: R_def)
      then have "e = x" using listed [of i e] x in_set_takeD [OF e(1)] by simp
      moreover have "me_timestamp e \<le> me_timestamp y" if y: "mem_active ?p j = Some y" for j y
      proof -
        have "j \<notin> R" "mem_active s j = Some y" using active [OF False, of j] y by (auto split: if_splits)
        then have "y \<in> set all" "y \<notin> set (take n all)" using listed [of j y] by (auto simp: R_def)
        then have "y \<in> set (drop n all)" by (metis Un_iff append_take_drop_id set_append)
        then show ?thesis using sorted [unfolded map_append sorted_append] e(1) by simp
      qed
      ultimately show ?thesis using False by auto
    qed (use active [OF False] x in simp)
  qed
  show "int (mem_count ?p) \<le> ms_max_entries s" if pos: "0 < ms_max_entries s"
  proof (cases "int (mem_count s) \<le> ms_max_entries s")
    case True
    then show ?thesis by (simp add: pruneOldest_def)
  next
    case False
    then have F: "\<not> (ms_max_entries s \<le> 0 \<or> int (mem_count s) \<le> ms_max_entries s)" using pos by simp
    have "filter (\<lambda>e. me_id e \<notin> R) (map snd m) = map snd (filter (\<lambda>(j, e). j \<notin> R) m)" if "mem_map_ok m" for m
      using that by (induct m) (auto simp: mem_map_ok_def)
    then have "mem_count ?p = length (filter (\<lambda>e. me_id e \<notin> R) (map snd (ms_entries s @ ms_global s)))"
      using p [OF F] wf' by (simp add: mem_count_def)
    also have "\<dots> = length (filter (\<lambda>e. me_id e \<notin> R) all)" using all by (metis mset_filter size_mset)
    also have "\<dots> = length (filter (\<lambda>e. me_id e \<notin> R) (take n all)) + length (filter (\<lambda>e. me_id e \<notin> R) (drop n all))"
      by (metis append_take_drop_id filter_append length_append)
    also have "filter (\<lambda>e. me_id e \<notin> R) (take n all) = []" by (auto simp: R_def filter_empty_conv)
    finally have "mem_count ?p \<le> length all - n" using length_filter_le [of _ "drop n all"] by simp
    moreover have "length all = mem_count s" using all by (metis length_append length_map mem_count_def size_mset)
    ultimately show ?thesis using False pos by (simp add: n_def)
  qed
qed

lemma stamped_keeps: "me_key (stamped_entry now e) = me_key e" "me_id (stamped_entry now e) = me_id e"
  by (simp_all add: stamped_entry_def autoTag_def)

lemma tidied_active:
  assumes "mem_wf s"
  shows "mem_active (housekeeping now s) i = Some x \<longleftrightarrow> mem_active s i = Some x \<and> \<not> set_aside now x"
  using active_iff [OF assms] active_iff [OF tidied_wf [OF assms]] tidied(1,2) [OF assms] by auto

lemma reinforce_archives: "in_archives (reinforce now e found s) = in_archives s"
  by (auto simp: reinforce_def in_archives_def drop_active_def Let_def split: prod.split option.split)

lemma add_cases:
  obtains found where "Add order letter now entry s = changed (reinforce now (stamped_entry now entry) found (housekeeping now s))"
  | "Add order letter now entry s = changed (pruneOldest order (insert_new (stamped_entry now entry) (housekeeping now s)))"
  by (cases "findSemanticDuplicateLocked order letter (stamped_entry now entry) (housekeeping now s)") (auto simp: Add_def Let_def)

lemma insert_max: "ms_max_entries (insert_new e s) = ms_max_entries s"
  by (simp add: insert_new_def drop_everywhere_def drop_active_def Let_def split: option.split)


text \<open>Two memories of different content; the second takes over the key of the first.\<close>

definition port_memory :: memory_entry where
  "port_memory =
     \<lparr>me_id = ''m1'', me_key = ''port'', me_content = ''8080'', me_type = MemoryProject, me_tags = [],
      me_timestamp = 5, me_project = ''h'', me_last_accessed = 0, me_access_count = 0, me_success_count = 0, me_failure_count = 0,
      me_reinforcement = 0, me_expires_at = 0, me_archived = False, me_archive_reason = []\<rparr>"

definition style_memory :: memory_entry where
  "style_memory = port_memory\<lparr>me_id := ''m2'', me_key := ''style'', me_content := ''tabs''\<rparr>"

definition one_memory :: memory_store where
  "one_memory = (empty_store ''h'' 0)\<lparr>ms_entries := [(''m1'', port_memory)], ms_by_key := [''port'' \<mapsto> ''m1'']\<rparr>"

lemma one_memory_wf: "mem_wf one_memory"
  by (simp add: mem_wf_def mem_map_ok_def one_memory_def empty_store_def port_memory_def)


subsection \<open>What is lost\<close>

text \<open>A value of short words is not updated: it has no tokens, so any other such value is taken for the same.\<close>

definition version_memory :: "string \<Rightarrow> string \<Rightarrow> memory_entry" where
  "version_memory i c = port_memory\<lparr>me_id := i, me_key := ''version'', me_content := c\<rparr>"

lemma short_value_not_updated:
  "map_option me_content (mem_Get 7 ''version''
     (Add id (\<lambda>_. True) 6 (version_memory ''b'' ''v2'') (Add id (\<lambda>_. True) 5 (version_memory ''a'' ''v1'') (empty_store ''h'' 10)))) = Some ''v1''"
  by code_simp

text \<open>
  The key of a memory that is repeated under another key still leads to it. Storing something new under the old key
  then deletes the memory although it has another key now.
\<close>

lemma renamed_memory_deleted:
  "mem_Get 8 ''port2'' (Add id (\<lambda>_. True) 6 (port_memory\<lparr>me_id := ''m3'', me_key := ''port2''\<rparr>)
     (Add id (\<lambda>_. True) 5 port_memory (empty_store ''h'' 10))) \<noteq> None"
  "mem_Get 8 ''port2'' (Add id (\<lambda>_. True) 7 (style_memory\<lparr>me_key := ''port''\<rparr>)
     (Add id (\<lambda>_. True) 6 (port_memory\<lparr>me_id := ''m3'', me_key := ''port2''\<rparr>)
       (Add id (\<lambda>_. True) 5 port_memory (empty_store ''h'' 10)))) = None"
  "mem_active (Add id (\<lambda>_. True) 7 (style_memory\<lparr>me_key := ''port''\<rparr>)
     (Add id (\<lambda>_. True) 6 (port_memory\<lparr>me_id := ''m3'', me_key := ''port2''\<rparr>)
       (Add id (\<lambda>_. True) 5 port_memory (empty_store ''h'' 10)))) ''m1'' = None"
  by code_simp+

text \<open>
  A memory is archived when it is stale, and its key taken by a new one. A year later the archived one is deleted, and with
  it the entry of the index, which is that of the new memory: it is active but cannot be found by its key.
\<close>

definition days :: "int \<Rightarrow> gotime" where
  "days n = n * 24 * 3600000000000"

lemma live_memory_unindexed:
  "map_option me_content (mem_active (housekeeping (days 370) (RecordAccess (days 102) ''m2''
     (Add id (\<lambda>_. True) (days 101) (style_memory\<lparr>me_key := ''port'', me_timestamp := 0\<rparr>)
       (Add id (\<lambda>_. True) (days 1) (port_memory\<lparr>me_timestamp := 0\<rparr>) (empty_store ''h'' 10))))) ''m2'') = Some (me_content style_memory)"
  "mem_Get (days 370) ''port'' (RecordAccess (days 102) ''m2''
     (Add id (\<lambda>_. True) (days 101) (style_memory\<lparr>me_key := ''port'', me_timestamp := 0\<rparr>)
       (Add id (\<lambda>_. True) (days 1) (port_memory\<lparr>me_timestamp := 0\<rparr>) (empty_store ''h'' 10)))) \<noteq> None"
  "mem_Get (days 370) ''port'' (housekeeping (days 370) (RecordAccess (days 102) ''m2''
     (Add id (\<lambda>_. True) (days 101) (style_memory\<lparr>me_key := ''port'', me_timestamp := 0\<rparr>)
       (Add id (\<lambda>_. True) (days 1) (port_memory\<lparr>me_timestamp := 0\<rparr>) (empty_store ''h'' 10))))) = None"
  by code_simp+

text \<open>
  The timer writes its snapshot without the lock. When a memory is added and flushed before that write, the older
  snapshot replaces the flushed file, and nothing is left to be saved.
\<close>

definition race_shot :: "snapshot option \<times> memory_store" where
  "race_shot = timer_snapshot 6 (Add id (\<lambda>_. True) 5 port_memory (empty_store ''h'' 10))"

definition race_flush :: "bool \<times> memory_store \<times> mem_disk" where
  "race_flush = mem_Flush (\<lambda>_. True) 8 (Add id (\<lambda>_. True) 7 style_memory (snd race_shot)) (\<lambda>_. MissingFile)"

definition stored_ids :: "file_content \<Rightarrow> string list" where
  "stored_ids c = (case c of Stored es \<Rightarrow> map (\<lambda>r. case r of None \<Rightarrow> [] | Some e \<Rightarrow> me_id e) es | _ \<Rightarrow> [])"

lemma flushed_memory_overwritten:
  "stored_ids (snd (snd race_flush) ProjectFile) = [''m1'', ''m2'']" "fst race_flush" "\<not> ms_dirty (fst (snd race_flush))"
  "stored_ids (snd (timer_write (\<lambda>_. True) (the (fst race_shot)) (snd (snd race_flush))) ProjectFile) = [''m1'']"
  by code_simp+

subsection \<open>After a restart\<close>

lemma load_fold:
  assumes "distinct (map me_id es)" "[] \<notin> me_id ` set es" "me_id ` set es \<inter> fst ` set m = {}"
  shows "fold (\<lambda>r m. case r of None \<Rightarrow> m | Some e \<Rightarrow> if me_id e = [] then m else AList.update (me_id e) e m) (map Some es) m =
    m @ map (\<lambda>e. (me_id e, e)) es"
  using assms
proof (induct es arbitrary: m)
  case (Cons e es)
  have "AList.update (me_id e) e m = m @ [(me_id e, e)]" using Cons(4) by (induct m) auto
  then show ?case using Cons(1) [of "m @ [(me_id e, e)]"] Cons(2-4) by auto
qed simp

lemma load_saved:
  assumes "mem_map_ok m" "[] \<notin> fst ` set m"
  shows "loadFile (Stored (map Some (filter P (map snd m)))) = Some (filter (\<lambda>(i, e). P e) m)"
proof -
  let ?es = "filter P (map snd m)"
  have pairs: "map (\<lambda>e. (me_id e, e)) ?es = filter (\<lambda>(i, e). P e) m" and ids: "set (map me_id ?es) \<subseteq> fst ` set m"
    using assms(1) by (induct m) (auto simp: mem_map_ok_def)
  have "map fst (map (\<lambda>e. (me_id e, e)) ?es) = map me_id ?es" by simp
  then have "distinct (map me_id ?es)" using ok_filter [OF assms(1), of "\<lambda>(i, e). P e"] unfolding pairs by (simp add: mem_map_ok_def)
  moreover have "[] \<notin> me_id ` set ?es" using ids assms(2) by auto
  ultimately show ?thesis using load_fold [of ?es "[]"] pairs by (simp add: loadFile_def)
qed

text \<open>What a store has of a file: the entries of the session are not saved.\<close>

definition part_of :: "memory_store \<Rightarrow> mem_file \<Rightarrow> mem_map" where
  "part_of s f =
     (case f of ProjectFile \<Rightarrow> filter (\<lambda>(i, e). me_type e = MemoryProject) (ms_entries s) | GlobalFile \<Rightarrow> ms_global s
      | ArchiveFile \<Rightarrow> ms_archived s | GlobalArchiveFile \<Rightarrow> ms_global_archive s)"

definition loaded_part :: "memory_store \<Rightarrow> mem_file \<Rightarrow> mem_map" where
  "loaded_part s f =
     (case f of ProjectFile \<Rightarrow> ms_entries s | GlobalFile \<Rightarrow> ms_global s | ArchiveFile \<Rightarrow> ms_archived s | GlobalArchiveFile \<Rightarrow> ms_global_archive s)"

definition ids_given :: "memory_store \<Rightarrow> bool" where
  "ids_given s \<longleftrightarrow> (\<forall>f. [] \<notin> fst ` set (loaded_part s f))"

lemma save_files_all:
  "save_files writes es fs d = (True, d1) \<Longrightarrow> d1 f = (if f \<in> set fs then Stored (map Some (es f)) else d f)"
proof (induct fs arbitrary: d)
  case (Cons g fs)
  then have "save_files writes es fs (d(g := Stored (map Some (es g)))) = (True, d1)" by (simp add: saveFile_def split: if_splits)
  from Cons(1) [OF this] show ?case by simp
qed simp

lemma loads_part:
  assumes "mem_wf s" "ids_given s" shows "loadFile (Stored (map Some (file_entries s f))) = Some (part_of s f)"
proof -
  have "[] \<notin> fst ` set (loaded_part s f)" using assms(2) by (simp add: ids_given_def)
  moreover have "mem_map_ok (loaded_part s f)" using assms(1) by (simp add: mem_wf_def loaded_part_def split: mem_file.split)
  ultimately have "loadFile (Stored (map Some (filter P (map snd (loaded_part s f))))) = Some (filter (\<lambda>(i, e). P e) (loaded_part s f))" for P
    by (rule load_saved [rotated])
  from this [of "\<lambda>e. f = ProjectFile \<longrightarrow> me_type e = MemoryProject"] show ?thesis
    by (cases f) (simp_all add: file_entries_def part_of_def loaded_part_def)
qed

lemma loaded_parts: "loaded_part (load_store order d (empty_store hash n)) f = load_map d f"
  by (cases f) (simp_all add: loaded_part_def load_store_def Let_def)

lemma load_disk_fine: "(\<And>f. loadFile (d f) \<noteq> None) \<Longrightarrow> load_disk moved d = d"
  by (simp add: load_disk_def del: not_None_eq)

lemma load_disk_bad:
  assumes "\<And>f. f \<noteq> g \<Longrightarrow> loadFile (d f) \<noteq> None" "loadFile (d g) = None"
  shows "load_disk (\<lambda>_. True) d = d(g := MissingFile)"
proof -
  define step where "step = (\<lambda>f d. if loadFile (d f) = None then quarantineFile (\<lambda>_. True) f d else d)"
  let ?d = "d(g := MissingFile)"
  have "d g \<noteq> MissingFile" using assms(2) by (auto simp: loadFile_def)
  then have first: "step f d = (if f = g then ?d else d)" for f
    using assms(1) [of f] assms(2) by (cases "f = g") (auto simp: quarantineFile_def step_def)
  have "loadFile (?d f) \<noteq> None" for f using assms(1) [of f] by (cases "f = g") (simp_all add: loadFile_def)
  then have stays: "step f ?d = ?d" for f unfolding step_def by (rule if_not_P)
  have "load_disk (\<lambda>_. True) d = fold step [ProjectFile, GlobalFile, ArchiveFile, GlobalArchiveFile] d"
    unfolding load_disk_def step_def ..
  then show ?thesis using stays by (cases g) (simp_all add: first)
qed



end
