(* ===== verification/Spec2Isabelle.thy ===== *)
theory Spec2Isabelle
  imports PlanProps PlanStoreProps QueueSpec CoordinatorProps ThinkParser CircuitBreaker UndoProps ChatStoreProps
    PermissionProps TransactionProps SharedMemoryProps DelegationProps AnswerPages SchedulerProps MemoryProps
begin

text \<open>
  A verification development for gokin-studio, a desktop coding agent in Go. The engine under
  \<^verbatim>\<open>src/internal/engine\<close> plans work, runs agents on it and keeps its state on disk; these theories model
  the parts of it that decide what happens next.

  \<^bold>\<open>Plans\<close> (\<^verbatim>\<open>internal/engine/plan\<close>). \<open>PlanState\<close> holds the steps and their contracts, \<open>PlanOps\<close> every
  method of \<^verbatim>\<open>Plan\<close> and \<^verbatim>\<open>Step\<close> (\<^verbatim>\<open>plan.go\<close>), \<open>PlanLifecycle\<close> the approval life cycle (\<^verbatim>\<open>lifecycle.go\<close>),
  \<open>PlanSched\<close> the choice of the next steps, \<open>PlanStore\<close> the plans on disk (\<^verbatim>\<open>store.go\<close>, and the file names
  of \<^verbatim>\<open>fileutil/atomic.go\<close>), \<open>PlanUndo\<close> the checkpoints (\<^verbatim>\<open>undo.go\<close>), and \<open>PlanManager\<close> the manager that
  holds the current plan, notifies observers and saves (\<^verbatim>\<open>executor.go\<close>). \<open>PlanRecovery\<close> and \<open>PlanLedger\<close>
  hold the lemmas about replanning, resuming and the run ledger; \<open>PlanProps\<close> and \<open>PlanStoreProps\<close> the
  properties. A plan is a record that operations return updated; runs are lists of operations from
  \<open>NewPlan\<close>, and the invariants are proved by induction over them.

  \<^bold>\<open>Agents in parallel\<close> (\<^verbatim>\<open>internal/engine/agent\<close>). \<open>TaskQueue\<close> is the priority queue with the functions of
  Go's \<^verbatim>\<open>container/heap\<close> (\<^verbatim>\<open>priority_queue.go\<close>); \<open>QueueSpec\<close> proves that it refines an abstract queue.
  \<open>Coordinator\<close> holds every critical section of the coordinator (\<^verbatim>\<open>coordinator.go\<close>), which keeps tasks
  with dependencies and runs at most \<open>maxParallel\<close> agents. The theories \<open>CoordinatorInv\<close>, \<open>CoordinatorOps\<close>
  and \<open>CoordinatorSteps\<close> prove its invariant for each section, \<open>CoordinatorRuns\<close> the transition system in
  which the sections interleave, and \<open>CoordinatorProps\<close> the properties of its runs. The queue and the
  coordinator share tasks: a task is named by its identifier, and its record lies in the memory of the
  queue, as the code shares a pointer. The coordinator relies on the queue through the locale
  \<open>priority_queue\<close>, which \<open>TaskQueue\<close> interprets on the heap.

  \<^bold>\<open>Model streams and calls\<close>. \<open>ThinkParser\<close> is the parser that takes the thinking of a model out of its
  streamed text (\<^verbatim>\<open>client/stream_think_parser.go\<close>), proved equal to a reader of single characters;
  \<open>CircuitBreaker\<close> the breaker in front of a provider (\<^verbatim>\<open>robustness/circuit_breaker.go\<close>) under
  interleaved calls.

  \<^bold>\<open>File changes\<close> (\<^verbatim>\<open>internal/engine/undo\<close>). \<open>UndoManager\<close> is the tracker of changes and the manager
  that reverts and re-applies them on a map from paths to files whose operations may fail; \<open>UndoProps\<close>
  shows what undo and redo restore, and that a group is undone as a whole or not at all.

  \<open>FileTransaction\<close> is the batch of file operations with its backup and rollback
  (\<^verbatim>\<open>fileutil/transaction.go\<close>), where each call of the system may fail before or after its effect;
  \<open>TransactionProps\<close> shows that a commit is all or nothing.

  \<^bold>\<open>Permissions\<close>. \<open>LRUCache\<close> is the cache with expiry (\<^verbatim>\<open>cache/lru.go\<close>), whose contract is the locale
  \<open>forgetful_map\<close>; \<open>Permission\<close> the rules and the manager that asks the user and remembers decisions in
  such a cache (\<^verbatim>\<open>permission\<close>), and \<open>PermissionProps\<close> shows for interleaved checks that nothing runs
  without consent.

  \<^bold>\<open>Conversations\<close> (\<^verbatim>\<open>internal/engine/chat\<close>). \<open>ToolPairs\<close> has messages with tool calls and responses, the
  cutting of a history (\<^verbatim>\<open>session.go\<close>, \<^verbatim>\<open>context/tool_pairs.go\<close>) and the sanitizer
  (\<^verbatim>\<open>client/history_sanitizer.go\<close>), \<open>PairProps\<close> what they keep together; \<open>ChatSession\<close> is the session
  with its window, branches, checkpoints and saved form (\<^verbatim>\<open>session.go\<close>, \<^verbatim>\<open>session_state.go\<close>), \<open>ChatStore\<close>
  the sessions on disk and their manager (\<^verbatim>\<open>history.go\<close>, \<^verbatim>\<open>session_manager.go\<close>). \<open>ChatProps\<close> and
  \<open>ChatStoreProps\<close> show what a session keeps, what a checkpoint and a saved state bring back, and that a
  saved session is found again. The store of sessions satisfies the contract of the plan store, the
  locale \<open>keyed_store\<close>.

  \<^bold>\<open>Shared memory\<close>. \<open>SharedMemory\<close> is the store through which agents exchange results
  (\<^verbatim>\<open>agent/shared_memory.go\<close>): entries with expiry, an index by type, and subscribers' channels, whose
  misuse panics. \<open>SharedMemoryProps\<close> shows for all runs that nothing panics and that index and entries
  agree, and what a write may make the memory forget.

  \<^bold>\<open>Delegation between projects\<close> (\<^verbatim>\<open>internal/studio\<close>). \<open>DelegationGuard\<close> is the limit on chains of hops
  (\<^verbatim>\<open>delegation_guard.go\<close>), \<open>DelegationRuns\<close> the durable rows and their retention
  (\<^verbatim>\<open>delegation_runs.go\<close>), with their properties in \<open>DelegationRunsProps\<close>; \<open>Delegation\<close> has the critical
  sections of starts, fan-outs, monitors, cancellations and failures of the store (\<^verbatim>\<open>delegation.go\<close>,
  \<^verbatim>\<open>delegation_batch.go\<close>, \<^verbatim>\<open>groups.go\<close>), \<open>DelegationSteps\<close> the transition system in which they interleave
  and the invariant that no child runs without an owner, \<open>DelegationProps\<close> the properties of its runs.
  \<open>Utf8\<close> has the functions on UTF-8 text, \<open>AnswerPages\<close> the reading of a stored answer in pages.

  \<^bold>\<open>Scheduled tasks\<close> (\<^verbatim>\<open>internal/studio/scheduled_tasks.go\<close>). \<open>Schedule\<close> has the tasks, their check and the
  computation of the next run on a model of Go's \<^verbatim>\<open>time\<close> package, where a zone gives the day and the time of day of an
  instant and the instant of a day and a time; its loop over the weekend may not end and is a partial function.
  \<open>Scheduler\<close> has the two files, of tasks and of runs, every critical section on them, and the dispatch and the
  end of a run as sequences of critical sections with arbitrary work of other threads in between. \<open>ScheduleProps\<close>
  shows which instant the next run is where the clock is regular, and that in a zone with a change at midnight the
  search goes on for ever; \<open>SchedulerInv\<close> proves the invariant of the files for every section, \<open>SchedulerProps\<close>
  the properties of dispatch, start, retention, removal and recovery.

  \<^bold>\<open>Memories\<close> (\<^verbatim>\<open>internal/engine/memory\<close>). \<open>MemoryEntry\<close> has the entries (\<^verbatim>\<open>memory.go\<close>), the tags that are found
  in their content and the similarity of texts; \<open>MemoryStore\<close> the store with its maps, archives, index of keys, cache
  and files (\<^verbatim>\<open>store.go\<close>). \<open>MemoryProps\<close> shows what an addition may make the store forget and that saved memories are
  found again, and has runs on which an update, a key or a write is lost.

  \<^bold>\<open>Shared\<close>. \<open>Prelude\<close> has times, durations, the string functions of Go's library and list lemmas;
  \<open>BoundedLog\<close> the interface of a log that keeps its last entries.

  \<^bold>\<open>Parameters\<close>. What the code takes from outside is an argument: the clock, the decoding of a file, whether
  a write succeeds, the handlers a client registers, the agent runner, the identifiers that are drawn at
  random, and the order in which Go ranges over a map, which is any permutation. Loops are total
  functions, except the search for a weekday, so no fuel is needed; the heap's are measured by the distance to the end, the taking of
  ready tasks by the length of the queue.

  \<^bold>\<open>Left out\<close>. Locks and logging; the text of errors beyond what callers inspect; the reflector and the
  user interface of the coordinator. Not modelled are the agent itself (\<^verbatim>\<open>agent.go\<close>), the model clients
  (\<^verbatim>\<open>client\<close>), the tools and their executor (\<^verbatim>\<open>tools\<close>), the tree planner and, apart from the
  delegation and the scheduled tasks, the desktop application (\<^verbatim>\<open>internal/studio\<close>), which are mostly calls of services,
  processes and the file system.
\<close>

end
